(* ===== verification/PyFloat.thy ===== *)
theory PyFloat
  imports Complex_Main "HOL-Library.Log_Nat"
begin

text \<open>
  Python floats.  A \<^verbatim>\<open>float\<close> of the program is an IEEE-754 binary64 number; a
  finite one is a rational with a 53 bit significand.  The model keeps floats as
  rationals and makes the rounding of every operation explicit: \<open>fl x\<close> is the binary64
  number nearest to the exact result \<open>x\<close>, ties to even, with gradual underflow at
  \<open>2 powi (-1074)\<close>.  Infinities and NaN do not occur in the quantities modelled here
  (bytes, tokens, milliseconds and ratios of them), so overflow is not modelled.
\<close>

type_synonym float64 = rat

section \<open>Rounding to an integer, ties to even\<close>

definition rhe :: "rat \<Rightarrow> int" where
  "rhe x = (let f = \<lfloor>x\<rfloor>; d = x - of_int f in
     if d < 1/2 then f
     else if d > 1/2 then f + 1
     else if even f then f else f + 1)"

lemma rhe_of_int [simp]: "rhe (of_int n) = n"
  by (simp add: rhe_def)

lemma rhe_bounds: "\<lfloor>x\<rfloor> \<le> rhe x" "rhe x \<le> \<lfloor>x\<rfloor> + 1"
  by (auto simp: rhe_def Let_def)

lemma rhe_error: "\<bar>of_int (rhe x) - x\<bar> \<le> 1/2"
proof -
  have b: "of_int \<lfloor>x\<rfloor> \<le> x" "x < of_int \<lfloor>x\<rfloor> + 1" by linarith+
  consider "rhe x = \<lfloor>x\<rfloor>" "x - of_int \<lfloor>x\<rfloor> \<le> 1/2" | "rhe x = \<lfloor>x\<rfloor> + 1" "1/2 \<le> x - of_int \<lfloor>x\<rfloor>"
    by (cases "x - of_int \<lfloor>x\<rfloor> < 1/2"; cases "x - of_int \<lfloor>x\<rfloor> > 1/2"; cases "even \<lfloor>x\<rfloor>")
      (auto simp: rhe_def Let_def)
  then show ?thesis using b by cases auto
qed

lemma rhe_mono: "x \<le> y \<Longrightarrow> rhe x \<le> rhe y"
proof -
  assume xy: "x \<le> y"
  have fxy: "\<lfloor>x\<rfloor> \<le> \<lfloor>y\<rfloor>" using xy by (rule floor_mono)
  show ?thesis
  proof (cases "\<lfloor>x\<rfloor> = \<lfloor>y\<rfloor>")
    case True
    then show ?thesis using xy by (auto simp: rhe_def Let_def)
  next
    case False
    with fxy have "\<lfloor>x\<rfloor> + 1 \<le> \<lfloor>y\<rfloor>" by linarith
    with rhe_bounds(2)[of x] rhe_bounds(1)[of y] show ?thesis by linarith
  qed
qed

lemma rhe_minus: "rhe (- x) = - rhe x"
proof (cases "x \<in> \<int>")
  case True
  then obtain n where "x = of_int n" by (auto elim: Ints_cases)
  then show ?thesis using rhe_of_int[of "- n"] by simp
next
  case False
  have "\<lfloor>- x\<rfloor> = - \<lfloor>x\<rfloor> - 1"
    using False by (metis ceiling_altdef floor_minus minus_add_distrib uminus_add_conv_diff
        add.commute floor_of_int Ints_of_int)
  then show ?thesis by (auto simp: rhe_def Let_def)
qed

section \<open>The binary exponent\<close>

definition flog2 :: "rat \<Rightarrow> int" where
  "flog2 x = (case quotient_of x of (p, q) \<Rightarrow>
     let k = bitlen p - bitlen q in if 2 powi k \<le> x then k else k - 1)"

lemma bitlen_powi:
  assumes "0 < n" shows "2 powi (bitlen n - 1) \<le> (of_int n :: rat)" "(of_int n :: rat) < 2 powi bitlen n"
proof -
  from bitlen_bounds[OF assms]
  have b: "2 ^ nat (bitlen n - 1) \<le> n" "n < 2 ^ nat (bitlen n)" by auto
  have pos: "0 < bitlen n" using assms bitlen_nonneg[of n] bitlen_eq_zero_iff[of n] by linarith
  have "(of_int (2 ^ nat (bitlen n - 1)) :: rat) \<le> of_int n" using b(1) by (simp only: of_int_le_iff)
  then show "2 powi (bitlen n - 1) \<le> (of_int n :: rat)" using pos by (simp add: power_int_def)
  have "(of_int n :: rat) < of_int (2 ^ nat (bitlen n))" using b(2) by (simp only: of_int_less_iff)
  then show "(of_int n :: rat) < 2 powi bitlen n" using pos by (simp add: power_int_def)
qed

lemma flog2_bounds:
  assumes "0 < x" shows "2 powi flog2 x \<le> x" "x < 2 powi (flog2 x + 1)"
proof -
  obtain p q where pq: "quotient_of x = (p, q)" by (cases "quotient_of x")
  have q0: "0 < q" using quotient_of_denom_pos[OF pq] .
  have x: "x = of_int p / of_int q" using quotient_of_div[OF pq] .
  have p0: "0 < p" using assms q0 x by (simp add: zero_less_divide_iff)
  note bp = bitlen_powi[OF p0] and bq = bitlen_powi[OF q0]
  let ?k = "bitlen p - bitlen q"
  have qpos: "0 < (of_int q :: rat)" using q0 by simp
  have up: "x < 2 powi (?k + 1)"
  proof -
    have "(of_int p :: rat) < 2 powi (?k + 1) * 2 powi (bitlen q - 1)"
      using bp(2) by (simp flip: power_int_add)
    also have "\<dots> \<le> 2 powi (?k + 1) * of_int q" using bq(1) by (intro mult_left_mono) auto
    finally show ?thesis using qpos by (simp add: x divide_less_eq)
  qed
  have lo: "2 powi (?k - 1) \<le> x"
  proof -
    have "2 powi (?k - 1) * of_int q \<le> (2 powi (?k - 1) * 2 powi bitlen q :: rat)"
      using bq(2) by (intro mult_left_mono) auto
    also have "\<dots> = 2 powi (bitlen p - 1)" by (simp flip: power_int_add)
    also have "\<dots> \<le> of_int p" by (rule bp(1))
    finally show ?thesis using qpos by (simp add: x le_divide_eq)
  qed
  show "2 powi flog2 x \<le> x" using lo by (simp add: flog2_def pq Let_def)
  show "x < 2 powi (flog2 x + 1)" using up by (simp add: flog2_def pq Let_def)
qed

lemma powi_2_le: "m \<le> n \<Longrightarrow> (2::rat) powi m \<le> 2 powi n"
  using power_int_increasing[of m n "2::rat"] by simp

lemma powi_2_less_iff: "(2::rat) powi m < 2 powi n \<longleftrightarrow> m < n"
  using power_int_strict_increasing[of m n "2::rat"] powi_2_le[of n m] by (cases "m < n") auto

lemma flog2_mono: "0 < x \<Longrightarrow> x \<le> y \<Longrightarrow> flog2 x \<le> flog2 y"
proof -
  assume x: "0 < x" and xy: "x \<le> y"
  have "2 powi flog2 x < (2 powi (flog2 y + 1) :: rat)"
    using flog2_bounds[OF x] flog2_bounds(2)[of y] x xy by linarith
  then show ?thesis by (simp add: powi_2_less_iff)
qed

section \<open>Rounding to binary64\<close>

text \<open>The exponent of the smallest subnormal and of the smallest normal number.\<close>

definition e_sub :: int where "e_sub = - 1074"
definition e_norm :: int where "e_norm = - 1022"

lemma e_norm_sub: "e_norm = e_sub + 52" by (simp add: e_norm_def e_sub_def)

lemma e_sub_neg: "e_sub < 0" by (simp add: e_sub_def)

definition fl_exp :: "rat \<Rightarrow> int" where
  "fl_exp x = max (flog2 \<bar>x\<bar> - 52) e_sub"

definition fl :: "rat \<Rightarrow> float64" where
  "fl x = (if x = 0 then 0 else of_int (rhe (x / 2 powi fl_exp x)) * 2 powi fl_exp x)"

lemma fl_0 [simp]: "fl 0 = 0" by (simp add: fl_def)

lemma fl_minus: "fl (- x) = - fl x"
  by (simp add: fl_def fl_exp_def rhe_minus flip: minus_divide_left)

lemma powi_2_pos [simp]: "0 < (2::rat) powi e" by simp

text \<open>
  Numbers on a grid at least as coarse as the one of \<open>x\<close> bound the rounded value, so
  rounding is monotone and leaves such numbers alone.
\<close>

lemma fl_exp_scale:
  assumes "fl_exp x \<le> e"
  shows "(of_int m * 2 powi e :: rat) = of_int (m * 2 ^ nat (e - fl_exp x)) * 2 powi fl_exp x"
proof -
  have "(2::rat) powi e = 2 powi (e - fl_exp x) * 2 powi fl_exp x"
    by (simp flip: power_int_add)
  also have "(2::rat) powi (e - fl_exp x) = 2 ^ nat (e - fl_exp x)"
    using assms by (simp add: power_int_def)
  finally show ?thesis by simp
qed

lemma fl_le_grid:
  assumes "x \<le> of_int m * 2 powi e" "fl_exp x \<le> e"
  shows "fl x \<le> of_int m * 2 powi e"
proof (cases "x = 0")
  case False
  have "x / 2 powi fl_exp x \<le> of_int (m * 2 ^ nat (e - fl_exp x))"
    using assms by (simp add: fl_exp_scale divide_le_eq)
  then have "rhe (x / 2 powi fl_exp x) \<le> m * 2 ^ nat (e - fl_exp x)"
    using rhe_mono rhe_of_int by metis
  then have "of_int (rhe (x / 2 powi fl_exp x)) \<le> (of_int (m * 2 ^ nat (e - fl_exp x)) :: rat)"
    by (simp only: of_int_le_iff)
  then show ?thesis using False assms(2)
    by (simp add: fl_def fl_exp_scale del: of_int_mult)
qed (use assms in simp)

lemma fl_ge_grid:
  assumes "of_int m * 2 powi e \<le> x" "fl_exp x \<le> e"
  shows "of_int m * 2 powi e \<le> fl x"
proof -
  have "fl (- x) \<le> of_int (- m) * 2 powi e"
    using assms by (intro fl_le_grid) (auto simp: fl_exp_def)
  then show ?thesis by (simp add: fl_minus)
qed

lemma fl_on_grid: "fl_exp (of_int m * 2 powi e) \<le> e \<Longrightarrow> fl (of_int m * 2 powi e) = of_int m * 2 powi e"
  by (intro antisym fl_le_grid fl_ge_grid) auto

lemma fl_nonneg: "0 \<le> x \<Longrightarrow> 0 \<le> fl x"
  using fl_ge_grid[of 0 "fl_exp x" x] by simp

lemma fl_nonpos: "x \<le> 0 \<Longrightarrow> fl x \<le> 0"
  using fl_le_grid[of x 0 "fl_exp x"] by simp

lemma fl_mono_pos:
  assumes "0 < x" "x \<le> y" shows "fl x \<le> fl y"
proof (cases "fl_exp x = fl_exp y")
  case True
  have "x / 2 powi fl_exp x \<le> y / 2 powi fl_exp x" using assms by (simp add: divide_right_mono)
  then have "rhe (x / 2 powi fl_exp x) \<le> rhe (y / 2 powi fl_exp x)" by (rule rhe_mono)
  then show ?thesis using assms True by (simp add: fl_def)
next
  case False
  have le: "flog2 x \<le> flog2 y" using assms by (rule flog2_mono)
  then have lt: "fl_exp x < fl_exp y" and y: "fl_exp y = flog2 y - 52" and xy: "flog2 x < flog2 y"
    using False assms by (auto simp: fl_exp_def)
  have g: "(2::rat) powi flog2 y = of_int (2 ^ 52) * 2 powi fl_exp y"
    unfolding y by (simp add: power_int_diff)
  have "x < 2 powi (flog2 x + 1)" using flog2_bounds assms by simp
  also have "\<dots> \<le> 2 powi flog2 y" using xy by (intro powi_2_le) simp
  finally have "fl x \<le> 2 powi flog2 y" unfolding g using lt by (intro fl_le_grid) auto
  moreover have "2 powi flog2 y \<le> fl y"
    using fl_ge_grid[of "2 ^ 52" "fl_exp y" y] flog2_bounds(1)[of y] assms
    unfolding g[symmetric] by simp
  ultimately show ?thesis by simp
qed

lemma fl_mono: "x \<le> y \<Longrightarrow> fl x \<le> fl y"
proof -
  assume xy: "x \<le> y"
  consider "0 < x" | "x \<le> 0" "0 \<le> y" | "y < 0" by linarith
  then show ?thesis
  proof cases
    case 1 then show ?thesis using xy by (rule fl_mono_pos)
  next
    case 2 then show ?thesis using fl_nonneg fl_nonpos order_trans by blast
  next
    case 3
    then have "fl (- y) \<le> fl (- x)" using xy by (intro fl_mono_pos) auto
    then show ?thesis by (simp add: fl_minus)
  qed
qed

lemma fl_exp_of_int:
  assumes "\<bar>n\<bar> < 2 ^ 53" shows "fl_exp (of_int n) \<le> 0"
proof (cases "n = 0")
  case True
  have "bitlen 0 = 0" "bitlen 1 = 1" by (simp_all add: bitlen_def floorlog_def)
  then show ?thesis using True e_sub_neg
    by (simp add: fl_exp_def flog2_def)
next
  case False
  have "2 powi flog2 \<bar>of_int n\<bar> \<le> (of_int \<bar>n\<bar> :: rat)"
    using flog2_bounds(1)[of "\<bar>of_int n\<bar>"] False by simp
  also have "\<dots> < of_int (2 ^ 53)" using assms by (simp only: of_int_less_iff)
  also have "\<dots> = 2 powi 53" by simp
  finally have "flog2 \<bar>of_int n\<bar> < 53" by (simp only: powi_2_less_iff)
  then show ?thesis using e_sub_neg by (simp add: fl_exp_def)
qed

lemma fl_of_int: "\<bar>n\<bar> < 2 ^ 53 \<Longrightarrow> fl (of_int n) = of_int n"
  using fl_on_grid[of n 0] fl_exp_of_int[of n] by simp

lemma fl_1 [simp]: "fl 1 = 1" using fl_of_int[of 1] by simp

lemma fl_le_of_int: "x \<le> of_int n \<Longrightarrow> \<bar>n\<bar> < 2 ^ 53 \<Longrightarrow> fl x \<le> of_int n"
  using fl_mono[of x "of_int n"] fl_of_int[of n] by simp

lemma fl_ge_of_int: "of_int n \<le> x \<Longrightarrow> \<bar>n\<bar> < 2 ^ 53 \<Longrightarrow> of_int n \<le> fl x"
  using fl_mono[of "of_int n" x] fl_of_int[of n] by simp

lemma fl_le_1: "x \<le> 1 \<Longrightarrow> fl x \<le> 1" using fl_mono[of x 1] by simp

text \<open>In the normal range the relative error is at most half a unit in the last place.\<close>

lemma fl_rel_error:
  assumes "2 powi e_norm \<le> \<bar>x\<bar>"
  shows "\<bar>fl x - x\<bar> \<le> \<bar>x\<bar> * 2 powi (- 53)"
proof -
  have x0: "0 < \<bar>x\<bar>" using assms less_le_trans[OF powi_2_pos] by blast
  have "2 powi e_norm < (2::rat) powi (flog2 \<bar>x\<bar> + 1)"
    using flog2_bounds(2)[OF x0] assms by linarith
  then have "e_norm < flog2 \<bar>x\<bar> + 1" by (simp only: powi_2_less_iff)
  then have e: "fl_exp x = flog2 \<bar>x\<bar> - 52" by (simp add: fl_exp_def e_norm_sub)
  let ?u = "2 powi fl_exp x :: rat"
  have "fl x - x = (of_int (rhe (x / ?u)) - x / ?u) * ?u"
    using x0 by (simp add: fl_def left_diff_distrib)
  then have "\<bar>fl x - x\<bar> = \<bar>of_int (rhe (x / ?u)) - x / ?u\<bar> * ?u" by (simp add: abs_mult)
  also have "\<dots> \<le> 1/2 * ?u" by (intro mult_right_mono rhe_error) auto
  also have "\<dots> = 2 powi flog2 \<bar>x\<bar> * 2 powi (- 53)"
    unfolding e by (simp add: power_int_diff power_int_minus)
  also have "\<dots> \<le> \<bar>x\<bar> * 2 powi (- 53)"
    using flog2_bounds(1)[OF x0] by (intro mult_right_mono) auto
  finally show ?thesis .
qed

lemma flog2_le: "0 < x \<Longrightarrow> x < 2 powi k \<Longrightarrow> flog2 x < k"
proof -
  assume x: "0 < x" and "x < 2 powi k"
  then have "2 powi flog2 x < (2::rat) powi k" using flog2_bounds(1)[OF x] by linarith
  then show ?thesis by (simp only: powi_2_less_iff)
qed

text \<open>Every \<open>n * 2 powi e\<close> with a 53 bit \<open>n\<close> is a float.\<close>

lemma fl_exact:
  assumes "\<bar>n\<bar> < 2 ^ 53" "e_sub \<le> e" shows "fl (of_int n * 2 powi e) = of_int n * 2 powi e"
proof (cases "n = 0")
  case False
  have "(of_int \<bar>n\<bar> :: rat) < of_int (2 ^ 53)" using assms(1) by (simp only: of_int_less_iff)
  then have "\<bar>of_int n * 2 powi e\<bar> < (2 ^ 53 * 2 powi e :: rat)" by (simp add: abs_mult)
  also have "\<dots> = 2 powi (53 + e)" by (simp add: power_int_add)
  finally have "flog2 \<bar>of_int n * 2 powi e\<bar> < 53 + e" using False by (intro flog2_le) auto
  then have "fl_exp (of_int n * 2 powi e) \<le> e" using assms(2) by (simp add: fl_exp_def)
  then show ?thesis by (rule fl_on_grid)
qed simp

lemma fl_half: "\<bar>n\<bar> < 2 ^ 53 \<Longrightarrow> fl (of_int n / 2) = of_int n / 2"
  using fl_exact[of n "- 1"] by (simp add: e_sub_def)

text \<open>A float is a fixed point of rounding; every rounded value is a float.\<close>

lemma fl_idem [simp]: "fl (fl x) = fl x"
proof (cases "x = 0")
  case False
  define e m where "e = fl_exp x" and "m = rhe (x / 2 powi e)"
  have fx: "fl x = of_int m * 2 powi e" using False by (simp add: fl_def e_def m_def)
  have p: "(2::rat) powi (e + 53) = of_int (2 ^ 53) * 2 powi e" by (simp add: power_int_add)
  have "flog2 \<bar>x\<bar> + 1 \<le> e + 53" by (simp add: e_def fl_exp_def)
  then have "2 powi (flog2 \<bar>x\<bar> + 1) \<le> (2::rat) powi (e + 53)" by (rule powi_2_le)
  then have "\<bar>x\<bar> \<le> of_int (2 ^ 53) * 2 powi e"
    using flog2_bounds(2)[of "\<bar>x\<bar>"] False unfolding p by simp
  then have "fl x \<le> of_int (2 ^ 53) * 2 powi e" "fl (- x) \<le> of_int (2 ^ 53) * 2 powi e"
    unfolding e_def by (intro fl_le_grid; simp add: fl_exp_def abs_if split: if_splits)+
  then have le: "\<bar>fl x\<bar> \<le> 2 powi (e + 53)" unfolding p by (simp add: fl_minus abs_if)
  show ?thesis
  proof (cases "\<bar>fl x\<bar> < 2 powi (e + 53) \<and> fl x \<noteq> 0")
    case True
    then have "flog2 \<bar>fl x\<bar> < e + 53" by (intro flog2_le) auto
    moreover have "e_sub \<le> e" by (simp add: e_def fl_exp_def)
    ultimately have "fl_exp (fl x) \<le> e" by (simp add: fl_exp_def)
    then show ?thesis using fl_on_grid[of m e] by (simp add: fx)
  next
    case not_lt: False
    have g: "of_int s * 2 powi (e + 53) = (of_int (s * 2 ^ 52) * 2 powi (e + 1) :: rat)" for s
      by (simp add: power_int_add)
    show ?thesis
    proof (cases "fl x = 0")
      case False
      then have "fl x = of_int (sgn m) * 2 powi (e + 53)"
        using not_lt le fx powi_2_pos[of e]
        by (auto simp: abs_if sgn_if mult_less_0_iff not_less[symmetric] split: if_splits)
      then have fg: "fl x = of_int (sgn m * 2 ^ 52) * 2 powi (e + 1)" unfolding g .
      have "\<bar>fl x\<bar> < 2 powi (e + 54)" using le by (rule le_less_trans) (simp add: powi_2_less_iff)
      then have "flog2 \<bar>fl x\<bar> < e + 54" using False by (intro flog2_le) auto
      moreover have "e_sub \<le> e" by (simp add: e_def fl_exp_def)
      ultimately have "fl_exp (of_int (sgn m * 2 ^ 52) * 2 powi (e + 1)) \<le> e + 1"
        unfolding fg by (simp add: fl_exp_def)
      then show ?thesis unfolding fg by (rule fl_on_grid)
    qed simp
  qed
qed simp

section \<open>The operations of Python on floats\<close>

definition fl_add :: "float64 \<Rightarrow> float64 \<Rightarrow> float64" where "fl_add a b = fl (a + b)"
definition fl_sub :: "float64 \<Rightarrow> float64 \<Rightarrow> float64" where "fl_sub a b = fl (a - b)"
definition fl_mul :: "float64 \<Rightarrow> float64 \<Rightarrow> float64" where "fl_mul a b = fl (a * b)"
definition fl_div :: "float64 \<Rightarrow> float64 \<Rightarrow> float64" where "fl_div a b = fl (a / b)"

text \<open>\<^verbatim>\<open>float(n)\<close>, the conversion in mixed arithmetic; \<^verbatim>\<open>a / b\<close> on two ints is correctly
  rounded; \<^verbatim>\<open>int(x)\<close> truncates towards zero.\<close>

definition fl_int :: "int \<Rightarrow> float64" where "fl_int n = fl (of_int n)"
definition int_div :: "int \<Rightarrow> int \<Rightarrow> float64" where "int_div a b = fl (of_int a / of_int b)"
definition py_int :: "float64 \<Rightarrow> int" where "py_int x = (if 0 \<le> x then \<lfloor>x\<rfloor> else \<lceil>x\<rceil>)"

text \<open>\<^verbatim>\<open>round(x)\<close> and \<^verbatim>\<open>round(x, 2)\<close>: the exact decimal rounding of the binary value,
  ties to even, converted back to the nearest float.\<close>

definition py_round :: "float64 \<Rightarrow> int" where "py_round x = rhe x"
definition py_round2 :: "float64 \<Rightarrow> float64" where "py_round2 x = fl (of_int (rhe (x * 100)) / 100)"

lemma fl_int_exact: "\<bar>n\<bar> < 2 ^ 53 \<Longrightarrow> fl_int n = of_int n"
  by (simp add: fl_int_def fl_of_int)

lemma py_int_of_int [simp]: "py_int (of_int n) = n"
  by (simp add: py_int_def)

lemma py_int_mono:
  assumes xy: "x \<le> y"
  shows "py_int x \<le> py_int y"
proof (cases "0 \<le> x")
  case True
  then have "0 \<le> y" using xy by linarith
  with True show ?thesis using floor_mono[OF xy] by (simp add: py_int_def)
next
  case neg: False
  show ?thesis
  proof (cases "0 \<le> y")
    case True
    have "\<lceil>x\<rceil> \<le> 0" using neg by (simp add: ceiling_le_iff)
    also have "0 \<le> \<lfloor>y\<rfloor>" using True by simp
    finally show ?thesis using neg True by (simp add: py_int_def)
  next
    case False
    then show ?thesis using neg ceiling_mono[OF xy] by (simp add: py_int_def)
  qed
qed

lemma py_int_nonneg: "0 \<le> x \<Longrightarrow> 0 \<le> py_int x"
  by (simp add: py_int_def)

lemma py_int_le: "0 \<le> x \<Longrightarrow> of_int (py_int x) \<le> x"
  by (simp add: py_int_def)

end
