(* ===== verification/Prelude.thy ===== *)
theory Prelude
  imports PyFloat "HOL-Library.AList" "HOL-Library.Product_Lexorder" "HOL-Library.List_Lexorder"
    "HOL-Library.Char_ord" "HOL-Library.Option_ord" "HOL-Library.Sublist" "HOL-Library.Multiset"
begin

text \<open>
  What the components share: results that may raise, the Python list and dict operations the
  program uses, with their lemmas, and the fact collections the component proofs draw on.
\<close>

named_theorems picks \<open>membership and optimality of what a selection over a list returns\<close>
named_theorems frames \<open>fields an operation leaves alone\<close>
named_theorems preserves \<open>invariants an operation keeps\<close>

section \<open>Results\<close>

text \<open>A call that raises is \<open>Inl\<close> of the exception; \<open>try_bind\<close> stops at the first one.\<close>

definition try_bind :: "'e + 'a \<Rightarrow> ('a \<Rightarrow> 'e + 'b) \<Rightarrow> 'e + 'b" where
  "try_bind r f = (case r of Inl e \<Rightarrow> Inl e | Inr x \<Rightarrow> f x)"

lemma try_bind_simps [simp]: "try_bind (Inl e) f = Inl e" "try_bind (Inr x) f = f x"
  by (simp_all add: try_bind_def)

lemma try_bind_Inr: "try_bind r f = Inr y \<longleftrightarrow> (\<exists>x. r = Inr x \<and> f x = Inr y)"
  by (cases r) auto

lemma try_bind_Inl: "try_bind r f = Inl e \<longleftrightarrow> r = Inl e \<or> (\<exists>x. r = Inr x \<and> f x = Inl e)"
  by (cases r) auto

definition the_or :: "'a option \<Rightarrow> 'a \<Rightarrow> 'a" where
  "the_or x d = (case x of None \<Rightarrow> d | Some y \<Rightarrow> y)"

lemma the_or_simps [simp]: "the_or None d = d" "the_or (Some y) d = y"
  by (simp_all add: the_or_def)

definition opt_all :: "('a \<Rightarrow> bool) \<Rightarrow> 'a option \<Rightarrow> bool" where
  "opt_all P x = (case x of None \<Rightarrow> True | Some y \<Rightarrow> P y)"

lemma opt_all_simps [simp]: "opt_all P None" "opt_all P (Some x) = P x" by (simp_all add: opt_all_def)

section \<open>Python's max and min with a key: the first best element\<close>

fun pick_best :: "('a \<Rightarrow> 'b::linorder) \<Rightarrow> 'a \<Rightarrow> 'a list \<Rightarrow> 'a" where
  "pick_best f b [] = b"
| "pick_best f b (x # xs) = pick_best f (if f b < f x then x else b) xs"

definition max_by :: "('a \<Rightarrow> 'b::linorder) \<Rightarrow> 'a list \<Rightarrow> 'a option" where
  "max_by f xs = (case xs of [] \<Rightarrow> None | x # ys \<Rightarrow> Some (pick_best f x ys))"

fun pick_least :: "('a \<Rightarrow> 'b::linorder) \<Rightarrow> 'a \<Rightarrow> 'a list \<Rightarrow> 'a" where
  "pick_least f b [] = b"
| "pick_least f b (x # xs) = pick_least f (if f x < f b then x else b) xs"

definition min_by :: "('a \<Rightarrow> 'b::linorder) \<Rightarrow> 'a list \<Rightarrow> 'a option" where
  "min_by f xs = (case xs of [] \<Rightarrow> None | x # ys \<Rightarrow> Some (pick_least f x ys))"

lemma pick_best_in: "pick_best f b xs \<in> insert b (set xs)"
proof (induction xs arbitrary: b)
  case (Cons x xs)
  show ?case using Cons.IH[of "if f b < f x then x else b"] by (auto split: if_splits)
qed simp

lemma pick_best_ge: "y \<in> insert b (set xs) \<Longrightarrow> f y \<le> f (pick_best f b xs)"
proof (induction xs arbitrary: b y)
  case (Cons x xs)
  let ?b = "if f b < f x then x else b"
  have "f ?b \<le> f (pick_best f ?b xs)" using Cons.IH[of ?b ?b] by simp
  moreover have "f b \<le> f ?b" "f x \<le> f ?b" by auto
  ultimately have "f b \<le> f (pick_best f ?b xs)" "f x \<le> f (pick_best f ?b xs)" by auto
  then show ?case using Cons.prems Cons.IH[of y ?b] by auto
qed simp

lemma pick_least_in: "pick_least f b xs \<in> insert b (set xs)"
proof (induction xs arbitrary: b)
  case (Cons x xs)
  show ?case using Cons.IH[of "if f x < f b then x else b"] by (auto split: if_splits)
qed simp

lemma pick_least_le: "y \<in> insert b (set xs) \<Longrightarrow> f (pick_least f b xs) \<le> f y"
proof (induction xs arbitrary: b y)
  case (Cons x xs)
  let ?b = "if f x < f b then x else b"
  have "f (pick_least f ?b xs) \<le> f ?b" using Cons.IH[of ?b ?b] by simp
  moreover have "f ?b \<le> f b" "f ?b \<le> f x" by auto
  ultimately have "f (pick_least f ?b xs) \<le> f b" "f (pick_least f ?b xs) \<le> f x" by auto
  then show ?case using Cons.prems Cons.IH[of y ?b] by auto
qed simp

lemma max_by_None [simp]: "max_by f xs = None \<longleftrightarrow> xs = []"
  by (auto simp: max_by_def split: list.splits)

lemma min_by_None [simp]: "min_by f xs = None \<longleftrightarrow> xs = []"
  by (auto simp: min_by_def split: list.splits)

lemma max_by_in [picks]: "max_by f xs = Some x \<Longrightarrow> x \<in> set xs"
  using pick_best_in[of f _ _] by (cases xs) (auto simp: max_by_def)

lemma max_by_ge [picks]: "max_by f xs = Some x \<Longrightarrow> y \<in> set xs \<Longrightarrow> f y \<le> f x"
  using pick_best_ge[of y _ _ f] by (cases xs) (auto simp: max_by_def)

lemma min_by_in [picks]: "min_by f xs = Some x \<Longrightarrow> x \<in> set xs"
  using pick_least_in[of f _ _] by (cases xs) (auto simp: min_by_def)

lemma min_by_le [picks]: "min_by f xs = Some x \<Longrightarrow> y \<in> set xs \<Longrightarrow> f x \<le> f y"
  using pick_least_le[of y _ _ f] by (cases xs) (auto simp: min_by_def)

text \<open>\<^verbatim>\<open>min(values, default=...)\<close> and \<^verbatim>\<open>max(values, default=...)\<close> without a key.\<close>

definition py_min :: "'a::linorder list \<Rightarrow> 'a option" where "py_min xs = min_by (\<lambda>x. x) xs"
definition py_max :: "'a::linorder list \<Rightarrow> 'a option" where "py_max xs = max_by (\<lambda>x. x) xs"

lemma py_min_iff: "py_min xs = Some m \<longleftrightarrow> m \<in> set xs \<and> (\<forall>y \<in> set xs. m \<le> y)"
proof
  assume "py_min xs = Some m" then show "m \<in> set xs \<and> (\<forall>y \<in> set xs. m \<le> y)"
    unfolding py_min_def by (auto dest: min_by_in min_by_le[where f = "\<lambda>x. x"])
next
  assume m: "m \<in> set xs \<and> (\<forall>y \<in> set xs. m \<le> y)"
  then obtain m' where m': "min_by (\<lambda>x. x) xs = Some m'" by (cases "min_by (\<lambda>x. x) xs") auto
  then have "m' \<le> m" "m \<le> m'" using m min_by_in[OF m'] min_by_le[OF m'] by auto
  then show "py_min xs = Some m" using m' by (simp add: py_min_def)
qed

lemma py_max_iff: "py_max xs = Some m \<longleftrightarrow> m \<in> set xs \<and> (\<forall>y \<in> set xs. y \<le> m)"
proof
  assume "py_max xs = Some m" then show "m \<in> set xs \<and> (\<forall>y \<in> set xs. y \<le> m)"
    unfolding py_max_def by (auto dest: max_by_in max_by_ge[where f = "\<lambda>x. x"])
next
  assume m: "m \<in> set xs \<and> (\<forall>y \<in> set xs. y \<le> m)"
  then obtain m' where m': "max_by (\<lambda>x. x) xs = Some m'" by (cases "max_by (\<lambda>x. x) xs") auto
  then have "m \<le> m'" "m' \<le> m" using m max_by_in[OF m'] max_by_ge[OF m'] by auto
  then show "py_max xs = Some m" using m' by (simp add: py_max_def)
qed

lemma py_min_None [simp]: "py_min xs = None \<longleftrightarrow> xs = []" by (simp add: py_min_def)
lemma py_max_None [simp]: "py_max xs = None \<longleftrightarrow> xs = []" by (simp add: py_max_def)

section \<open>Combinations, in the order of itertools\<close>

fun combinations :: "'a list \<Rightarrow> nat \<Rightarrow> 'a list list" where
  "combinations xs 0 = [[]]"
| "combinations [] (Suc k) = []"
| "combinations (x # xs) (Suc k) = map ((#) x) (combinations xs k) @ combinations xs (Suc k)"

lemma set_combinations: "set (combinations xs k) = {ys. subseq ys xs \<and> length ys = k}"
proof (induction xs k rule: combinations.induct)
  case (1 xs) then show ?case by auto
next
  case (2 k) then show ?case by auto
next
  case (3 x xs k)
  show ?case
  proof (rule set_eqI)
    fix ys
    show "ys \<in> set (combinations (x # xs) (Suc k)) \<longleftrightarrow> ys \<in> {ys. subseq ys (x # xs) \<and> length ys = Suc k}"
    proof (cases ys)
      case Nil then show ?thesis using 3 by auto
    next
      case (Cons y zs)
      then show ?thesis using 3 by (cases "y = x") (auto dest: subseq_Cons')
    qed
  qed
qed

lemma combinations_length: "c \<in> set (combinations xs k) \<Longrightarrow> length c = k"
  by (simp add: set_combinations)

lemma combinations_subset: "c \<in> set (combinations xs k) \<Longrightarrow> set c \<subseteq> set xs"
  using set_nths_subset by (fastforce simp: set_combinations subseq_conv_nths)

section \<open>Removing elements\<close>

text \<open>\<^verbatim>\<open>list.remove(x)\<close> deletes the first occurrence: \<open>remove1\<close>.  Filtering by membership
  in a second list is \<open>minus_list\<close>.\<close>

definition minus_list :: "'a list \<Rightarrow> 'a list \<Rightarrow> 'a list" where
  "minus_list xs ys = filter (\<lambda>x. x \<notin> set ys) xs"

lemma set_minus_list [simp]: "set (minus_list xs ys) = set xs - set ys"
  by (auto simp: minus_list_def)

lemma distinct_minus_list [simp]: "distinct xs \<Longrightarrow> distinct (minus_list xs ys)"
  by (simp add: minus_list_def)

section \<open>Insertion-ordered dictionaries\<close>

text \<open>
  A \<^verbatim>\<open>dict\<close> whose order matters is an association list: \<open>AList.update\<close> keeps the position of a
  key already there and appends a new one, \<open>AList.delete\<close> is \<^verbatim>\<open>pop(key, None)\<close>, \<open>map_of\<close> is
  \<^verbatim>\<open>get\<close>.  \<open>append_at\<close> is \<^verbatim>\<open>d.setdefault(k, []).append(v)\<close>.
\<close>

definition append_at :: "'k \<Rightarrow> 'v \<Rightarrow> ('k \<times> 'v list) list \<Rightarrow> ('k \<times> 'v list) list" where
  "append_at k v d = AList.update k (the_or (map_of d k) [] @ [v]) d"

definition group_by :: "('a \<Rightarrow> 'k) \<Rightarrow> ('a \<Rightarrow> 'v) \<Rightarrow> 'a list \<Rightarrow> ('k \<times> 'v list) list" where
  "group_by key val xs = foldl (\<lambda>d x. append_at (key x) (val x) d) [] xs"

lemma in_set_update: "(k', v') \<in> set (AList.update k v d) \<Longrightarrow> (k', v') = (k, v) \<or> (k', v') \<in> set d"
  by (induction d) (auto split: if_splits)

lemma map_of_append_at:
  "map_of (append_at k v d) = (map_of d)(k \<mapsto> the_or (map_of d k) [] @ [v])"
  by (simp add: append_at_def update_conv')

lemma distinct_append_at: "distinct (map fst d) \<Longrightarrow> distinct (map fst (append_at k v d))"
  by (simp add: append_at_def distinct_update)

lemma group_by_snoc: "group_by key val (xs @ [x]) = append_at (key x) (val x) (group_by key val xs)"
  by (simp add: group_by_def)

lemma distinct_group_by: "distinct (map fst (group_by key val xs))"
  by (induction xs rule: rev_induct) (simp_all add: group_by_snoc distinct_append_at, simp add: group_by_def)

lemma map_of_group_by:
  "map_of (group_by key val xs) k =
     (if k \<in> key ` set xs then Some (map val (filter (\<lambda>x. key x = k) xs)) else None)"
proof (induction xs rule: rev_induct)
  case Nil then show ?case by (simp add: group_by_def)
next
  case (snoc x xs)
  have "filter (\<lambda>y. key y = key x) xs = []" if "key x \<notin> key ` set xs"
    using that by (auto simp: filter_empty_conv) (metis imageI)
  with snoc show ?case by (auto simp: group_by_snoc map_of_append_at)
qed

lemma group_by_in:
  "(k, vs) \<in> set (group_by key val xs) \<longleftrightarrow>
     k \<in> key ` set xs \<and> vs = map val (filter (\<lambda>x. key x = k) xs)"
proof -
  have "(k, vs) \<in> set (group_by key val xs) \<longleftrightarrow> map_of (group_by key val xs) k = Some vs"
    by (simp add: distinct_group_by)
  then show ?thesis by (auto simp: map_of_group_by)
qed

end
