(* ===== verification/PyText.thy ===== *)
theory PyText
  imports Prelude
begin

text \<open>
  Text: decimal rendering of ints, fixed-point rendering of floats, \<^verbatim>\<open>join\<close>, list \<^verbatim>\<open>repr\<close>,
  case folding and prefix tests, as the f-strings and parsers of the program use them.  A
  string is its list of characters; the few non-ASCII characters of messages are written as
  their UTF-8 bytes.
\<close>

section \<open>Integers in decimal\<close>

definition digit_char :: "nat \<Rightarrow> char" where
  "digit_char d = char_of (48 + d)"

function str_pos :: "int \<Rightarrow> string" where
  "str_pos i = (if i < 10 then [digit_char (nat i)] else str_pos (i div 10) @ [digit_char (nat (i mod 10))])"
  by pat_completeness auto
termination by (relation "measure nat") auto

declare str_pos.simps [simp del]

definition str_int :: "int \<Rightarrow> string" where
  "str_int i = (if i < 0 then ''-'' @ str_pos (- i) else str_pos i)"

definition str_nat :: "nat \<Rightarrow> string" where
  "str_nat n = str_int (int n)"

definition is_digit :: "char \<Rightarrow> bool" where
  "is_digit c \<longleftrightarrow> 48 \<le> (of_char c :: nat) \<and> (of_char c :: nat) \<le> 57"

definition digit_val :: "char \<Rightarrow> nat" where
  "digit_val c = of_char c - 48"

text \<open>\<^verbatim>\<open>int(text)\<close> on a string of digits, most significant first.\<close>

definition val_int :: "string \<Rightarrow> int" where
  "val_int s = foldl (\<lambda>n c. 10 * n + int (digit_val c)) 0 s"

lemma of_char_digit: "d < 10 \<Longrightarrow> (of_char (digit_char d) :: nat) = 48 + d"
  by (simp add: digit_char_def of_char_of)

lemma digit_val_char [simp]: "d < 10 \<Longrightarrow> digit_val (digit_char d) = d"
  by (simp add: digit_val_def of_char_digit)

lemma is_digit_char [simp]: "d < 10 \<Longrightarrow> is_digit (digit_char d)"
  by (simp add: is_digit_def of_char_digit)

lemma str_pos_digits: "0 \<le> i \<Longrightarrow> \<forall>c \<in> set (str_pos i). is_digit c"
proof (induction i rule: str_pos.induct)
  case (1 i) then show ?case by (subst str_pos.simps) auto
qed

lemma str_pos_nonempty [simp]: "str_pos i \<noteq> []"
  by (subst str_pos.simps) simp

lemma val_str_pos: "0 \<le> i \<Longrightarrow> val_int (str_pos i) = i"
proof (induction i rule: str_pos.induct)
  case (1 i) then show ?case by (subst str_pos.simps) (auto simp: val_int_def)
qed

lemma val_int_append: "val_int (s @ t) = val_int s * 10 ^ length t + val_int t"
proof (induction t rule: rev_induct)
  case (snoc c t)
  have "val_int (u @ [c]) = 10 * val_int u + int (digit_val c)" for u by (simp add: val_int_def)
  from this[of "s @ t"] this[of t] snoc show ?case by (simp add: algebra_simps)
qed (simp add: val_int_def)

lemma val_int_zeros: "val_int (replicate n (CHR ''0'')) = 0"
proof (induction n)
  case (Suc n)
  have "val_int [CHR ''0''] = 0" by (simp add: val_int_def digit_val_def)
  then show ?case using val_int_append[of "[CHR ''0'']" "replicate n (CHR ''0'')"] Suc by simp
qed (simp add: val_int_def)

lemma str_pos_no_sign: "0 \<le> i \<Longrightarrow> str_pos i \<noteq> CHR ''-'' # s"
  using str_pos_digits[of i] by (auto simp: is_digit_def)

lemma str_pos_inject: "str_pos i = str_pos j \<Longrightarrow> 0 \<le> i \<Longrightarrow> 0 \<le> j \<Longrightarrow> i = j"
  by (metis val_str_pos)

lemma str_int_inject [simp]: "str_int i = str_int j \<longleftrightarrow> i = j"
proof
  assume eq: "str_int i = str_int j"
  show "i = j"
  proof (cases "i < 0"; cases "j < 0")
    assume "i < 0" "j < 0" then show ?thesis
      using eq str_pos_inject[of "- i" "- j"] by (simp add: str_int_def)
  next
    assume "i < 0" "\<not> j < 0" then show ?thesis
      using eq str_pos_no_sign[of j "str_pos (- i)"] by (simp add: str_int_def)
  next
    assume "\<not> i < 0" "j < 0" then show ?thesis
      using eq str_pos_no_sign[of i "str_pos (- j)"] by (simp add: str_int_def)
  next
    assume "\<not> i < 0" "\<not> j < 0" then show ?thesis
      using eq str_pos_inject[of i j] by (simp add: str_int_def)
  qed
qed simp

lemma str_nat_inject [simp]: "str_nat m = str_nat n \<longleftrightarrow> m = n"
  by (simp add: str_nat_def)

text \<open>The characters of a rendered int; a separator is none of them.\<close>

definition int_char :: "char \<Rightarrow> bool" where
  "int_char c \<longleftrightarrow> is_digit c \<or> c = CHR ''-''"

lemma str_int_chars: "c \<in> set (str_int i) \<Longrightarrow> int_char c"
  using str_pos_digits[of i] str_pos_digits[of "- i"]
  by (auto simp: str_int_def int_char_def split: if_splits)

lemma str_int_nonempty [simp]: "str_int i \<noteq> []" by (simp add: str_int_def)

section \<open>Fixed-point rendering\<close>

text \<open>\<^verbatim>\<open>f"{x:.df}"\<close>: the exact value rounded to \<open>d\<close> decimals, ties to even.\<close>

definition pad0 :: "nat \<Rightarrow> string \<Rightarrow> string" where
  "pad0 w s = replicate (w - length s) (CHR ''0'') @ s"

definition fmt_f :: "nat \<Rightarrow> float64 \<Rightarrow> string" where
  "fmt_f d x =
     (let n = rhe (\<bar>x\<bar> * 10 ^ d);
          body = (if d = 0 then str_pos n
                  else str_pos (n div 10 ^ d) @ ''.'' @ pad0 d (str_pos (n mod 10 ^ d)))
      in if x < 0 then ''-'' @ body else body)"

text \<open>\<^verbatim>\<open>f"{x:.d%}"\<close> multiplies by 100 first; \<^verbatim>\<open>f"{x:+.d%}"\<close> also writes a plus sign.\<close>

definition fmt_pct :: "nat \<Rightarrow> float64 \<Rightarrow> string" where
  "fmt_pct d x = fmt_f d (fl_mul x 100) @ ''%''"

definition fmt_pct_sign :: "nat \<Rightarrow> float64 \<Rightarrow> string" where
  "fmt_pct_sign d x = (if x < 0 then fmt_pct d x else ''+'' @ fmt_pct d x)"

text \<open>\<^verbatim>\<open>f"{x:,.0f}"\<close> and \<^verbatim>\<open>f"{n:,}"\<close>: thousands separated by commas.\<close>

fun commas_rev :: "string \<Rightarrow> string" where
  "commas_rev (a # b # c # d # s) = a # b # c # CHR '','' # commas_rev (d # s)"
| "commas_rev s = s"

definition commas :: "int \<Rightarrow> string" where
  "commas n = rev (commas_rev (rev (str_pos n)))"

definition fmt_commas :: "int \<Rightarrow> string" where
  "fmt_commas n = (if n < 0 then ''-'' else []) @ commas \<bar>n\<bar>"

definition fmt_f0_commas :: "float64 \<Rightarrow> string" where
  "fmt_f0_commas x = (if x < 0 then ''-'' else []) @ commas (rhe \<bar>x\<bar>)"

section \<open>The repr of a float\<close>

text \<open>
  \<^verbatim>\<open>repr(x)\<close> is the shortest decimal that reads back as \<open>x\<close>: \<open>shortest\<close> tries 1 to 17
  significant digits, each the nearest decimal of that length, and returns the digits \<open>m\<close> and
  the power of ten \<open>e\<close> with \<open>fl (m * 10 powi e) = x\<close>.
\<close>

fun small_e10 :: "nat \<Rightarrow> rat \<Rightarrow> int" where
  "small_e10 0 x = 0"
| "small_e10 (Suc n) x = (if 1 \<le> x then 0 else small_e10 n (x * 10) - 1)"

definition floor_log10 :: "rat \<Rightarrow> int" where
  "floor_log10 x = (if 1 \<le> x then int (length (str_pos \<lfloor>x\<rfloor>)) - 1 else small_e10 400 x)"

fun shortest :: "nat \<Rightarrow> nat \<Rightarrow> rat \<Rightarrow> int \<times> int" where
  "shortest 0 n x = (let e = floor_log10 x - int n + 1 in (rhe (x / 10 powi e), e))"
| "shortest (Suc k) n x =
     (let e = floor_log10 x - int n + 1; m = rhe (x / 10 powi e)
      in if fl (of_int m * 10 powi e) = x then (m, e) else shortest k (Suc n) x)"

function strip_zeros :: "int \<Rightarrow> int \<Rightarrow> int \<times> int" where
  "strip_zeros m e = (if 10 \<le> m \<and> m mod 10 = 0 then strip_zeros (m div 10) (e + 1) else (m, e))"
  by pat_completeness auto
termination by (relation "measure (\<lambda>(m, e). nat m)") auto

declare strip_zeros.simps [simp del]

definition repr_pos :: "rat \<Rightarrow> string" where
  "repr_pos x =
     (let (m, e) = (case shortest 16 1 x of (m, e) \<Rightarrow> strip_zeros m e);
          ds = str_pos m; k = int (length ds); p = k + e
      in if - 4 < p \<and> p \<le> 16 then
           (if p \<le> 0 then ''0.'' @ replicate (nat (- p)) (CHR ''0'') @ ds
            else if k \<le> p then ds @ replicate (nat (p - k)) (CHR ''0'') @ ''.0''
            else take (nat p) ds @ ''.'' @ drop (nat p) ds)
         else take 1 ds @ (if k = 1 then [] else ''.'' @ drop 1 ds) @ ''e''
              @ (if p - 1 < 0 then ''-'' else ''+'') @ pad0 2 (str_pos \<bar>p - 1\<bar>))"

definition repr_float :: "float64 \<Rightarrow> string" where
  "repr_float x = (if x = 0 then ''0.0'' else if x < 0 then ''-'' @ repr_pos (- x) else repr_pos x)"

section \<open>Joining, lists, optional values\<close>

fun str_join :: "string \<Rightarrow> string list \<Rightarrow> string" where
  "str_join sep [] = []"
| "str_join sep [x] = x"
| "str_join sep (x # xs) = x @ sep @ str_join sep xs"

definition str_list :: "('a \<Rightarrow> string) \<Rightarrow> 'a list \<Rightarrow> string" where
  "str_list f xs = ''['' @ str_join '', '' (map f xs) @ '']''"

definition str_opt :: "('a \<Rightarrow> string) \<Rightarrow> 'a option \<Rightarrow> string" where
  "str_opt f x = (case x of None \<Rightarrow> ''None'' | Some y \<Rightarrow> f y)"

definition str_repr :: "string \<Rightarrow> string" where
  "str_repr s = [CHR 0x27] @ s @ [CHR 0x27]"

section \<open>Case, prefixes, searching\<close>

definition lower_char :: "char \<Rightarrow> char" where
  "lower_char c = (let n = (of_char c :: nat) in if 65 \<le> n \<and> n \<le> 90 then char_of (n + 32) else c)"

definition upper_char :: "char \<Rightarrow> char" where
  "upper_char c = (let n = (of_char c :: nat) in if 97 \<le> n \<and> n \<le> 122 then char_of (n - 32) else c)"

definition str_lower :: "string \<Rightarrow> string" where "str_lower = map lower_char"
definition str_upper :: "string \<Rightarrow> string" where "str_upper = map upper_char"

definition starts_with :: "string \<Rightarrow> string \<Rightarrow> bool" where
  "starts_with p s \<longleftrightarrow> take (length p) s = p"

definition ends_with :: "string \<Rightarrow> string \<Rightarrow> bool" where
  "ends_with p s \<longleftrightarrow> starts_with (rev p) (rev s)"

text \<open>\<^verbatim>\<open>needle in text\<close>.\<close>

fun contains :: "string \<Rightarrow> string \<Rightarrow> bool" where
  "contains p [] \<longleftrightarrow> p = []"
| "contains p (c # s) \<longleftrightarrow> starts_with p (c # s) \<or> contains p s"

text \<open>\<^verbatim>\<open>text.split(sep)\<close> for a one-character separator, and \<^verbatim>\<open>replace\<close> of one character.\<close>

fun split_on :: "char \<Rightarrow> string \<Rightarrow> string list" where
  "split_on c [] = [[]]"
| "split_on c (x # xs) = (if x = c then [] # split_on c xs
     else (case split_on c xs of [] \<Rightarrow> [[x]] | y # ys \<Rightarrow> (x # y) # ys))"

definition replace_char :: "char \<Rightarrow> char \<Rightarrow> string \<Rightarrow> string" where
  "replace_char a b s = map (\<lambda>c. if c = a then b else c) s"

text \<open>\<^verbatim>\<open>text.replace(p, "")\<close>.\<close>

function remove_sub :: "string \<Rightarrow> string \<Rightarrow> string" where
  "remove_sub p s = (case s of [] \<Rightarrow> [] | c # t \<Rightarrow>
     if p \<noteq> [] \<and> starts_with p s then remove_sub p (drop (length p) s) else c # remove_sub p t)"
  by pat_completeness auto
termination by (relation "measure (\<lambda>(p, s). length s)") auto

declare remove_sub.simps [simp del]

section \<open>White space and lines\<close>

text \<open>The characters \<^verbatim>\<open>str.strip\<close> removes and \<^verbatim>\<open>str.splitlines\<close> breaks at, in ASCII text.\<close>

definition is_space :: "char \<Rightarrow> bool" where
  "is_space c \<longleftrightarrow> c \<in> {CHR '' '', CHR 0x09, CHR 0x0A, CHR 0x0B, CHR 0x0C, CHR 0x0D, CHR 0x1C, CHR 0x1D, CHR 0x1E, CHR 0x1F}"

definition py_strip :: "string \<Rightarrow> string" where
  "py_strip s = rev (dropWhile is_space (rev (dropWhile is_space s)))"

definition line_break :: "char \<Rightarrow> bool" where
  "line_break c \<longleftrightarrow> c \<in> {CHR 0x0A, CHR 0x0D, CHR 0x0B, CHR 0x0C, CHR 0x1C, CHR 0x1D, CHR 0x1E}"

text \<open>\<^verbatim>\<open>text.splitlines()\<close>, the current line being kept reversed; a carriage return takes a following line feed with it.\<close>

function lines_from :: "string \<Rightarrow> string \<Rightarrow> string list" where
  "lines_from cur [] = (if cur = [] then [] else [rev cur])"
| "lines_from cur (c # s) =
     (if line_break c then rev cur # lines_from [] (if c = CHR 0x0D \<and> starts_with [CHR 0x0A] s then tl s else s)
      else lines_from (c # cur) s)"
  by pat_completeness auto
termination by (relation "measure (\<lambda>(cur, s). length s)") auto

definition split_lines :: "string \<Rightarrow> string list" where
  "split_lines s = lines_from [] s"

lemma starts_with_iff: "starts_with p s \<longleftrightarrow> (\<exists>t. s = p @ t)"
  by (auto simp: starts_with_def) (metis append_take_drop_id)

lemma contains_iff: "contains p s \<longleftrightarrow> (\<exists>a b. s = a @ p @ b)"
proof (induction s)
  case Nil then show ?case by simp
next
  case (Cons c s)
  show ?case
  proof
    assume "contains p (c # s)"
    then show "\<exists>a b. c # s = a @ p @ b"
      using Cons by (auto simp: starts_with_iff intro: exI[of _ "[]"]) (metis append_Cons)
  next
    assume "\<exists>a b. c # s = a @ p @ b"
    then obtain a b where ab: "c # s = a @ p @ b" by blast
    show "contains p (c # s)"
    proof (cases a)
      case Nil
      then have "starts_with p (c # s)" using ab starts_with_iff by auto
      then show ?thesis by simp
    next
      case (Cons d a') then show ?thesis using ab Cons.IH by auto
    qed
  qed
qed

lemma split_on_nonempty [simp]: "split_on c s \<noteq> []"
  by (induction s) (auto split: list.splits)

lemma join_split: "str_join [c] (split_on c s) = s"
proof (induction s)
  case (Cons x xs)
  then show ?case
  proof (cases "split_on c xs")
    case (Cons y ys)
    then show ?thesis using Cons.IH by (cases ys) auto
  qed simp
qed simp

text \<open>Two texts that agree after a separator none of their first parts contains agree in both parts.\<close>

lemma sep_inject:
  assumes "a @ s # b = a' @ s # b'" "s \<notin> set a" "s \<notin> set a'"
  shows "a = a' \<and> b = b'"
  using assms
proof (induction a arbitrary: a')
  case Nil then show ?case by (cases a') auto
next
  case (Cons x a) then show ?case by (cases a') auto
qed

end
