(* ===== verification/Workload.thy ===== *)
theory Workload
  imports PyText
begin

text \<open>
  Workload profiles and objectives (\<^verbatim>\<open>schemas/workload.py\<close>) and how the profile section of a
  configuration file becomes a workload (\<^verbatim>\<open>settings.py\<close>, \<^verbatim>\<open>build_workload\<close>).  A pydantic model
  is a record and its validation a function into errors or the record.
\<close>

section \<open>Objectives and SLOs\<close>

datatype objective = Throughput | Latency | Balanced

fun objective_value :: "objective \<Rightarrow> string" where
  "objective_value Throughput = ''throughput''"
| "objective_value Latency = ''latency''"
| "objective_value Balanced = ''balanced''"

record latency_constraints =
  lc_max_p95_ttft_ms :: "float64 option"
  lc_max_p95_latency_ms :: "float64 option"
  lc_max_p95_tpot_ms :: "float64 option"

definition slo_is_empty :: "latency_constraints \<Rightarrow> bool" where
  "slo_is_empty c \<longleftrightarrow> lc_max_p95_ttft_ms c = None \<and> lc_max_p95_latency_ms c = None \<and> lc_max_p95_tpot_ms c = None"

text \<open>What a validation reports: the fields whose constraint fails, or the model validator's message.\<close>

datatype validation_error = Field_error string | Value_error string

definition field_check :: "string \<Rightarrow> bool \<Rightarrow> validation_error list" where
  "field_check name ok = (if ok then [] else [Field_error name])"

lemma field_check_Nil [simp]: "field_check n b = [] \<longleftrightarrow> b" by (simp add: field_check_def)

definition make_latency_constraints ::
  "float64 option \<Rightarrow> float64 option \<Rightarrow> float64 option \<Rightarrow> validation_error list + latency_constraints" where
  "make_latency_constraints ttft lat tpot =
     (let errs = field_check ''max_p95_ttft_ms'' (opt_all (\<lambda>x. x > 0) ttft)
               @ field_check ''max_p95_latency_ms'' (opt_all (\<lambda>x. x > 0) lat)
               @ field_check ''max_p95_tpot_ms'' (opt_all (\<lambda>x. x > 0) tpot)
      in if errs = [] then Inr \<lparr>lc_max_p95_ttft_ms = ttft, lc_max_p95_latency_ms = lat, lc_max_p95_tpot_ms = tpot\<rparr>
         else Inl errs)"

section \<open>Workload profiles\<close>

record workload_profile =
  wl_name :: string
  wl_input_tokens_p50 :: int
  wl_input_tokens_p95 :: int
  wl_output_tokens_p50 :: int
  wl_output_tokens_p95 :: int
  wl_max_context_tokens :: int
  wl_expected_concurrency :: "int option"
  wl_target_request_rate :: "float64 option"
  wl_shared_prefix_fraction :: float64
  wl_streaming :: bool
  wl_objective :: objective
  wl_latency_constraints :: "latency_constraints option"

definition workload_field_errors :: "workload_profile \<Rightarrow> validation_error list" where
  "workload_field_errors w =
       field_check ''input_tokens_p50'' (wl_input_tokens_p50 w \<ge> 1)
     @ field_check ''input_tokens_p95'' (wl_input_tokens_p95 w \<ge> 1)
     @ field_check ''output_tokens_p50'' (wl_output_tokens_p50 w \<ge> 1)
     @ field_check ''output_tokens_p95'' (wl_output_tokens_p95 w \<ge> 1)
     @ field_check ''max_context_tokens'' (wl_max_context_tokens w \<ge> 16)
     @ field_check ''expected_concurrency'' (opt_all (\<lambda>c. c \<ge> 1) (wl_expected_concurrency w))
     @ field_check ''target_request_rate'' (opt_all (\<lambda>r. r > 0) (wl_target_request_rate w))
     @ field_check ''shared_prefix_fraction'' (0 \<le> wl_shared_prefix_fraction w \<and> wl_shared_prefix_fraction w \<le> 1)"

definition check_ordering :: "workload_profile \<Rightarrow> validation_error list" where
  "check_ordering w =
     (if wl_input_tokens_p95 w < wl_input_tokens_p50 w
        then [Value_error ''input_tokens_p95 must be >= input_tokens_p50'']
      else if wl_output_tokens_p95 w < wl_output_tokens_p50 w
        then [Value_error ''output_tokens_p95 must be >= output_tokens_p50'']
      else if wl_input_tokens_p95 w + wl_output_tokens_p95 w > wl_max_context_tokens w
        then [Value_error (''input_tokens_p95 + output_tokens_p95 exceeds max_context_tokens ''
               @ ''('' @ str_int (wl_input_tokens_p95 w) @ '' + '' @ str_int (wl_output_tokens_p95 w)
               @ '' > '' @ str_int (wl_max_context_tokens w) @ '')'')]
      else [])"

text \<open>Field constraints first; the model validator runs only when they all hold.\<close>

definition validate_workload :: "workload_profile \<Rightarrow> validation_error list + workload_profile" where
  "validate_workload w =
     (if workload_field_errors w \<noteq> [] then Inl (workload_field_errors w)
      else if check_ordering w \<noteq> [] then Inl (check_ordering w)
      else Inr w)"

definition p50_sequence_tokens :: "workload_profile \<Rightarrow> int" where
  "p50_sequence_tokens w = wl_input_tokens_p50 w + wl_output_tokens_p50 w"

definition p95_sequence_tokens :: "workload_profile \<Rightarrow> int" where
  "p95_sequence_tokens w = wl_input_tokens_p95 w + wl_output_tokens_p95 w"

definition has_slo :: "workload_profile \<Rightarrow> bool" where
  "has_slo w = (case wl_latency_constraints w of None \<Rightarrow> False | Some c \<Rightarrow> \<not> slo_is_empty c)"

text \<open>The well-formed workloads: what a validated profile satisfies everywhere downstream.\<close>

definition wf_workload :: "workload_profile \<Rightarrow> bool" where
  "wf_workload w \<longleftrightarrow>
     1 \<le> wl_input_tokens_p50 w \<and> wl_input_tokens_p50 w \<le> wl_input_tokens_p95 w \<and>
     1 \<le> wl_output_tokens_p50 w \<and> wl_output_tokens_p50 w \<le> wl_output_tokens_p95 w \<and>
     p95_sequence_tokens w \<le> wl_max_context_tokens w \<and> 16 \<le> wl_max_context_tokens w \<and>
     opt_all (\<lambda>c. 1 \<le> c) (wl_expected_concurrency w) \<and> opt_all (\<lambda>r. 0 < r) (wl_target_request_rate w) \<and>
     0 \<le> wl_shared_prefix_fraction w \<and> wl_shared_prefix_fraction w \<le> 1"

lemma validate_workload_Inr: "validate_workload w = Inr v \<longleftrightarrow> v = w \<and> wf_workload w"
  by (auto simp: validate_workload_def wf_workload_def workload_field_errors_def check_ordering_def
      p95_sequence_tokens_def split: if_splits)

lemma wf_workload_p50_le_p95: "wf_workload w \<Longrightarrow> p50_sequence_tokens w \<le> p95_sequence_tokens w"
  by (simp add: wf_workload_def p50_sequence_tokens_def p95_sequence_tokens_def)

lemma wf_workload_p50_pos: "wf_workload w \<Longrightarrow> 2 \<le> p50_sequence_tokens w"
  by (simp add: wf_workload_def p50_sequence_tokens_def)

section \<open>Presets\<close>

record preset =
  ps_input_tokens_p50 :: int
  ps_input_tokens_p95 :: int
  ps_output_tokens_p50 :: int
  ps_output_tokens_p95 :: int
  ps_max_context_tokens :: int

definition PRESETS :: "(string \<times> preset) list" where
  "PRESETS =
     [(''chat'', \<lparr>ps_input_tokens_p50 = 512, ps_input_tokens_p95 = 2048, ps_output_tokens_p50 = 256,
                   ps_output_tokens_p95 = 768, ps_max_context_tokens = 8192\<rparr>),
      (''long-context'', \<lparr>ps_input_tokens_p50 = 8192, ps_input_tokens_p95 = 32768, ps_output_tokens_p50 = 256,
                   ps_output_tokens_p95 = 1024, ps_max_context_tokens = 65536\<rparr>),
      (''decode-heavy'', \<lparr>ps_input_tokens_p50 = 256, ps_input_tokens_p95 = 1024, ps_output_tokens_p50 = 1024,
                   ps_output_tokens_p95 = 4096, ps_max_context_tokens = 8192\<rparr>)]"

definition DEFAULT_LATENCY_CONCURRENCY :: int where "DEFAULT_LATENCY_CONCURRENCY = 16"

definition workload_from_preset ::
  "string \<Rightarrow> objective \<Rightarrow> int option \<Rightarrow> float64 option \<Rightarrow> bool \<Rightarrow> latency_constraints option \<Rightarrow> int option
   \<Rightarrow> validation_error list + workload_profile" where
  "workload_from_preset name obj conc rate stream slo max_ctx =
     (case map_of PRESETS name of
        None \<Rightarrow> Inl [Value_error (''unknown workload preset '' @ str_repr name @ ''; choose from ''
                       @ str_list str_repr (sort (map fst PRESETS)))]
      | Some p \<Rightarrow> validate_workload
          \<lparr>wl_name = name,
           wl_input_tokens_p50 = ps_input_tokens_p50 p, wl_input_tokens_p95 = ps_input_tokens_p95 p,
           wl_output_tokens_p50 = ps_output_tokens_p50 p, wl_output_tokens_p95 = ps_output_tokens_p95 p,
           wl_max_context_tokens = the_or max_ctx (ps_max_context_tokens p),
           wl_expected_concurrency = conc, wl_target_request_rate = rate, wl_shared_prefix_fraction = 0,
           wl_streaming = stream, wl_objective = obj, wl_latency_constraints = slo\<rparr>)"

lemma presets_wf:
  assumes "map_of PRESETS name = Some p"
  shows "1 \<le> ps_input_tokens_p50 p \<and> ps_input_tokens_p50 p \<le> ps_input_tokens_p95 p \<and>
    1 \<le> ps_output_tokens_p50 p \<and> ps_output_tokens_p50 p \<le> ps_output_tokens_p95 p \<and>
    ps_input_tokens_p95 p + ps_output_tokens_p95 p \<le> ps_max_context_tokens p \<and> 16 \<le> ps_max_context_tokens p"
  using assms by (auto simp: PRESETS_def split: if_splits)

section \<open>From a configuration file\<close>

record profile_config =
  pc_name :: "string option"
  pc_input_tokens_p50 :: "int option"
  pc_input_tokens_p95 :: "int option"
  pc_output_tokens_p50 :: "int option"
  pc_output_tokens_p95 :: "int option"
  pc_max_context_tokens :: "int option"
  pc_expected_concurrency :: "int option"
  pc_target_request_rate :: "float64 option"
  pc_shared_prefix_fraction :: "float64 option"
  pc_streaming :: "bool option"
  pc_max_p95_ttft_ms :: "float64 option"
  pc_max_p95_latency_ms :: "float64 option"
  pc_max_p95_tpot_ms :: "float64 option"

definition check_preset :: "string option \<Rightarrow> validation_error list + string option" where
  "check_preset v = (case v of None \<Rightarrow> Inr None
     | Some n \<Rightarrow> if n \<noteq> ''custom'' \<and> map_of PRESETS n = None
         then Inl [Value_error (''unknown profile preset '' @ str_repr n @ ''; choose from ''
                     @ str_list str_repr (sort (map fst PRESETS)))]
         else Inr v)"

text \<open>
  \<^verbatim>\<open>build_workload\<close> raises \<^verbatim>\<open>ConfigurationError\<close> for an invalid profile; the SLO record is built
  outside its \<^verbatim>\<open>try\<close>, so an invalid SLO escapes as pydantic's own error.
\<close>

datatype build_error = Configuration_error "validation_error list" | Raw_validation_error "validation_error list"

text \<open>A name given as the empty string is falsy.\<close>

definition given_name :: "profile_config \<Rightarrow> bool" where
  "given_name p = (case pc_name p of None \<Rightarrow> False | Some n \<Rightarrow> n \<noteq> [])"

definition overlay_profile :: "profile_config \<Rightarrow> workload_profile \<Rightarrow> workload_profile" where
  "overlay_profile p w =
     w\<lparr>wl_name := (if \<not> given_name p \<and>
            (pc_input_tokens_p50 p \<noteq> None \<or> pc_input_tokens_p95 p \<noteq> None \<or> pc_output_tokens_p50 p \<noteq> None
             \<or> pc_output_tokens_p95 p \<noteq> None \<or> pc_shared_prefix_fraction p \<noteq> None)
          then ''custom'' else wl_name w),
       wl_input_tokens_p50 := the_or (pc_input_tokens_p50 p) (wl_input_tokens_p50 w),
       wl_input_tokens_p95 := the_or (pc_input_tokens_p95 p) (wl_input_tokens_p95 w),
       wl_output_tokens_p50 := the_or (pc_output_tokens_p50 p) (wl_output_tokens_p50 w),
       wl_output_tokens_p95 := the_or (pc_output_tokens_p95 p) (wl_output_tokens_p95 w),
       wl_shared_prefix_fraction := the_or (pc_shared_prefix_fraction p) (wl_shared_prefix_fraction w),
       wl_max_context_tokens := the_or (pc_max_context_tokens p) (wl_max_context_tokens w),
       wl_expected_concurrency := (case pc_expected_concurrency p of None \<Rightarrow> wl_expected_concurrency w | c \<Rightarrow> c),
       wl_target_request_rate := (case pc_target_request_rate p of None \<Rightarrow> wl_target_request_rate w | r \<Rightarrow> r),
       wl_streaming := the_or (pc_streaming p) (wl_streaming w)\<rparr>"

definition grow_context :: "profile_config \<Rightarrow> workload_profile \<Rightarrow> workload_profile" where
  "grow_context p w =
     (let needed = wl_input_tokens_p95 w + wl_output_tokens_p95 w in
      if wl_max_context_tokens w < needed \<and> pc_max_context_tokens p = None
      then w\<lparr>wl_max_context_tokens := needed\<rparr> else w)"

definition build_workload :: "profile_config \<Rightarrow> objective \<Rightarrow> build_error + workload_profile" where
  "build_workload p obj =
     (case make_latency_constraints (pc_max_p95_ttft_ms p) (pc_max_p95_latency_ms p) (pc_max_p95_tpot_ms p) of
        Inl errs \<Rightarrow> Inl (Raw_validation_error errs)
      | Inr slo \<Rightarrow>
         (let constraints = (if slo_is_empty slo then None else Some slo);
              preset_name = (if given_name p then the_or (pc_name p) [] else ''chat'');
              base = (if preset_name = ''custom''
                      then workload_from_preset ''chat'' Throughput None None True None None
                      else workload_from_preset preset_name Throughput None None True None None)
          in case base of
               Inl errs \<Rightarrow> Inl (Configuration_error errs)
             | Inr b \<Rightarrow>
                 (let values = overlay_profile p (b\<lparr>wl_name := preset_name\<rparr>);
                      values = values\<lparr>wl_objective := obj, wl_latency_constraints := constraints\<rparr>
                  in case validate_workload (grow_context p values) of
                       Inl errs \<Rightarrow> Inl (Configuration_error errs)
                     | Inr w \<Rightarrow> Inr w)))"

lemma build_workload_wf: "build_workload p obj = Inr w \<Longrightarrow> wf_workload w"
  by (auto simp: build_workload_def Let_def validate_workload_Inr split: sum.splits)

lemma build_workload_objective: "build_workload p obj = Inr w \<Longrightarrow> wl_objective w = obj"
  by (auto simp: build_workload_def Let_def validate_workload_Inr grow_context_def overlay_profile_def
      split: sum.splits if_splits)

section \<open>What building a workload guarantees\<close>

definition base_preset_name :: "profile_config \<Rightarrow> string" where
  "base_preset_name p =
     (let n = (if given_name p then the_or (pc_name p) [] else ''chat'')
      in if n = ''custom'' then ''chat'' else n)"

lemma workload_from_preset_default:
  assumes "map_of PRESETS name = Some b"
  shows "workload_from_preset name Throughput None None True None None = Inr
    \<lparr>wl_name = name, wl_input_tokens_p50 = ps_input_tokens_p50 b, wl_input_tokens_p95 = ps_input_tokens_p95 b,
     wl_output_tokens_p50 = ps_output_tokens_p50 b, wl_output_tokens_p95 = ps_output_tokens_p95 b,
     wl_max_context_tokens = ps_max_context_tokens b, wl_expected_concurrency = None,
     wl_target_request_rate = None, wl_shared_prefix_fraction = 0, wl_streaming = True,
     wl_objective = Throughput, wl_latency_constraints = None\<rparr>"
  using assms presets_wf[OF assms]
  by (simp add: workload_from_preset_def validate_workload_Inr wf_workload_def p95_sequence_tokens_def)

lemma make_latency_constraints_ok:
  assumes "opt_all (\<lambda>x. 0 < x) a" "opt_all (\<lambda>x. 0 < x) b" "opt_all (\<lambda>x. 0 < x) c"
  shows "make_latency_constraints a b c =
    Inr \<lparr>lc_max_p95_ttft_ms = a, lc_max_p95_latency_ms = b, lc_max_p95_tpot_ms = c\<rparr>"
  using assms by (simp add: make_latency_constraints_def)

text \<open>
  A configuration that names no context length, whose preset is known, whose SLO bounds are
  positive and whose percentiles (the given ones, else the preset's) are ordered always builds:
  the context grows to hold the p95 prompt and output and never shrinks below the preset's.
\<close>

theorem build_workload_total:
  assumes "pc_max_context_tokens p = None" and preset: "map_of PRESETS (base_preset_name p) = Some b"
    and slo: "opt_all (\<lambda>x. 0 < x) (pc_max_p95_ttft_ms p)" "opt_all (\<lambda>x. 0 < x) (pc_max_p95_latency_ms p)"
      "opt_all (\<lambda>x. 0 < x) (pc_max_p95_tpot_ms p)"
    and fields: "opt_all (\<lambda>c. 1 \<le> c) (pc_expected_concurrency p)"
      "opt_all (\<lambda>r. 0 < r) (pc_target_request_rate p)"
      "opt_all (\<lambda>f. 0 \<le> f \<and> f \<le> 1) (pc_shared_prefix_fraction p)"
    and in_ord: "1 \<le> the_or (pc_input_tokens_p50 p) (ps_input_tokens_p50 b)"
      "the_or (pc_input_tokens_p50 p) (ps_input_tokens_p50 b) \<le> the_or (pc_input_tokens_p95 p) (ps_input_tokens_p95 b)"
    and out_ord: "1 \<le> the_or (pc_output_tokens_p50 p) (ps_output_tokens_p50 b)"
      "the_or (pc_output_tokens_p50 p) (ps_output_tokens_p50 b) \<le> the_or (pc_output_tokens_p95 p) (ps_output_tokens_p95 b)"
  shows "\<exists>w. build_workload p obj = Inr w \<and> wf_workload w \<and> wl_objective w = obj \<and>
    wl_max_context_tokens w = max (ps_max_context_tokens b) (p95_sequence_tokens w)"
proof -
  define nm where "nm = (if given_name p then the_or (pc_name p) [] else ''chat'')"
  have base: "(if nm = ''custom'' then workload_from_preset ''chat'' Throughput None None True None None
        else workload_from_preset nm Throughput None None True None None) =
      workload_from_preset (base_preset_name p) Throughput None None True None None"
    by (simp add: base_preset_name_def nm_def Let_def)
  obtain b0 where b0: "workload_from_preset (base_preset_name p) Throughput None None True None None = Inr b0"
    and fs: "wl_input_tokens_p50 b0 = ps_input_tokens_p50 b" "wl_input_tokens_p95 b0 = ps_input_tokens_p95 b"
      "wl_output_tokens_p50 b0 = ps_output_tokens_p50 b" "wl_output_tokens_p95 b0 = ps_output_tokens_p95 b"
      "wl_max_context_tokens b0 = ps_max_context_tokens b" "wl_expected_concurrency b0 = None"
      "wl_target_request_rate b0 = None" "wl_shared_prefix_fraction b0 = 0"
    using workload_from_preset_default[OF preset] by simp
  define slo where "slo = (if slo_is_empty \<lparr>lc_max_p95_ttft_ms = pc_max_p95_ttft_ms p,
    lc_max_p95_latency_ms = pc_max_p95_latency_ms p, lc_max_p95_tpot_ms = pc_max_p95_tpot_ms p\<rparr> then None else
    Some \<lparr>lc_max_p95_ttft_ms = pc_max_p95_ttft_ms p,
    lc_max_p95_latency_ms = pc_max_p95_latency_ms p, lc_max_p95_tpot_ms = pc_max_p95_tpot_ms p\<rparr>)"
  define v where "v = (overlay_profile p (b0\<lparr>wl_name := nm\<rparr>))\<lparr>wl_objective := obj, wl_latency_constraints := slo\<rparr>"
  have bw: "build_workload p obj = (case validate_workload (grow_context p v) of
      Inl errs \<Rightarrow> Inl (Configuration_error errs) | Inr w \<Rightarrow> Inr w)"
    unfolding build_workload_def make_latency_constraints_ok[OF slo] sum.case Let_def
      base[unfolded nm_def] b0 v_def slo_def nm_def ..
  have vf: "wl_input_tokens_p50 v = the_or (pc_input_tokens_p50 p) (ps_input_tokens_p50 b)"
    "wl_input_tokens_p95 v = the_or (pc_input_tokens_p95 p) (ps_input_tokens_p95 b)"
    "wl_output_tokens_p50 v = the_or (pc_output_tokens_p50 p) (ps_output_tokens_p50 b)"
    "wl_output_tokens_p95 v = the_or (pc_output_tokens_p95 p) (ps_output_tokens_p95 b)"
    "wl_max_context_tokens v = ps_max_context_tokens b" "wl_objective v = obj"
    "wl_expected_concurrency v = pc_expected_concurrency p" "wl_target_request_rate v = pc_target_request_rate p"
    "wl_shared_prefix_fraction v = the_or (pc_shared_prefix_fraction p) 0"
    using assms(1) by (simp_all add: v_def overlay_profile_def fs split: option.split)
  have frac: "0 \<le> the_or (pc_shared_prefix_fraction p) 0 \<and> the_or (pc_shared_prefix_fraction p) 0 \<le> 1"
    using fields(3) by (cases "pc_shared_prefix_fraction p") auto
  have "wf_workload (grow_context p v)"
    "wl_max_context_tokens (grow_context p v) = max (ps_max_context_tokens b) (p95_sequence_tokens (grow_context p v))"
    using in_ord out_ord fields frac assms(1) presets_wf[OF preset]
    by (auto simp: wf_workload_def grow_context_def Let_def vf p95_sequence_tokens_def)
  moreover have "wl_objective (grow_context p v) = obj" by (simp add: grow_context_def Let_def vf)
  ultimately show ?thesis by (simp add: bw validate_workload_Inr[THEN iffD2])
qed

lemma build_workload_total_witness:
  "\<exists>p. \<exists>w. build_workload p Latency = Inr w \<and> wf_workload w \<and> wl_objective w = Latency \<and>
    wl_max_context_tokens w = max 8192 (p95_sequence_tokens w)"
proof -
  let ?p = "\<lparr>pc_name = None, pc_input_tokens_p50 = None, pc_input_tokens_p95 = Some 20000,
    pc_output_tokens_p50 = None, pc_output_tokens_p95 = None, pc_max_context_tokens = None,
    pc_expected_concurrency = Some 4, pc_target_request_rate = None, pc_shared_prefix_fraction = None,
    pc_streaming = None, pc_max_p95_ttft_ms = Some 200, pc_max_p95_latency_ms = None, pc_max_p95_tpot_ms = None\<rparr>"
  have b: "map_of PRESETS (base_preset_name ?p) = Some \<lparr>ps_input_tokens_p50 = 512, ps_input_tokens_p95 = 2048,
      ps_output_tokens_p50 = 256, ps_output_tokens_p95 = 768, ps_max_context_tokens = 8192\<rparr>"
    by (simp add: base_preset_name_def given_name_def PRESETS_def)
  have "\<exists>w. build_workload ?p Latency = Inr w \<and> wf_workload w \<and> wl_objective w = Latency \<and>
    wl_max_context_tokens w = max 8192 (p95_sequence_tokens w)"
    using build_workload_total[OF _ b, of Latency] by simp
  then show ?thesis by (rule exI)
qed

text \<open>
  An SLO bound that is not positive is reported as a bare validation error, never as the
  configuration error every other invalid profile field raises, whatever the rest of the profile says.
\<close>

theorem build_workload_bad_slo:
  assumes "\<not> opt_all (\<lambda>x. 0 < x) (pc_max_p95_ttft_ms p) \<or> \<not> opt_all (\<lambda>x. 0 < x) (pc_max_p95_latency_ms p)
    \<or> \<not> opt_all (\<lambda>x. 0 < x) (pc_max_p95_tpot_ms p)"
  shows "\<exists>errs. build_workload p obj = Inl (Raw_validation_error errs) \<and> errs \<noteq> []"
  using assms by (auto simp: build_workload_def make_latency_constraints_def Let_def)

lemma build_workload_bad_slo_witness:
  "\<exists>p errs. build_workload p Throughput = Inl (Raw_validation_error errs) \<and> errs \<noteq> [] \<and> pc_max_p95_ttft_ms p = Some (- 5)"
  using build_workload_bad_slo[of "\<lparr>pc_name = None, pc_input_tokens_p50 = None, pc_input_tokens_p95 = None,
    pc_output_tokens_p50 = None, pc_output_tokens_p95 = None, pc_max_context_tokens = None,
    pc_expected_concurrency = None, pc_target_request_rate = None, pc_shared_prefix_fraction = None,
    pc_streaming = None, pc_max_p95_ttft_ms = Some (- 5), pc_max_p95_latency_ms = None, pc_max_p95_tpot_ms = None\<rparr>" Throughput]
  by fastforce

end
