(* ===== verification/Hardware.thy ===== *)
theory Hardware
  imports PyText
begin

text \<open>
  Hardware snapshots (\<^verbatim>\<open>schemas/hardware.py\<close>) and the pure part of topology probing
  (\<^verbatim>\<open>hardware/topology.py\<close>).  A raised \<^verbatim>\<open>KeyError\<close> is \<open>None\<close>.  Capture times and samples are
  not part of the record: no planning decision reads them.
\<close>

section \<open>Relationships between GPUs\<close>

datatype topology_relationship = NVLINK | PIX | PXB | PHB | NODE | SYS | NETWORK | UNKNOWN

fun relationship_value :: "topology_relationship \<Rightarrow> string" where
  "relationship_value NVLINK = ''NV''"
| "relationship_value PIX = ''PIX''"
| "relationship_value PXB = ''PXB''"
| "relationship_value PHB = ''PHB''"
| "relationship_value NODE = ''NODE''"
| "relationship_value SYS = ''SYS''"
| "relationship_value NETWORK = ''NET''"
| "relationship_value UNKNOWN = ''UNKNOWN''"

definition all_relationships :: "topology_relationship list" where
  "all_relationships = [NVLINK, PIX, PXB, PHB, NODE, SYS, NETWORK, UNKNOWN]"

text \<open>\<^verbatim>\<open>TopologyRelationship(text)\<close>; \<open>None\<close> is its \<^verbatim>\<open>ValueError\<close>.\<close>

definition parse_relationship :: "string \<Rightarrow> topology_relationship option" where
  "parse_relationship s = find (\<lambda>r. relationship_value r = s) all_relationships"

lemma parse_relationship_value [simp]: "parse_relationship (relationship_value r) = Some r"
  by (cases r) (simp_all add: parse_relationship_def all_relationships_def)

fun RELATIONSHIP_SCORES :: "topology_relationship \<Rightarrow> int" where
  "RELATIONSHIP_SCORES NVLINK = 100"
| "RELATIONSHIP_SCORES PIX = 40"
| "RELATIONSHIP_SCORES PXB = 30"
| "RELATIONSHIP_SCORES PHB = 20"
| "RELATIONSHIP_SCORES NODE = 10"
| "RELATIONSHIP_SCORES SYS = 5"
| "RELATIONSHIP_SCORES UNKNOWN = 1"
| "RELATIONSHIP_SCORES NETWORK = 0"

lemma relationship_scores_range: "0 \<le> RELATIONSHIP_SCORES r" "RELATIONSHIP_SCORES r \<le> 100"
  by (cases r; simp)+

section \<open>Devices, edges, snapshots\<close>

record gpu_device =
  gd_index :: int
  gd_uuid :: string
  gd_name :: string
  gd_total_memory_bytes :: int
  gd_free_memory_bytes :: int
  gd_used_memory_bytes :: int
  gd_pci_bus_id :: "string option"
  gd_cc_major :: "int option"
  gd_cc_minor :: "int option"
  gd_numa_node :: "int option"
  gd_mig_mode :: "string option"
  gd_node_id :: "string option"
  gd_node_ip :: "string option"
  gd_local_index :: "int option"

definition device_index_on_node :: "gpu_device \<Rightarrow> int" where
  "device_index_on_node g = the_or (gd_local_index g) (gd_index g)"

definition compute_capability :: "gpu_device \<Rightarrow> string option" where
  "compute_capability g = (case gd_cc_major g of None \<Rightarrow> None
     | Some major \<Rightarrow> Some (str_int major @ ''.'' @ str_int (the_or (gd_cc_minor g) 0)))"

definition used_fraction :: "gpu_device \<Rightarrow> float64" where
  "used_fraction g = (if gd_total_memory_bytes g \<le> 0 then 0
     else int_div (gd_used_memory_bytes g) (gd_total_memory_bytes g))"

record topology_edge =
  te_gpu_a :: int
  te_gpu_b :: int
  te_relationship :: string
  te_nvlink_detected :: bool
  te_nvlink_link_count :: "int option"

definition edge_score :: "topology_edge \<Rightarrow> int" where
  "edge_score e =
     (let rel = the_or (parse_relationship (te_relationship e)) UNKNOWN;
          base = RELATIONSHIP_SCORES rel
      in if te_nvlink_detected e
         then max base (RELATIONSHIP_SCORES NVLINK) + the_or (te_nvlink_link_count e) 0
         else base)"

record gpu_topology =
  gt_edges :: "topology_edge list"
  gt_available :: bool
  gt_error :: "string option"

definition topo_edge :: "gpu_topology \<Rightarrow> int \<Rightarrow> int \<Rightarrow> topology_edge option" where
  "topo_edge t a b = (let (lo, hi) = (if a < b then (a, b) else (b, a)) in
     find (\<lambda>e. te_gpu_a e = lo \<and> te_gpu_b e = hi) (gt_edges t))"

definition topo_score :: "gpu_topology \<Rightarrow> int \<Rightarrow> int \<Rightarrow> int" where
  "topo_score t a b = (case topo_edge t a b of
     Some e \<Rightarrow> edge_score e | None \<Rightarrow> RELATIONSHIP_SCORES UNKNOWN)"

definition has_nvlink :: "gpu_topology \<Rightarrow> bool" where
  "has_nvlink t = list_ex te_nvlink_detected (gt_edges t)"

definition topology_summary :: "gpu_topology \<Rightarrow> string" where
  "topology_summary t =
     (if \<not> gt_available t then ''topology unavailable''
      else if gt_edges t = [] then ''single GPU''
      else let nv = length (filter te_nvlink_detected (gt_edges t)); n = length (gt_edges t) in
        if nv = n then ''full NVLink mesh''
        else if nv > 0 then ''partial NVLink ('' @ str_nat nv @ ''/'' @ str_nat n @ '' pairs)''
        else ''PCIe only ('' @ str_join '', '' (sort (remdups (map te_relationship (gt_edges t)))) @ '')'')"

record node_info =
  ni_node_id :: string
  ni_node_ip :: string
  ni_hostname :: "string option"
  ni_gpu_indices :: "int list"
  ni_cpu_count :: "int option"
  ni_memory_bytes :: "int option"
  ni_is_head :: bool

record hardware_snapshot =
  hs_hostname :: string
  hs_platform :: string
  hs_gpu_count :: int
  hs_gpus :: "gpu_device list"
  hs_topology :: gpu_topology
  hs_driver_version :: "string option"
  hs_cuda_version :: "string option"
  hs_provider :: string
  hs_nodes :: "node_info list"
  hs_cluster_address :: "string option"

definition is_cluster :: "hardware_snapshot \<Rightarrow> bool" where
  "is_cluster s \<longleftrightarrow> length (hs_nodes s) > 1"

definition snap_gpu :: "hardware_snapshot \<Rightarrow> int \<Rightarrow> gpu_device option" where
  "snap_gpu s i = find (\<lambda>g. gd_index g = i) (hs_gpus s)"

definition node_of :: "hardware_snapshot \<Rightarrow> int \<Rightarrow> string option option" where
  "node_of s i = map_option gd_node_id (snap_gpu s i)"

definition snap_node :: "hardware_snapshot \<Rightarrow> string \<Rightarrow> node_info option" where
  "snap_node s nid = find (\<lambda>n. ni_node_id n = nid) (hs_nodes s)"

definition gpus_by_node :: "hardware_snapshot \<Rightarrow> (string option \<times> int list) list" where
  "gpus_by_node s = group_by gd_node_id gd_index (hs_gpus s)"

definition snap_select :: "hardware_snapshot \<Rightarrow> int list \<Rightarrow> hardware_snapshot" where
  "snap_select s indices =
     (let wanted = set indices;
          gpus = filter (\<lambda>g. gd_index g \<in> wanted) (hs_gpus s);
          edges = filter (\<lambda>e. te_gpu_a e \<in> wanted \<and> te_gpu_b e \<in> wanted) (gt_edges (hs_topology s));
          nodes = map (\<lambda>n. n\<lparr>ni_gpu_indices := filter (\<lambda>i. i \<in> wanted) (ni_gpu_indices n)\<rparr>) (hs_nodes s);
          nodes = filter (\<lambda>n. ni_gpu_indices n \<noteq> [] \<or> hs_nodes s = []) nodes
      in s\<lparr>hs_gpus := gpus, hs_gpu_count := int (length gpus),
           hs_topology := (hs_topology s)\<lparr>gt_edges := edges\<rparr>, hs_nodes := nodes\<rparr>)"

definition homogeneous_groups :: "hardware_snapshot \<Rightarrow> ((string \<times> int) \<times> int list) list" where
  "homogeneous_groups s = group_by (\<lambda>g. (gd_name g, gd_total_memory_bytes g)) gd_index (hs_gpus s)"

definition is_homogeneous :: "hardware_snapshot \<Rightarrow> bool" where
  "is_homogeneous s \<longleftrightarrow> length (homogeneous_groups s) \<le> 1"

definition min_total_memory_bytes :: "hardware_snapshot \<Rightarrow> int" where
  "min_total_memory_bytes s = the_or (py_min (map gd_total_memory_bytes (hs_gpus s))) 0"

definition min_free_memory_bytes :: "hardware_snapshot \<Rightarrow> int" where
  "min_free_memory_bytes s = the_or (py_min (map gd_free_memory_bytes (hs_gpus s))) 0"

text \<open>GPU indices are unique in a snapshot (NVML indices, or numbered across the cluster).\<close>

definition wf_snapshot :: "hardware_snapshot \<Rightarrow> bool" where
  "wf_snapshot s \<longleftrightarrow> distinct (map gd_index (hs_gpus s)) \<and> hs_gpu_count s = int (length (hs_gpus s))"

definition gpu_indices :: "hardware_snapshot \<Rightarrow> int list" where
  "gpu_indices s = map gd_index (hs_gpus s)"

subsection \<open>Facts about lookups and selection\<close>

lemma snap_gpu_Some: "snap_gpu s i = Some g \<Longrightarrow> g \<in> set (hs_gpus s) \<and> gd_index g = i"
  by (auto simp: snap_gpu_def find_Some_iff)

lemma snap_gpu_None: "snap_gpu s i = None \<longleftrightarrow> i \<notin> set (gpu_indices s)"
  by (auto simp: snap_gpu_def find_None_iff gpu_indices_def)

lemma gpu_indices_select: "set (gpu_indices (snap_select s ids)) = set (gpu_indices s) \<inter> set ids"
  by (auto simp: gpu_indices_def snap_select_def Let_def)

lemma hs_gpus_select [simp]: "hs_gpus (snap_select s ids) = filter (\<lambda>g. gd_index g \<in> set ids) (hs_gpus s)"
  by (simp add: snap_select_def Let_def)

lemma gt_edges_select:
  "gt_edges (hs_topology (snap_select s ids)) =
     filter (\<lambda>e. te_gpu_a e \<in> set ids \<and> te_gpu_b e \<in> set ids) (gt_edges (hs_topology s))"
  by (simp add: snap_select_def Let_def)

lemma gt_available_select [simp]: "gt_available (hs_topology (snap_select s ids)) = gt_available (hs_topology s)"
  by (simp add: snap_select_def Let_def)

lemma wf_snapshot_select [preserves]: "wf_snapshot s \<Longrightarrow> wf_snapshot (snap_select s ids)"
  by (simp add: wf_snapshot_def distinct_map_filter) (simp add: snap_select_def Let_def)

lemma find_filter: "(\<And>x. P x \<Longrightarrow> Q x) \<Longrightarrow> find P (filter Q xs) = find P xs"
  by (induction xs) auto

lemma snap_gpu_select: "i \<in> set ids \<Longrightarrow> snap_gpu (snap_select s ids) i = snap_gpu s i"
  unfolding snap_gpu_def hs_gpus_select by (rule find_filter) simp

lemma topo_edge_commute: "topo_edge t a b = topo_edge t b a"
  by (cases "a = b") (auto simp: topo_edge_def)

lemma topo_score_commute: "topo_score t a b = topo_score t b a"
  by (simp add: topo_score_def topo_edge_commute)

text \<open>Restricting a snapshot does not change the connectivity among the GPUs that stay.\<close>

lemma topo_score_select:
  assumes "a \<in> set ids" "b \<in> set ids"
  shows "topo_score (hs_topology (snap_select s ids)) a b = topo_score (hs_topology s) a b"
proof -
  have "topo_edge (hs_topology (snap_select s ids)) a b = topo_edge (hs_topology s) a b"
    using assms unfolding topo_edge_def gt_edges_select by (simp split: if_split) (auto intro!: find_filter)
  then show ?thesis by (simp add: topo_score_def)
qed

lemma length_le_1_iff: "length xs \<le> 1 \<longleftrightarrow> (\<forall>x \<in> set xs. \<forall>y \<in> set xs. x = y)" if "distinct xs"
  using that by (cases xs; cases "tl xs") auto

lemma is_homogeneous_iff:
  "is_homogeneous s \<longleftrightarrow> (\<forall>g \<in> set (hs_gpus s). \<forall>h \<in> set (hs_gpus s).
     gd_name g = gd_name h \<and> gd_total_memory_bytes g = gd_total_memory_bytes h)"
proof -
  have d: "distinct (homogeneous_groups s)"
    unfolding homogeneous_groups_def using distinct_group_by distinct_map by blast
  define K where "K g = (gd_name g, gd_total_memory_bytes g)" for g :: gpu_device
  have "set (homogeneous_groups s) =
      (\<lambda>g. (K g, map gd_index (filter (\<lambda>x. K x = K g) (hs_gpus s)))) ` set (hs_gpus s)"
    unfolding homogeneous_groups_def K_def by (intro set_eqI) (clarsimp simp: group_by_in image_iff, blast)
  then have "is_homogeneous s \<longleftrightarrow> (\<forall>g \<in> set (hs_gpus s). \<forall>h \<in> set (hs_gpus s). K g = K h)"
    unfolding is_homogeneous_def length_le_1_iff[OF d] by (simp add: ball_simps) metis
  then show ?thesis by (simp add: K_def)
qed

text \<open>Scores of validated topologies are never negative: link counts are counts.\<close>

definition links_nonneg :: "gpu_topology \<Rightarrow> bool" where
  "links_nonneg t \<longleftrightarrow> (\<forall>e \<in> set (gt_edges t). opt_all (\<lambda>n. 0 \<le> n) (te_nvlink_link_count e))"

lemma edge_score_nonneg: "opt_all (\<lambda>n. 0 \<le> n) (te_nvlink_link_count e) \<Longrightarrow> 0 \<le> edge_score e"
  using relationship_scores_range(1)
  by (cases "te_nvlink_link_count e") (auto simp: edge_score_def Let_def max_def intro: add_nonneg_nonneg)

lemma topo_score_nonneg: "links_nonneg t \<Longrightarrow> 0 \<le> topo_score t a b"
  by (auto simp: topo_score_def topo_edge_def links_nonneg_def find_Some_iff edge_score_nonneg
      split: option.split if_splits)

section \<open>Building a topology from NVML answers\<close>

definition ancestor_to_relationship :: "int option \<Rightarrow> topology_relationship" where
  "ancestor_to_relationship level = (case level of None \<Rightarrow> UNKNOWN
     | Some l \<Rightarrow> the_or (map_of [(0, PIX), (10, PIX), (20, PXB), (30, PHB), (40, NODE), (50, SYS)] l) UNKNOWN)"

text \<open>The pairs \<open>(a, b)\<close> with \<open>a\<close> before \<open>b\<close>, in the order of the nested loops.\<close>

fun pairs_of :: "'a list \<Rightarrow> ('a \<times> 'a) list" where
  "pairs_of [] = []"
| "pairs_of (x # xs) = map (Pair x) xs @ pairs_of xs"

lemma set_pairs_of_sorted:
  assumes "sorted xs" "distinct xs"
  shows "set (pairs_of xs) = {(a, b). a \<in> set xs \<and> b \<in> set xs \<and> a < b}"
  using assms by (induction xs) (auto simp: less_le)

lemma distinct_pairs_of: "distinct xs \<Longrightarrow> distinct (pairs_of xs)"
proof (induction xs)
  case (Cons x xs)
  have "(a, b) \<in> set (pairs_of ys) \<Longrightarrow> a \<in> set ys" for a b and ys :: "'a list"
    by (induction ys) auto
  then show ?case using Cons by (auto simp: distinct_map inj_on_def)
qed simp

text \<open>Relationships given as text or as the enum both end up as the enum's value text.\<close>

definition build_edge ::
  "((int \<times> int) \<rightharpoonup> string) \<Rightarrow> ((int \<times> int) \<rightharpoonup> int) \<Rightarrow> (int \<rightharpoonup> int) option \<Rightarrow> int \<times> int \<Rightarrow> topology_edge" where
  "build_edge pcie nvl nvs key =
     (let (a, b) = key;
          rel_value = the_or (pcie key) (relationship_value UNKNOWN);
          links = the_or (nvl key) 0;
          links = (case nvs of None \<Rightarrow> links
            | Some sw \<Rightarrow> if the_or (sw a) 0 > 0 \<and> the_or (sw b) 0 > 0
                then max links (min (the_or (sw a) 0) (the_or (sw b) 0)) else links);
          nvlink = (links > 0)
      in \<lparr>te_gpu_a = a, te_gpu_b = b,
          te_relationship = (if nvlink then relationship_value NVLINK else rel_value),
          te_nvlink_detected = nvlink, te_nvlink_link_count = (if nvlink then Some links else None)\<rparr>)"

definition build_topology ::
  "int list \<Rightarrow> ((int \<times> int) \<rightharpoonup> string) \<Rightarrow> ((int \<times> int) \<rightharpoonup> int) \<Rightarrow> (int \<rightharpoonup> int) option \<Rightarrow> gpu_topology" where
  "build_topology ids pcie nvl nvs =
     \<lparr>gt_edges = map (build_edge pcie nvl nvs) (pairs_of (sort (remdups ids))),
      gt_available = True, gt_error = None\<rparr>"

definition unavailable_topology :: "string \<Rightarrow> gpu_topology" where
  "unavailable_topology err = \<lparr>gt_edges = [], gt_available = False, gt_error = Some err\<rparr>"

lemma build_edge_fields [simp]:
  "te_gpu_a (build_edge p n s k) = fst k" "te_gpu_b (build_edge p n s k) = snd k"
  by (simp_all add: build_edge_def Let_def split: prod.split)

lemma build_topology_links: "links_nonneg (build_topology ids p n s)"
  by (auto simp: links_nonneg_def build_topology_def build_edge_def Let_def split: prod.splits)

text \<open>
  The topology built for a set of GPUs answers for every pair of them, in either order of
  the arguments: exactly one edge joins the two, it is the one computed for the ordered pair,
  and its score is not negative.
\<close>

theorem build_topology_lookup:
  assumes "a \<in> set ids" "b \<in> set ids" "a < b"
  shows "topo_edge (build_topology ids p n s) a b = Some (build_edge p n s (a, b)) \<and>
    topo_edge (build_topology ids p n s) b a = Some (build_edge p n s (a, b)) \<and>
    0 \<le> topo_score (build_topology ids p n s) a b"
proof -
  let ?ps = "pairs_of (sort (remdups ids))"
  have ps: "(a, b) \<in> set ?ps" using assms by (simp add: set_pairs_of_sorted)
  have "find (\<lambda>e. te_gpu_a e = a \<and> te_gpu_b e = b) (map (build_edge p n s) qs) = Some (build_edge p n s (a, b))"
    if "(a, b) \<in> set qs" for qs
    using that by (induction qs) (auto simp: prod_eq_iff)
  then have "topo_edge (build_topology ids p n s) a b = Some (build_edge p n s (a, b))"
    using ps assms(3) by (simp add: topo_edge_def build_topology_def)
  then show ?thesis using topo_edge_commute topo_score_nonneg[OF build_topology_links] by metis
qed

lemma build_topology_lookup_witness:
  "topo_edge (build_topology [2, 0, 1] (\<lambda>_. None) [(0, 2) \<mapsto> 4] None) 2 0 =
     Some (build_edge (\<lambda>_. None) [(0, 2) \<mapsto> 4] None (0, 2))"
  using build_topology_lookup[of 0 "[2, 0, 1]" 2 "\<lambda>_. None" "[(0, 2) \<mapsto> 4]" None] by simp

end
