(* ===== verification/Model.thy ===== *)
theory Model
  imports PyText
begin

text \<open>
  Model profiles (\<^verbatim>\<open>schemas/model.py\<close>), the JSON values their configuration holds, and the
  KV-cache estimators (\<^verbatim>\<open>models/kv_cache.py\<close>).
\<close>

section \<open>JSON values and Python truthiness\<close>

datatype json = JNull | JBool bool | JInt int | JFloat float64 | JStr string
  | JArr "json list" | JObj "(string \<times> json) list"

fun json_truthy :: "json \<Rightarrow> bool" where
  "json_truthy JNull = False"
| "json_truthy (JBool b) = b"
| "json_truthy (JInt i) = (i \<noteq> 0)"
| "json_truthy (JFloat x) = (x \<noteq> 0)"
| "json_truthy (JStr s) = (s \<noteq> [])"
| "json_truthy (JArr xs) = (xs \<noteq> [])"
| "json_truthy (JObj kvs) = (kvs \<noteq> [])"

text \<open>\<^verbatim>\<open>repr\<close> and \<^verbatim>\<open>str\<close> of a JSON value; quotes inside text are not escaped here.\<close>

fun json_repr :: "json \<Rightarrow> string" where
  "json_repr JNull = ''None''"
| "json_repr (JBool b) = (if b then ''True'' else ''False'')"
| "json_repr (JInt i) = str_int i"
| "json_repr (JFloat x) = repr_float x"
| "json_repr (JStr s) = str_repr s"
| "json_repr (JArr xs) = ''['' @ str_join '', '' (map json_repr xs) @ '']''"
| "json_repr (JObj kvs) = ''{'' @ str_join '', '' (map (\<lambda>(k, v). str_repr k @ '': '' @ json_repr v) kvs) @ ''}''"

definition json_str :: "json \<Rightarrow> string" where
  "json_str v = (case v of JStr s \<Rightarrow> s | _ \<Rightarrow> json_repr v)"

text \<open>\<^verbatim>\<open>None\<close> and \<^verbatim>\<open>0\<close> are falsy, and \<^verbatim>\<open>a or b\<close> is the first truthy of the two, else \<open>b\<close>.\<close>

definition truthy :: "int option \<Rightarrow> bool" where
  "truthy x = (case x of None \<Rightarrow> False | Some n \<Rightarrow> n \<noteq> 0)"

definition or_else :: "int option \<Rightarrow> int option \<Rightarrow> int option" where
  "or_else a b = (if truthy a then a else b)"

lemma truthy_simps [simp]: "\<not> truthy None" "truthy (Some n) \<longleftrightarrow> n \<noteq> 0" by (simp_all add: truthy_def)
lemma truthy_iff: "truthy x \<longleftrightarrow> (\<exists>n. x = Some n \<and> n \<noteq> 0)" by (cases x) auto

section \<open>Profiles\<close>

datatype weight_size_source = Local_files | Huggingface_metadata | Safetensors_metadata | Estimated | Unknown_source

fun source_value :: "weight_size_source \<Rightarrow> string" where
  "source_value Local_files = ''local_files''"
| "source_value Huggingface_metadata = ''huggingface_metadata''"
| "source_value Safetensors_metadata = ''safetensors_metadata''"
| "source_value Estimated = ''estimated''"
| "source_value Unknown_source = ''unknown''"

datatype attention_kind = MHA | GQA | MQA | MLA | Unknown_attention

record model_profile =
  mp_model_id :: string
  mp_revision :: "string option"
  mp_local_path :: "string option"
  mp_architecture_names :: "string list"
  mp_model_type :: "string option"
  mp_is_moe :: bool
  mp_is_multimodal :: bool
  mp_attention_kind :: attention_kind
  mp_hidden_size :: "int option"
  mp_intermediate_size :: "int option"
  mp_num_hidden_layers :: "int option"
  mp_num_attention_heads :: "int option"
  mp_num_key_value_heads :: "int option"
  mp_head_dim :: "int option"
  mp_vocab_size :: "int option"
  mp_max_position_embeddings :: "int option"
  mp_sliding_window :: "int option"
  mp_num_experts :: "int option"
  mp_num_experts_per_token :: "int option"
  mp_moe_intermediate_size :: "int option"
  mp_num_shared_experts :: "int option"
  mp_kv_lora_rank :: "int option"
  mp_qk_rope_head_dim :: "int option"
  mp_configured_dtype :: "string option"
  mp_quantization_config :: "(string \<times> json) list option"
  mp_tie_word_embeddings :: "bool option"
  mp_hidden_act :: "string option"
  mp_weight_bytes :: "int option"
  mp_weight_size_source :: weight_size_source
  mp_estimated_parameter_count :: "int option"
  mp_tokenizer_available :: bool
  mp_trust_remote_code_required :: bool
  mp_raw_config :: "(string \<times> json) list"
  mp_warnings :: "string list"

text \<open>The field defaults of the schema.\<close>

definition empty_profile :: "string \<Rightarrow> model_profile" where
  "empty_profile model_id =
     \<lparr>mp_model_id = model_id, mp_revision = None, mp_local_path = None, mp_architecture_names = [],
      mp_model_type = None, mp_is_moe = False, mp_is_multimodal = False,
      mp_attention_kind = Unknown_attention, mp_hidden_size = None, mp_intermediate_size = None,
      mp_num_hidden_layers = None, mp_num_attention_heads = None, mp_num_key_value_heads = None,
      mp_head_dim = None, mp_vocab_size = None, mp_max_position_embeddings = None,
      mp_sliding_window = None, mp_num_experts = None, mp_num_experts_per_token = None,
      mp_moe_intermediate_size = None, mp_num_shared_experts = None, mp_kv_lora_rank = None,
      mp_qk_rope_head_dim = None, mp_configured_dtype = None, mp_quantization_config = None,
      mp_tie_word_embeddings = None, mp_hidden_act = None, mp_weight_bytes = None,
      mp_weight_size_source = Unknown_source, mp_estimated_parameter_count = None,
      mp_tokenizer_available = False, mp_trust_remote_code_required = False, mp_raw_config = [],
      mp_warnings = []\<rparr>"

definition is_quantized :: "model_profile \<Rightarrow> bool" where
  "is_quantized m = (case mp_quantization_config m of None \<Rightarrow> False | Some q \<Rightarrow> q \<noteq> [])"

definition quantization_method :: "model_profile \<Rightarrow> string option" where
  "quantization_method m =
     (case mp_quantization_config m of
        None \<Rightarrow> None
      | Some q \<Rightarrow> if q = [] then None else
          (case map_of q ''quant_method'' of None \<Rightarrow> None | Some JNull \<Rightarrow> None | Some v \<Rightarrow> Some (json_str v)))"

definition weight_bytes_is_exact :: "model_profile \<Rightarrow> bool" where
  "weight_bytes_is_exact m \<longleftrightarrow> mp_weight_size_source m \<in> {Local_files, Huggingface_metadata}"

definition effective_kv_heads :: "model_profile \<Rightarrow> int option" where
  "effective_kv_heads m = or_else (mp_num_key_value_heads m) (mp_num_attention_heads m)"

definition architecture_summary :: "model_profile \<Rightarrow> string" where
  "architecture_summary m =
     (if mp_is_moe m then
        (let experts = (if truthy (mp_num_experts m) then str_opt str_int (mp_num_experts m) @ '' experts''
                        else ''experts unknown'');
             active = (if truthy (mp_num_experts_per_token m)
                       then '', '' @ str_opt str_int (mp_num_experts_per_token m) @ '' active/token'' else [])
         in ''MoE decoder ('' @ experts @ active @ '')'')
      else if mp_is_multimodal m then ''multimodal decoder'' else ''dense decoder'')"

section \<open>Element sizes\<close>

definition dtype_table :: "(string \<times> float64) list" where
  "dtype_table =
     [(''float64'', 8), (''float32'', 4), (''fp32'', 4), (''float16'', 2), (''fp16'', 2), (''half'', 2),
      (''bfloat16'', 2), (''bf16'', 2), (''float8'', 1), (''fp8'', 1), (''float8_e4m3fn'', 1),
      (''float8_e5m2'', 1), (''fp8_e4m3'', 1), (''fp8_e5m2'', 1), (''int8'', 1), (''uint8'', 1),
      (''int32'', 4), (''int64'', 8), (''int4'', 1/2), (''uint4'', 1/2), (''nf4'', 1/2), (''fp4'', 1/2),
      (''f64'', 8), (''f32'', 4), (''f16'', 2), (''f8_e4m3'', 1), (''f8_e5m2'', 1), (''i8'', 1),
      (''u8'', 1), (''i32'', 4), (''i64'', 8), (''bool'', 1)]"

definition dtype_bytes :: "string option \<Rightarrow> float64 option" where
  "dtype_bytes dtype = (case dtype of None \<Rightarrow> None
     | Some d \<Rightarrow> map_of dtype_table (remove_sub ''torch.'' (str_lower d)))"

lemma dtype_table_values: "(k, v) \<in> set dtype_table \<Longrightarrow> v \<in> {1/2, 1, 2, 4, 8}"
  by (auto simp: dtype_table_def)

lemma dtype_bytes_values: "dtype_bytes d = Some v \<Longrightarrow> v \<in> {1/2, 1, 2, 4, 8}"
  by (cases d) (auto simp: dtype_bytes_def dest!: map_of_SomeD dtype_table_values)

section \<open>KV-cache estimates\<close>

datatype confidence = High | Medium | Low | Unknown_confidence

record kv_estimate =
  ke_bytes_per_token_total :: "int option"
  ke_bytes_per_token_per_gpu :: "int option"
  ke_confidence :: confidence
  ke_explanation :: string

definition kv_element_bytes :: "string option \<Rightarrow> string option \<Rightarrow> float64" where
  "kv_element_bytes kv_dtype model_dtype =
     (let explicit = (case kv_dtype of None \<Rightarrow> None
            | Some s \<Rightarrow> if s \<noteq> [] \<and> str_lower s \<noteq> ''auto'' then dtype_bytes kv_dtype else None)
      in case explicit of Some per \<Rightarrow> per | None \<Rightarrow> the_or (dtype_bytes model_dtype) 2)"

lemma kv_element_bytes_values: "kv_element_bytes a b \<in> {1/2, 1, 2, 4, 8}"
  using dtype_bytes_values by (auto simp: kv_element_bytes_def Let_def split: option.splits) (cases "dtype_bytes b"; auto)+

text \<open>\<^verbatim>\<open>{per_elem:g}\<close> on the element sizes, which are \<open>1/2\<close> or whole.\<close>

definition fmt_elem :: "float64 \<Rightarrow> string" where
  "fmt_elem x = (if x = of_int \<lfloor>x\<rfloor> then str_int \<lfloor>x\<rfloor> else fmt_f 1 x)"

definition times_sign :: string where "times_sign = [CHR 0xC3, CHR 0x97]"

definition unknown_kv :: "string \<Rightarrow> kv_estimate" where
  "unknown_kv msg = \<lparr>ke_bytes_per_token_total = None, ke_bytes_per_token_per_gpu = None,
     ke_confidence = Unknown_confidence, ke_explanation = msg\<rparr>"

definition standard_head_dim :: "model_profile \<Rightarrow> int option" where
  "standard_head_dim m = or_else (mp_head_dim m)
     (case (mp_hidden_size m, mp_num_attention_heads m) of
        (Some h, Some n) \<Rightarrow> if h \<noteq> 0 \<and> n \<noteq> 0 then Some (h div n) else None
      | _ \<Rightarrow> None)"

text \<open>\<open>kv_total_bytes\<close> and \<open>kv_rank_bytes\<close> are the two products of the estimator, in its order of
  float operations.\<close>

definition kv_total_bytes :: "int \<Rightarrow> int \<Rightarrow> int \<Rightarrow> float64 \<Rightarrow> int" where
  "kv_total_bytes layers kv_heads head_dim per_elem =
     py_int (fl_mul (fl_int (2 * layers * kv_heads * head_dim)) per_elem)"

definition kv_rank_bytes :: "int \<Rightarrow> int \<Rightarrow> int \<Rightarrow> float64 \<Rightarrow> int \<Rightarrow> int" where
  "kv_rank_bytes layers kv_heads head_dim per_elem tp_size =
     (let heads_per_rank = max (int_div kv_heads tp_size) 1
      in py_int (fl_mul (fl_mul (fl_mul (fl_int (2 * layers)) heads_per_rank) (fl_int head_dim)) per_elem))"

definition standard_estimate :: "model_profile \<Rightarrow> int \<Rightarrow> string option \<Rightarrow> kv_estimate" where
  "standard_estimate m tp_size kv_dtype =
     (case (mp_num_hidden_layers m, effective_kv_heads m, standard_head_dim m) of
        (Some layers, Some kv_heads, Some head_dim) \<Rightarrow>
          if layers = 0 \<or> kv_heads = 0 \<or> head_dim = 0
          then unknown_kv ''configuration lacks layers/kv heads/head_dim''
          else
            (let per_elem = kv_element_bytes kv_dtype (mp_configured_dtype m);
                 total = kv_total_bytes layers kv_heads head_dim per_elem;
                 per_gpu = kv_rank_bytes layers kv_heads head_dim per_elem tp_size;
                 notes = [''2 '' @ times_sign @ '' '' @ str_int layers @ '' layers '' @ times_sign @ '' ''
                   @ str_int kv_heads @ '' KV heads '' @ times_sign @ '' '' @ str_int head_dim @ '' head_dim ''
                   @ times_sign @ '' '' @ fmt_elem per_elem @ '' B = '' @ fmt_commas total @ '' B/token''];
                 (confidence, notes) = (if mp_head_dim m = None
                   then (Medium, notes @ [''head_dim inferred from hidden_size / num_attention_heads''])
                   else (High, notes));
                 (confidence, notes) = (if truthy (mp_sliding_window m)
                   then (Medium, notes @ [''sliding window '' @ str_opt str_int (mp_sliding_window m)
                          @ '' may reduce actual KV usage; estimate is an upper bound''])
                   else (confidence, notes));
                 notes = (if kv_heads < tp_size
                   then notes @ [''KV heads replicated across TP ranks ('' @ str_int kv_heads @ '' heads < TP ''
                          @ str_int tp_size @ '')'']
                   else notes)
             in \<lparr>ke_bytes_per_token_total = Some total, ke_bytes_per_token_per_gpu = Some per_gpu,
                 ke_confidence = confidence, ke_explanation = str_join ''; '' notes\<rparr>)
      | _ \<Rightarrow> unknown_kv ''configuration lacks layers/kv heads/head_dim'')"

definition mla_estimate :: "model_profile \<Rightarrow> int \<Rightarrow> string option \<Rightarrow> kv_estimate" where
  "mla_estimate m tp_size kv_dtype =
     (case (mp_num_hidden_layers m, mp_kv_lora_rank m) of
        (Some layers, Some rank) \<Rightarrow>
          if layers = 0 \<or> rank = 0 then unknown_kv ''MLA configuration lacks kv_lora_rank/layers''
          else
            (let per_elem = kv_element_bytes kv_dtype (mp_configured_dtype m);
                 rope = the_or (mp_qk_rope_head_dim m) 0;
                 latent = rank + rope;
                 total = py_int (fl_mul (fl_int (layers * latent)) per_elem)
             in \<lparr>ke_bytes_per_token_total = Some total, ke_bytes_per_token_per_gpu = Some total,
                 ke_confidence = Medium,
                 ke_explanation = ''MLA: '' @ str_int layers @ '' layers '' @ times_sign @ '' ('' @ str_int rank
                   @ '' latent + '' @ str_int rope @ '' rope) '' @ times_sign @ '' '' @ fmt_elem per_elem @ '' B = ''
                   @ fmt_commas total @ '' B/token, replicated per TP rank''\<rparr>)
      | _ \<Rightarrow> unknown_kv ''MLA configuration lacks kv_lora_rank/layers'')"

definition unknown_estimate :: "model_profile \<Rightarrow> kv_estimate" where
  "unknown_estimate m = unknown_kv (''no KV-cache formula for architecture ''
     @ (case mp_model_type m of Some t \<Rightarrow> if t \<noteq> [] then t
          else if mp_architecture_names m \<noteq> [] then str_list str_repr (mp_architecture_names m) else ''unknown''
        | None \<Rightarrow> if mp_architecture_names m \<noteq> [] then str_list str_repr (mp_architecture_names m) else ''unknown'')
     @ ''; capacity will be established by launch validation'')"

definition NON_STANDARD_MODEL_TYPES :: "string list" where
  "NON_STANDARD_MODEL_TYPES =
     [''mamba'', ''mamba2'', ''jamba'', ''falcon_mamba'', ''recurrent_gemma'', ''rwkv'', ''rwkv6'', ''zamba'',
      ''zamba2'', ''bamba'', ''nemotron_h'', ''granitemoehybrid'']"

datatype kv_estimator = Standard_attention | Mla | Unknown_estimator

definition select_kv_estimator :: "model_profile \<Rightarrow> kv_estimator" where
  "select_kv_estimator m =
     (if str_lower (the_or (mp_model_type m) []) \<in> set NON_STANDARD_MODEL_TYPES then Unknown_estimator
      else if mp_attention_kind m = MLA then Mla
      else if truthy (mp_num_hidden_layers m) \<and> truthy (effective_kv_heads m)
              \<and> (truthy (mp_head_dim m) \<or> truthy (mp_hidden_size m)) then Standard_attention
      else Unknown_estimator)"

definition estimate_kv :: "model_profile \<Rightarrow> int \<Rightarrow> string option \<Rightarrow> kv_estimate" where
  "estimate_kv m tp_size kv_dtype =
     (case select_kv_estimator m of
        Standard_attention \<Rightarrow> standard_estimate m tp_size kv_dtype
      | Mla \<Rightarrow> mla_estimate m tp_size kv_dtype
      | Unknown_estimator \<Rightarrow> unknown_estimate m)"

section \<open>Sharding across tensor-parallel ranks\<close>

lemma int_mult_ge1: "1 \<le> a \<Longrightarrow> 1 \<le> b \<Longrightarrow> 1 \<le> a * (b :: int)"
  using mult_mono[of 1 a 1 b] by simp

lemma int_le_mult: "1 \<le> a \<Longrightarrow> 1 \<le> b \<Longrightarrow> a \<le> a * (b :: int)"
  using mult_left_mono[of 1 b a] by simp

lemma element_halves:
  assumes "(x :: float64) \<in> {1/2, 1, 2, 4, 8}" obtains k where "x = of_int k / 2" "1 \<le> k" "k \<le> 16"
proof -
  from assms consider "x = of_int 1 / 2" | "x = of_int 2 / 2" | "x = of_int 4 / 2" | "x = of_int 8 / 2" | "x = of_int 16 / 2"
    by auto
  then show thesis by cases (use that in force)+
qed

text \<open>With products below \<open>2 ^ 53\<close> every float operation of the estimator is exact.\<close>

lemma kv_total_exact:
  assumes "x = of_int k / 2" "1 \<le> k" "1 \<le> layers" "1 \<le> kv" "1 \<le> hdm" "2 * layers * kv * hdm * k < 2 ^ 53"
  shows "kv_total_bytes layers kv hdm x = layers * kv * hdm * k"
proof -
  let ?N = "2 * layers * kv * hdm"
  have N: "1 \<le> ?N" using assms(3-5) by (intro int_mult_ge1) auto
  then have "?N \<le> ?N * k" using assms(2) by (rule int_le_mult)
  then have N53: "\<bar>?N\<bar> < 2 ^ 53" using N assms(6) by linarith
  have "fl_mul (fl_int ?N) x = fl (of_int (?N * k) / 2)"
    unfolding fl_mul_def fl_int_exact[OF N53] assms(1) by simp
  also have "\<dots> = of_int (?N * k) / 2"
    using int_mult_ge1[OF N assms(2)] assms(6) by (intro fl_half) linarith
  also have "\<dots> = of_int (layers * kv * hdm * k)" by simp
  finally show ?thesis by (simp only: kv_total_bytes_def py_int_of_int)
qed

lemma kv_rank_exact:
  assumes x: "x = of_int k / 2" "1 \<le> k" and "1 \<le> layers" "1 \<le> h" "1 \<le> hdm"
    and bound: "2 * layers * h * hdm * k < 2 ^ 53" and h: "max (int_div kv tp) 1 = of_int h"
  shows "kv_rank_bytes layers kv hdm x tp = layers * h * hdm * k"
proof -
  let ?a = "2 * layers" and ?b = "2 * layers * h" and ?c = "2 * layers * h * hdm"
  have a: "1 \<le> ?a" using assms(3) by simp
  have b: "1 \<le> ?b" using a assms(4) by (rule int_mult_ge1)
  have c: "1 \<le> ?c" using b assms(5) by (rule int_mult_ge1)
  have "?a \<le> ?b" "?b \<le> ?c" "?c \<le> ?c * k" "hdm \<le> hdm * ?b"
    using int_le_mult[OF a assms(4)] int_le_mult[OF b assms(5)] int_le_mult[OF c x(2)] int_le_mult[OF assms(5) b] by auto
  moreover have "hdm * ?b = ?c" by simp
  ultimately have lt: "\<bar>?a\<bar> < 2 ^ 53" "\<bar>?b\<bar> < 2 ^ 53" "\<bar>?c\<bar> < 2 ^ 53" "\<bar>hdm\<bar> < 2 ^ 53"
    using a b c assms(5) bound by linarith+
  have "fl_mul (fl_int ?a) (of_int h) = of_int ?b"
    unfolding fl_mul_def fl_int_exact[OF lt(1)] using fl_of_int[OF lt(2)] by simp
  moreover have "fl_mul (of_int ?b) (fl_int hdm) = of_int ?c"
    unfolding fl_mul_def fl_int_exact[OF lt(4)] using fl_of_int[OF lt(3)] by simp
  moreover have "fl_mul (of_int ?c) x = of_int (layers * h * hdm * k)"
  proof -
    have "fl_mul (of_int ?c) x = fl (of_int (?c * k) / 2)" unfolding fl_mul_def x(1) by simp
    also have "\<dots> = of_int (?c * k) / 2"
      using int_mult_ge1[OF c x(2)] bound by (intro fl_half) linarith
    finally show ?thesis by simp
  qed
  ultimately show ?thesis by (simp only: kv_rank_bytes_def h Let_def py_int_of_int)
qed

lemma int_div_1_le: "1 \<le> kv \<Longrightarrow> kv \<le> tp \<Longrightarrow> max (int_div kv tp) 1 = 1"
  by (simp add: int_div_def max_def fl_le_1)

lemma int_div_dvd: "tp dvd kv \<Longrightarrow> 1 \<le> tp \<Longrightarrow> 1 \<le> kv \<Longrightarrow> kv < 2 ^ 53 \<Longrightarrow> max (int_div kv tp) 1 = of_int (kv div tp)"
proof -
  assume "tp dvd kv" "1 \<le> tp" "1 \<le> kv" "kv < 2 ^ 53"
  then obtain q where q: "kv = tp * q" by (auto elim: dvdE)
  with \<open>1 \<le> tp\<close> \<open>1 \<le> kv\<close> have q1: "1 \<le> q" by (metis add_0 int_one_le_iff_zero_less zero_less_mult_pos zless_add1_eq)
  have "1 * q \<le> tp * q" using \<open>1 \<le> tp\<close> q1 by (intro mult_right_mono) auto
  then have "\<bar>q\<bar> < 2 ^ 53" using q q1 \<open>kv < 2 ^ 53\<close> by linarith
  then have "fl (of_int q) = of_int q" by (rule fl_of_int)
  then show ?thesis using q q1 \<open>1 \<le> tp\<close> by (simp add: int_div_def max_def)
qed

text \<open>
  For a model with standard attention the per-GPU bytes of a token are the exact share of the
  whole model's: multiplied by the ranks they give the total when the tensor-parallel size
  divides the KV heads, and multiplied by the heads when there are fewer heads than ranks
  (every rank then holds one replicated head).  No float rounding disturbs either.
\<close>

theorem standard_estimate_shares:
  assumes "mp_num_hidden_layers m = Some layers" "effective_kv_heads m = Some kv" "standard_head_dim m = Some hdm"
    and pos: "1 \<le> layers" "1 \<le> kv" "1 \<le> hdm" "1 \<le> tp" and bound: "2 * layers * kv * hdm * 16 < 2 ^ 53"
    and est: "e = standard_estimate m tp d"
  shows "\<exists>total per_gpu. ke_bytes_per_token_total e = Some total \<and> ke_bytes_per_token_per_gpu e = Some per_gpu \<and>
    (tp dvd kv \<longrightarrow> per_gpu * tp = total) \<and> (kv \<le> tp \<longrightarrow> per_gpu * kv = total)"
proof -
  define x where "x = kv_element_bytes d (mp_configured_dtype m)"
  obtain k where k: "x = of_int k / 2" "1 \<le> k" "k \<le> 16"
    using kv_element_bytes_values[of d "mp_configured_dtype m"] element_halves x_def by metis
  let ?P = "2 * layers * kv * hdm"
  have P: "1 \<le> ?P" using pos by (intro int_mult_ge1) auto
  have "?P * k \<le> ?P * 16" using k(3) P mult_left_mono[of k 16 ?P] by linarith
  then have b: "?P * k < 2 ^ 53" using bound by linarith
  have "kv * 1 \<le> kv * (2 * layers * hdm)" using pos by (intro mult_left_mono int_mult_ge1) auto
  then have kv53: "kv < 2 ^ 53" using bound P by (simp add: mult_ac)
  have tot: "kv_total_bytes layers kv hdm x = layers * kv * hdm * k" using k b pos by (intro kv_total_exact) auto
  have fields: "ke_bytes_per_token_total e = Some (kv_total_bytes layers kv hdm x)"
    "ke_bytes_per_token_per_gpu e = Some (kv_rank_bytes layers kv hdm x tp)"
    using assms(1-3) pos by (simp_all add: est standard_estimate_def x_def Let_def)
  have rank_le: "2 * layers * h * hdm * k < 2 ^ 53" if "h \<le> kv" for h
  proof -
    have "(2 * layers * hdm * k) * h \<le> (2 * layers * hdm * k) * kv" using that pos k by (intro mult_left_mono) auto
    then show ?thesis using b by (simp add: mult_ac)
  qed
  have one: "kv_rank_bytes layers kv hdm x tp = layers * 1 * hdm * k" if "kv \<le> tp"
    using k pos rank_le[of 1] int_div_1_le[of kv tp] that by (intro kv_rank_exact) auto
  have dvd: "kv_rank_bytes layers kv hdm x tp = layers * (kv div tp) * hdm * k" if "tp dvd kv"
  proof -
    have "kv div tp \<le> kv" using pos by (intro zdiv_mono2[of kv 1 tp, simplified]) auto
    moreover have "1 \<le> kv div tp" using that pos zdvd_imp_le by (fastforce simp: pos_imp_zdiv_pos_iff)
    ultimately show ?thesis
      using k pos rank_le[of "kv div tp"] int_div_dvd[OF that] kv53 by (intro kv_rank_exact) auto
  qed
  show ?thesis unfolding fields
    using one dvd by (auto simp: tot dvd_div_mult_self elim!: dvdE)
qed

definition llama_8b :: model_profile where
  "llama_8b = empty_profile ''meta-llama/Llama-3.1-8B''
     \<lparr>mp_num_hidden_layers := Some 32, mp_num_attention_heads := Some 32, mp_num_key_value_heads := Some 8,
      mp_hidden_size := Some 4096, mp_head_dim := Some 128, mp_configured_dtype := Some ''bfloat16''\<rparr>"

lemma standard_estimate_shares_witness:
  "\<exists>total per_gpu. ke_bytes_per_token_total (standard_estimate llama_8b 4 None) = Some total
     \<and> ke_bytes_per_token_per_gpu (standard_estimate llama_8b 4 None) = Some per_gpu \<and> per_gpu * 4 = total"
  using standard_estimate_shares[of llama_8b 32 8 128 4 "standard_estimate llama_8b 4 None" None]
  by (auto simp: llama_8b_def empty_profile_def effective_kv_heads_def standard_head_dim_def or_else_def truthy_def)

end
