(* ===== verification/Weights.thy ===== *)
theory Weights
  imports Model
begin

text \<open>
  How many bytes of weights a model has (\<^verbatim>\<open>models/weights.py\<close>): which files of a repository count
  as its weights, the sums of their sizes, and the estimate from the architecture when the
  sizes are not known.
\<close>

section \<open>Which files are weights\<close>

definition SAFETENSORS_SUFFIXES :: "string list" where "SAFETENSORS_SUFFIXES = [''.safetensors'']"
definition TORCH_SUFFIXES :: "string list" where "TORCH_SUFFIXES = [''.bin'', ''.pt'', ''.pth'']"
definition GGUF_SUFFIXES :: "string list" where "GGUF_SUFFIXES = [''.gguf'']"

definition ends_with_any :: "string list \<Rightarrow> string \<Rightarrow> bool" where
  "ends_with_any ps s \<longleftrightarrow> (\<exists>p \<in> set ps. ends_with p s)"

text \<open>\<^verbatim>\<open>consolidated\.\d+\.pth$\<close>: digits and nothing else between the two marks, at the end of the
  name or just before its final newline.\<close>

definition numbered_pth :: "string \<Rightarrow> bool" where
  "numbered_pth s =
     (let r = rev s; digits = takeWhile is_digit (drop 4 r)
      in take 4 r = rev ''.pth'' \<and> digits \<noteq> []
         \<and> starts_with (rev ''consolidated.'') (dropWhile is_digit (drop 4 r)))"

definition consolidated_shard :: "string \<Rightarrow> bool" where
  "consolidated_shard s \<longleftrightarrow> numbered_pth s \<or> (s \<noteq> [] \<and> last s = CHR 0x0A \<and> numbered_pth (butlast s))"

definition EXCLUDED_NAME_PATTERNS :: "(string \<Rightarrow> bool) list" where
  "EXCLUDED_NAME_PATTERNS =
     [starts_with ''training_args'', contains ''optimizer'', contains ''scheduler'', contains ''rng_state'',
      starts_with ''adapter_'', consolidated_shard]"

definition base_name :: "string \<Rightarrow> string" where
  "base_name name = last (split_on (CHR ''/'') name)"

definition is_excluded :: "string \<Rightarrow> bool" where
  "is_excluded name \<longleftrightarrow> (\<exists>p \<in> set EXCLUDED_NAME_PATTERNS. p (base_name name))"

datatype weight_format = Safetensors | Torch | Gguf

fun format_value :: "weight_format \<Rightarrow> string" where
  "format_value Safetensors = ''safetensors''"
| "format_value Torch = ''torch''"
| "format_value Gguf = ''gguf''"

definition weight_format_of :: "string \<Rightarrow> weight_format option" where
  "weight_format_of name =
     (if is_excluded name then None
      else if ends_with_any SAFETENSORS_SUFFIXES (str_lower name) then Some Safetensors
      else if ends_with_any TORCH_SUFFIXES (str_lower name) then Some Torch
      else if ends_with_any GGUF_SUFFIXES (str_lower name) then Some Gguf
      else None)"

definition classify_weight_files :: "string list \<Rightarrow> weight_format \<Rightarrow> string list" where
  "classify_weight_files names fmt = filter (\<lambda>n. weight_format_of n = Some fmt) names"

definition select_weight_files :: "string list \<Rightarrow> string list \<times> weight_format option" where
  "select_weight_files names =
     (let buckets = classify_weight_files names
      in case find (\<lambda>fmt. buckets fmt \<noteq> []) [Safetensors, Torch, Gguf] of
           Some fmt \<Rightarrow> (sort (buckets fmt), Some fmt)
         | None \<Rightarrow> ([], None))"

section \<open>Measured sizes\<close>

record weight_size =
  ws_total_bytes :: "int option"
  ws_source :: weight_size_source
  ws_files :: "string list"
  ws_note :: string

definition unknown_size :: "string list \<Rightarrow> string \<Rightarrow> weight_size" where
  "unknown_size files note =
     \<lparr>ws_total_bytes = None, ws_source = Unknown_source, ws_files = files, ws_note = note\<rparr>"

definition files_note :: "nat \<Rightarrow> weight_format option \<Rightarrow> string" where
  "files_note n fmt = str_nat n @ '' '' @ (case fmt of Some f \<Rightarrow> format_value f | None \<Rightarrow> ''none'') @ '' file(s)''"

text \<open>The regular files of the directory with their sizes are read from the file system;
  \<open>None\<close> stands for a path that is not a directory.\<close>

definition measure_local_weights :: "string \<Rightarrow> (string \<times> int) list option \<Rightarrow> weight_size" where
  "measure_local_weights path dir =
     (case dir of
        None \<Rightarrow> unknown_size [] (path @ '' is not a directory'')
      | Some entries \<Rightarrow>
          (case select_weight_files (map fst entries) of (files, fmt) \<Rightarrow>
             if files = [] then unknown_size [] ''no weight files found''
             else \<lparr>ws_total_bytes = Some (sum_list (map (\<lambda>f. the (map_of entries f)) files)),
                   ws_source = Local_files, ws_files = files, ws_note = files_note (length files) fmt\<rparr>))"

definition measure_hub_weights :: "(string \<times> int option) list \<Rightarrow> weight_size" where
  "measure_hub_weights sizes =
     (case select_weight_files (map fst sizes) of (files, fmt) \<Rightarrow>
        if files = [] then unknown_size [] ''repository lists no weight files''
        else
          (let size = (\<lambda>f. the_or (map_of sizes f) None); missing = filter (\<lambda>f. size f = None) files
           in if missing \<noteq> []
              then unknown_size files (''Hub metadata lacks sizes for '' @ str_nat (length missing) @ '' of ''
                     @ str_nat (length files) @ '' files'')
              else \<lparr>ws_total_bytes = Some (sum_list (map (\<lambda>f. the_or (size f) 0) files)),
                    ws_source = Huggingface_metadata, ws_files = files,
                    ws_note = files_note (length files) fmt\<rparr>))"

text \<open>The element sizes are powers of two, so \<^verbatim>\<open>count * per\<close> rounds once whichever way its factors
  are represented.\<close>

definition counted_bytes :: "(string \<times> int) list \<Rightarrow> float64" where
  "counted_bytes counts =
     foldl (\<lambda>total (dtype, count). fl_add total (fl (of_int count * the_or (dtype_bytes (Some dtype)) 2))) 0 counts"

definition bytes_from_safetensors_parameter_counts :: "(string \<times> int) list \<Rightarrow> weight_size" where
  "bytes_from_safetensors_parameter_counts counts =
     (let total = counted_bytes counts
      in if total \<le> 0 then unknown_size [] ''safetensors metadata reported no parameters''
         else \<lparr>ws_total_bytes = Some (py_int total), ws_source = Safetensors_metadata, ws_files = [],
               ws_note = fmt_commas (sum_list (map snd counts)) @ '' parameters''\<rparr>)"

section \<open>Estimates from the architecture\<close>

definition NON_GATED_ACTIVATIONS :: "string list" where
  "NON_GATED_ACTIVATIONS =
     [''gelu'', ''gelu_new'', ''gelu_fast'', ''gelu_pytorch_tanh'', ''quick_gelu'', ''relu'']"

definition int_or :: "int option \<Rightarrow> int \<Rightarrow> int" where
  "int_or x d = (if truthy x then the x else d)"

definition attention_parameters :: "model_profile \<Rightarrow> int \<Rightarrow> int \<Rightarrow> int" where
  "attention_parameters m h heads =
     (let kv_heads = int_or (mp_num_key_value_heads m) heads;
          head_dim = int_or (mp_head_dim m) (h div heads);
          attn = h * heads * head_dim + 2 * h * kv_heads * head_dim + heads * head_dim * h
      in if mp_attention_kind m = MLA \<and> truthy (mp_kv_lora_rank m)
         then py_int (fl_mul (fl_int attn) (fl (9 / 10))) else attn)"

definition mlp_parameters :: "model_profile \<Rightarrow> int \<Rightarrow> int" where
  "mlp_parameters m h =
     (let act = (case mp_hidden_act m of None \<Rightarrow> ''silu'' | Some s \<Rightarrow> if s = [] then ''silu'' else s);
          mats = (if str_lower act \<notin> set NON_GATED_ACTIVATIONS then 3 else 2)
      in if mp_is_moe m \<and> truthy (mp_num_experts m) then
           (let n = the (mp_num_experts m);
                inter = int_or (mp_moe_intermediate_size m) (int_or (mp_intermediate_size m) 0);
                experts = n * mats * h * inter;
                shared = int_or (mp_num_shared_experts m) 0 * mats * h * inter;
                router = h * n
            in experts + shared + router)
         else mats * h * int_or (mp_intermediate_size m) (4 * h))"

definition estimate_parameter_count :: "model_profile \<Rightarrow> int option" where
  "estimate_parameter_count m =
     (case (mp_hidden_size m, mp_num_hidden_layers m, mp_num_attention_heads m) of
        (Some h, Some layers, Some heads) \<Rightarrow>
          if h = 0 \<or> layers = 0 \<or> heads = 0 then None
          else
            (let vocab = int_or (mp_vocab_size m) 0;
                 embeddings = vocab * h;
                 lm_head = (if mp_tie_word_embeddings m = Some True then 0 else vocab * h);
                 norms = 2 * h;
                 per_layer = attention_parameters m h heads + mlp_parameters m h + norms
             in Some (embeddings + lm_head + layers * per_layer + h))
      | _ \<Rightarrow> None)"

text \<open>\<^verbatim>\<open>isinstance(value, int | float)\<close> holds of booleans too.\<close>

fun json_number :: "json \<Rightarrow> float64 option" where
  "json_number (JInt i) = Some (fl_int i)"
| "json_number (JFloat x) = Some x"
| "json_number (JBool b) = Some (if b then 1 else 0)"
| "json_number _ = None"

fun json_int :: "json \<Rightarrow> int option" where
  "json_int (JInt i) = Some i"
| "json_int (JBool b) = Some (if b then 1 else 0)"
| "json_int _ = None"

definition packed_bytes :: "float64 \<Rightarrow> float64" where
  "packed_bytes bits = fl_mul (fl_div bits 8) (fl (11 / 10))"

fun first_bits :: "(string \<times> json) list \<Rightarrow> string list \<Rightarrow> float64 option" where
  "first_bits q [] = None"
| "first_bits q (key # keys) =
     (case map_of q key of
        Some v \<Rightarrow> (case json_number v of
                     Some x \<Rightarrow> if 0 < x then Some (packed_bytes x) else first_bits q keys
                   | None \<Rightarrow> first_bits q keys)
      | None \<Rightarrow> first_bits q keys)"

fun first_group_bits :: "(string \<times> json) list \<Rightarrow> float64 option" where
  "first_group_bits [] = None"
| "first_group_bits ((name, grp) # grps) =
     (case grp of
        JObj g \<Rightarrow>
          (case map_of g ''weights'' of
             Some (JObj w) \<Rightarrow>
               (case map_of w ''num_bits'' of
                  Some v \<Rightarrow> (case json_int v of Some n \<Rightarrow> Some (packed_bytes (fl_int n)) | None \<Rightarrow> first_group_bits grps)
                | None \<Rightarrow> first_group_bits grps)
           | _ \<Rightarrow> first_group_bits grps)
      | _ \<Rightarrow> first_group_bits grps)"

definition json_flag :: "(string \<times> json) list \<Rightarrow> string \<Rightarrow> bool" where
  "json_flag d k = (case map_of d k of None \<Rightarrow> False | Some v \<Rightarrow> json_truthy v)"

definition bytes_of_method :: "(string \<times> json) list \<Rightarrow> string \<Rightarrow> float64 option" where
  "bytes_of_method q method_name =
     (if contains ''fp8'' method_name \<or> contains ''float8'' method_name then Some (fl_mul 1 (fl (102 / 100)))
      else
        (let grouped = (if method_name \<in> {''awq'', ''gptq'', ''compressed-tensors'', ''compressed_tensors''}
               then (case map_of q ''config_groups'' of
                       Some (JObj grps) \<Rightarrow> first_group_bits grps
                     | _ \<Rightarrow> None)
               else None)
         in case grouped of
              Some b \<Rightarrow> Some b
            | None \<Rightarrow>
                if method_name \<in> {''awq'', ''gptq''} then Some (fl_mul (1/2) (fl (11 / 10)))
                else if method_name \<in> {''bitsandbytes'', ''bnb''} then
                  (if json_flag q ''load_in_4bit'' then Some (fl_mul (1/2) (fl (11 / 10)))
                   else if json_flag q ''load_in_8bit'' then Some (fl_mul 1 (fl (105 / 100)))
                   else None)
                else None))"

definition quantized_bytes_per_parameter :: "model_profile \<Rightarrow> float64 option" where
  "quantized_bytes_per_parameter m =
     (case mp_quantization_config m of
        None \<Rightarrow> None
      | Some q \<Rightarrow>
          if q = [] then None
          else (case first_bits q [''bits'', ''weight_bits'', ''w_bit'', ''num_bits''] of
                  Some b \<Rightarrow> Some b
                | None \<Rightarrow> bytes_of_method q
                    (str_lower (case map_of q ''quant_method'' of None \<Rightarrow> [] | Some v \<Rightarrow> json_str v))))"

text \<open>Bytes per parameter with the text Python prints for them: the whole sizes of the dtype table
  are ints, the fallback \<^verbatim>\<open>2.0\<close> and the quantised sizes are floats.\<close>

definition bytes_per_parameter :: "model_profile \<Rightarrow> float64 \<times> string" where
  "bytes_per_parameter m =
     (case quantized_bytes_per_parameter m of
        Some b \<Rightarrow> (b, repr_float b)
      | None \<Rightarrow> (case dtype_bytes (mp_configured_dtype m) of
                   Some b \<Rightarrow> (b, fmt_elem b)
                 | None \<Rightarrow> (2, repr_float 2)))"

definition estimate_weight_bytes :: "model_profile \<Rightarrow> weight_size" where
  "estimate_weight_bytes m =
     (case estimate_parameter_count m of
        None \<Rightarrow> unknown_size [] ''configuration lacks hidden_size/layers/heads''
      | Some params \<Rightarrow>
          (case bytes_per_parameter m of (per_param, shown) \<Rightarrow>
             \<lparr>ws_total_bytes = Some (py_int (fl_mul (fl_int params) per_param)), ws_source = Estimated,
              ws_files = [],
              ws_note = ''~'' @ fmt_f 1 (int_div params 1000000000) @ ''B parameters '' @ times_sign @ '' ''
                        @ shown @ '' B''\<rparr>))"

section \<open>One representation is counted\<close>

lemma all_formats: "(\<forall>f. P f) \<longleftrightarrow> P Safetensors \<and> P Torch \<and> P Gguf"
  by (metis weight_format.exhaust)

lemma select_weight_files_spec:
  assumes "select_weight_files names = (files, fmt)"
  shows "sorted files"
    and "mset files = (case fmt of None \<Rightarrow> {#} | Some f \<Rightarrow> {# n \<in># mset names. weight_format_of n = Some f #})"
    and "fmt = None \<longleftrightarrow> (\<forall>n \<in> set names. weight_format_of n = None)"
proof -
  consider "fmt = None" "files = []" "\<forall>f. classify_weight_files names f = []"
    | f where "fmt = Some f" "files = sort (classify_weight_files names f)" "classify_weight_files names f \<noteq> []"
    using assms unfolding select_weight_files_def Let_def
    by (cases "classify_weight_files names Safetensors = []"; cases "classify_weight_files names Torch = []";
        cases "classify_weight_files names Gguf = []") (auto simp: all_formats)
  note cs = this
  show "sorted files" by (cases rule: cs) auto
  show "mset files = (case fmt of None \<Rightarrow> {#} | Some f \<Rightarrow> {# n \<in># mset names. weight_format_of n = Some f #})"
    by (cases rule: cs) (auto simp: classify_weight_files_def mset_filter)
  show "fmt = None \<longleftrightarrow> (\<forall>n \<in> set names. weight_format_of n = None)"
    by (cases rule: cs; simp add: classify_weight_files_def filter_empty_conv) (metis not_None_eq, metis option.distinct(1))
qed

lemma select_weight_files_preferred:
  assumes "\<exists>n \<in> set names. weight_format_of n = Some Safetensors"
  shows "select_weight_files names = (sort (classify_weight_files names Safetensors), Some Safetensors)"
proof -
  have "classify_weight_files names Safetensors \<noteq> []"
    using assms by (auto simp: classify_weight_files_def filter_empty_conv)
  then show ?thesis by (simp add: select_weight_files_def)
qed

lemma select_weight_files_in:
  "select_weight_files names = (files, fmt) \<Longrightarrow> f \<in> set files \<Longrightarrow> f \<in> set names"
  using select_weight_files_spec(2)[of names files fmt]
  by (cases fmt) (auto dest!: arg_cong[of _ _ set_mset])

text \<open>
  A repository that ships its weights twice is counted once: when it lists safetensors files,
  torch and GGUF duplicates (with or without a reported size) and every other file change neither
  the files selected nor the bytes measured.
\<close>

theorem measure_hub_weights_no_double_count:
  assumes "\<exists>n \<in> fst ` set sizes. weight_format_of n = Some Safetensors"
    and "\<forall>n \<in> fst ` set extra. weight_format_of n \<noteq> Some Safetensors"
  shows "measure_hub_weights (sizes @ extra) = measure_hub_weights sizes"
proof -
  let ?names = "map fst sizes"
  have extra: "filter (\<lambda>n. weight_format_of n = Some Safetensors) (map fst extra) = []"
    using assms(2) by (auto simp: filter_empty_conv)
  have sel: "select_weight_files (map fst (sizes @ extra)) = select_weight_files ?names"
  proof -
    have "select_weight_files (?names @ map fst extra) = (sort (classify_weight_files (?names @ map fst extra) Safetensors), Some Safetensors)"
      by (rule select_weight_files_preferred) (use assms(1) in auto)
    moreover have "select_weight_files ?names = (sort (classify_weight_files ?names Safetensors), Some Safetensors)"
      by (rule select_weight_files_preferred) (use assms(1) in auto)
    ultimately show ?thesis by (simp only: map_append classify_weight_files_def filter_append extra append_Nil2)
  qed
  obtain files fmt where f: "select_weight_files ?names = (files, fmt)" by fastforce
  have same: "map_of (sizes @ extra) n = map_of sizes n" if "n \<in> set files" for n
    using select_weight_files_in[OF f that] by (auto simp: map_add_def dom_map_of_conv_image_fst map_of_eq_None_iff split: option.split)
  have "filter (\<lambda>n. the_or (map_of (sizes @ extra) n) None = None) files = filter (\<lambda>n. the_or (map_of sizes n) None = None) files"
    using same by (intro filter_cong) auto
  moreover have "map (\<lambda>n. the_or (the_or (map_of (sizes @ extra) n) None) 0) files = map (\<lambda>n. the_or (the_or (map_of sizes n) None) 0) files"
    using same by (intro map_cong) auto
  ultimately show ?thesis
    by (simp only: measure_hub_weights_def sel f prod.case Let_def cong: map_cong)
qed

lemma measure_hub_weights_no_double_count_witness:
  "ws_total_bytes (measure_hub_weights
     ([(''model-2.safetensors'', Some 7), (''model-1.safetensors'', Some 5)] @ [(''pytorch_model.bin'', Some 12)])) = Some 12"
proof -
  have "measure_hub_weights ([(''model-2.safetensors'', Some 7), (''model-1.safetensors'', Some 5)] @ [(''pytorch_model.bin'', Some 12)])
      = measure_hub_weights [(''model-2.safetensors'', Some 7), (''model-1.safetensors'', Some 5)]"
    by (rule measure_hub_weights_no_double_count) (code_simp, code_simp)
  moreover have "ws_total_bytes (measure_hub_weights [(''model-2.safetensors'', Some 7), (''model-1.safetensors'', Some 5)]) = Some 12"
    by code_simp
  ultimately show ?thesis by (simp only:)
qed

lemma measure_hub_weights_source:
  "ws_total_bytes (measure_hub_weights sizes) = Some n \<Longrightarrow> ws_source (measure_hub_weights sizes) = Huggingface_metadata"
  by (auto simp: measure_hub_weights_def unknown_size_def Let_def split: prod.splits if_splits)

lemma counted_bytes_source:
  "ws_source (bytes_from_safetensors_parameter_counts c) \<in> {Unknown_source, Safetensors_metadata}"
  by (auto simp: bytes_from_safetensors_parameter_counts_def unknown_size_def Let_def)

lemma estimate_weight_bytes_source:
  "ws_source (estimate_weight_bytes m) \<in> {Unknown_source, Estimated}"
  "ws_total_bytes (estimate_weight_bytes m) = None \<longleftrightarrow> ws_source (estimate_weight_bytes m) = Unknown_source"
  by (auto simp: estimate_weight_bytes_def unknown_size_def split: option.splits prod.splits)

end
