(* ===== verification/Inspector.thy ===== *)
theory Inspector
  imports Weights
begin

text \<open>
  Model inspection (\<^verbatim>\<open>models/inspector.py\<close>): the many key names of \<^verbatim>\<open>config.json\<close> become one profile,
  the weight size is attached with its provenance, and the sources are tried in their order.
\<close>

section \<open>Reading a configuration\<close>

definition TOKENIZER_FILES :: "string list" where
  "TOKENIZER_FILES =
     [''tokenizer.json'', ''tokenizer_config.json'', ''tokenizer.model'', ''vocab.json'', ''spiece.model'']"

definition HIDDEN_KEYS :: "string list" where
  "HIDDEN_KEYS = [''hidden_size'', ''n_embd'', ''d_model'', ''dim'']"
definition INTERMEDIATE_KEYS :: "string list" where
  "INTERMEDIATE_KEYS = [''intermediate_size'', ''n_inner'', ''ffn_dim'', ''ffn_hidden_size'', ''hidden_dim'']"
definition LAYER_KEYS :: "string list" where
  "LAYER_KEYS = [''num_hidden_layers'', ''n_layer'', ''num_layers'', ''n_layers'']"
definition HEAD_KEYS :: "string list" where
  "HEAD_KEYS = [''num_attention_heads'', ''n_head'', ''num_heads'', ''n_heads'']"
definition KV_HEAD_KEYS :: "string list" where
  "KV_HEAD_KEYS = [''num_key_value_heads'', ''num_kv_heads'', ''n_head_kv'', ''num_key_value_groups'']"
definition VOCAB_KEYS :: "string list" where
  "VOCAB_KEYS = [''vocab_size'', ''padded_vocab_size'']"
definition MAX_POS_KEYS :: "string list" where
  "MAX_POS_KEYS =
     [''max_position_embeddings'', ''n_positions'', ''max_seq_len'', ''max_sequence_length'', ''seq_length'']"
definition NUM_EXPERTS_KEYS :: "string list" where
  "NUM_EXPERTS_KEYS =
     [''num_local_experts'', ''num_experts'', ''n_routed_experts'', ''moe_num_experts'', ''num_moe_experts'']"
definition EXPERTS_PER_TOK_KEYS :: "string list" where
  "EXPERTS_PER_TOK_KEYS =
     [''num_experts_per_tok'', ''num_experts_per_token'', ''moe_top_k'', ''top_k'', ''n_activated_experts'']"
definition SHARED_EXPERTS_KEYS :: "string list" where
  "SHARED_EXPERTS_KEYS = [''n_shared_experts'', ''num_shared_experts'', ''moe_num_shared_experts'']"
definition DTYPE_KEYS :: "string list" where
  "DTYPE_KEYS = [''torch_dtype'', ''dtype'']"
definition MULTIMODAL_MARKERS :: "string list" where
  "MULTIMODAL_MARKERS = [''vision_config'', ''audio_config'', ''image_token_index'', ''vision_tower'']"

type_synonym config = "(string \<times> json) list"

text \<open>\<^verbatim>\<open>cfg.get(k)\<close>, with \<open>JNull\<close> for a key that is absent.\<close>

definition get_key :: "config \<Rightarrow> string \<Rightarrow> json" where
  "get_key cfg k = the_or (map_of cfg k) JNull"

definition has_key :: "config \<Rightarrow> string \<Rightarrow> bool" where
  "has_key cfg k \<longleftrightarrow> map_of cfg k \<noteq> None"

fun first_key :: "config \<Rightarrow> string list \<Rightarrow> json" where
  "first_key cfg [] = JNull"
| "first_key cfg (k # ks) = (if get_key cfg k \<noteq> JNull then get_key cfg k else first_key cfg ks)"

fun as_int :: "json \<Rightarrow> int option" where
  "as_int (JInt i) = Some i"
| "as_int (JFloat x) = (if x = of_int \<lfloor>x\<rfloor> then Some \<lfloor>x\<rfloor> else None)"
| "as_int (JStr s) = (if s \<noteq> [] \<and> (\<forall>c \<in> set s. is_digit c) then Some (val_int s) else None)"
| "as_int _ = None"

definition json_or :: "json \<Rightarrow> json \<Rightarrow> json" where
  "json_or a b = (if json_truthy a then a else b)"

definition text_config :: "config \<Rightarrow> config" where
  "text_config raw =
     (case get_key raw ''text_config'' of
        JObj nested \<Rightarrow>
          if \<exists>k \<in> set (HIDDEN_KEYS @ LAYER_KEYS). has_key nested k
          then foldl (\<lambda>merged key. if has_key raw key \<and> \<not> has_key merged key
                                   then merged @ [(key, get_key raw key)] else merged)
                 nested ([''architectures'', ''quantization_config'', ''auto_map''] @ DTYPE_KEYS)
          else raw
      | _ \<Rightarrow> raw)"

text \<open>Iterating over the architectures: a list gives its items, a single name itself, an object its
  keys; any other value that is not empty raises \<^verbatim>\<open>TypeError\<close>.\<close>

definition architecture_items :: "config \<Rightarrow> config \<Rightarrow> json list option" where
  "architecture_items raw cfg =
     (case json_or (get_key raw ''architectures'') (json_or (get_key cfg ''architectures'') (JArr [])) of
        JStr s \<Rightarrow> Some [JStr s]
      | JArr xs \<Rightarrow> Some xs
      | JObj kvs \<Rightarrow> Some (map (JStr \<circ> fst) kvs)
      | _ \<Rightarrow> None)"

text \<open>\<^verbatim>\<open>a.lower()\<close> raises on an item that is not text; the scan stops at the first match.\<close>

fun any_vision :: "json list \<Rightarrow> bool option" where
  "any_vision [] = Some False"
| "any_vision (JStr a # rest) =
     (if contains ''vision'' (str_lower a) \<or> contains ''forconditionalgeneration'' (str_lower a)
      then Some True else any_vision rest)"
| "any_vision (_ # rest) = None"

definition detect_multimodal :: "config \<Rightarrow> json list \<Rightarrow> bool option" where
  "detect_multimodal raw archs =
     (if \<exists>k \<in> set MULTIMODAL_MARKERS. has_key raw k then Some True else any_vision archs)"

definition config_kv_heads :: "config \<Rightarrow> int option \<Rightarrow> int option" where
  "config_kv_heads cfg heads =
     (let kv = as_int (first_key cfg KV_HEAD_KEYS);
          kv = (if kv = None \<and> get_key cfg ''multi_query'' = JBool True then Some 1 else kv)
      in if kv = None \<and> heads \<noteq> None then heads else kv)"

definition config_head_dim :: "config \<Rightarrow> int option \<Rightarrow> int option \<Rightarrow> int option" where
  "config_head_dim cfg hidden heads =
     (case as_int (get_key cfg ''head_dim'') of
        Some d \<Rightarrow> Some d
      | None \<Rightarrow> if truthy hidden \<and> truthy heads then Some (the hidden div the heads) else None)"

definition classify_attention :: "int option \<Rightarrow> int option \<Rightarrow> int option \<Rightarrow> attention_kind" where
  "classify_attention kv_lora_rank heads kv_heads =
     (if truthy kv_lora_rank then MLA
      else if truthy heads \<and> truthy kv_heads then
        (if kv_heads = heads then MHA else if kv_heads = Some 1 then MQA else GQA)
      else Unknown_attention)"

definition config_quantization :: "config \<Rightarrow> config \<Rightarrow> config option" where
  "config_quantization raw cfg =
     (case (if json_truthy (get_key cfg ''quantization_config'') then get_key cfg ''quantization_config''
            else get_key raw ''quantization_config'') of
        JNull \<Rightarrow> None
      | JObj q \<Rightarrow> Some q
      | v \<Rightarrow> Some [(''raw'', v)])"

definition text_or_none :: "json \<Rightarrow> string option" where
  "text_or_none v = (if json_truthy v then Some (json_str v) else None)"

definition core_dimensions_warning :: string where
  "core_dimensions_warning =
     ''configuration is missing core dimensions; memory estimates will be low confidence''"

definition hidden_activation :: "config \<Rightarrow> string option" where
  "hidden_activation cfg =
     (let s = json_str (json_or (get_key cfg ''hidden_act'') (json_or (get_key cfg ''activation_function'') (JStr [])))
      in if s = [] then None else Some s)"

text \<open>The arguments of the constructor call of \<^verbatim>\<open>normalize_config\<close>, from the decoder's configuration.\<close>

definition config_profile ::
    "string \<Rightarrow> config \<Rightarrow> config \<Rightarrow> string option \<Rightarrow> string option \<Rightarrow> bool \<Rightarrow> json list \<Rightarrow> bool \<Rightarrow> model_profile" where
  "config_profile model_id raw cfg revision local_path tokenizer_available archs is_multimodal =
     (let heads = as_int (first_key cfg HEAD_KEYS);
          kv_heads = config_kv_heads cfg heads;
          hidden = as_int (first_key cfg HIDDEN_KEYS);
          layers = as_int (first_key cfg LAYER_KEYS);
          num_experts = as_int (first_key cfg NUM_EXPERTS_KEYS);
          is_moe = (case num_experts of None \<Rightarrow> False | Some n \<Rightarrow> 1 < n);
          kv_lora_rank = as_int (get_key cfg ''kv_lora_rank'');
          tie = get_key cfg ''tie_word_embeddings''
      in (empty_profile model_id)
             \<lparr>mp_revision := revision, mp_local_path := local_path,
              mp_architecture_names := map json_str archs,
              mp_model_type := text_or_none (json_or (get_key raw ''model_type'') (get_key cfg ''model_type'')),
              mp_is_moe := is_moe, mp_is_multimodal := is_multimodal,
              mp_attention_kind := classify_attention kv_lora_rank heads kv_heads,
              mp_hidden_size := hidden,
              mp_intermediate_size := as_int (first_key cfg INTERMEDIATE_KEYS),
              mp_num_hidden_layers := layers, mp_num_attention_heads := heads,
              mp_num_key_value_heads := kv_heads, mp_head_dim := config_head_dim cfg hidden heads,
              mp_vocab_size := as_int (first_key cfg VOCAB_KEYS),
              mp_max_position_embeddings := as_int (first_key cfg MAX_POS_KEYS),
              mp_sliding_window :=
                (if json_truthy (the_or (map_of cfg ''use_sliding_window'') (JBool True))
                 then as_int (get_key cfg ''sliding_window'') else None),
              mp_num_experts := (if is_moe then num_experts else None),
              mp_num_experts_per_token := (if is_moe then as_int (first_key cfg EXPERTS_PER_TOK_KEYS) else None),
              mp_moe_intermediate_size := (if is_moe then as_int (get_key cfg ''moe_intermediate_size'') else None),
              mp_num_shared_experts := (if is_moe then as_int (first_key cfg SHARED_EXPERTS_KEYS) else None),
              mp_kv_lora_rank := kv_lora_rank, mp_qk_rope_head_dim := as_int (get_key cfg ''qk_rope_head_dim''),
              mp_configured_dtype := map_option (remove_sub ''torch.'') (text_or_none (first_key cfg DTYPE_KEYS)),
              mp_quantization_config := config_quantization raw cfg,
              mp_tie_word_embeddings := (if tie = JNull then None else Some (json_truthy tie)),
              mp_hidden_act := hidden_activation cfg,
              mp_tokenizer_available := tokenizer_available,
              mp_trust_remote_code_required :=
                json_truthy (json_or (get_key raw ''auto_map'') (get_key cfg ''auto_map'')),
              mp_raw_config := raw,
              mp_warnings := (if hidden = None \<or> heads = None \<or> layers = None
                              then [core_dimensions_warning] else [])\<rparr>)"

definition normalize_config ::
    "string \<Rightarrow> config \<Rightarrow> string option \<Rightarrow> string option \<Rightarrow> bool \<Rightarrow> model_profile option" where
  "normalize_config model_id raw revision local_path tokenizer_available =
     (let cfg = text_config raw in
      case architecture_items raw cfg of
        None \<Rightarrow> None
      | Some archs \<Rightarrow>
          (case detect_multimodal raw archs of
             None \<Rightarrow> None
           | Some is_multimodal \<Rightarrow>
               (let profile = config_profile model_id raw cfg revision local_path tokenizer_available archs is_multimodal
                in Some (profile \<lparr>mp_estimated_parameter_count := estimate_parameter_count profile\<rparr>))))"

section \<open>Attaching the weight size\<close>

definition apply_weight_size :: "model_profile \<Rightarrow> weight_size \<Rightarrow> model_profile" where
  "apply_weight_size profile sz =
     (case ws_total_bytes sz of
        None \<Rightarrow>
          (let est = estimate_weight_bytes profile;
               p = profile\<lparr>mp_weight_bytes := ws_total_bytes est, mp_weight_size_source := ws_source est\<rparr>
           in if ws_note sz \<noteq> []
              then p\<lparr>mp_warnings := mp_warnings p @
                     [''exact weight size unavailable ('' @ ws_note sz @ ''); using estimate'']\<rparr>
              else p)
      | Some n \<Rightarrow> profile\<lparr>mp_weight_bytes := Some n, mp_weight_size_source := ws_source sz\<rparr>)"

section \<open>Local directories\<close>

text \<open>What the file system and the JSON parser say of \<^verbatim>\<open>config.json\<close>.\<close>

datatype config_file = No_config | Unreadable_config string | Parsed_config json

record local_model =
  lm_path :: string
  lm_resolved :: string
  lm_config :: config_file
  lm_files :: "(string \<times> int) list option"

datatype inspect_error = Model_inspection_error string "string list" | Python_type_error

definition inspect_local_model :: "local_model \<Rightarrow> string option \<Rightarrow> inspect_error + model_profile" where
  "inspect_local_model d model_id =
     (case lm_config d of
        No_config \<Rightarrow> Inl (Model_inspection_error (lm_path d @ '' does not contain a config.json'')
          [''Point ServePilot at the directory that holds config.json and the weight files.''])
      | Unreadable_config e \<Rightarrow>
          Inl (Model_inspection_error (''could not read '' @ lm_path d @ ''/config.json: '' @ e) [])
      | Parsed_config (JObj raw) \<Rightarrow>
          (let tokenizer = (\<exists>n \<in> set TOKENIZER_FILES. n \<in> fst ` set (the_or (lm_files d) []));
               name = (case model_id of Some m \<Rightarrow> if m = [] then lm_path d else m | None \<Rightarrow> lm_path d)
           in case normalize_config name raw None (Some (lm_resolved d)) tokenizer of
                None \<Rightarrow> Inl Python_type_error
              | Some p \<Rightarrow> Inr (apply_weight_size p (measure_local_weights (lm_path d) (lm_files d))))
      | Parsed_config _ \<Rightarrow>
          Inl (Model_inspection_error (lm_path d @ ''/config.json does not contain a JSON object'') []))"

section \<open>The Hub\<close>

text \<open>What the Hub client raises for a repository, in the order the handlers are tried.\<close>

datatype hub_failure = Invalid_model_id | Gated_repo | Repository_not_found | Revision_not_found
  | Hub_http_error "int option" string | Hub_unreachable string

definition hub_error :: "string \<Rightarrow> string option \<Rightarrow> hub_failure \<Rightarrow> inspect_error" where
  "hub_error model_id revision e =
     (case e of
        Invalid_model_id \<Rightarrow> Model_inspection_error
          (str_repr model_id @ '' is not a valid Hugging Face model id or local directory.'')
          [''Model ids look like `org/name`; local models must be a directory containing config.json.'']
      | Gated_repo \<Rightarrow> Model_inspection_error
          (model_id @ '' is a gated model and your credentials do not grant access.'')
          [''Accept the model'' @ [CHR 0x27] @ ''s license at https://huggingface.co/'' @ model_id,
           ''Log in with `huggingface-cli login` or set HF_TOKEN.'']
      | Repository_not_found \<Rightarrow> Model_inspection_error
          (''model repository '' @ str_repr model_id @ '' was not found on the Hugging Face Hub.'')
          [''Check the spelling of the model id (it is case sensitive).'',
           ''Private repositories require HF_TOKEN with read access.'',
           ''For a local model, pass the directory path instead.'']
      | Revision_not_found \<Rightarrow> Model_inspection_error
          (''revision '' @ str_opt str_repr revision @ '' does not exist for '' @ model_id @ ''.'')
          [''List branches/tags on the model page and pass a valid --revision.'']
      | Hub_http_error status shown \<Rightarrow>
          (if status = Some 401 \<or> status = Some 403
           then Model_inspection_error
             (''access to '' @ model_id @ '' was denied (HTTP '' @ str_opt str_int status @ '').'')
             [''Set HF_TOKEN to a token with read access to this repository.'']
           else Model_inspection_error (''Hugging Face Hub request failed for '' @ model_id @ '': '' @ shown) [])
      | Hub_unreachable shown \<Rightarrow> Model_inspection_error
          (''could not reach the Hugging Face Hub to inspect '' @ model_id @ '': '' @ shown)
          [''Check network connectivity to https://huggingface.co'',
           ''Set HF_HUB_OFFLINE=1 and pass a local model directory to work offline.''])"

record hub_info =
  hi_sha :: "string option"
  hi_siblings :: "(string option \<times> int option) list"

text \<open>The client library: the repository's metadata, the download of \<^verbatim>\<open>config.json\<close>, and the
  parameter counts of the safetensors headers where it can read them.\<close>

record hub_api =
  ha_model_info :: "string \<Rightarrow> string option \<Rightarrow> hub_failure + hub_info"
  ha_config :: "string \<Rightarrow> string option \<Rightarrow> string + json"
  ha_parameter_counts :: "string \<Rightarrow> string option \<Rightarrow> (string \<times> int) list option"

definition truthy_text :: "string option \<Rightarrow> bool" where
  "truthy_text x \<longleftrightarrow> (case x of None \<Rightarrow> False | Some t \<Rightarrow> t \<noteq> [])"

definition sibling_sizes :: "(string option \<times> int option) list \<Rightarrow> (string \<times> int option) list" where
  "sibling_sizes sibs =
     foldl (\<lambda>d (name, n). if truthy_text name then AList.update (the name) n d else d) [] sibs"

definition safetensors_metadata :: "hub_api \<Rightarrow> string \<Rightarrow> string option \<Rightarrow> weight_size option" where
  "safetensors_metadata hub model_id revision =
     (case ha_parameter_counts hub model_id revision of
        None \<Rightarrow> None
      | Some counts \<Rightarrow> if counts = [] then None else Some (bytes_from_safetensors_parameter_counts counts))"

definition hub_weight_size :: "hub_api \<Rightarrow> string \<Rightarrow> string option \<Rightarrow> (string \<times> int option) list \<Rightarrow> weight_size" where
  "hub_weight_size hub model_id revision sizes =
     (let sz = measure_hub_weights sizes
      in if ws_total_bytes sz = None then the_or (safetensors_metadata hub model_id revision) sz else sz)"

definition inspect_hub :: "hub_api \<Rightarrow> string \<Rightarrow> string option \<Rightarrow> inspect_error + model_profile" where
  "inspect_hub hub model_id revision =
     (case ha_model_info hub model_id revision of
        Inl e \<Rightarrow> Inl (hub_error model_id revision e)
      | Inr info \<Rightarrow>
          (let resolved = (if truthy_text (hi_sha info) then hi_sha info else revision) in
           case ha_config hub model_id resolved of
             Inl e \<Rightarrow> Inl (Model_inspection_error
                        (''could not download or parse config.json for '' @ model_id @ '': '' @ e) [])
           | Inr (JObj raw) \<Rightarrow>
               (let sizes = sibling_sizes (hi_siblings info);
                    tokenizer = (\<exists>n \<in> set TOKENIZER_FILES. n \<in> fst ` set sizes)
                in case normalize_config model_id raw resolved None tokenizer of
                     None \<Rightarrow> Inl Python_type_error
                   | Some p \<Rightarrow> Inr (apply_weight_size p (hub_weight_size hub model_id resolved sizes)))
           | Inr _ \<Rightarrow> Inl (Model_inspection_error
                        (''config.json for '' @ model_id @ '' is not a JSON object'') [])))"

section \<open>The inspector\<close>

type_synonym inspect_cache = "((string \<times> string option) \<times> model_profile) list"

definition looks_like_path :: "string \<Rightarrow> bool" where
  "looks_like_path model \<longleftrightarrow>
     (\<exists>p \<in> {''/'', ''./'', ''../'', ''~''}. starts_with p model) \<or> 1 < length (filter (\<lambda>c. c = CHR ''/'') model)"

text \<open>\<open>local_dir\<close> is what the file system has at the path, \<open>None\<close> when it is no directory.\<close>

definition inspect ::
    "hub_api \<Rightarrow> (string \<Rightarrow> local_model option) \<Rightarrow> inspect_cache \<Rightarrow> string \<Rightarrow> string option
     \<Rightarrow> (inspect_error + model_profile) \<times> inspect_cache" where
  "inspect hub local_dir cache model revision =
     (case map_of cache (model, revision) of
        Some p \<Rightarrow> (Inr p, cache)
      | None \<Rightarrow>
          (let r = (case local_dir model of
                      Some d \<Rightarrow> inspect_local_model d (Some model)
                    | None \<Rightarrow>
                        if looks_like_path model
                        then Inl (Model_inspection_error
                          (str_repr model @ '' looks like a local path but is not a directory containing config.json.'')
                          [''Check the path, or pass a Hugging Face model id such as Qwen/Qwen3-32B.''])
                        else inspect_hub hub model revision)
           in case r of Inl e \<Rightarrow> (Inl e, cache)
                      | Inr p \<Rightarrow> (Inr p, AList.update (model, revision) p cache)))"

section \<open>Exact sizes are measured sizes\<close>

lemma apply_weight_size_exact:
  assumes "weight_bytes_is_exact (apply_weight_size p sz)"
  shows "ws_total_bytes sz \<noteq> None \<and> mp_weight_bytes (apply_weight_size p sz) = ws_total_bytes sz
    \<and> ws_source sz \<in> {Local_files, Huggingface_metadata}"
proof (cases "ws_total_bytes sz")
  case None
  then have "mp_weight_size_source (apply_weight_size p sz) = ws_source (estimate_weight_bytes p)"
    by (simp add: apply_weight_size_def Let_def)
  then show ?thesis using assms estimate_weight_bytes_source(1)[of p] by (auto simp: weight_bytes_is_exact_def)
next
  case (Some n)
  then show ?thesis using assms by (simp add: apply_weight_size_def weight_bytes_is_exact_def)
qed

lemma measure_hub_weights_total:
  assumes "ws_total_bytes (measure_hub_weights sizes) = Some n"
  shows "\<exists>files fmt. select_weight_files (map fst sizes) = (files, fmt) \<and> files \<noteq> []
    \<and> (\<forall>f \<in> set files. \<exists>k. map_of sizes f = Some (Some k))
    \<and> n = sum_list (map (\<lambda>f. the (the (map_of sizes f))) files)"
proof -
  obtain files fmt where f: "select_weight_files (map fst sizes) = (files, fmt)" by fastforce
  let ?size = "\<lambda>f. the_or (map_of sizes f) None"
  have ne: "files \<noteq> []" and all: "\<forall>f \<in> set files. ?size f \<noteq> None"
    and n: "n = sum_list (map (\<lambda>f. the_or (?size f) 0) files)"
    using assms by (auto simp: measure_hub_weights_def f unknown_size_def Let_def filter_empty_conv split: if_splits)
  have known: "\<exists>k. map_of sizes f = Some (Some k)" if "f \<in> set files" for f
    using all that by (cases "map_of sizes f") auto
  then have "map (\<lambda>f. the_or (?size f) 0) files = map (\<lambda>f. the (the (map_of sizes f))) files"
    by (intro map_cong refl) force
  then show ?thesis using f ne n known by metis
qed

lemma safetensors_metadata_source:
  "safetensors_metadata hub m r = Some sz \<Longrightarrow> ws_source sz \<in> {Unknown_source, Safetensors_metadata}"
  using counted_bytes_source by (auto simp: safetensors_metadata_def split: option.splits if_splits)

text \<open>
  An estimate is never presented as an exact size: when the profile the Hub inspection returns
  says its weight bytes are exact, the Hub reported a size for every file of the one
  representation selected, and the bytes are the sum of those sizes.
\<close>

theorem inspect_hub_exact_weights:
  assumes "inspect_hub hub model revision = Inr p" and "weight_bytes_is_exact p"
  shows "\<exists>info files fmt. ha_model_info hub model revision = Inr info
    \<and> (let sizes = sibling_sizes (hi_siblings info)
       in select_weight_files (map fst sizes) = (files, fmt) \<and> files \<noteq> []
          \<and> (\<forall>f \<in> set files. \<exists>k. map_of sizes f = Some (Some k))
          \<and> mp_weight_bytes p = Some (sum_list (map (\<lambda>f. the (the (map_of sizes f))) files)))"
proof -
  obtain info q resolved where info: "ha_model_info hub model revision = Inr info"
    and p: "p = apply_weight_size q (hub_weight_size hub model resolved (sibling_sizes (hi_siblings info)))"
    using assms(1) by (auto simp: inspect_hub_def Let_def split: sum.splits json.splits option.splits)
  define sizes where "sizes = sibling_sizes (hi_siblings info)"
  define sz where "sz = hub_weight_size hub model resolved sizes"
  have ex: "ws_total_bytes sz \<noteq> None" "mp_weight_bytes p = ws_total_bytes sz"
    "ws_source sz \<in> {Local_files, Huggingface_metadata}"
    using apply_weight_size_exact[of q sz] assms(2) unfolding p sz_def sizes_def by auto
  have "ws_total_bytes (measure_hub_weights sizes) \<noteq> None"
  proof
    assume none: "ws_total_bytes (measure_hub_weights sizes) = None"
    then have "sz = the_or (safetensors_metadata hub model resolved) (measure_hub_weights sizes)"
      by (simp add: sz_def hub_weight_size_def)
    then show False using none ex safetensors_metadata_source[of hub model resolved sz]
      by (cases "safetensors_metadata hub model resolved") auto
  qed
  moreover from this have "sz = measure_hub_weights sizes" by (auto simp: sz_def hub_weight_size_def Let_def)
  ultimately obtain n where "ws_total_bytes (measure_hub_weights sizes) = Some n" "mp_weight_bytes p = Some n"
    using ex by auto
  then show ?thesis using measure_hub_weights_total[of sizes n] info unfolding sizes_def Let_def by metis
qed

definition demo_hub :: hub_api where
  "demo_hub = \<lparr>ha_model_info = (\<lambda>m r. Inr \<lparr>hi_sha = None,
       hi_siblings = [(Some ''config.json'', Some 3), (Some ''model.safetensors'', Some 5), (Some ''model.bin'', None)]\<rparr>),
     ha_config = (\<lambda>m r. Inr (JObj [(''architectures'', JArr [JStr ''LlamaForCausalLM'']), (''model_type'', JStr ''llama''),
       (''hidden_size'', JInt 64), (''num_attention_heads'', JInt 4), (''n_layer'', JInt 2)])),
     ha_parameter_counts = (\<lambda>m r. None)\<rparr>"

lemma inspect_hub_exact_weights_witness:
  "\<exists>p. inspect_hub demo_hub ''org/m'' None = Inr p \<and> weight_bytes_is_exact p
     \<and> (\<exists>files. files \<noteq> [] \<and> mp_weight_bytes p = Some (sum_list (map (\<lambda>f. the (the (map_of
          (sibling_sizes [(Some ''config.json'', Some 3), (Some ''model.safetensors'', Some 5), (Some ''model.bin'', None)]) f))) files)))"
proof -
  have "case inspect_hub demo_hub ''org/m'' None of Inr p \<Rightarrow> weight_bytes_is_exact p | Inl _ \<Rightarrow> False"
    by code_simp
  then obtain p where p: "inspect_hub demo_hub ''org/m'' None = Inr p" "weight_bytes_is_exact p"
    by (auto split: sum.splits)
  show ?thesis
    using p inspect_hub_exact_weights[OF p] by (auto simp: demo_hub_def Let_def)
qed

section \<open>Normalised profiles\<close>

lemma estimate_parameter_count_stored:
  "estimate_parameter_count (m\<lparr>mp_estimated_parameter_count := x\<rparr>) = estimate_parameter_count m"
  by (cases "mp_hidden_size m"; cases "mp_num_hidden_layers m"; cases "mp_num_attention_heads m")
     (simp_all add: estimate_parameter_count_def attention_parameters_def mlp_parameters_def Let_def)

lemma normalize_config_fields:
  assumes "normalize_config model_id raw revision local_path tok = Some p"
  shows "mp_num_attention_heads p = as_int (first_key (text_config raw) HEAD_KEYS)"
    and "mp_num_key_value_heads p = config_kv_heads (text_config raw) (mp_num_attention_heads p)"
    and "mp_hidden_size p = as_int (first_key (text_config raw) HIDDEN_KEYS)"
    and "mp_num_hidden_layers p = as_int (first_key (text_config raw) LAYER_KEYS)"
    and "mp_head_dim p = config_head_dim (text_config raw) (mp_hidden_size p) (mp_num_attention_heads p)"
    and "mp_attention_kind p = classify_attention (mp_kv_lora_rank p) (mp_num_attention_heads p) (mp_num_key_value_heads p)"
    and "mp_estimated_parameter_count p = estimate_parameter_count p"
proof -
  obtain archs mm where p: "p = (let q = config_profile model_id raw (text_config raw) revision local_path tok archs mm
      in q\<lparr>mp_estimated_parameter_count := estimate_parameter_count q\<rparr>)"
    using assms by (auto simp: normalize_config_def Let_def split: option.splits)
  show "mp_num_attention_heads p = as_int (first_key (text_config raw) HEAD_KEYS)"
    "mp_num_key_value_heads p = config_kv_heads (text_config raw) (mp_num_attention_heads p)"
    "mp_hidden_size p = as_int (first_key (text_config raw) HIDDEN_KEYS)"
    "mp_num_hidden_layers p = as_int (first_key (text_config raw) LAYER_KEYS)"
    "mp_head_dim p = config_head_dim (text_config raw) (mp_hidden_size p) (mp_num_attention_heads p)"
    "mp_attention_kind p = classify_attention (mp_kv_lora_rank p) (mp_num_attention_heads p) (mp_num_key_value_heads p)"
    unfolding p by (simp_all add: config_profile_def Let_def)
  show "mp_estimated_parameter_count p = estimate_parameter_count p"
    unfolding p Let_def estimate_parameter_count_stored by simp
qed

lemma config_kv_heads_known: "heads \<noteq> None \<Longrightarrow> config_kv_heads cfg heads \<noteq> None"
  by (auto simp: config_kv_heads_def Let_def)

text \<open>
  A configuration with its core dimensions always gets a sized profile: when hidden size,
  layers and heads are positive, the heads fit the hidden size and no explicit KV-head or head size is zero, the
  normalised profile has KV heads and a head size, its KV-cache estimate has both sizes for every
  tensor-parallel size (unless the model type is one without a known formula), and so has its
  parameter count.
\<close>

theorem normalize_config_sized:
  assumes "normalize_config model_id raw revision local_path tok = Some p"
    and dims: "mp_hidden_size p = Some h" "mp_num_hidden_layers p = Some layers" "mp_num_attention_heads p = Some heads"
    and pos: "0 < layers" "0 < heads" "heads \<le> h"
    and explicit: "mp_num_key_value_heads p \<noteq> Some 0" "mp_head_dim p \<noteq> Some 0"
    and known: "str_lower (the_or (mp_model_type p) []) \<notin> set NON_STANDARD_MODEL_TYPES"
  shows "ke_bytes_per_token_total (estimate_kv p tp d) \<noteq> None
    \<and> ke_bytes_per_token_per_gpu (estimate_kv p tp d) \<noteq> None
    \<and> mp_estimated_parameter_count p \<noteq> None"
proof -
  note f = normalize_config_fields[OF assms(1)]
  obtain kv where kv: "mp_num_key_value_heads p = Some kv" "kv \<noteq> 0"
    using config_kv_heads_known[of "Some heads"] f(2) dims(3) explicit(1) by (metis not_None_eq option.distinct(1))
  then have eff: "effective_kv_heads p = Some kv" by (simp add: effective_kv_heads_def or_else_def)
  have hd: "mp_head_dim p \<noteq> None"
    using pos unfolding f(5) dims by (auto simp: config_head_dim_def split: option.split)
  then obtain dim where dim: "mp_head_dim p = Some dim" "dim \<noteq> 0" using explicit(2) by fastforce
  then have sd: "standard_head_dim p = Some dim" by (simp add: standard_head_dim_def or_else_def)
  have count: "mp_estimated_parameter_count p \<noteq> None"
    using dims pos unfolding f(7) estimate_parameter_count_def by (simp add: Let_def)
  show ?thesis
  proof (cases "mp_attention_kind p = MLA")
    case True
    then have "truthy (mp_kv_lora_rank p)" using f(6) by (auto simp: classify_attention_def split: if_splits)
    then obtain rank where "mp_kv_lora_rank p = Some rank" "rank \<noteq> 0" by (auto simp: truthy_iff)
    then show ?thesis using True known count dims(2) pos(1)
      by (simp add: estimate_kv_def select_kv_estimator_def mla_estimate_def Let_def)
  next
    case False
    then have "select_kv_estimator p = Standard_attention"
      using known dims pos eff kv dim by (simp add: select_kv_estimator_def)
    then show ?thesis using count dims(2) pos(1) eff kv(2) sd dim(2)
      by (simp add: estimate_kv_def standard_estimate_def Let_def)
  qed
qed

lemma normalize_config_sized_witness:
  "\<exists>p. normalize_config ''m'' [(''n_embd'', JInt 64), (''n_head'', JInt 4), (''n_layer'', JStr ''2'')] None None True = Some p
     \<and> ke_bytes_per_token_per_gpu (estimate_kv p 2 None) \<noteq> None"
proof -
  let ?n = "normalize_config ''m'' [(''n_embd'', JInt 64), (''n_head'', JInt 4), (''n_layer'', JStr ''2'')] None None True"
  have "case ?n of None \<Rightarrow> False | Some p \<Rightarrow> mp_hidden_size p = Some 64 \<and> mp_num_hidden_layers p = Some 2
      \<and> mp_num_attention_heads p = Some 4 \<and> mp_num_key_value_heads p \<noteq> Some 0 \<and> mp_head_dim p \<noteq> Some 0
      \<and> str_lower (the_or (mp_model_type p) []) \<notin> set NON_STANDARD_MODEL_TYPES"
    by code_simp
  then obtain p where p: "?n = Some p" "mp_hidden_size p = Some 64" "mp_num_hidden_layers p = Some 2"
      "mp_num_attention_heads p = Some 4" "mp_num_key_value_heads p \<noteq> Some 0" "mp_head_dim p \<noteq> Some 0"
      "str_lower (the_or (mp_model_type p) []) \<notin> set NON_STANDARD_MODEL_TYPES"
    by (auto split: option.splits)
  show ?thesis using p(1) normalize_config_sized[OF p(1-4) _ _ _ p(5-7), of 2 None] by simp
qed

end
