(* ===== verification/Plan.thy ===== *)
theory Plan
  imports Workload Hardware Model
begin

text \<open>
  The data that flows from the planner to the tuner and into the cache (\<^verbatim>\<open>schemas/plan.py\<close>,
  \<^verbatim>\<open>schemas/benchmark.py\<close>, \<^verbatim>\<open>schemas/runtime.py\<close>): candidate plans with their memory estimates,
  benchmark specifications and results, evaluations, and the structural identity of a plan.
  Sizes that the schemas bound below by one are natural numbers.
\<close>

section \<open>Benchmarks\<close>

datatype failure_type = OOM | MODEL_UNSUPPORTED | INVALID_ARGUMENT | ENGINE_CRASH | STARTUP_TIMEOUT
  | PORT_CONFLICT | CUDA_ERROR | NCCL_ERROR | MODEL_DOWNLOAD_ERROR | AUTH_ERROR | UNKNOWN_FAILURE

fun failure_value :: "failure_type \<Rightarrow> string" where
  "failure_value OOM = ''oom''"
| "failure_value MODEL_UNSUPPORTED = ''model_unsupported''"
| "failure_value INVALID_ARGUMENT = ''invalid_argument''"
| "failure_value ENGINE_CRASH = ''engine_crash''"
| "failure_value STARTUP_TIMEOUT = ''startup_timeout''"
| "failure_value PORT_CONFLICT = ''port_conflict''"
| "failure_value CUDA_ERROR = ''cuda_error''"
| "failure_value NCCL_ERROR = ''nccl_error''"
| "failure_value MODEL_DOWNLOAD_ERROR = ''model_download_error''"
| "failure_value AUTH_ERROR = ''auth_error''"
| "failure_value UNKNOWN_FAILURE = ''unknown''"

record candidate_failure =
  cf_type :: failure_type
  cf_message :: string
  cf_stderr_tail :: string
  cf_stdout_tail :: string
  cf_exit_code :: "int option"
  cf_stage :: "string option"

datatype benchmark_endpoint = Chat | Completions
datatype benchmark_mode = Closed | Open

record benchmark_spec =
  bs_concurrency :: int
  bs_num_requests :: int
  bs_seed :: int
  bs_streaming :: bool
  bs_endpoint :: benchmark_endpoint
  bs_mode :: benchmark_mode
  bs_request_rate :: "float64 option"
  bs_input_tokens_p50 :: int
  bs_input_tokens_p95 :: int
  bs_output_tokens_p50 :: int
  bs_output_tokens_p95 :: int
  bs_warmup_requests :: int
  bs_request_timeout_seconds :: float64
  bs_label :: "string option"

record request_benchmark_result =
  rr_success :: bool
  rr_input_tokens :: int
  rr_output_tokens :: int
  rr_started_at :: float64
  rr_first_token_at :: "float64 option"
  rr_completed_at :: "float64 option"
  rr_ttft_ms :: "float64 option"
  rr_e2e_latency_ms :: "float64 option"
  rr_tpot_ms :: "float64 option"
  rr_error :: "string option"
  rr_status_code :: "int option"

record gpu_benchmark_metrics =
  gm_mean_gpu_utilization :: "float64 option"
  gm_peak_gpu_utilization :: "float64 option"
  gm_peak_memory_bytes :: "int option"
  gm_mean_power_watts :: "float64 option"
  gm_sample_count :: int

definition empty_gpu_metrics :: gpu_benchmark_metrics where
  "empty_gpu_metrics = \<lparr>gm_mean_gpu_utilization = None, gm_peak_gpu_utilization = None,
     gm_peak_memory_bytes = None, gm_mean_power_watts = None, gm_sample_count = 0\<rparr>"

record benchmark_result =
  br_candidate_id :: string
  br_spec :: benchmark_spec
  br_total_requests :: int
  br_successful_requests :: int
  br_failed_requests :: int
  br_duration_seconds :: float64
  br_request_throughput :: float64
  br_input_tokens_per_second :: float64
  br_output_tokens_per_second :: float64
  br_total_tokens_per_second :: float64
  br_ttft_p50_ms :: "float64 option"
  br_ttft_p95_ms :: "float64 option"
  br_ttft_p99_ms :: "float64 option"
  br_tpot_p50_ms :: "float64 option"
  br_tpot_p95_ms :: "float64 option"
  br_tpot_p99_ms :: "float64 option"
  br_latency_p50_ms :: float64
  br_latency_p95_ms :: float64
  br_latency_p99_ms :: float64
  br_error_rate :: float64
  br_gpu_metrics :: gpu_benchmark_metrics
  br_score :: "float64 option"
  br_errors_sample :: "string list"

definition br_concurrency :: "benchmark_result \<Rightarrow> int" where
  "br_concurrency r = bs_concurrency (br_spec r)"

definition result_short :: "benchmark_result \<Rightarrow> string" where
  "result_short r = ''c='' @ str_int (bs_concurrency (br_spec r)) @ '' out='' @ fmt_f0_commas (br_output_tokens_per_second r)
     @ '' tok/s p95='' @ fmt_f0_commas (br_latency_p95_ms r) @ '' ms err='' @ fmt_pct_sign 1 (br_error_rate r)"

record pareto_point =
  pp_candidate_id :: string
  pp_concurrency :: int
  pp_output_tokens_per_second :: float64
  pp_latency_p95_ms :: float64
  pp_on_front :: bool

section \<open>Plans\<close>

datatype engine_name = VLLM | SGLANG | FAKE

fun engine_value :: "engine_name \<Rightarrow> string" where
  "engine_value VLLM = ''vllm''"
| "engine_value SGLANG = ''sglang''"
| "engine_value FAKE = ''fake''"

datatype candidate_viability = Unknown_viability | Estimated_viable | Estimated_impossible
  | Launch_validated | Launch_failed

record memory_estimate =
  me_device_total_bytes :: int
  me_device_free_bytes :: int
  me_memory_fraction :: float64
  me_engine_budget_bytes :: int
  me_weights_bytes :: "int option"
  me_activations_bytes :: int
  me_cuda_graph_bytes :: int
  me_communication_bytes :: int
  me_engine_overhead_bytes :: int
  me_safety_reserve_bytes :: int
  me_kv_cache_bytes_available :: "int option"
  me_kv_bytes_per_token_per_gpu :: "int option"
  me_kv_confidence :: confidence
  me_estimated_kv_tokens :: "int option"
  me_estimated_max_concurrency_p50 :: "int option"
  me_estimated_max_concurrency_p95 :: "int option"
  me_fits :: bool
  me_confidence :: confidence
  me_shortfall_bytes :: int
  me_weight_source :: weight_size_source
  me_notes :: "string list"

definition fixed_bytes :: "memory_estimate \<Rightarrow> int" where
  "fixed_bytes e = the_or (me_weights_bytes e) 0 + me_activations_bytes e + me_cuda_graph_bytes e
     + me_communication_bytes e + me_engine_overhead_bytes e"

record candidate_plan =
  cp_id :: string
  cp_engine :: engine_name
  cp_gpu_groups :: "int list list"
  cp_tensor_parallel_size :: nat
  cp_data_parallel_size :: nat
  cp_pipeline_parallel_size :: nat
  cp_replica_count :: nat
  cp_expert_parallel_size :: "int option"
  cp_expert_parallel_enabled :: bool
  cp_dp_attention_enabled :: bool
  cp_distributed_backend :: "string option"
  cp_replica_nodes :: "string list list option"
  cp_context_length :: int
  cp_objective :: "objective option"
  cp_memory_fraction :: "float64 option"
  cp_max_concurrency :: "int option"
  cp_max_num_seqs :: "int option"
  cp_max_running_requests :: "int option"
  cp_chunked_prefill_enabled :: "bool option"
  cp_chunked_prefill_size :: "int option"
  cp_kv_cache_dtype :: "string option"
  cp_engine_args :: "(string \<times> json) list"
  cp_estimated_memory :: "memory_estimate option"
  cp_rationale :: "string list"
  cp_viability :: candidate_viability
  cp_heuristic_rank :: "int option"

definition base_plan :: "string \<Rightarrow> engine_name \<Rightarrow> int list list \<Rightarrow> nat \<Rightarrow> nat \<Rightarrow> int \<Rightarrow> candidate_plan" where
  "base_plan i e groups tp replicas ctx =
     \<lparr>cp_id = i, cp_engine = e, cp_gpu_groups = groups, cp_tensor_parallel_size = tp,
      cp_data_parallel_size = 1, cp_pipeline_parallel_size = 1, cp_replica_count = replicas,
      cp_expert_parallel_size = None, cp_expert_parallel_enabled = False, cp_dp_attention_enabled = False,
      cp_distributed_backend = None, cp_replica_nodes = None, cp_context_length = ctx, cp_objective = None,
      cp_memory_fraction = None, cp_max_concurrency = None, cp_max_num_seqs = None,
      cp_max_running_requests = None, cp_chunked_prefill_enabled = None, cp_chunked_prefill_size = None,
      cp_kv_cache_dtype = None, cp_engine_args = [], cp_estimated_memory = None, cp_rationale = [],
      cp_viability = Unknown_viability, cp_heuristic_rank = None\<rparr>"

definition gpu_ids :: "candidate_plan \<Rightarrow> int list" where
  "gpu_ids p = concat (cp_gpu_groups p)"

definition gpu_count :: "candidate_plan \<Rightarrow> nat" where
  "gpu_count p = length (gpu_ids p)"

definition spans_nodes :: "candidate_plan \<Rightarrow> bool" where
  "spans_nodes p = (case cp_replica_nodes p of None \<Rightarrow> False
     | Some ns \<Rightarrow> ns \<noteq> [] \<and> (\<exists>n \<in> set ns. 1 < length (remdups n)))"

definition str_groups :: "int list list \<Rightarrow> string" where
  "str_groups gs = str_list (str_list str_int) gs"

definition text_or_empty :: "string option \<Rightarrow> string" where
  "text_or_empty x = the_or x []"

definition expert_key :: "candidate_plan \<Rightarrow> string" where
  "expert_key p = (if cp_expert_parallel_enabled p then str_opt str_int (cp_expert_parallel_size p) else str_int 0)"

definition structural_key :: "candidate_plan \<Rightarrow> string" where
  "structural_key p =
     engine_value (cp_engine p) @ ''|tp='' @ str_nat (cp_tensor_parallel_size p)
     @ ''|pp='' @ str_nat (cp_pipeline_parallel_size p) @ ''|dp='' @ str_nat (cp_data_parallel_size p)
     @ ''|rep='' @ str_nat (cp_replica_count p) @ ''|ep='' @ expert_key p
     @ ''|dpa='' @ str_int (if cp_dp_attention_enabled p then 1 else 0) @ ''|ctx='' @ str_int (cp_context_length p)
     @ ''|groups='' @ str_groups (cp_gpu_groups p) @ ''|backend='' @ text_or_empty (cp_distributed_backend p)"

definition label :: "candidate_plan \<Rightarrow> string" where
  "label p =
     (let parts = [''TP'' @ str_nat (cp_tensor_parallel_size p)]
            @ (if 1 < cp_pipeline_parallel_size p then [''PP'' @ str_nat (cp_pipeline_parallel_size p)] else [])
            @ (if cp_expert_parallel_enabled p \<and> truthy (cp_expert_parallel_size p)
               then [''EP'' @ str_opt str_int (cp_expert_parallel_size p)] else [])
            @ (if 1 < cp_data_parallel_size p then [''DP'' @ str_nat (cp_data_parallel_size p)] else []);
          rep = str_nat (cp_replica_count p) @ '' replica'' @ (if cp_replica_count p \<noteq> 1 then ''s'' else []);
          suffix = (case cp_distributed_backend p of None \<Rightarrow> [] | Some b \<Rightarrow> if b = [] then [] else '', '' @ b)
      in str_join times_sign parts @ '' '' @ times_sign @ '' '' @ rep @ '' ('' @ engine_value (cp_engine p) @ suffix @ '')'')"

record excluded_candidate =
  ec_description :: string
  ec_reason :: string
  ec_engine :: "engine_name option"
  ec_tensor_parallel_size :: "nat option"
  ec_replica_count :: "nat option"
  ec_plan :: "candidate_plan option"

record plan_constraints =
  pk_engine :: "engine_name option"
  pk_tensor_parallel_size :: "nat option"
  pk_replica_count :: "nat option"
  pk_gpu_ids :: "int list option"
  pk_context_length :: "int option"
  pk_max_concurrency :: "int option"
  pk_memory_headroom :: "float64 option"
  pk_memory_fraction :: "float64 option"
  pk_kv_cache_dtype :: "string option"
  pk_allow_busy_gpus :: bool
  pk_allow_context_override :: bool
  pk_trust_remote_code :: bool
  pk_served_model_name :: "string option"
  pk_revision :: "string option"
  pk_extra_engine_args :: "(string \<times> json) list"

definition no_constraints :: plan_constraints where
  "no_constraints = \<lparr>pk_engine = None, pk_tensor_parallel_size = None, pk_replica_count = None, pk_gpu_ids = None,
     pk_context_length = None, pk_max_concurrency = None, pk_memory_headroom = None, pk_memory_fraction = None,
     pk_kv_cache_dtype = None, pk_allow_busy_gpus = False, pk_allow_context_override = False,
     pk_trust_remote_code = False, pk_served_model_name = None, pk_revision = None, pk_extra_engine_args = []\<rparr>"

record planning_result =
  pr_candidates :: "candidate_plan list"
  pr_excluded :: "excluded_candidate list"
  pr_selected_gpu_ids :: "int list"
  pr_estimated_minimum_tp :: "nat option"
  pr_warnings :: "string list"
  pr_notes :: "string list"

definition viable :: "planning_result \<Rightarrow> candidate_plan list" where
  "viable r = filter (\<lambda>c. cp_viability c \<in> {Estimated_viable, Unknown_viability}) (pr_candidates r)"

section \<open>Evaluations and records\<close>

datatype evaluation_status = Pending | Benchmarked | Failed | Skipped

record candidate_evaluation =
  ce_plan :: candidate_plan
  ce_stage :: string
  ce_status :: evaluation_status
  ce_results :: "benchmark_result list"
  ce_failure :: "candidate_failure option"
  ce_launch_seconds :: "float64 option"
  ce_engine_version :: "string option"
  ce_runtime_metadata :: "(string \<times> json) list"
  ce_notes :: "string list"

definition new_evaluation :: "candidate_plan \<Rightarrow> string \<Rightarrow> candidate_evaluation" where
  "new_evaluation p stage = \<lparr>ce_plan = p, ce_stage = stage, ce_status = Pending, ce_results = [],
     ce_failure = None, ce_launch_seconds = None, ce_engine_version = None, ce_runtime_metadata = [], ce_notes = []\<rparr>"

definition best_result :: "candidate_evaluation \<Rightarrow> benchmark_result option" where
  "best_result e =
     (let scored = filter (\<lambda>r. br_score r \<noteq> None) (ce_results e)
      in if scored \<noteq> [] then max_by (\<lambda>r. the_or (br_score r) 0) scored
         else if ce_results e = [] then None else Some (last (ce_results e)))"

datatype plan_source = Tuned | Cached | Heuristic

record selected_plan =
  sp_plan :: candidate_plan
  sp_objective :: objective
  sp_benchmarked :: bool
  sp_slo_satisfied :: "bool option"
  sp_final_result :: "benchmark_result option"
  sp_rationale :: "string list"
  sp_engine_version :: "string option"
  sp_equivalent_commands :: "string list"
  sp_pareto_front :: "pareto_point list"
  sp_source :: plan_source

section \<open>The identity of a plan\<close>

text \<open>A code is self-delimiting before the characters of \<open>T\<close> when it can be read off the front of a text.\<close>

definition delimited :: "char set \<Rightarrow> ('a \<Rightarrow> string) \<Rightarrow> bool" where
  "delimited T f \<longleftrightarrow> (\<forall>x y u v. f x @ u = f y @ v \<longrightarrow> (u \<noteq> [] \<longrightarrow> hd u \<in> T) \<longrightarrow> (v \<noteq> [] \<longrightarrow> hd v \<in> T) \<longrightarrow> x = y \<and> u = v)"

lemma delimitedD:
  "delimited T f \<Longrightarrow> f x @ u = f y @ v \<Longrightarrow> (u \<noteq> [] \<Longrightarrow> hd u \<in> T) \<Longrightarrow> (v \<noteq> [] \<Longrightarrow> hd v \<in> T) \<Longrightarrow> x = y \<and> u = v"
  unfolding delimited_def by blast

lemma span_inject:
  assumes "a @ u = b @ v" "\<forall>c \<in> set a. P c" "\<forall>c \<in> set b. P c" "u \<noteq> [] \<longrightarrow> \<not> P (hd u)" "v \<noteq> [] \<longrightarrow> \<not> P (hd v)"
  shows "a = b \<and> u = v"
  using assms
proof (induction a arbitrary: b)
  case Nil then show ?case by (cases b) auto
next
  case (Cons x a) then show ?case by (cases b) auto
qed

lemma delimited_int: "delimited {CHR '','', CHR '']''} str_int"
  unfolding delimited_def
proof (intro allI impI)
  fix x y :: int and u v
  assume eq: "str_int x @ u = str_int y @ v" and u: "u \<noteq> [] \<longrightarrow> hd u \<in> {CHR '','', CHR '']''}"
    and v: "v \<noteq> [] \<longrightarrow> hd v \<in> {CHR '','', CHR '']''}"
  have "str_int x = str_int y \<and> u = v"
    using eq by (rule span_inject[where P = int_char])
      (use str_int_chars u v in \<open>auto simp: int_char_def is_digit_def\<close>)
  then show "x = y \<and> u = v" by simp
qed

definition items_tail :: "('a \<Rightarrow> string) \<Rightarrow> 'a list \<Rightarrow> string" where
  "items_tail f xs = concat (map (\<lambda>x. '', '' @ f x) xs) @ '']''"

lemma join_tail: "str_join '', '' (map f (x # xs)) @ '']'' @ u = f x @ items_tail f xs @ u"
  by (induction xs arbitrary: x) (auto simp: items_tail_def)

lemma hd_items_tail: "hd (items_tail f zs @ w) \<in> {CHR '','', CHR '']''}"
  by (cases zs) (auto simp: items_tail_def)

lemma item_step:
  assumes "delimited {CHR '','', CHR '']''} f" "f x @ items_tail f xs @ u = f y @ items_tail f ys @ v"
  shows "x = y \<and> items_tail f xs @ u = items_tail f ys @ v"
  using assms by (rule delimitedD) (rule hd_items_tail)+

lemma items_tail_inject:
  assumes f: "delimited {CHR '','', CHR '']''} f"
  shows "items_tail f xs @ u = items_tail f ys @ v \<Longrightarrow> xs = ys \<and> u = v"
proof (induction xs arbitrary: ys)
  case Nil then show ?case by (cases ys) (auto simp: items_tail_def)
next
  case (Cons x xs)
  then obtain y ys' where ys: "ys = y # ys'" by (cases ys) (auto simp: items_tail_def)
  have "f x @ items_tail f xs @ u = f y @ items_tail f ys' @ v"
    using Cons.prems unfolding ys items_tail_def by simp
  then have "x = y \<and> items_tail f xs @ u = items_tail f ys' @ v" by (rule item_step[OF f])
  then show ?case using Cons.IH ys by blast
qed

lemma delimited_list:
  assumes f: "delimited {CHR '','', CHR '']''} f" and ne: "\<And>x. f x \<noteq> [] \<and> hd (f x) \<noteq> CHR '']''"
  shows "delimited T (str_list f)"
  unfolding delimited_def
proof (intro allI impI)
  fix xs ys u v
  assume eq: "str_list f xs @ u = str_list f ys @ v"
  have body: "str_join '', '' (map f xs) @ '']'' @ u = str_join '', '' (map f ys) @ '']'' @ v"
    using eq by (simp add: str_list_def)
  have start: "str_join '', '' (map f (z # zs)) @ '']'' @ w \<noteq> '']'' @ w'" for z zs w w'
    unfolding join_tail using ne[of z] by (cases "f z") auto
  show "xs = ys \<and> u = v"
  proof (cases xs)
    case Nil
    then have "ys = []" using body start[of _ _ v u] by (cases ys) auto
    then show ?thesis using body Nil by simp
  next
    case (Cons x xs')
    then obtain y ys' where ys: "ys = y # ys'" using body start[of x xs' u v] by (cases ys) auto
    have "f x @ items_tail f xs' @ u = f y @ items_tail f ys' @ v"
      using body unfolding Cons ys join_tail .
    then have "x = y \<and> items_tail f xs' @ u = items_tail f ys' @ v" by (rule item_step[OF f])
    then show ?thesis using items_tail_inject[OF f] Cons ys by blast
  qed
qed

lemma str_groups_inject: "str_groups gs @ u = str_groups hs @ v \<Longrightarrow> gs = hs \<and> u = v"
proof -
  have int: "str_int i \<noteq> [] \<and> hd (str_int i) \<noteq> CHR '']''" for i
    using str_int_chars[of "hd (str_int i)" i] by (auto simp: int_char_def is_digit_def)
  have inner: "delimited {CHR '','', CHR '']''} (str_list str_int)" for T :: "char set"
    by (rule delimited_list[OF delimited_int int])
  have "delimited UNIV (str_list (str_list str_int))"
    by (rule delimited_list[OF inner]) (auto simp: str_list_def)
  then show "str_groups gs @ u = str_groups hs @ v \<Longrightarrow> gs = hs \<and> u = v"
    unfolding str_groups_def by (rule delimitedD) auto
qed

text \<open>Every field before the groups is free of the separator.\<close>

lemma no_bar_int [simp]: "CHR ''|'' \<notin> set (str_int i)"
  using str_int_chars[of "CHR ''|''" i] by (auto simp: int_char_def is_digit_def)

lemma no_bar_fields [simp]:
  "CHR ''|'' \<notin> set (engine_value e)" "CHR ''|'' \<notin> set (str_nat n)" "CHR ''|'' \<notin> set (expert_key p)"
  by (cases e; simp) (auto simp: str_nat_def expert_key_def str_opt_def split: option.splits)

lemma bar_field:
  assumes "a @ CHR ''|'' # x = b @ CHR ''|'' # y" "CHR ''|'' \<notin> set a" "CHR ''|'' \<notin> set b"
  shows "a = b" "x = y"
  using sep_inject[OF assms] by auto

lemma engine_value_inject [simp]: "engine_value a = engine_value b \<longleftrightarrow> a = b"
  by (cases a; cases b) auto

text \<open>
  Candidates are de-duplicated by their structural key exactly when they are the same topology:
  two plans have the same key if and only if they agree on engine, parallel sizes, replica count,
  effective expert parallelism, data-parallel attention, context length, the GPU groups and the
  distributed backend (an empty backend name counts as none).
\<close>

theorem structural_key_iff:
  "structural_key p = structural_key q \<longleftrightarrow>
     cp_engine p = cp_engine q \<and> cp_tensor_parallel_size p = cp_tensor_parallel_size q
     \<and> cp_pipeline_parallel_size p = cp_pipeline_parallel_size q
     \<and> cp_data_parallel_size p = cp_data_parallel_size q \<and> cp_replica_count p = cp_replica_count q
     \<and> expert_key p = expert_key q \<and> cp_dp_attention_enabled p = cp_dp_attention_enabled q
     \<and> cp_context_length p = cp_context_length q \<and> cp_gpu_groups p = cp_gpu_groups q
     \<and> text_or_empty (cp_distributed_backend p) = text_or_empty (cp_distributed_backend q)"
  (is "?key \<longleftrightarrow> ?same")
proof
  assume k: ?key
  note split = k[unfolded structural_key_def append_Cons append_Nil append_assoc]
  note f1 = bar_field[OF split, simplified]
  note f2 = bar_field[OF f1(2), simplified]
  note f3 = bar_field[OF f2(2), simplified]
  note f4 = bar_field[OF f3(2), simplified]
  note f5 = bar_field[OF f4(2), simplified]
  note f6 = bar_field[OF f5(2), simplified]
  note f7 = bar_field[OF f6(2), simplified]
  note f8 = bar_field[OF f7(2), simplified]
  have "cp_gpu_groups p = cp_gpu_groups q \<and>
      ''|backend='' @ text_or_empty (cp_distributed_backend p) = ''|backend='' @ text_or_empty (cp_distributed_backend q)"
    by (rule str_groups_inject) (use f8(2) in simp)
  then show ?same using f1(1) f2(1) f3(1) f4(1) f5(1) f6(1) f7(1) f8(1) by (auto split: if_splits)
next
  assume ?same
  then show ?key by (simp add: structural_key_def)
qed

end
