(* ===== verification/Memory_Model.thy ===== *)
theory Memory_Model
  imports Plan
begin

text \<open>
  The static memory model of one GPU (\<^verbatim>\<open>planner/memory.py\<close>): the fraction of a device an engine may
  claim, the breakdown of that budget, and whether a replica fits.  Floats are rounded where
  Python rounds them.
\<close>

section \<open>Constants and configuration\<close>

definition GIB :: int where "GIB = 1024 * 1024 * 1024"
definition MIB :: int where "MIB = 1024 * 1024"
definition UNKNOWN_KV_MIN_SPARE_BYTES :: int where "UNKNOWN_KV_MIN_SPARE_BYTES = 2 * GIB"

record memory_config =
  mc_headroom_fraction :: float64
  mc_min_headroom_bytes :: int
  mc_engine_overhead_bytes :: int
  mc_cuda_graph_bytes :: int
  mc_comm_buffer_bytes_per_tp_rank :: int
  mc_activation_fraction :: float64
  mc_weight_shard_overhead :: float64
  mc_max_memory_fraction :: float64
  mc_min_memory_fraction :: float64
  mc_min_kv_sequences :: int

definition default_memory_config :: memory_config where
  "default_memory_config =
     \<lparr>mc_headroom_fraction = fl (8 / 100), mc_min_headroom_bytes = GIB,
      mc_engine_overhead_bytes = py_int (fl_mul (fl (3 / 2)) (fl_int GIB)), mc_cuda_graph_bytes = GIB,
      mc_comm_buffer_bytes_per_tp_rank = 256 * MIB, mc_activation_fraction = fl (25 / 1000),
      mc_weight_shard_overhead = fl (1 / 100), mc_max_memory_fraction = fl (95 / 100),
      mc_min_memory_fraction = fl (30 / 100), mc_min_kv_sequences = 1\<rparr>"

section \<open>Budgets\<close>

definition safety_reserve_bytes :: "int \<Rightarrow> memory_config \<Rightarrow> int" where
  "safety_reserve_bytes device cfg =
     py_int (max (fl_mul (mc_headroom_fraction cfg) (fl_int device)) (of_int (mc_min_headroom_bytes cfg)))"

definition compute_memory_fraction :: "int \<Rightarrow> int \<Rightarrow> memory_config \<Rightarrow> float64" where
  "compute_memory_fraction device free cfg =
     (if device \<le> 0 then 0
      else
        (let budget = free - safety_reserve_bytes device cfg;
             fraction = int_div \<lfloor>fl_mul (int_div budget device) 100\<rfloor> 100
         in max 0 (min (mc_max_memory_fraction cfg) fraction)))"

definition sharded_weight_bytes :: "int \<Rightarrow> nat \<Rightarrow> memory_config \<Rightarrow> int" where
  "sharded_weight_bytes weight_bytes shards cfg =
     (if shards \<le> 1 then weight_bytes
      else py_int (fl_mul (int_div weight_bytes (int shards)) (fl_add 1 (mc_weight_shard_overhead cfg))))"

definition format_bytes :: "int option \<Rightarrow> string" where
  "format_bytes n = (case n of
     None \<Rightarrow> ''unknown''
   | Some b \<Rightarrow> if GIB \<le> \<bar>b\<bar> then fmt_f 1 (int_div b GIB) @ '' GiB'' else fmt_f 0 (int_div b (1024 * 1024)) @ '' MiB'')"

section \<open>The estimate\<close>

text \<open>The estimator builds its result in passes, as the code does: the shards of the weights with their
  confidence, then the KV cache, then the checks that can still veto.\<close>

record kv_verdict =
  kvd_fits :: bool
  kvd_shortfall :: int
  kvd_tokens :: "int option"
  kvd_c50 :: "int option"
  kvd_c95 :: "int option"
  kvd_confidence :: confidence
  kvd_notes :: "string list"

definition weights_pass :: "model_profile \<Rightarrow> nat \<Rightarrow> memory_config \<Rightarrow> int option \<times> confidence \<times> string list" where
  "weights_pass m shards cfg =
     (case mp_weight_bytes m of
        None \<Rightarrow> (None, Unknown_confidence,
                  [''model weight size unknown; viability can only be established by launching''])
      | Some wb \<Rightarrow>
          (Some (sharded_weight_bytes wb shards cfg),
           (if weight_bytes_is_exact m then High else Medium),
           (if weight_bytes_is_exact m then []
            else [''weight size is '' @ source_value (mp_weight_size_source m) @ ''; treated as approximate''])))"

definition kv_per_gpu_bytes :: "kv_estimate \<Rightarrow> nat \<Rightarrow> int option" where
  "kv_per_gpu_bytes kv pp =
     (case ke_bytes_per_token_per_gpu kv of
        None \<Rightarrow> None
      | Some b \<Rightarrow> if 1 < pp then Some (max 1 (b div int pp)) else Some b)"

definition kv_pass :: "int option \<Rightarrow> confidence \<Rightarrow> int \<Rightarrow> int option \<Rightarrow> confidence \<Rightarrow> int \<Rightarrow> workload_profile
    \<Rightarrow> memory_config \<Rightarrow> kv_verdict" where
  "kv_pass weights confidence kv_available kv_per_gpu kv_confidence context_length w cfg =
     (if weights = None then
        \<lparr>kvd_fits = (UNKNOWN_KV_MIN_SPARE_BYTES \<le> kv_available), kvd_shortfall = 0, kvd_tokens = None,
         kvd_c50 = None, kvd_c95 = None, kvd_confidence = confidence, kvd_notes = []\<rparr>
      else if truthy kv_per_gpu then
        (let per = the kv_per_gpu;
             required = per * context_length * mc_min_kv_sequences cfg;
             fits = (required \<le> kv_available);
             tokens = kv_available div per
         in \<lparr>kvd_fits = fits, kvd_shortfall = (if fits then 0 else required - kv_available),
             kvd_tokens = (if 0 < kv_available then Some tokens else None),
             kvd_c50 = (if 0 < kv_available then Some (max 0 (tokens div max 1 (p50_sequence_tokens w))) else None),
             kvd_c95 = (if 0 < kv_available then Some (max 0 (tokens div max 1 (p95_sequence_tokens w))) else None),
             kvd_confidence = (if kv_confidence \<in> {Low, Medium} \<and> confidence = High then Medium else confidence),
             kvd_notes = []\<rparr>)
      else
        (let fits = (UNKNOWN_KV_MIN_SPARE_BYTES \<le> kv_available)
         in \<lparr>kvd_fits = fits, kvd_shortfall = (if fits then 0 else UNKNOWN_KV_MIN_SPARE_BYTES - kv_available),
             kvd_tokens = None, kvd_c50 = None, kvd_c95 = None, kvd_confidence = Low,
             kvd_notes = [''KV-cache size unknown for this architecture; requiring 2 GiB spare before launch'']\<rparr>))"

definition veto_pass :: "int \<Rightarrow> int \<Rightarrow> float64 option \<Rightarrow> float64 \<Rightarrow> int \<Rightarrow> memory_config
    \<Rightarrow> bool \<times> int \<Rightarrow> (bool \<times> int) \<times> string list" where
  "veto_pass device free forced fraction budget cfg verdict =
     (let busy_note = (if of_int free < fl_mul (fl_int device) (fl (95 / 100))
            then [fmt_f 1 (int_div (device - free) GIB)
                  @ '' GiB already in use on the most occupied selected GPU; planning against free memory only'']
            else []);
          over = (forced \<noteq> None \<and> free < budget);
          over_note = (if over
            then [''forced memory fraction '' @ fmt_f 2 fraction @ '' claims '' @ format_bytes (Some budget)
                  @ '' per GPU but only '' @ format_bytes (Some free) @ '' is free'']
            else []);
          (fits, shortfall) = verdict;
          (fits, shortfall) = (if over then (False, max shortfall (budget - free)) else (fits, shortfall));
          low = (fraction < mc_min_memory_fraction cfg);
          low_note = (if low
            then [''usable memory fraction '' @ fmt_f 2 fraction @ '' is below ''
                  @ fmt_f 2 (mc_min_memory_fraction cfg) @ ''; GPU is heavily occupied'']
            else []);
          (fits, shortfall) = (if low
            then (False, max shortfall (py_int (fl_mul (fl_sub (mc_min_memory_fraction cfg) fraction) (fl_int device))))
            else (fits, shortfall))
      in ((fits, shortfall), busy_note @ over_note @ low_note))"

definition chosen_fraction :: "float64 option \<Rightarrow> int \<Rightarrow> int \<Rightarrow> memory_config \<Rightarrow> float64" where
  "chosen_fraction forced device free cfg =
     (case forced of Some f \<Rightarrow> f | None \<Rightarrow> compute_memory_fraction device free cfg)"

definition activation_bytes :: "int \<Rightarrow> memory_config \<Rightarrow> int" where
  "activation_bytes device cfg = py_int (fl_mul (mc_activation_fraction cfg) (fl_int device))"

definition comm_bytes :: "nat \<Rightarrow> memory_config \<Rightarrow> int" where
  "comm_bytes tp cfg = (if 1 < tp then mc_comm_buffer_bytes_per_tp_rank cfg else 0)"

text \<open>\<open>None\<close> is the \<^verbatim>\<open>ValueError\<close> of an empty GPU list.\<close>

definition estimate_memory ::
    "model_profile \<Rightarrow> gpu_device list \<Rightarrow> nat \<Rightarrow> kv_estimate \<Rightarrow> int \<Rightarrow> workload_profile \<Rightarrow> memory_config
     \<Rightarrow> nat \<Rightarrow> float64 option \<Rightarrow> memory_estimate option" where
  "estimate_memory m gpus tp kv context_length w cfg pp forced =
     (case (py_min (map gd_total_memory_bytes gpus), py_min (map gd_free_memory_bytes gpus)) of
        (Some device, Some free) \<Rightarrow>
          (let fraction = chosen_fraction forced device free cfg;
               budget = py_int (fl_mul fraction (fl_int device));
               reserve = safety_reserve_bytes device cfg;
               wp = weights_pass m (tp * pp) cfg;
               weights = fst wp; confidence = fst (snd wp); notes = snd (snd wp);
               activations = activation_bytes device cfg;
               comm = comm_bytes tp cfg;
               fixed = the_or weights 0 + activations + mc_cuda_graph_bytes cfg + comm + mc_engine_overhead_bytes cfg;
               kv_available = budget - fixed;
               kv_per_gpu = kv_per_gpu_bytes kv pp;
               v = kv_pass weights confidence kv_available kv_per_gpu (ke_confidence kv) context_length w cfg;
               veto = veto_pass device free forced fraction budget cfg (kvd_fits v, kvd_shortfall v);
               fits = fst (fst veto); shortfall = snd (fst veto)
           in Some
             \<lparr>me_device_total_bytes = device, me_device_free_bytes = free, me_memory_fraction = py_round2 fraction,
              me_engine_budget_bytes = budget, me_weights_bytes = weights, me_activations_bytes = activations,
              me_cuda_graph_bytes = mc_cuda_graph_bytes cfg, me_communication_bytes = comm,
              me_engine_overhead_bytes = mc_engine_overhead_bytes cfg, me_safety_reserve_bytes = reserve,
              me_kv_cache_bytes_available = (if weights \<noteq> None then Some (max kv_available 0) else None),
              me_kv_bytes_per_token_per_gpu = kv_per_gpu, me_kv_confidence = ke_confidence kv,
              me_estimated_kv_tokens = kvd_tokens v, me_estimated_max_concurrency_p50 = kvd_c50 v,
              me_estimated_max_concurrency_p95 = kvd_c95 v, me_fits = fits, me_confidence = kvd_confidence v,
              me_shortfall_bytes = max 0 shortfall, me_weight_source = mp_weight_size_source m,
              me_notes = notes @ kvd_notes v @ snd veto @ (if ke_explanation kv \<noteq> [] then [ke_explanation kv] else [])\<rparr>)
      | _ \<Rightarrow> None)"

definition tp_fits ::
    "model_profile \<Rightarrow> gpu_device list \<Rightarrow> (nat \<Rightarrow> kv_estimate) \<Rightarrow> int \<Rightarrow> workload_profile \<Rightarrow> memory_config
     \<Rightarrow> nat \<Rightarrow> bool" where
  "tp_fits m gpus kv_for_tp context_length w cfg tp =
     (case estimate_memory m gpus tp (kv_for_tp tp) context_length w cfg 1 None of
        Some e \<Rightarrow> me_fits e | None \<Rightarrow> False)"

text \<open>The outer \<open>None\<close> is the \<^verbatim>\<open>ValueError\<close> of the first estimate over an empty GPU list.\<close>

definition minimum_tp_that_fits ::
    "model_profile \<Rightarrow> gpu_device list \<Rightarrow> (nat \<Rightarrow> kv_estimate) \<Rightarrow> int \<Rightarrow> workload_profile \<Rightarrow> memory_config
     \<Rightarrow> nat list \<Rightarrow> nat option option" where
  "minimum_tp_that_fits m gpus kv_for_tp context_length w cfg cands =
     (if gpus = [] \<and> cands \<noteq> [] then None
      else Some (find (tp_fits m gpus kv_for_tp context_length w cfg) (sort cands)))"

section \<open>The automatic fraction never claims the reserve\<close>

lemma powi_2_minus: "(2::rat) powi (- int n) = inverse (2 ^ n)"
  by (simp only: power_int_minus power_int_of_nat)

lemma fl_rel:
  assumes x: "1 / 2 ^ 100 \<le> (x :: rat)"
  shows "fl x \<le> x + x / 2 ^ 53" "x - x / 2 ^ 53 \<le> fl x"
proof -
  have "e_norm \<le> - int 100" by (simp add: e_norm_def)
  then have "(2::rat) powi e_norm \<le> 2 powi (- int 100)" by (rule powi_2_le)
  also have "\<dots> \<le> x" unfolding powi_2_minus using x by (simp only: inverse_eq_divide)
  finally have n: "2 powi e_norm \<le> x" .
  have x0: "0 \<le> x" using x by (rule order_trans[rotated]) simp
  have "\<bar>fl x - x\<bar> \<le> \<bar>x\<bar> * 2 powi (- int 53)" using fl_rel_error[of x] n x0 by simp
  then have "\<bar>fl x - x\<bar> \<le> x / 2 ^ 53" unfolding powi_2_minus using x0 by (simp only: abs_of_nonneg divide_inverse)
  then show "fl x \<le> x + x / 2 ^ 53" "x - x / 2 ^ 53 \<le> fl x" by (simp_all only: abs_le_iff) linarith+
qed

lemma less_bump: "z \<le> p + p / 2 ^ 53 \<Longrightarrow> p \<le> b + b / 2 ^ 53 \<Longrightarrow> b \<le> 2 ^ 44 \<Longrightarrow> z < b + (1::rat)"
  by (simp add: field_simps)

lemma floor_percent_le:
  assumes t: "0 < t" "t < 2 ^ 44" and b: "0 \<le> b" "b \<le> t"
  shows "\<lfloor>fl_mul (int_div b t) 100\<rfloor> * t \<le> 100 * b"
proof (cases "b = 0")
  case True
  then show ?thesis by (simp add: fl_mul_def int_div_def)
next
  case False
  define q :: rat where "q = of_int b / of_int t"
  define k where "k = \<lfloor>fl_mul (int_div b t) 100\<rfloor>"
  have tq: "(0::rat) < of_int t" using t by simp
  have q1: "q \<le> 1" using b t by (simp add: q_def)
  have qlow: "1 / 2 ^ 44 \<le> q"
  proof -
    have "(of_int t :: rat) \<le> 2 ^ 44 * of_int b"
    proof -
      have "t \<le> 2 ^ 44 * b" using t(2) mult_left_mono[of 1 b "2 ^ 44"] b False by linarith
      then show ?thesis by (metis of_int_le_iff of_int_mult of_int_numeral of_int_power)
    qed
    then show ?thesis using tq by (simp add: q_def field_simps)
  qed
  define x where "x = fl q"
  have x: "x \<le> q + q / 2 ^ 53" "q - q / 2 ^ 53 \<le> x" unfolding x_def using fl_rel[of q] qlow by simp_all
  have x0: "q / 2 \<le> x" using x qlow by (simp add: field_simps)
  have y: "fl (x * 100) \<le> x * 100 + x * 100 / 2 ^ 53"
    using x0 qlow by (intro fl_rel(1)) simp
  have up: "fl (x * 100) \<le> 100 * q + 1 / 2 ^ 45" using x y q1 by (simp add: field_simps)
  have "of_int k \<le> fl (x * 100)" by (simp add: k_def fl_mul_def int_div_def x_def q_def)
  then have k: "of_int k \<le> 100 * q + 1 / 2 ^ 45" using up by linarith
  show ?thesis
  proof (rule ccontr)
    assume "\<not> \<lfloor>fl_mul (int_div b t) 100\<rfloor> * t \<le> 100 * b"
    then have "100 * b + 1 \<le> k * t" by (simp add: k_def)
    then have "(of_int (100 * b + 1) :: rat) \<le> of_int (k * t)" by (simp only: of_int_le_iff)
    then have "100 * (of_int b :: rat) + 1 \<le> of_int k * of_int t" by simp
    then have "100 * q + 1 / of_int t \<le> of_int k" using tq by (simp add: q_def field_simps)
    then have "1 / of_int t \<le> (1 / 2 ^ 45 :: rat)" using k by linarith
    then have "(2 ^ 45 :: rat) \<le> of_int t" using tq by (simp add: field_simps)
    moreover have "(of_int t :: rat) < 2 ^ 44" using t(2) by (metis of_int_less_iff of_int_numeral of_int_power)
    ultimately show False by simp
  qed
qed

lemma percent_budget_le:
  assumes t: "0 < t" "t < 2 ^ 44" and b: "0 \<le> b" "b \<le> t" and k: "k * t \<le> 100 * b" "0 \<le> k"
  shows "py_int (fl_mul (int_div k 100) (fl_int t)) \<le> b"
proof (cases "k = 0")
  case True
  then show ?thesis using b by (simp add: int_div_def fl_mul_def py_int_def)
next
  case False
  define q :: rat where "q = of_int k / 100"
  have k1: "1 \<le> k" using False k(2) by linarith
  have q: "1 / 100 \<le> q" using k1 by (simp add: q_def)
  have tq: "(1::rat) \<le> of_int t" "(of_int t :: rat) \<le> 2 ^ 44"
    using t by (simp, metis less_imp_le of_int_le_iff of_int_numeral of_int_power)
  have b44: "(of_int b :: rat) \<le> 2 ^ 44" using b(2) tq(2) by (meson of_int_le_iff order_trans)
  have "of_int (k * t) \<le> (of_int (100 * b) :: rat)" using k(1) by (simp only: of_int_le_iff)
  then have qt: "q * of_int t \<le> of_int b" by (simp add: q_def)
  define x where "x = fl q"
  have x: "x \<le> q + q / 2 ^ 53" "q / 2 \<le> x"
    unfolding x_def using fl_rel[of q] q by (simp_all add: field_simps)
  have xt: "x * of_int t \<le> of_int b + of_int b / 2 ^ 53"
  proof -
    have "x * of_int t \<le> (q + q / 2 ^ 53) * of_int t" using x tq by (intro mult_right_mono) auto
    also have "\<dots> = q * of_int t + q * of_int t / 2 ^ 53" by (simp add: field_simps)
    finally show ?thesis using qt by (simp add: field_simps)
  qed
  have low: "1 / 2 ^ 100 \<le> x * of_int t"
  proof -
    have "x * 1 \<le> x * of_int t" using x q tq by (intro mult_left_mono) auto
    moreover have "1 / 2 ^ 100 \<le> x" using x q by (simp add: field_simps)
    ultimately show ?thesis by linarith
  qed
  have y: "fl (x * of_int t) \<le> x * of_int t + x * of_int t / 2 ^ 53"
    using low by (rule fl_rel(1))
  have "fl (x * of_int t) < of_int b + 1"
    using less_bump[OF y xt b44] .
  moreover have "fl_int t = of_int t" using t by (intro fl_int_exact) auto
  ultimately have "fl_mul (int_div k 100) (fl_int t) < of_int (b + 1)"
    by (simp add: fl_mul_def int_div_def x_def q_def)
  moreover have "0 \<le> fl_mul (int_div k 100) (fl_int t)"
    using k1 t by (auto simp: fl_mul_def int_div_def fl_int_def intro!: fl_nonneg mult_nonneg_nonneg)
  ultimately show ?thesis by (simp add: py_int_def floor_le_iff)
qed

lemma fl_mul_mono_left: "x \<le> y \<Longrightarrow> 0 \<le> z \<Longrightarrow> fl_mul x z \<le> fl_mul y z"
  by (simp add: fl_mul_def fl_mono mult_right_mono)

lemma safety_reserve_nonneg:
  "0 \<le> mc_min_headroom_bytes cfg \<Longrightarrow> 0 \<le> safety_reserve_bytes device cfg"
  by (simp add: safety_reserve_bytes_def py_int_nonneg le_max_iff_disj)

lemma auto_fraction_budget:
  assumes t: "0 < device" "device < 2 ^ 44" and free: "free \<le> device" and cfg: "0 \<le> mc_min_headroom_bytes cfg"
  shows "py_int (fl_mul (compute_memory_fraction device free cfg) (fl_int device))
    \<le> max 0 (free - safety_reserve_bytes device cfg)"
proof -
  define b where "b = free - safety_reserve_bytes device cfg"
  define k where "k = \<lfloor>fl_mul (int_div b device) 100\<rfloor>"
  have ft: "0 \<le> fl_int device" using t by (simp add: fl_int_def fl_nonneg)
  have frac: "compute_memory_fraction device free cfg = max 0 (min (mc_max_memory_fraction cfg) (int_div k 100))"
    using t by (simp add: compute_memory_fraction_def Let_def b_def k_def)
  have zero: "py_int (fl_mul x (fl_int device)) \<le> 0" if "x \<le> 0" for x
  proof -
    have "fl_mul x (fl_int device) \<le> 0" using that ft by (simp add: fl_mul_def fl_nonpos mult_nonpos_nonneg)
    then show ?thesis using py_int_mono[of _ 0] by (simp add: py_int_def)
  qed
  show ?thesis
  proof (cases "0 \<le> b \<and> 0 \<le> k")
    case True
    have "b \<le> device" using free safety_reserve_nonneg[OF cfg, of device] by (simp add: b_def)
    then have "py_int (fl_mul (int_div k 100) (fl_int device)) \<le> b"
      using True t floor_percent_le[of device b] by (intro percent_budget_le) (auto simp: k_def)
    moreover have "compute_memory_fraction device free cfg \<le> max 0 (int_div k 100)" unfolding frac by auto
    moreover have "0 \<le> int_div k 100" using True by (simp add: int_div_def fl_nonneg)
    ultimately show ?thesis using True fl_mul_mono_left[OF _ ft] py_int_mono
      unfolding b_def[symmetric] by (smt (verit) max_absorb2)
  next
    case False
    have "int_div k 100 \<le> 0"
    proof -
      have "k \<le> 0"
      proof (cases "0 \<le> b")
        case False
        then have "fl_mul (int_div b device) 100 \<le> 0" using t
          by (simp add: fl_mul_def int_div_def fl_nonpos divide_nonpos_nonneg mult_nonpos_nonneg)
        then show ?thesis by (simp add: k_def floor_le_iff)
      qed (use False in auto)
      then show ?thesis by (simp add: int_div_def fl_nonpos divide_nonpos_nonneg)
    qed
    then have "compute_memory_fraction device free cfg \<le> 0" unfolding frac by auto
    then show ?thesis using zero by (simp add: le_max_iff_disj)
  qed
qed

section \<open>What a fitting estimate promises\<close>

lemma estimate_memory_Some:
  assumes "estimate_memory m gpus tp kv ctx w cfg pp forced = Some e"
  shows "py_min (map gd_total_memory_bytes gpus) = Some (me_device_total_bytes e)" (is ?total)
    and "py_min (map gd_free_memory_bytes gpus) = Some (me_device_free_bytes e)" (is ?free)
    and "me_engine_budget_bytes e = py_int (fl_mul (chosen_fraction forced (me_device_total_bytes e) (me_device_free_bytes e) cfg)
           (fl_int (me_device_total_bytes e)))" (is ?budget)
    and "me_memory_fraction e = py_round2 (chosen_fraction forced (me_device_total_bytes e) (me_device_free_bytes e) cfg)"
      (is ?fraction)
    and "me_safety_reserve_bytes e = safety_reserve_bytes (me_device_total_bytes e) cfg" (is ?reserve)
    and "me_weights_bytes e = fst (weights_pass m (tp * pp) cfg)" (is ?weights)
    and "me_kv_bytes_per_token_per_gpu e = kv_per_gpu_bytes kv pp" (is ?kv)
    and "\<exists>conf. let v = kv_pass (me_weights_bytes e) conf (me_engine_budget_bytes e - fixed_bytes e)
             (me_kv_bytes_per_token_per_gpu e) (ke_confidence kv) ctx w cfg;
           r = fst (veto_pass (me_device_total_bytes e) (me_device_free_bytes e) forced
                 (chosen_fraction forced (me_device_total_bytes e) (me_device_free_bytes e) cfg)
                 (me_engine_budget_bytes e) cfg (kvd_fits v, kvd_shortfall v))
         in me_fits e = fst r \<and> me_shortfall_bytes e = max 0 (snd r)" (is ?verdict)
proof -
  obtain device free where d: "py_min (map gd_total_memory_bytes gpus) = Some device"
      "py_min (map gd_free_memory_bytes gpus) = Some free"
    using assms by (auto simp: estimate_memory_def split: option.splits)
  note e = assms[unfolded estimate_memory_def d option.case prod.case Let_def option.inject, symmetric]
  show ?total ?free ?budget ?fraction ?reserve ?weights ?kv by (simp_all add: e d)
  show ?verdict
    by (rule exI[of _ "fst (snd (weights_pass m (tp * pp) cfg))"]) (simp add: e fixed_bytes_def Let_def)
qed

lemma veto_pass_fits:
  assumes "fst (fst (veto_pass device free forced fraction budget cfg (fits, shortfall)))"
  shows "fits" "snd (fst (veto_pass device free forced fraction budget cfg (fits, shortfall))) = shortfall"
    "forced \<noteq> None \<Longrightarrow> budget \<le> free" "mc_min_memory_fraction cfg \<le> fraction"
  using assms by (auto simp: veto_pass_def Let_def not_less split: if_splits prod.splits)

lemma kv_pass_fits:
  assumes "kvd_fits (kv_pass (Some wb) conf avail (Some b) kc ctx w cfg)" "b \<noteq> 0"
  shows "b * ctx * mc_min_kv_sequences cfg \<le> avail"
    "kvd_shortfall (kv_pass (Some wb) conf avail (Some b) kc ctx w cfg) = 0"
  using assms by (simp_all add: kv_pass_def Let_def)

text \<open>
  C18: An estimate that fits keeps its promises: with known weights and KV size the fixed costs plus
  the KV cache of the minimum number of full-context sequences are within the engine's budget, the
  shortfall is zero, and the budget is memory that is really free on every GPU of the group; when
  the fraction was not forced the safety reserve stays untouched as well.
\<close>

theorem estimate_memory_fits:
  assumes est: "estimate_memory m gpus tp kv ctx w cfg pp forced = Some e" and fits: "me_fits e"
    and gpus: "\<forall>g \<in> set gpus. 0 < gd_total_memory_bytes g \<and> gd_total_memory_bytes g < 2 ^ 44
      \<and> gd_free_memory_bytes g \<le> gd_total_memory_bytes g"
    and cfg: "0 \<le> mc_min_headroom_bytes cfg"
    and known: "me_weights_bytes e = Some wb" "me_kv_bytes_per_token_per_gpu e = Some b" "b \<noteq> 0"
  shows "fixed_bytes e + b * ctx * mc_min_kv_sequences cfg \<le> me_engine_budget_bytes e
    \<and> me_shortfall_bytes e = 0
    \<and> (\<forall>g \<in> set gpus. me_engine_budget_bytes e
         \<le> (if forced = None then max 0 (gd_free_memory_bytes g - me_safety_reserve_bytes e) else gd_free_memory_bytes g))"
proof -
  note s = estimate_memory_Some[OF est]
  let ?f = "chosen_fraction forced (me_device_total_bytes e) (me_device_free_bytes e) cfg"
  obtain conf v where v: "v = kv_pass (Some wb) conf (me_engine_budget_bytes e - fixed_bytes e) (Some b) (ke_confidence kv) ctx w cfg"
    and r: "me_fits e = fst (fst (veto_pass (me_device_total_bytes e) (me_device_free_bytes e) forced ?f
        (me_engine_budget_bytes e) cfg (kvd_fits v, kvd_shortfall v)))"
      "me_shortfall_bytes e = max 0 (snd (fst (veto_pass (me_device_total_bytes e) (me_device_free_bytes e) forced ?f
        (me_engine_budget_bytes e) cfg (kvd_fits v, kvd_shortfall v))))"
    using s(8) unfolding known(1,2) Let_def by blast
  note veto = veto_pass_fits[OF fits[unfolded r(1)]]
  note kvp = kv_pass_fits[OF veto(1)[unfolded v] known(3)]
  have 1: "fixed_bytes e + b * ctx * mc_min_kv_sequences cfg \<le> me_engine_budget_bytes e" using kvp(1) by simp
  have 2: "me_shortfall_bytes e = 0" unfolding r(2) veto(2) using kvp(2) v by simp
  have min: "me_device_total_bytes e \<in> gd_total_memory_bytes ` set gpus"
      "\<forall>g \<in> set gpus. me_device_total_bytes e \<le> gd_total_memory_bytes g"
      "\<forall>g \<in> set gpus. me_device_free_bytes e \<le> gd_free_memory_bytes g"
    using s(1,2) by (auto simp: py_min_iff)
  then have tot: "0 < me_device_total_bytes e" "me_device_total_bytes e < 2 ^ 44"
      "me_device_free_bytes e \<le> me_device_total_bytes e" using gpus by force+
  have "me_engine_budget_bytes e
      \<le> (if forced = None then max 0 (me_device_free_bytes e - me_safety_reserve_bytes e) else me_device_free_bytes e)"
    using veto(3) auto_fraction_budget[OF tot cfg] s(3,5) by (auto simp: chosen_fraction_def)
  then have 3: "\<forall>g \<in> set gpus. me_engine_budget_bytes e
      \<le> (if forced = None then max 0 (gd_free_memory_bytes g - me_safety_reserve_bytes e) else gd_free_memory_bytes g)"
    using min(3) by (auto split: if_splits intro: order_trans)
  show ?thesis using 1 2 3 by blast
qed

definition demo_gpu :: "int \<Rightarrow> gpu_device" where
  "demo_gpu i = \<lparr>gd_index = i, gd_uuid = ''GPU-'' @ str_int i, gd_name = ''H100'', gd_total_memory_bytes = 80 * GIB,
     gd_free_memory_bytes = 79 * GIB, gd_used_memory_bytes = GIB, gd_pci_bus_id = None, gd_cc_major = Some 9,
     gd_cc_minor = Some 0, gd_numa_node = None, gd_mig_mode = None, gd_node_id = None, gd_node_ip = None,
     gd_local_index = None\<rparr>"

definition demo_model :: model_profile where
  "demo_model = llama_8b\<lparr>mp_weight_bytes := Some (16 * GIB), mp_weight_size_source := Local_files\<rparr>"

definition demo_workload :: workload_profile where
  "demo_workload = \<lparr>wl_name = ''chat'', wl_input_tokens_p50 = 512, wl_input_tokens_p95 = 2048,
     wl_output_tokens_p50 = 256, wl_output_tokens_p95 = 768, wl_max_context_tokens = 8192,
     wl_expected_concurrency = None, wl_target_request_rate = None, wl_shared_prefix_fraction = 0,
     wl_streaming = True, wl_objective = Throughput, wl_latency_constraints = None\<rparr>"

lemma demo_fits:
  "case estimate_memory demo_model [demo_gpu 0] 1 (estimate_kv demo_model 1 None) 8192 demo_workload default_memory_config 1 None of
     Some e \<Rightarrow> me_fits e \<and> me_weights_bytes e = Some (16 * GIB) \<and> me_kv_bytes_per_token_per_gpu e = Some 131072
   | None \<Rightarrow> False"
  by code_simp

lemma estimate_memory_fits_witness:
  "\<exists>e. estimate_memory demo_model [demo_gpu 0] 1 (estimate_kv demo_model 1 None) 8192 demo_workload
         default_memory_config 1 None = Some e
     \<and> fixed_bytes e + 131072 * 8192 * 1 \<le> me_engine_budget_bytes e
     \<and> me_engine_budget_bytes e \<le> max 0 (79 * GIB - me_safety_reserve_bytes e)"
proof -
  let ?e = "estimate_memory demo_model [demo_gpu 0] 1 (estimate_kv demo_model 1 None) 8192 demo_workload default_memory_config 1 None"
  note demo_fits
  then obtain e where e: "?e = Some e" "me_fits e" "me_weights_bytes e = Some (16 * GIB)" "me_kv_bytes_per_token_per_gpu e = Some 131072"
    by (auto split: option.splits)
  have g: "\<forall>g \<in> set [demo_gpu 0]. 0 < gd_total_memory_bytes g \<and> gd_total_memory_bytes g < 2 ^ 44
      \<and> gd_free_memory_bytes g \<le> gd_total_memory_bytes g" by (simp add: demo_gpu_def GIB_def)
  have c: "0 \<le> mc_min_headroom_bytes default_memory_config" "mc_min_kv_sequences default_memory_config = 1"
    by (simp_all add: default_memory_config_def GIB_def)
  show ?thesis using estimate_memory_fits[OF e(1,2) g c(1) e(3,4)] e(1) c(2) by (simp add: demo_gpu_def)
qed

text \<open>
  The smallest tensor-parallel size is the smallest: the result is a candidate whose estimate
  fits while no smaller candidate's does, and there is none exactly when no candidate fits.
\<close>

theorem minimum_tp_least:
  assumes "minimum_tp_that_fits m gpus kv_for_tp ctx w cfg cands = Some r"
  shows "case r of
      Some tp \<Rightarrow> tp \<in> set cands \<and> tp_fits m gpus kv_for_tp ctx w cfg tp
        \<and> (\<forall>t \<in> set cands. t < tp \<longrightarrow> \<not> tp_fits m gpus kv_for_tp ctx w cfg t)
    | None \<Rightarrow> \<forall>t \<in> set cands. \<not> tp_fits m gpus kv_for_tp ctx w cfg t"
proof -
  let ?P = "tp_fits m gpus kv_for_tp ctx w cfg"
  have r: "r = find ?P (sort cands)" using assms by (simp add: minimum_tp_that_fits_def split: if_splits)
  show ?thesis
  proof (cases r)
    case None
    then show ?thesis using find_None_iff[of ?P "sort cands"] r by simp
  next
    case (Some tp)
    then obtain i where i: "i < length (sort cands)" "?P (sort cands ! i)" "tp = sort cands ! i"
      "\<forall>j < i. \<not> ?P (sort cands ! j)" using r by (auto simp: find_Some_iff dest: sym)
    have "\<not> ?P t" if "t \<in> set cands" "t < tp" for t
    proof -
      from that(1) obtain j where j: "j < length (sort cands)" "t = sort cands ! j" by (metis in_set_conv_nth set_sort)
      have "j < i" using j that(2) i(1,3) sorted_nth_mono[OF sorted_sort, of i j cands] by (metis leD not_le)
      then show ?thesis using i(4) j(2) by blast
    qed
    moreover have "tp \<in> set cands" using i by (metis nth_mem set_sort)
    ultimately show ?thesis using Some i by simp
  qed
qed

section \<open>The fraction that is checked and the fraction that is used\<close>

lemma percent_round_trip:
  assumes "0 \<le> k" "k \<le> 100"
  shows "py_round2 (int_div k 100) = int_div k 100"
proof (cases "k = 0")
  case True
  then show ?thesis using rhe_of_int[of 0] by (simp add: py_round2_def int_div_def)
next
  case False
  define q :: rat where "q = of_int k / 100"
  have q: "1 / 2 ^ 100 \<le> q" "q \<le> 1" using False assms by (simp_all add: q_def field_simps)
  define z where "z = fl q * 100 - of_int k"
  have "z \<le> 1 / 4" "- 1 / 4 \<le> z" using fl_rel[OF q(1)] q(2) unfolding z_def by (simp_all add: q_def field_simps)
  then have "\<bar>of_int (rhe (fl q * 100)) - (of_int k :: rat)\<bar> < 1"
    using rhe_error[of "fl q * 100"] unfolding z_def by linarith
  then have "rhe (fl q * 100) = k" by (metis of_int_abs of_int_diff of_int_less_1_iff zero_less_abs_iff eq_iff_diff_eq_0 linorder_not_less int_one_le_iff_zero_less)
  then show ?thesis by (simp add: py_round2_def int_div_def q_def)
qed

lemma int_div_100_mono: "j \<le> k \<Longrightarrow> int_div j 100 \<le> int_div k 100"
  by (simp add: int_div_def fl_mono divide_right_mono)

text \<open>
  C19: The automatic fraction is passed on exactly: the two decimals of the estimate's memory fraction
  are those of the fraction its budget was computed from, so an engine that multiplies the
  fraction with the device's memory arrives at the budget that was checked.
\<close>

theorem auto_fraction_exact:
  assumes est: "estimate_memory m gpus tp kv ctx w cfg pp None = Some e"
    and max: "mc_max_memory_fraction cfg = fl (95 / 100)"
  shows "me_engine_budget_bytes e = py_int (fl_mul (me_memory_fraction e) (fl_int (me_device_total_bytes e)))"
proof -
  note s = estimate_memory_Some[OF est]
  define f where "f = compute_memory_fraction (me_device_total_bytes e) (me_device_free_bytes e) cfg"
  have zero: "int_div 0 100 = 0" by (simp add: int_div_def)
  have m: "fl (95 / 100) = int_div 95 100" by (simp add: int_div_def)
  have "\<exists>k \<in> {0..95}. f = int_div k 100"
  proof (cases "me_device_total_bytes e \<le> 0")
    case True
    then show ?thesis using zero by (intro bexI[of _ 0]) (auto simp: f_def compute_memory_fraction_def)
  next
    case False
    then obtain k where f: "f = Orderings.max 0 (min (int_div 95 100) (int_div k 100))"
      using max m by (auto simp: f_def compute_memory_fraction_def Let_def)
    have "f = int_div (Orderings.max 0 (min 95 k)) 100"
      unfolding f zero[symmetric] using int_div_100_mono[of 0] int_div_100_mono[of 95 k] int_div_100_mono[of k 95] int_div_100_mono[of k 0]
      by (auto simp: max_def min_def intro: antisym)
    then show ?thesis by (intro bexI[of _ "Orderings.max 0 (min 95 k)"]) auto
  qed
  then have "py_round2 f = f" using percent_round_trip by auto
  then show ?thesis using s(3,4) by (simp add: chosen_fraction_def f_def)
qed

lemma minimum_tp_least_witness:
  "tp_fits demo_model [demo_gpu 0] (\<lambda>tp. estimate_kv demo_model (int tp) None) 8192 demo_workload default_memory_config 1"
proof -
  let ?P = "tp_fits demo_model [demo_gpu 0] (\<lambda>tp. estimate_kv demo_model (int tp) None) 8192 demo_workload default_memory_config"
  have "?P 1" using demo_fits by (auto simp: tp_fits_def split: option.splits)
  then have "minimum_tp_that_fits demo_model [demo_gpu 0] (\<lambda>tp. estimate_kv demo_model (int tp) None) 8192 demo_workload
      default_memory_config [2, 1] = Some (Some 1)" by (simp add: minimum_tp_that_fits_def)
  from minimum_tp_least[OF this] show ?thesis by simp
qed

lemma auto_fraction_exact_witness:
  "\<exists>e. estimate_memory demo_model [demo_gpu 0] 1 (estimate_kv demo_model 1 None) 8192 demo_workload default_memory_config 1 None = Some e
     \<and> me_engine_budget_bytes e = py_int (fl_mul (me_memory_fraction e) (fl_int (me_device_total_bytes e)))"
proof -
  obtain e where e: "estimate_memory demo_model [demo_gpu 0] 1 (estimate_kv demo_model 1 None) 8192 demo_workload default_memory_config 1 None = Some e"
    by (auto simp: estimate_memory_def py_min_def min_by_def Let_def)
  then show ?thesis using auto_fraction_exact[OF e] by (simp add: default_memory_config_def)
qed

text \<open>
  A forced fraction is not passed on exactly: with a forced fraction of 0.876 on a device of 80
  GiB of which 70.2 GiB are free the estimate fits, yet the fraction it stores for the engine is
  rounded to 0.88 and claims more memory than is free.
\<close>

theorem forced_fraction_overcommits:
  "case estimate_memory demo_model [(demo_gpu 0)\<lparr>gd_free_memory_bytes := 75376676044\<rparr>] 1 (estimate_kv demo_model 1 None)
      8192 demo_workload default_memory_config 1 (Some (fl (876 / 1000))) of
     Some e \<Rightarrow> me_fits e \<and> me_memory_fraction e = fl (88 / 100)
       \<and> 75376676044 < py_int (fl_mul (me_memory_fraction e) (fl_int (me_device_total_bytes e)))
   | None \<Rightarrow> False"
  by code_simp

end
