(* ===== verification/GPU_Groups.thy ===== *)
theory GPU_Groups
  imports Hardware
begin

text \<open>
  Assignment of GPUs to tensor-parallel groups (\<^verbatim>\<open>planner/gpu_groups.py\<close>): the scores of pairs, groups
  and partitions, the exhaustive search for small machines, the greedy heuristic for larger ones,
  and the planner that keeps groups within machines.
\<close>

section \<open>Scores\<close>

text \<open>\<^verbatim>\<open>self._node_of\<close> is built from the devices in order, so a later device wins.\<close>

definition planner_node :: "hardware_snapshot \<Rightarrow> int \<Rightarrow> string option option" where
  "planner_node s = map_of (rev (map (\<lambda>g. (gd_index g, gd_node_id g)) (hs_gpus s)))"

text \<open>The score of a pair does not depend on the order of the two, so the cache that
  \<^verbatim>\<open>pair_score\<close> keeps under the ordered pair never shows.\<close>

definition pair_score :: "hardware_snapshot \<Rightarrow> int \<Rightarrow> int \<Rightarrow> int" where
  "pair_score s a b =
     (if planner_node s a \<noteq> planner_node s b then 0
      else if \<not> gt_available (hs_topology s) then max 1 (8 - \<bar>a - b\<bar>)
      else topo_score (hs_topology s) a b)"

definition group_score :: "hardware_snapshot \<Rightarrow> int list \<Rightarrow> int" where
  "group_score s g = sum_list (map (\<lambda>(a, b). pair_score s a b) (pairs_of (sort g)))"

definition partition_score :: "hardware_snapshot \<Rightarrow> int list list \<Rightarrow> int" where
  "partition_score s gs = sum_list (map (group_score s) gs)"

lemma pair_score_commute: "pair_score s a b = pair_score s b a"
  by (simp add: pair_score_def topo_score_commute abs_minus_commute)

lemma pair_score_nonneg: "links_nonneg (hs_topology s) \<Longrightarrow> 0 \<le> pair_score s a b"
  by (simp add: pair_score_def topo_score_nonneg le_max_iff_disj)

lemma partition_score_nonneg: "links_nonneg (hs_topology s) \<Longrightarrow> 0 \<le> partition_score s gs"
  unfolding partition_score_def group_score_def
  by (intro sum_list_nonneg) (auto intro!: sum_list_nonneg simp: pair_score_nonneg)

lemma group_score_sort [simp]: "group_score s (sort g) = group_score s g"
  by (simp add: group_score_def sorted_sort_id)

section \<open>Exhaustive search\<close>

text \<open>The state of the search is the best partition so far and its score.\<close>

type_synonym search = "int list list option \<times> int"

definition keep_best :: "hardware_snapshot \<Rightarrow> int list list \<Rightarrow> search \<Rightarrow> search" where
  "keep_best s chosen st =
     (let score = partition_score s chosen in if snd st < score then (Some chosen, score) else st)"

function recurse :: "hardware_snapshot \<Rightarrow> nat \<Rightarrow> nat \<Rightarrow> int list \<Rightarrow> int list list \<Rightarrow> search \<Rightarrow> search" where
  "recurse s tp replicas remaining chosen st =
     (if length chosen = replicas then keep_best s chosen st
      else if length remaining < tp * (replicas - length chosen) then st
      else case remaining of
        [] \<Rightarrow> st
      | anchor # rest \<Rightarrow>
          (let st = fold (\<lambda>combo st. recurse s tp replicas (minus_list rest combo) (chosen @ [anchor # combo]) st)
                      (combinations rest (tp - 1)) st
           in if tp * (replicas - length chosen) < length remaining
              then recurse s tp replicas rest chosen st else st))"
  by pat_completeness auto
termination
  by (relation "measure (\<lambda>(s, tp, r, remaining, _). length remaining)")
     (auto simp: minus_list_def intro: le_less_trans[OF length_filter_le])

declare recurse.simps [simp del]

definition exhaustive :: "hardware_snapshot \<Rightarrow> nat \<Rightarrow> nat \<Rightarrow> int list \<Rightarrow> int list list option" where
  "exhaustive s tp replicas ids = fst (recurse s tp replicas ids [] (None, - 1))"

section \<open>The greedy heuristic\<close>

text \<open>\<open>None\<close> is the \<^verbatim>\<open>ValueError\<close> of \<^verbatim>\<open>max\<close> over nothing.\<close>

fun grow_group :: "hardware_snapshot \<Rightarrow> nat \<Rightarrow> int list \<Rightarrow> int list \<Rightarrow> (int list \<times> int list) option" where
  "grow_group s 0 grp remaining = Some (grp, remaining)"
| "grow_group s (Suc k) grp remaining =
     (case max_by (\<lambda>c. (sum_list (map (pair_score s c) grp), - c)) remaining of
        None \<Rightarrow> None
      | Some nxt \<Rightarrow> grow_group s k (grp @ [nxt]) (remove1 nxt remaining))"

definition pick_seed :: "hardware_snapshot \<Rightarrow> int list \<Rightarrow> int option" where
  "pick_seed s remaining =
     max_by (\<lambda>i. (sum_list (map (pair_score s i) (filter (\<lambda>j. j \<noteq> i) remaining)), - i)) remaining"

fun greedy :: "hardware_snapshot \<Rightarrow> nat \<Rightarrow> nat \<Rightarrow> int list \<Rightarrow> int list list option" where
  "greedy s tp 0 remaining = Some []"
| "greedy s tp (Suc r) remaining =
     (case pick_seed s remaining of
        None \<Rightarrow> None
      | Some seed \<Rightarrow>
          (case grow_group s (tp - 1) [seed] (remove1 seed remaining) of
             None \<Rightarrow> None
           | Some (grp, rest) \<Rightarrow> map_option ((#) (sort grp)) (greedy s tp r rest)))"

section \<open>The planner\<close>

datatype group_error = No_viable_plan string | Unknown_gpu int | No_maximum

definition EXHAUSTIVE_MAX_GPUS :: nat where "EXHAUSTIVE_MAX_GPUS = 8"

definition first_id :: "int list \<Rightarrow> int" where
  "first_id g = the_or (py_min g) 0"

definition finish_groups :: "int list list \<Rightarrow> int list list" where
  "finish_groups groups = map sort (sort_key first_id groups)"

definition too_few :: "nat \<Rightarrow> nat \<Rightarrow> nat \<Rightarrow> string" where
  "too_few tp replicas n =
     ''TP='' @ str_nat tp @ '' '' @ [CHR 0xC3, CHR 0x97] @ '' '' @ str_nat replicas @ '' replicas needs ''
     @ str_nat (tp * replicas) @ '' GPUs but only '' @ str_nat n @ '' are selected''"

definition choose_groups :: "hardware_snapshot \<Rightarrow> nat \<Rightarrow> nat \<Rightarrow> int list \<Rightarrow> group_error + int list list" where
  "choose_groups s tp replicas ids =
     (if length ids \<le> EXHAUSTIVE_MAX_GPUS then
        (case exhaustive s tp replicas ids of
           None \<Rightarrow> Inl (No_viable_plan ''could not partition GPUs into tensor-parallel groups'')
         | Some gs \<Rightarrow> Inr (finish_groups gs))
      else (case greedy s tp replicas ids of None \<Rightarrow> Inl No_maximum | Some gs \<Rightarrow> Inr (finish_groups gs)))"

text \<open>\<open>plan_within\<close> is \<^verbatim>\<open>plan(..., allow_cross_node=True)\<close>, which \<^verbatim>\<open>_plan_per_node\<close> calls for each machine.\<close>

definition plan_within :: "hardware_snapshot \<Rightarrow> nat \<Rightarrow> nat \<Rightarrow> int list \<Rightarrow> group_error + int list list" where
  "plan_within s tp replicas gpu_ids =
     (let ids = sort gpu_ids in
      if length ids < tp * replicas then Inl (No_viable_plan (too_few tp replicas (length ids)))
      else if tp = 1 then Inr (map (\<lambda>i. [i]) (take replicas ids))
      else choose_groups s tp replicas ids)"

text \<open>The machines in the order of the sort key \<^verbatim>\<open>(n is None, str(n))\<close>, with the ids of each.\<close>

definition nodes_in_order :: "hardware_snapshot \<Rightarrow> int list \<Rightarrow> (string option \<times> int list) list" where
  "nodes_in_order s ids =
     sort_key (\<lambda>(n, _). (n = None, str_opt (\<lambda>t. t) n)) (group_by (\<lambda>i. the_or (planner_node s i) None) (\<lambda>i. i) ids)"

fun plan_nodes :: "hardware_snapshot \<Rightarrow> nat \<Rightarrow> (string option \<times> int list) list \<Rightarrow> group_error + int list list" where
  "plan_nodes s tp [] = Inr []"
| "plan_nodes s tp ((n, node_ids) # rest) =
     (if length node_ids div tp = 0 then plan_nodes s tp rest
      else try_bind (plan_within s tp (length node_ids div tp) node_ids) (\<lambda>gs.
           try_bind (plan_nodes s tp rest) (\<lambda>more. Inr (gs @ more))))"

definition plan_per_node :: "hardware_snapshot \<Rightarrow> nat \<Rightarrow> nat \<Rightarrow> int list \<Rightarrow> group_error + int list list" where
  "plan_per_node s tp replicas ids =
     try_bind (plan_nodes s tp (nodes_in_order s ids)) (\<lambda>groups.
       if length groups < replicas
       then Inl (No_viable_plan (''TP='' @ str_nat tp @ '' groups cannot span machines; only ''
              @ str_nat (length groups) @ '' group(s) fit within nodes but '' @ str_nat replicas
              @ '' replicas were requested''))
       else Inr (take replicas groups))"

definition plan_groups :: "hardware_snapshot \<Rightarrow> nat \<Rightarrow> nat \<Rightarrow> int list option \<Rightarrow> bool \<Rightarrow> group_error + int list list" where
  "plan_groups s tp replicas gpu_ids allow_cross_node =
     (let ids = sort (the_or gpu_ids (map gd_index (hs_gpus s))) in
      if length ids < tp * replicas then Inl (No_viable_plan (too_few tp replicas (length ids)))
      else if tp = 1 then Inr (map (\<lambda>i. [i]) (take replicas ids))
      else if \<not> allow_cross_node then
        (case find (\<lambda>i. planner_node s i = None) ids of
           Some i \<Rightarrow> Inl (Unknown_gpu i)
         | None \<Rightarrow> if 1 < length (remdups (map (planner_node s) ids)) then plan_per_node s tp replicas ids
                   else choose_groups s tp replicas ids)
      else choose_groups s tp replicas ids)"

section \<open>Descriptions\<close>

definition connectivity :: "gpu_topology \<Rightarrow> int list \<Rightarrow> string" where
  "connectivity t g =
     (let pairs = pairs_of (sort g);
          nv = length (filter (\<lambda>(a, b). case topo_edge t a b of None \<Rightarrow> False | Some e \<Rightarrow> te_nvlink_detected e) pairs)
      in if \<not> gt_available t then ''topology unknown''
         else if nv = length pairs then ''NVLink''
         else if 0 < nv then ''partial NVLink ('' @ str_nat nv @ ''/'' @ str_nat (length pairs) @ '' pairs)''
         else ''PCIe '' @ str_join ''/'' (sort (remdups (map (\<lambda>(a, b).
                case topo_edge t a b of None \<Rightarrow> ''UNKNOWN'' | Some e \<Rightarrow> te_relationship e) pairs))))"

definition describe :: "hardware_snapshot \<Rightarrow> int list list \<Rightarrow> string list" where
  "describe s groups =
     map (\<lambda>g. if length g = 1 then ''GPU '' @ str_int (hd g)
              else ''GPUs '' @ str_list str_int g @ '' ('' @ connectivity (hs_topology s) g @ '')'') groups"

section \<open>Valid assignments and the two strategies\<close>

definition valid_groups :: "nat \<Rightarrow> nat \<Rightarrow> int list \<Rightarrow> int list list \<Rightarrow> bool" where
  "valid_groups tp r ids gs \<longleftrightarrow>
     length gs = r \<and> (\<forall>g \<in> set gs. length g = tp) \<and> distinct (concat gs) \<and> set (concat gs) \<subseteq> set ids"

lemma valid_groups_Cons:
  "valid_groups tp (Suc r) ids (g # gs) \<longleftrightarrow>
     length g = tp \<and> distinct g \<and> set g \<subseteq> set ids \<and> set g \<inter> set (concat gs) = {} \<and> valid_groups tp r ids gs"
  by (auto simp: valid_groups_def)

lemma valid_groups_mono: "valid_groups tp r ids gs \<Longrightarrow> set ids \<subseteq> set ids' \<Longrightarrow> valid_groups tp r ids' gs"
  by (auto simp: valid_groups_def)

lemma valid_groups_total: "valid_groups tp r ids gs \<Longrightarrow> length (concat gs) = tp * r"
proof -
  assume v: "valid_groups tp r ids gs"
  then have "map length gs = replicate r tp" by (auto simp: valid_groups_def intro!: nth_equalityI)
  then show ?thesis by (simp add: length_concat sum_list_replicate)
qed

text \<open>The partitions the search visits, in its order.\<close>

function partitions :: "nat \<Rightarrow> nat \<Rightarrow> int list \<Rightarrow> int list list list" where
  "partitions tp k remaining =
     (if k = 0 then [[]]
      else if length remaining < tp * k then []
      else case remaining of
        [] \<Rightarrow> []
      | anchor # rest \<Rightarrow>
          concat (map (\<lambda>combo. map ((#) (anchor # combo)) (partitions tp (k - 1) (minus_list rest combo)))
                   (combinations rest (tp - 1)))
          @ (if tp * k < length remaining then partitions tp k rest else []))"
  by pat_completeness auto
termination
  by (relation "measure (\<lambda>(tp, k, remaining). length remaining)")
     (auto simp: minus_list_def intro: le_less_trans[OF length_filter_le])

declare partitions.simps [simp del]

lemma fold_concat_map:
  "(\<And>c st. c \<in> set cs \<Longrightarrow> g c st = fold f (h c) st) \<Longrightarrow> fold g cs st = fold f (concat (map h cs)) st"
  by (induction cs arbitrary: st) auto

lemma recurse_eq_fold:
  "length chosen \<le> r \<Longrightarrow> recurse s tp r remaining chosen st
     = fold (keep_best s) (map ((@) chosen) (partitions tp (r - length chosen) remaining)) st"
proof (induction s tp r remaining chosen st rule: recurse.induct)
  case (1 s tp r remaining chosen st)
  show ?case
  proof (cases "length chosen = r \<or> length remaining < tp * (r - length chosen) \<or> remaining = []")
    case True
    then show ?thesis using 1(3) by (auto simp: recurse.simps[of s tp r] partitions.simps[of tp _ remaining] split: list.split)
  next
    case False
    then obtain a rest where rem: "remaining = a # rest" by (cases remaining) auto
    let ?k = "r - length chosen"
    have k: "r - length (chosen @ [g]) = ?k - 1" "length (chosen @ [g]) \<le> r" for g using False 1(3) by auto
    have step: "recurse s tp r (minus_list rest c) (chosen @ [a # c]) st'
        = fold (keep_best s) (map ((@) chosen) (map ((#) (a # c)) (partitions tp (?k - 1) (minus_list rest c)))) st'"
      if "c \<in> set (combinations rest (tp - 1))" for c st'
      using 1(1)[OF _ _ rem that, of st'] False k by (simp add: comp_def)
    have fold: "fold (\<lambda>c st. recurse s tp r (minus_list rest c) (chosen @ [a # c]) st) (combinations rest (tp - 1)) st
        = fold (keep_best s) (map ((@) chosen) (concat (map (\<lambda>c. map ((#) (a # c)) (partitions tp (?k - 1) (minus_list rest c)))
            (combinations rest (tp - 1))))) st"
      unfolding map_concat map_map
      by (rule fold_concat_map) (simp add: step comp_def)
    show ?thesis
      using False 1(2)[OF _ _ rem refl] 1(3) fold
      by (simp add: recurse.simps[of s tp r "a # rest"] partitions.simps[of tp ?k "a # rest"] rem Let_def)
  qed
qed

lemma keep_best_fold:
  "fold (keep_best s) ps (b, n) = (b', n') \<Longrightarrow>
     (b' = b \<and> n' = n \<or> (\<exists>p \<in> set ps. b' = Some p \<and> n' = partition_score s p)) \<and> n \<le> n'
     \<and> (\<forall>p \<in> set ps. partition_score s p \<le> n')"
proof (induction ps arbitrary: b n)
  case Nil then show ?case by simp
next
  case (Cons p ps)
  obtain b1 n1 where k: "keep_best s p (b, n) = (b1, n1)" by fastforce
  then have "n \<le> n1" "partition_score s p \<le> n1" "b1 = b \<and> n1 = n \<or> b1 = Some p \<and> n1 = partition_score s p"
    by (auto simp: keep_best_def Let_def split: if_splits)
  then show ?case using Cons.IH[of b1 n1] Cons.prems k by auto
qed

lemma exhaustive_eq: "exhaustive s tp r ids = fst (fold (keep_best s) (partitions tp r ids) (None, - 1))"
proof -
  have "map ((@) []) xs = xs" for xs :: "int list list list" by (induction xs) auto
  then show ?thesis using recurse_eq_fold[of "[]" r s tp ids "(None, - 1)"] by (simp add: exhaustive_def)
qed

lemma exhaustive_Some:
  assumes "exhaustive s tp r ids = Some gs"
  shows "gs \<in> set (partitions tp r ids)" "p \<in> set (partitions tp r ids) \<Longrightarrow> partition_score s p \<le> partition_score s gs"
proof -
  obtain n where "fold (keep_best s) (partitions tp r ids) (None, - 1) = (Some gs, n)"
    using assms unfolding exhaustive_eq by (metis prod.collapse)
  from keep_best_fold[OF this] show "gs \<in> set (partitions tp r ids)"
    "p \<in> set (partitions tp r ids) \<Longrightarrow> partition_score s p \<le> partition_score s gs" by auto
qed

lemma exhaustive_None:
  assumes "exhaustive s tp r ids = None" "links_nonneg (hs_topology s)"
  shows "partitions tp r ids = []"
proof (rule ccontr)
  assume ne: "partitions tp r ids \<noteq> []"
  obtain n where f: "fold (keep_best s) (partitions tp r ids) (None, - 1) = (None, n)"
    using assms unfolding exhaustive_eq by (metis prod.collapse)
  have "partition_score s (hd (partitions tp r ids)) \<le> n" using keep_best_fold[OF f] ne by auto
  moreover have "n = - 1" using keep_best_fold[OF f] by auto
  ultimately show False using partition_score_nonneg[OF assms(2)] by (meson order_trans not_one_le_zero neg_0_le_iff_le)
qed

lemma partitions_valid:
  "p \<in> set (partitions tp k remaining) \<Longrightarrow> distinct remaining \<Longrightarrow> 1 \<le> tp \<Longrightarrow> valid_groups tp k remaining p"
proof (induction tp k remaining arbitrary: p rule: partitions.induct)
  case (1 tp k remaining)
  show ?case
  proof (cases "k = 0 \<or> length remaining < tp * k \<or> remaining = []")
    case True
    then show ?thesis using 1(3) by (auto simp: partitions.simps[of tp k] valid_groups_def split: list.splits if_splits)
  next
    case False
    then obtain a rest where rem: "remaining = a # rest" by (cases remaining) auto
    obtain k' where k': "k = Suc k'" using False by (cases k) auto
    have dr: "distinct rest" "a \<notin> set rest" using 1(4) rem by auto
    from 1(3) consider c q where "c \<in> set (combinations rest (tp - 1))" "q \<in> set (partitions tp k' (minus_list rest c))" "p = (a # c) # q"
      | "tp * k < length remaining" "p \<in> set (partitions tp k rest)"
      using False by (auto simp: partitions.simps[of tp "Suc k'" "a # rest"] rem k' split: if_splits)
    then show ?thesis
    proof cases
      case (1 c q)
      have c: "subseq c rest" "length c = tp - 1" using 1(1) by (simp_all add: set_combinations)
      have sc: "distinct c" "set c \<subseteq> set rest" using c(1) dr(1) combinations_subset[OF 1(1)]
        by (auto simp: subseq_conv_nths)
      have q: "valid_groups tp k' (minus_list rest c) q"
        using "1.IH"(1)[of a rest c q] False rem k' 1(1,2) dr(1) \<open>1 \<le> tp\<close> by (simp add: k')
      show ?thesis unfolding 1(3) k' valid_groups_Cons
        using q c(2) sc dr(2) \<open>1 \<le> tp\<close> rem valid_groups_mono[OF q, of remaining]
        by (auto simp: valid_groups_def)
    next
      case 2
      then have "valid_groups tp k rest p" using "1.IH"(2)[of a rest p] False rem dr(1) \<open>1 \<le> tp\<close> by simp
      then show ?thesis using rem by (auto intro: valid_groups_mono)
    qed
  qed
qed

lemma valid_groups_length: "valid_groups tp k ids F \<Longrightarrow> tp * k \<le> length ids"
proof -
  assume v: "valid_groups tp k ids F"
  have "length (concat F) = card (set (concat F))" using v by (metis distinct_card valid_groups_def)
  also have "\<dots> \<le> card (set ids)" using v by (intro card_mono) (auto simp: valid_groups_def)
  finally show ?thesis using valid_groups_total[OF v] card_length[of ids] by linarith
qed

lemma partitions_complete:
  "valid_groups tp k remaining F \<Longrightarrow> distinct remaining \<Longrightarrow> sorted remaining \<Longrightarrow> 1 \<le> tp \<Longrightarrow>
     \<exists>P \<in> set (partitions tp k remaining). image_mset sort (mset P) = image_mset sort (mset F)"
proof (induction tp k remaining arbitrary: F rule: partitions.induct)
  case (1 tp k remaining)
  note len = valid_groups_length[OF 1(3)]
  show ?case
  proof (cases k)
    case 0
    then show ?thesis using 1(3) by (auto simp: valid_groups_def partitions.simps[of tp 0])
  next
    case k: (Suc k')
    then obtain a rest where rem: "remaining = a # rest" using len 1(6) by (cases remaining) auto
    have enough: "\<not> length remaining < tp * k" "k \<noteq> 0" using len k by auto
    have rest: "distinct rest" "sorted rest" "a \<notin> set rest" "\<forall>x \<in> set rest. a \<le> x" using 1(4,5) rem by auto
    show ?thesis
    proof (cases "a \<in> set (concat F)")
      case True
      then obtain g F1 F2 where F: "F = F1 @ g # F2" "a \<in> set g" by (metis concat_eq_concat_iff in_set_conv_decomp in_set_conv_nth set_concat UN_E)
      define c where "c = filter (\<lambda>x. x \<in> set g) rest"
      have g: "length g = tp" "distinct g" "set g \<subseteq> set remaining" using 1(3) F by (auto simp: valid_groups_def)
      have "set (a # c) = set g" "sorted (a # c)" "distinct (a # c)"
        using g F(2) rest rem by (auto simp: c_def sorted_wrt_filter)
      then have sg: "sort g = a # c" using g(2) by (metis sorted_distinct_set_unique distinct_sort set_sort sorted_sort)
      then have lc: "length c = tp - 1" using g(1) by (metis One_nat_def diff_Suc_1' length_Cons length_sort)
      have "subseq c rest" by (simp add: c_def)
      then have cc: "c \<in> set (combinations rest (tp - 1))" using lc by (simp add: set_combinations)
      have gset: "set g = insert a (set c)" using \<open>set (a # c) = set g\<close> by simp
      have v: "valid_groups tp k' (minus_list rest c) (F1 @ F2)"
        using 1(3) F(1) k gset rem by (auto simp: valid_groups_def)
      have "distinct (minus_list rest c)" "sorted (minus_list rest c)"
        using rest by (auto simp: minus_list_def sorted_wrt_filter)
      then obtain q where q: "q \<in> set (partitions tp k' (minus_list rest c))"
          "image_mset sort (mset q) = image_mset sort (mset (F1 @ F2))"
        using "1.IH"(1)[OF enough(2,1) rem cc, of "F1 @ F2"] v k 1(6) by auto
      have "(a # c) # q \<in> set (partitions tp k remaining)"
        using q(1) cc enough k by (auto simp: partitions.simps[of tp "Suc k'" "a # rest"] rem)
      moreover have "sort (a # c) = sort g" using sg sorted_sort_id[of "a # c"] \<open>sorted (a # c)\<close> by simp
      then have "image_mset sort (mset ((a # c) # q)) = image_mset sort (mset F)" using q(2) F(1) by simp
      ultimately show ?thesis by blast
    next
      case False
      then have v: "valid_groups tp k rest F" using 1(3) rem by (auto simp: valid_groups_def)
      then have "tp * k < length remaining" using valid_groups_length[OF v] rem by simp
      moreover obtain P where "P \<in> set (partitions tp k rest)" "image_mset sort (mset P) = image_mset sort (mset F)"
        using "1.IH"(2)[OF enough(2,1) rem \<open>tp * k < length remaining\<close> v] rest 1(6) by auto
      ultimately show ?thesis using enough by (auto simp: partitions.simps[of tp k "a # rest"] rem)
    qed
  qed
qed

lemma partition_score_mset: "partition_score s gs = sum_mset (image_mset (group_score s) (image_mset sort (mset gs)))"
proof -
  have "map (group_score s) gs = map (group_score s \<circ> sort) gs" by simp
  then show ?thesis unfolding partition_score_def by (metis image_mset.compositionality mset_map sum_mset_sum_list)
qed

lemma exhaustive_optimal:
  assumes "exhaustive s tp r ids = Some gs" "valid_groups tp r ids F" "distinct ids" "sorted ids" "1 \<le> tp"
  shows "partition_score s F \<le> partition_score s gs"
proof -
  obtain P where "P \<in> set (partitions tp r ids)" "image_mset sort (mset P) = image_mset sort (mset F)"
    using partitions_complete[OF assms(2-5)] by blast
  then show ?thesis using exhaustive_Some(2)[OF assms(1)] by (metis partition_score_mset)
qed

lemma partitions_nonempty:
  "tp * k \<le> length remaining \<Longrightarrow> distinct remaining \<Longrightarrow> 1 \<le> tp \<Longrightarrow> partitions tp k remaining \<noteq> []"
proof (induction tp k remaining rule: partitions.induct)
  case (1 tp k remaining)
  show ?case
  proof (cases k)
    case 0 then show ?thesis by (simp add: partitions.simps[of tp 0])
  next
    case k: (Suc k')
    then obtain a rest where rem: "remaining = a # rest" using 1(3,5) by (cases remaining) auto
    define c where "c = take (tp - 1) rest"
    have lc: "length c = tp - 1" using 1(3,5) k rem by (simp add: c_def)
    have "prefix c rest" by (simp add: c_def take_is_prefix)
    then have cc: "c \<in> set (combinations rest (tp - 1))" using lc by (simp add: set_combinations prefix_imp_subseq)
    have dr: "distinct rest" using 1(4) rem by simp
    then have "minus_list rest c = drop (tp - 1) rest"
    proof -
      define d where "d = drop (tp - 1) rest"
      have app: "rest = c @ d" by (simp add: c_def d_def)
      then have "set c \<inter> set d = {}" using dr by simp
      then have "filter (\<lambda>x. x \<notin> set c) (c @ d) = d" by (auto simp: filter_empty_conv filter_id_conv)
      then show ?thesis by (simp only: minus_list_def app[symmetric] d_def[symmetric])
    qed
    then have "tp * k' \<le> length (minus_list rest c)" using 1(3,5) k rem by simp
    then have "partitions tp k' (minus_list rest c) \<noteq> []"
      using "1.IH"(1)[OF _ _ rem cc] 1(3,5) k dr by simp
    then obtain q where "q \<in> set (partitions tp k' (minus_list rest c))" by (cases "partitions tp k' (minus_list rest c)") auto
    then have "(a # c) # q \<in> set (partitions tp k remaining)"
      using cc 1(3) k by (auto simp: partitions.simps[of tp "Suc k'" "a # rest"] rem)
    then show ?thesis by auto
  qed
qed

lemma exhaustive_total:
  assumes "tp * r \<le> length ids" "distinct ids" "1 \<le> tp" "links_nonneg (hs_topology s)"
  shows "exhaustive s tp r ids \<noteq> None"
  using partitions_nonempty[OF assms(1-3)] exhaustive_None[OF _ assms(4)] by blast

lemma grow_group_props:
  "grow_group s k grp rem = Some (g, rest) \<Longrightarrow> distinct (grp @ rem) \<Longrightarrow>
     length g = length grp + k \<and> distinct (g @ rest) \<and> set (g @ rest) = set (grp @ rem)"
proof (induction k arbitrary: grp rem)
  case 0 then show ?case by simp
next
  case (Suc k)
  then obtain nxt where nxt: "max_by (\<lambda>c. (sum_list (map (pair_score s c) grp), - c)) rem = Some nxt"
    and g: "grow_group s k (grp @ [nxt]) (remove1 nxt rem) = Some (g, rest)" by (auto split: option.splits)
  have "nxt \<in> set rem" using nxt by (rule max_by_in)
  then have "distinct ((grp @ [nxt]) @ remove1 nxt rem)" "set ((grp @ [nxt]) @ remove1 nxt rem) = set (grp @ rem)"
    using Suc.prems(2) by auto
  then show ?case using Suc.IH[OF g] by auto
qed

lemma grow_group_total: "k \<le> length rem \<Longrightarrow> grow_group s k grp rem \<noteq> None"
proof (induction k arbitrary: grp rem)
  case (Suc k)
  then have "rem \<noteq> []" by auto
  then have "max_by (\<lambda>c. (sum_list (map (pair_score s c) grp), - c)) rem \<noteq> None" by simp
  then obtain nxt where nxt: "max_by (\<lambda>c. (sum_list (map (pair_score s c) grp), - c)) rem = Some nxt" by blast
  then have "k \<le> length (remove1 nxt rem)" using Suc.prems max_by_in[OF nxt] by (simp add: length_remove1)
  then show ?case using Suc.IH nxt by simp
qed simp

lemma greedy_props:
  "greedy s tp r rem = Some gs \<Longrightarrow> distinct rem \<Longrightarrow> 1 \<le> tp \<Longrightarrow> valid_groups tp r rem gs"
proof (induction r arbitrary: rem gs)
  case 0 then show ?case by (simp add: valid_groups_def)
next
  case (Suc r)
  then obtain seed g rest gs' where seed: "pick_seed s rem = Some seed"
    and g: "grow_group s (tp - 1) [seed] (remove1 seed rem) = Some (g, rest)"
    and gs: "greedy s tp r rest = Some gs'" "gs = sort g # gs'" by (auto split: option.splits)
  have sr: "seed \<in> set rem" using seed unfolding pick_seed_def by (rule max_by_in)
  have gp: "length g = tp" "distinct (g @ rest)" "set (g @ rest) = set rem"
    using grow_group_props[OF g] Suc.prems(2,3) sr by auto
  then have v: "valid_groups tp r rest gs'" using Suc.IH[OF gs(1)] Suc.prems(3) by simp
  then have "set (concat gs') \<subseteq> set rest" by (simp add: valid_groups_def)
  then show ?case unfolding gs(2) valid_groups_Cons using gp v valid_groups_mono[OF v, of rem] by auto
qed

lemma greedy_total: "tp * r \<le> length rem \<Longrightarrow> distinct rem \<Longrightarrow> 1 \<le> tp \<Longrightarrow> greedy s tp r rem \<noteq> None"
proof (induction r arbitrary: rem)
  case (Suc r)
  then have "length rem \<noteq> 0" by (cases tp) auto
  then have "pick_seed s rem \<noteq> None" by (simp add: pick_seed_def)
  then obtain seed where seed: "pick_seed s rem = Some seed" by blast
  have sr: "seed \<in> set rem" using seed unfolding pick_seed_def by (rule max_by_in)
  have "tp - 1 \<le> length (remove1 seed rem)" using Suc.prems sr by (simp add: length_remove1)
  then obtain g rest where g: "grow_group s (tp - 1) [seed] (remove1 seed rem) = Some (g, rest)"
    using grow_group_total by fastforce
  have gp: "length g = tp" "distinct (g @ rest)" "set (g @ rest) = set rem"
    using grow_group_props[OF g] Suc.prems(2,3) sr by auto
  then have "length (g @ rest) = length rem" using Suc.prems(2) by (metis distinct_card)
  then have "greedy s tp r rest \<noteq> None" using Suc gp by auto
  then show ?case using seed g by auto
qed simp

section \<open>What the planner asks of a strategy\<close>

text \<open>A strategy may give up, but the groups it returns are valid; sorting them for the result keeps that.\<close>

lemma mset_concat_map_sort: "mset (concat (map sort gs)) = mset (concat gs)"
  by (induction gs) auto

lemma mset_concat_perm: "mset xs = mset ys \<Longrightarrow> mset (concat xs) = mset (concat ys)"
  by (simp only: mset_concat mset_map sum_mset_sum_list[symmetric])

lemma mset_finish: "mset (concat (finish_groups gs)) = mset (concat gs)"
  unfolding finish_groups_def mset_concat_map_sort by (rule mset_concat_perm) simp

lemma valid_groups_finish: "valid_groups tp r ids gs \<Longrightarrow> valid_groups tp r ids (finish_groups gs)"
proof -
  assume v: "valid_groups tp r ids gs"
  have "distinct (concat (finish_groups gs)) = distinct (concat gs)" "set (concat (finish_groups gs)) = set (concat gs)"
    using mset_finish[of gs] mset_eq_imp_distinct_iff mset_eq_setD by blast+
  moreover have "length (finish_groups gs) = length gs" "\<forall>g \<in> set (finish_groups gs). \<exists>h \<in> set gs. length g = length h"
    by (auto simp: finish_groups_def)
  ultimately show ?thesis using v unfolding valid_groups_def by metis
qed

lemma partition_score_finish: "partition_score s (finish_groups gs) = partition_score s gs"
proof -
  have "image_mset sort (mset (finish_groups gs)) = image_mset sort (mset gs)"
    by (simp add: finish_groups_def image_mset.compositionality comp_def sorted_sort_id)
  then show ?thesis by (simp add: partition_score_mset)
qed

locale group_strategy =
  fixes strategy :: "nat \<Rightarrow> nat \<Rightarrow> int list \<Rightarrow> int list list option"
  assumes sound: "strategy tp r ids = Some gs \<Longrightarrow> distinct ids \<Longrightarrow> 1 \<le> tp \<Longrightarrow> valid_groups tp r ids gs"
begin

lemma finished_valid:
  "strategy tp r ids = Some gs \<Longrightarrow> distinct ids \<Longrightarrow> 1 \<le> tp \<Longrightarrow> valid_groups tp r ids (finish_groups gs)"
  by (intro valid_groups_finish sound)

lemma enough_gpus: "strategy tp r ids = Some gs \<Longrightarrow> distinct ids \<Longrightarrow> 1 \<le> tp \<Longrightarrow> tp * r \<le> length ids"
  by (drule sound) (auto dest: valid_groups_length)

end

text \<open>A strategy that searches everything also returns the best score.\<close>

locale optimal_strategy = group_strategy +
  fixes score :: "int list list \<Rightarrow> int"
  assumes best: "strategy tp r ids = Some gs \<Longrightarrow> valid_groups tp r ids other \<Longrightarrow> distinct ids \<Longrightarrow> sorted ids \<Longrightarrow> 1 \<le> tp
      \<Longrightarrow> score other \<le> score gs"
    and order_irrelevant: "score (finish_groups gs) = score gs"
begin

lemma finished_best:
  "strategy tp r ids = Some gs \<Longrightarrow> valid_groups tp r ids other \<Longrightarrow> distinct ids \<Longrightarrow> sorted ids \<Longrightarrow> 1 \<le> tp
     \<Longrightarrow> score other \<le> score (finish_groups gs)"
  unfolding order_irrelevant by (rule best)

end

interpretation greedy_heuristic: group_strategy "greedy s" for s
  by unfold_locales (rule greedy_props)

interpretation exhaustive_search: optimal_strategy "exhaustive s" "partition_score s" for s
  by unfold_locales
    (blast intro: partitions_valid dest: exhaustive_Some(1), blast intro: exhaustive_optimal, rule partition_score_finish)

section \<open>The planner's result\<close>

lemma choose_groups_valid:
  "choose_groups s tp r ids = Inr gs \<Longrightarrow> distinct ids \<Longrightarrow> 1 \<le> tp \<Longrightarrow> valid_groups tp r ids gs"
  using exhaustive_search.finished_valid[of s tp r ids] greedy_heuristic.finished_valid[of s tp r ids]
  by (auto simp: choose_groups_def split: if_splits option.splits)

lemma choose_groups_total:
  "tp * r \<le> length ids \<Longrightarrow> distinct ids \<Longrightarrow> 1 \<le> tp \<Longrightarrow> links_nonneg (hs_topology s)
     \<Longrightarrow> \<exists>gs. choose_groups s tp r ids = Inr gs"
  using exhaustive_total[of tp r ids s] greedy_total[of tp r ids s]
  by (auto simp: choose_groups_def split: option.split)

lemma single_groups_valid: "r \<le> length ids \<Longrightarrow> distinct ids \<Longrightarrow> valid_groups 1 r ids (map (\<lambda>i. [i]) (take r ids))"
proof -
  assume "r \<le> length ids" "distinct ids"
  moreover have "concat (map (\<lambda>i. [i]) xs) = xs" for xs :: "int list" by (induction xs) auto
  ultimately show ?thesis by (auto simp: valid_groups_def dest: in_set_takeD)
qed

lemma plan_within_valid:
  assumes "plan_within s tp r ids = Inr gs" "distinct ids" "1 \<le> tp" shows "valid_groups tp r ids gs"
proof -
  have "valid_groups tp r (sort ids) gs"
    using assms single_groups_valid[of r "sort ids"] choose_groups_valid[of s tp r "sort ids" gs]
    by (auto simp: plan_within_def Let_def split: if_splits)
  then show ?thesis by (auto intro: valid_groups_mono)
qed

lemma plan_within_total:
  "tp * r \<le> length ids \<Longrightarrow> distinct ids \<Longrightarrow> 1 \<le> tp \<Longrightarrow> links_nonneg (hs_topology s)
     \<Longrightarrow> \<exists>gs. plan_within s tp r ids = Inr gs"
  using choose_groups_total[of tp r "sort ids" s] by (auto simp: plan_within_def Let_def)

lemma valid_groups_append:
  assumes "valid_groups tp r1 xs gs" "valid_groups tp r2 ys hs" "set xs \<inter> set ys = {}"
  shows "valid_groups tp (r1 + r2) (xs @ ys) (gs @ hs)"
proof -
  have "set (concat gs) \<inter> set (concat hs) = {}" using assms unfolding valid_groups_def by blast
  then show ?thesis using assms by (auto simp: valid_groups_def)
qed

definition node_capacity :: "nat \<Rightarrow> (string option \<times> int list) list \<Rightarrow> nat" where
  "node_capacity tp nodes = sum_list (map (\<lambda>(n, ids). length ids div tp) nodes)"

lemma plan_nodes_valid:
  "plan_nodes s tp nodes = Inr gs \<Longrightarrow> distinct (concat (map snd nodes)) \<Longrightarrow> 1 \<le> tp \<Longrightarrow>
     valid_groups tp (node_capacity tp nodes) (concat (map snd nodes)) gs
     \<and> (\<forall>g \<in> set gs. \<exists>(n, ids) \<in> set nodes. set g \<subseteq> set ids)"
proof (induction nodes arbitrary: gs)
  case Nil then show ?case by (auto simp: valid_groups_def node_capacity_def)
next
  case (Cons x nodes)
  obtain n ids where x: "x = (n, ids)" by (cases x)
  show ?case
  proof (cases "length ids div tp = 0")
    case True
    then show ?thesis using Cons x by (auto simp: node_capacity_def intro: valid_groups_mono)
  next
    case False
    then obtain g1 g2 where g: "plan_within s tp (length ids div tp) ids = Inr g1" "plan_nodes s tp nodes = Inr g2" "gs = g1 @ g2"
      using Cons.prems(1) x by (auto simp: try_bind_Inr)
    have "distinct ids" using Cons.prems(2) x by simp
    then have v1: "valid_groups tp (length ids div tp) ids g1" using plan_within_valid[OF g(1)] Cons.prems(3) by simp
    have IH: "valid_groups tp (node_capacity tp nodes) (concat (map snd nodes)) g2"
        "\<forall>g \<in> set g2. \<exists>(n, ids) \<in> set nodes. set g \<subseteq> set ids"
      using Cons.IH[OF g(2)] Cons.prems x by auto
    have "set g \<subseteq> set ids" if "g \<in> set g1" for g using v1 that by (auto simp: valid_groups_def)
    moreover have "valid_groups tp (length ids div tp + node_capacity tp nodes) (ids @ concat (map snd nodes)) (g1 @ g2)"
      using v1 IH(1) Cons.prems(2) x by (intro valid_groups_append) auto
    ultimately show ?thesis using IH(2) x g(3) by (auto simp: node_capacity_def)
  qed
qed

lemma plan_nodes_total:
  "distinct (concat (map snd nodes)) \<Longrightarrow> 1 \<le> tp \<Longrightarrow> links_nonneg (hs_topology s) \<Longrightarrow> \<exists>gs. plan_nodes s tp nodes = Inr gs"
proof (induction nodes)
  case (Cons x nodes)
  obtain n ids where x: "x = (n, ids)" by (cases x)
  have "tp * (length ids div tp) \<le> length ids" by (simp add: mult.commute div_times_less_eq_dividend)
  then have "\<exists>g1. plan_within s tp (length ids div tp) ids = Inr g1" using Cons.prems x by (intro plan_within_total) auto
  moreover have "\<exists>g2. plan_nodes s tp nodes = Inr g2" using Cons x by auto
  ultimately show ?case using x by auto
qed simp

lemma distinct_concat_filters:
  "distinct ids \<Longrightarrow> distinct (map fst ns) \<Longrightarrow> (\<forall>(n, vs) \<in> set ns. vs = filter (\<lambda>i. key i = n) ids) \<Longrightarrow>
     distinct (concat (map snd ns))"
proof (induction ns)
  case (Cons x ns)
  then have "set (snd x) \<inter> set (concat (map snd ns)) = {}" by (cases x) force
  then show ?case using Cons by (cases x) auto
qed simp

lemma nodes_in_order_props:
  assumes "distinct ids"
  shows "distinct (concat (map snd (nodes_in_order s ids)))" "set (concat (map snd (nodes_in_order s ids))) \<subseteq> set ids"
    and "(n, vs) \<in> set (nodes_in_order s ids) \<Longrightarrow> \<forall>i \<in> set vs. the_or (planner_node s i) None = n"
proof -
  let ?g = "group_by (\<lambda>i. the_or (planner_node s i) None) (\<lambda>i. i) ids"
  have set: "set (nodes_in_order s ids) = set ?g" by (simp add: nodes_in_order_def)
  have "mset (map fst (nodes_in_order s ids)) = mset (map fst ?g)" by (simp add: nodes_in_order_def)
  then have "distinct (map fst (nodes_in_order s ids))" using distinct_group_by mset_eq_imp_distinct_iff by blast
  then show "distinct (concat (map snd (nodes_in_order s ids)))"
    by (rule distinct_concat_filters[OF assms]) (auto simp: set group_by_in)
  show "set (concat (map snd (nodes_in_order s ids))) \<subseteq> set ids" by (auto simp: set group_by_in)
  show "(n, vs) \<in> set (nodes_in_order s ids) \<Longrightarrow> \<forall>i \<in> set vs. the_or (planner_node s i) None = n"
    by (auto simp: set group_by_in)
qed

definition same_machine :: "hardware_snapshot \<Rightarrow> int list \<Rightarrow> bool" where
  "same_machine s g \<longleftrightarrow> (\<forall>a \<in> set g. \<forall>b \<in> set g. planner_node s a = planner_node s b)"

lemma same_machine_node:
  "set g \<subseteq> set vs \<Longrightarrow> \<forall>i \<in> set vs. the_or (planner_node s i) None = n \<Longrightarrow> \<forall>i \<in> set g. planner_node s i \<noteq> None
     \<Longrightarrow> same_machine s g"
  unfolding same_machine_def by (metis option.exhaust subsetD the_or_simps(2))

lemma valid_groups_take: "valid_groups tp n ids gs \<Longrightarrow> r \<le> n \<Longrightarrow> valid_groups tp r ids (take r gs)"
proof -
  assume v: "valid_groups tp n ids gs" and r: "r \<le> n"
  have split: "concat gs = concat (take r gs) @ concat (drop r gs)" by (metis append_take_drop_id concat_append)
  then show ?thesis using v r by (auto simp: valid_groups_def dest: in_set_takeD)
qed

lemma plan_per_node_valid:
  assumes "plan_per_node s tp r ids = Inr gs" "distinct ids" "1 \<le> tp" "\<forall>i \<in> set ids. planner_node s i \<noteq> None"
  shows "valid_groups tp r ids gs \<and> (\<forall>g \<in> set gs. same_machine s g)"
proof -
  obtain all where all: "plan_nodes s tp (nodes_in_order s ids) = Inr all" "r \<le> length all" "gs = take r all"
    using assms(1) by (auto simp: plan_per_node_def try_bind_Inr not_less split: if_splits)
  note np = nodes_in_order_props[OF assms(2), where s = s]
  have v: "valid_groups tp (node_capacity tp (nodes_in_order s ids)) (concat (map snd (nodes_in_order s ids))) all"
    and nodes: "\<forall>g \<in> set all. \<exists>(n, vs) \<in> set (nodes_in_order s ids). set g \<subseteq> set vs"
    using plan_nodes_valid[OF all(1) np(1) assms(3)] by auto
  have "length all = node_capacity tp (nodes_in_order s ids)" using v by (simp add: valid_groups_def)
  then have vi: "valid_groups tp (length all) ids all" using v np(2) valid_groups_mono by metis
  have "same_machine s g" if g: "g \<in> set all" for g
  proof -
    obtain n vs where "(n, vs) \<in> set (nodes_in_order s ids)" "set g \<subseteq> set vs" using nodes g by fastforce
    moreover have "set g \<subseteq> set ids" using vi g by (auto simp: valid_groups_def)
    ultimately show ?thesis using np(3) assms(4) by (intro same_machine_node) blast+
  qed
  then show ?thesis using valid_groups_take[OF vi all(2)] all(3) by (auto dest: in_set_takeD)
qed

lemma same_machine_single: "length (remdups (map (planner_node s) ids)) \<le> 1 \<Longrightarrow> set g \<subseteq> set ids \<Longrightarrow> same_machine s g"
proof -
  assume l: "length (remdups (map (planner_node s) ids)) \<le> 1" and g: "set g \<subseteq> set ids"
  have all: "\<forall>x \<in> set (remdups (map (planner_node s) ids)). \<forall>y \<in> set (remdups (map (planner_node s) ids)). x = y"
    by (rule length_le_1_iff[THEN iffD1, OF distinct_remdups l])
  have "planner_node s a = planner_node s b" if "a \<in> set ids" "b \<in> set ids" for a b
    using all[rule_format, of "planner_node s a" "planner_node s b"] that by simp
  then show ?thesis using g unfolding same_machine_def by blast
qed

lemma plan_valid:
  assumes "plan_groups s tp r (Some ids) False = Inr gs" "distinct ids" "1 \<le> tp"
  shows "valid_groups tp r ids gs \<and> (\<forall>g \<in> set gs. same_machine s g)"
proof (cases "tp = 1")
  case True
  then have gs: "r \<le> length (sort ids)" "gs = map (\<lambda>i. [i]) (take r (sort ids))"
    using assms(1) by (auto simp: plan_groups_def Let_def split: if_splits)
  then have "valid_groups 1 r (sort ids) gs" using assms(2) single_groups_valid[of r "sort ids"] by simp
  then show ?thesis using gs(2) True by (auto simp: same_machine_def intro: valid_groups_mono)
next
  case False
  then have known: "\<forall>i \<in> set ids. planner_node s i \<noteq> None"
    using assms(1) by (auto simp: plan_groups_def Let_def find_None_iff split: if_splits option.splits)
  show ?thesis
  proof (cases "1 < length (remdups (map (planner_node s) (sort ids)))")
    case True
    then have "plan_per_node s tp r (sort ids) = Inr gs"
      using assms(1) False by (auto simp: plan_groups_def Let_def split: if_splits option.splits)
    then have "valid_groups tp r (sort ids) gs \<and> (\<forall>g \<in> set gs. same_machine s g)"
      using assms known by (intro plan_per_node_valid) auto
    then show ?thesis by (auto intro: valid_groups_mono)
  next
    case one: False
    then have "choose_groups s tp r (sort ids) = Inr gs"
      using assms(1) False by (auto simp: plan_groups_def Let_def split: if_splits option.splits)
    then have v: "valid_groups tp r (sort ids) gs" using assms by (intro choose_groups_valid) auto
    have "same_machine s g" if "g \<in> set gs" for g
      using v that one by (intro same_machine_single[of s "sort ids"]) (auto simp: valid_groups_def)
    then show ?thesis using v by (auto intro: valid_groups_mono)
  qed
qed

text \<open>
  C2: The groups the planner returns are what the engine needs: exactly the requested number of
  replicas, each with exactly the tensor-parallel size of GPUs, no GPU in two groups, only GPUs
  that were selected, and no group that spans machines.
\<close>

theorem plan_groups_valid:
  assumes "plan_groups s tp r (Some ids) False = Inr gs" "distinct ids" "1 \<le> tp"
  shows "valid_groups tp r ids gs \<and> (\<forall>g \<in> set gs. same_machine s g)"
  using assms by (rule plan_valid)

lemma plan_per_node_total:
  assumes "distinct ids" "1 \<le> tp" "links_nonneg (hs_topology s)"
  shows "(\<exists>gs. plan_per_node s tp r ids = Inr gs) \<longleftrightarrow> r \<le> node_capacity tp (nodes_in_order s ids)"
proof -
  note np = nodes_in_order_props(1)[OF assms(1), where s = s]
  obtain all where all: "plan_nodes s tp (nodes_in_order s ids) = Inr all" using plan_nodes_total[OF np assms(2,3)] by blast
  then have "length all = node_capacity tp (nodes_in_order s ids)"
    using plan_nodes_valid[OF all np assms(2)] by (simp add: valid_groups_def)
  then show ?thesis using all by (auto simp: plan_per_node_def not_less)
qed

text \<open>
  C3: Planning succeeds exactly when the request can be met: for known GPUs with sane link counts the
  planner returns groups if and only if enough GPUs are selected and, for groups of two or more
  on several machines, the machines together hold that many whole groups.
\<close>

theorem plan_groups_succeeds_iff:
  assumes "distinct ids" "1 \<le> tp" "links_nonneg (hs_topology s)" "\<forall>i \<in> set ids. planner_node s i \<noteq> None"
  shows "(\<exists>gs. plan_groups s tp r (Some ids) False = Inr gs) \<longleftrightarrow>
    tp * r \<le> length ids \<and>
    (tp = 1 \<or> length (remdups (map (planner_node s) (sort ids))) \<le> 1 \<or> r \<le> node_capacity tp (nodes_in_order s (sort ids)))"
proof -
  have find: "find (\<lambda>i. planner_node s i = None) (sort ids) = None" using assms(4) by (auto simp: find_None_iff)
  show ?thesis
    using choose_groups_total[of tp r "sort ids" s] plan_per_node_total[of "sort ids" tp s r] assms
    by (auto simp: plan_groups_def Let_def find not_less)
qed

lemma group_score_single: "length g = 1 \<Longrightarrow> group_score s g = 0"
  by (cases g) (auto simp: group_score_def)

lemma partition_score_singles: "valid_groups 1 r ids gs \<Longrightarrow> partition_score s gs = 0"
proof -
  assume "valid_groups 1 r ids gs"
  then have "map (group_score s) gs = map (\<lambda>_. 0) gs" by (intro map_cong) (auto simp: valid_groups_def group_score_single)
  then show ?thesis unfolding partition_score_def by (simp only: sum_list_0)
qed

text \<open>
  C4: On one machine with at most eight selected GPUs the assignment is optimal: no other valid
  assignment of the same shape has a higher total interconnect score.
\<close>

theorem plan_groups_optimal:
  assumes "plan_groups s tp r (Some ids) False = Inr gs" "distinct ids" "1 \<le> tp"
    and small: "length ids \<le> 8" and one: "length (remdups (map (planner_node s) (sort ids))) \<le> 1"
    and other: "valid_groups tp r ids other"
  shows "partition_score s other \<le> partition_score s gs"
proof (cases "tp = 1")
  case True
  have "valid_groups 1 r ids gs" "valid_groups 1 r ids other" using plan_valid[OF assms(1-3)] other True by simp_all
  then show ?thesis by (simp only: partition_score_singles)
next
  case False
  then have "choose_groups s tp r (sort ids) = Inr gs"
    using assms(1) one by (auto simp: plan_groups_def Let_def split: if_splits option.splits)
  then obtain gs' where "exhaustive s tp r (sort ids) = Some gs'" "gs = finish_groups gs'"
    using small by (auto simp: choose_groups_def EXHAUSTIVE_MAX_GPUS_def split: option.splits)
  moreover have "valid_groups tp r (sort ids) other" using other by (auto intro: valid_groups_mono)
  ultimately show ?thesis using exhaustive_search.finished_best[of s tp r "sort ids" gs' other] assms(2,3) by simp
qed

section \<open>A machine with two NVLink pairs\<close>

definition box_gpu :: "int \<Rightarrow> gpu_device" where
  "box_gpu i = \<lparr>gd_index = i, gd_uuid = ''GPU-'' @ str_int i, gd_name = ''A100'', gd_total_memory_bytes = 85899345920,
     gd_free_memory_bytes = 85000000000, gd_used_memory_bytes = 899345920, gd_pci_bus_id = None, gd_cc_major = Some 8,
     gd_cc_minor = Some 0, gd_numa_node = None, gd_mig_mode = None, gd_node_id = None, gd_node_ip = None,
     gd_local_index = None\<rparr>"

definition demo_box :: hardware_snapshot where
  "demo_box = \<lparr>hs_hostname = ''box'', hs_platform = ''linux'', hs_gpu_count = 4, hs_gpus = map box_gpu [0, 1, 2, 3],
     hs_topology = build_topology [0, 1, 2, 3] (\<lambda>_. None) (map_of [((0, 2), 4), ((1, 3), 4)]) None,
     hs_driver_version = None, hs_cuda_version = None, hs_provider = ''nvml'', hs_nodes = [], hs_cluster_address = None\<rparr>"

lemma demo_box_plan: "plan_groups demo_box 2 2 (Some [0, 1, 2, 3]) False = Inr [[0, 2], [1, 3]]"
  by code_simp

lemma plan_groups_valid_witness: "valid_groups 2 2 [0, 1, 2, 3] [[0, 2], [1, 3]]"
  using plan_groups_valid[OF demo_box_plan] by simp

lemma plan_groups_succeeds_iff_witness: "\<not> (\<exists>gs. plan_groups demo_box 3 2 (Some [0, 1, 2, 3]) False = Inr gs)"
proof -
  have "links_nonneg (hs_topology demo_box)" by (simp add: demo_box_def build_topology_links)
  moreover have "\<forall>i \<in> set [0, 1, 2, 3]. planner_node demo_box i \<noteq> None"
    by (simp add: planner_node_def demo_box_def box_gpu_def)
  ultimately show ?thesis by (subst plan_groups_succeeds_iff) auto
qed

lemma plan_groups_optimal_witness: "partition_score demo_box [[0, 1], [2, 3]] \<le> partition_score demo_box [[0, 2], [1, 3]]"
  using plan_groups_optimal[OF demo_box_plan, of "[[0, 1], [2, 3]]"]
  by (simp add: planner_node_def demo_box_def box_gpu_def valid_groups_def)

end
