(* ===== verification/Engines.thy ===== *)
theory Engines
  imports Memory_Model
begin

text \<open>
  The engine adapters as the planner sees them (\<^verbatim>\<open>engines/base.py\<close>, \<^verbatim>\<open>engines/vllm.py\<close>,
  \<^verbatim>\<open>engines/sglang.py\<close>, the version parser of \<^verbatim>\<open>engines/interpreter.py\<close>, \<^verbatim>\<open>engines/registry.py\<close>):
  capabilities, support checks, lookups.  An adapter is a record of its operations; whether an
  interpreter with the engine was found is the argument \<open>runtime_version\<close>.
\<close>

section \<open>Versions\<close>

definition leading_digits :: "string \<Rightarrow> string" where
  "leading_digits chunk = takeWhile is_digit chunk"

fun parse_chunks :: "string list \<Rightarrow> int list" where
  "parse_chunks [] = []"
| "parse_chunks (chunk # rest) =
     (if leading_digits chunk = [] then [] else val_int (leading_digits chunk) # parse_chunks rest)"

definition parse_version :: "string option \<Rightarrow> int list" where
  "parse_version version = (case version of
     None \<Rightarrow> []
   | Some v \<Rightarrow> if v = [] then [] else parse_chunks (split_on (CHR ''.'') v))"

definition str_version :: "int list \<Rightarrow> string" where
  "str_version v = str_join ''.'' (map str_int v)"

section \<open>The adapter interface\<close>

record support_result =
  sr_supported :: bool
  sr_confidence :: confidence
  sr_reasons :: "string list"
  sr_warnings :: "string list"

record engine_ops =
  eo_engine_name :: engine_name
  eo_name :: string
  eo_version :: "string option"
  eo_available :: bool
  eo_unavailable_hints :: "string list"
  eo_supports_expert_parallel :: "model_profile \<Rightarrow> bool"
  eo_supports_dp_attention :: "model_profile \<Rightarrow> bool"
  eo_supports_pipeline_parallel :: bool
  eo_supports_ray_backend :: bool
  eo_default_max_num_seqs :: int
  eo_supports :: "model_profile \<Rightarrow> candidate_plan \<Rightarrow> support_result"

section \<open>vLLM\<close>

definition VLLM_MIN_SUPPORTED_VERSION :: "int list" where "VLLM_MIN_SUPPORTED_VERSION = [0, 6, 0]"

definition VLLM_QUANTIZATION_METHODS :: "string list" where
  "VLLM_QUANTIZATION_METHODS =
     [''awq'', ''awq_marlin'', ''gptq'', ''gptq_marlin'', ''gptq_marlin_24'', ''fp8'', ''fbgemm_fp8'',
      ''compressed-tensors'', ''compressed_tensors'', ''bitsandbytes'', ''gguf'', ''modelopt'', ''modelopt_fp4'',
      ''marlin'', ''qqq'', ''hqq'', ''experts_int8'', ''neuron_quant'', ''ipex'', ''quark'', ''moe_wna16'',
      ''torchao'', ''mxfp4'', ''auto-round'']"

definition VLLM_EP_MODEL_TYPES :: "string list" where
  "VLLM_EP_MODEL_TYPES =
     [''mixtral'', ''deepseek_v2'', ''deepseek_v3'', ''qwen2_moe'', ''qwen3_moe'', ''llama4'', ''gpt_oss'',
      ''glm4_moe'', ''dbrx'', ''olmoe'', ''phimoe'', ''granitemoe'', ''minimax_m1'', ''kimi_k2'', ''ernie4_5_moe'',
      ''hunyuan_v1_moe'']"

definition vllm_flags_expert_parallel :: "int list \<Rightarrow> bool" where
  "vllm_flags_expert_parallel version \<longleftrightarrow> [0, 6, 4] \<le> version"

definition vllm_flags_dp_attention :: "int list \<Rightarrow> bool" where
  "vllm_flags_dp_attention version \<longleftrightarrow> [0, 9, 0] \<le> version"

definition model_type_in :: "model_profile \<Rightarrow> string list \<Rightarrow> bool" where
  "model_type_in m types \<longleftrightarrow> str_lower (the_or (mp_model_type m) []) \<in> set types"

definition has_text :: "string option \<Rightarrow> bool" where
  "has_text x \<longleftrightarrow> (case x of None \<Rightarrow> False | Some t \<Rightarrow> t \<noteq> [])"

definition vllm_expert_parallel :: "string option \<Rightarrow> model_profile \<Rightarrow> bool" where
  "vllm_expert_parallel runtime_version m \<longleftrightarrow>
     mp_is_moe m \<and> model_type_in m VLLM_EP_MODEL_TYPES \<and> vllm_flags_expert_parallel (parse_version runtime_version)"

definition vllm_dp_attention :: "string option \<Rightarrow> model_profile \<Rightarrow> bool" where
  "vllm_dp_attention runtime_version m \<longleftrightarrow>
     vllm_expert_parallel runtime_version m \<and> vllm_flags_dp_attention (parse_version runtime_version)"

definition lower_method :: "model_profile \<Rightarrow> string" where
  "lower_method m = str_lower (the_or (quantization_method m) [])"

definition trust_warning :: string where
  "trust_warning = ''model requires trust_remote_code; ServePilot only passes it when --trust-remote-code is set''"

definition multimodal_warning :: string where
  "multimodal_warning = ''multimodal model: text-only benchmarks are used for tuning''"

definition vllm_reasons :: "string option \<Rightarrow> model_profile \<Rightarrow> candidate_plan \<Rightarrow> string list" where
  "vllm_reasons rv m p =
     (let version = parse_version rv; meth = lower_method m in
       (if version \<noteq> [] \<and> version < VLLM_MIN_SUPPORTED_VERSION
        then [''vLLM '' @ str_opt (\<lambda>v. v) rv @ '' is older than the minimum ServePilot supports ('' @
              str_version VLLM_MIN_SUPPORTED_VERSION @ ''); upgrade vLLM''] else [])
     @ (if meth \<noteq> [] \<and> meth \<notin> set VLLM_QUANTIZATION_METHODS
        then [''quantization method '' @ str_repr meth @ '' is not known to be supported by vLLM''] else [])
     @ (if cp_dp_attention_enabled p \<and> \<not> vllm_dp_attention rv m
        then [''DP attention (data parallel + expert parallel) is not known to work for model type '' @
              str_opt str_repr (mp_model_type m) @ '' in vLLM '' @ str_opt (\<lambda>v. v) rv] else [])
     @ (if cp_expert_parallel_enabled p \<and> \<not> vllm_expert_parallel rv m
        then [''expert parallelism is not known to work for model type '' @ str_opt str_repr (mp_model_type m)
              @ '' in vLLM''] else [])
     @ (if mp_attention_kind m = Unknown_attention \<and> mp_architecture_names m = []
        then [''model configuration has no architecture information''] else []))"

definition vllm_warnings :: "model_profile \<Rightarrow> candidate_plan \<Rightarrow> string list" where
  "vllm_warnings m p =
       (if cp_distributed_backend p = Some ''ray'' \<and> 1 < cp_pipeline_parallel_size p \<and> mp_is_moe m
        then [''pipeline parallelism with MoE models is less mature in vLLM; expect longer startup''] else [])
     @ (if mp_trust_remote_code_required m then [trust_warning] else [])
     @ (if mp_is_multimodal m then [multimodal_warning] else [])"

definition vllm_supports :: "string option \<Rightarrow> model_profile \<Rightarrow> candidate_plan \<Rightarrow> support_result" where
  "vllm_supports rv m p =
     (let reasons = vllm_reasons rv m p in
      \<lparr>sr_supported = (reasons = []),
       sr_confidence = (if reasons = [] \<and> has_text (mp_model_type m) then (if mp_is_moe m then Medium else High) else Medium),
       sr_reasons = reasons, sr_warnings = vllm_warnings m p\<rparr>)"

definition vllm_engine :: "string option \<Rightarrow> engine_ops" where
  "vllm_engine rv =
     \<lparr>eo_engine_name = VLLM, eo_name = ''vllm'', eo_version = rv, eo_available = (rv \<noteq> None),
      eo_unavailable_hints =
        [''pip install vllm   (in this environment), or'',
         ''point ServePilot at an environment that has it: export SERVEPILOT_VLLM_PYTHON=/path/to/venv/bin/python''],
      eo_supports_expert_parallel = vllm_expert_parallel rv, eo_supports_dp_attention = vllm_dp_attention rv,
      eo_supports_pipeline_parallel = True, eo_supports_ray_backend = True, eo_default_max_num_seqs = 256,
      eo_supports = vllm_supports rv\<rparr>"

section \<open>SGLang\<close>

definition SGLANG_MIN_SUPPORTED_VERSION :: "int list" where "SGLANG_MIN_SUPPORTED_VERSION = [0, 4, 0]"

definition SGLANG_QUANTIZATION_METHODS :: "string list" where
  "SGLANG_QUANTIZATION_METHODS =
     [''awq'', ''awq_marlin'', ''gptq'', ''gptq_marlin'', ''fp8'', ''blockwise_int8'', ''compressed-tensors'',
      ''compressed_tensors'', ''w8a8_int8'', ''w8a8_fp8'', ''bitsandbytes'', ''gguf'', ''modelopt'', ''modelopt_fp4'',
      ''moe_wna16'', ''mxfp4'', ''qoq'', ''petit_nvfp4'']"

definition SGLANG_EP_MODEL_TYPES :: "string list" where
  "SGLANG_EP_MODEL_TYPES =
     [''deepseek_v2'', ''deepseek_v3'', ''qwen2_moe'', ''qwen3_moe'', ''mixtral'', ''glm4_moe'', ''llama4'',
      ''gpt_oss'', ''kimi_k2'', ''minimax_m1'']"

definition SGLANG_DP_ATTENTION_MODEL_TYPES :: "string list" where
  "SGLANG_DP_ATTENTION_MODEL_TYPES = [''deepseek_v2'', ''deepseek_v3'', ''qwen2_moe'', ''qwen3_moe'', ''glm4_moe'']"

definition sglang_flags_ep :: "int list \<Rightarrow> bool" where "sglang_flags_ep version \<longleftrightarrow> [0, 4, 0] \<le> version"
definition sglang_flags_pp :: "int list \<Rightarrow> bool" where "sglang_flags_pp version \<longleftrightarrow> [0, 4, 5] \<le> version"

definition sglang_expert_parallel :: "string option \<Rightarrow> model_profile \<Rightarrow> bool" where
  "sglang_expert_parallel rv m \<longleftrightarrow>
     mp_is_moe m \<and> model_type_in m SGLANG_EP_MODEL_TYPES \<and> sglang_flags_ep (parse_version rv)"

definition sglang_dp_attention :: "model_profile \<Rightarrow> bool" where
  "sglang_dp_attention m \<longleftrightarrow> mp_is_moe m \<and> model_type_in m SGLANG_DP_ATTENTION_MODEL_TYPES"

definition sglang_reasons :: "string option \<Rightarrow> model_profile \<Rightarrow> candidate_plan \<Rightarrow> string list" where
  "sglang_reasons rv m p =
     (let version = parse_version rv; meth = lower_method m in
       (if version \<noteq> [] \<and> version < SGLANG_MIN_SUPPORTED_VERSION
        then [''SGLang '' @ str_opt (\<lambda>v. v) rv @ '' is older than the minimum ServePilot supports (0.4.0)''] else [])
     @ (if meth \<noteq> [] \<and> meth \<notin> set SGLANG_QUANTIZATION_METHODS
        then [''quantization method '' @ str_repr meth @ '' is not known to be supported by SGLang''] else [])
     @ (if cp_distributed_backend p = Some ''ray''
        then [''SGLang does not use a Ray executor; multi-node SGLang uses --nnodes which ServePilot does not orchestrate'']
        else [])
     @ (if cp_dp_attention_enabled p \<and> \<not> sglang_dp_attention m
        then [''DP attention optimization is not known to support model type '' @ str_opt str_repr (mp_model_type m)] else [])
     @ (if cp_expert_parallel_enabled p \<and> \<not> sglang_expert_parallel rv m
        then [''expert parallelism is not known to work for model type '' @ str_opt str_repr (mp_model_type m)
              @ '' in SGLang''] else []))"

definition sglang_warnings :: "model_profile \<Rightarrow> string list" where
  "sglang_warnings m =
     (if mp_is_multimodal m then [multimodal_warning] else [])
     @ (if mp_trust_remote_code_required m then [trust_warning] else [])"

definition sglang_supports :: "string option \<Rightarrow> model_profile \<Rightarrow> candidate_plan \<Rightarrow> support_result" where
  "sglang_supports rv m p =
     (let reasons = sglang_reasons rv m p in
      \<lparr>sr_supported = (reasons = []),
       sr_confidence = (if reasons = [] \<and> has_text (mp_model_type m) \<and> \<not> mp_is_moe m then High else Medium),
       sr_reasons = reasons, sr_warnings = sglang_warnings m\<rparr>)"

definition sglang_engine :: "string option \<Rightarrow> engine_ops" where
  "sglang_engine rv =
     \<lparr>eo_engine_name = SGLANG, eo_name = ''sglang'', eo_version = rv, eo_available = (rv \<noteq> None),
      eo_unavailable_hints =
        [''pip install \"sglang[all]\"   (in this environment), or'',
         ''export SERVEPILOT_SGLANG_PYTHON=/path/to/venv/bin/python to use another environment''],
      eo_supports_expert_parallel = sglang_expert_parallel rv, eo_supports_dp_attention = sglang_dp_attention,
      eo_supports_pipeline_parallel = sglang_flags_pp (parse_version rv), eo_supports_ray_backend = False,
      eo_default_max_num_seqs = 256, eo_supports = sglang_supports rv\<rparr>"

definition SGLANG_MIN_STATIC_FRACTION :: float64 where "SGLANG_MIN_STATIC_FRACTION = fl (30 / 100)"

definition static_memory_fraction :: "candidate_plan \<Rightarrow> float64 option" where
  "static_memory_fraction p =
     (case cp_memory_fraction p of
        None \<Rightarrow> None
      | Some f \<Rightarrow>
          (case cp_estimated_memory p of
             None \<Rightarrow> Some f
           | Some e \<Rightarrow>
               if me_device_total_bytes e \<le> 0 then Some f
               else
                 (let dynamic = me_activations_bytes e + me_cuda_graph_bytes e + me_communication_bytes e
                        + me_engine_overhead_bytes e;
                      static = fl_sub f (int_div dynamic (me_device_total_bytes e))
                  in Some (max SGLANG_MIN_STATIC_FRACTION (py_round2 static)))))"

definition decode_cuda_graph_max_bs :: "candidate_plan \<Rightarrow> int \<Rightarrow> int option" where
  "decode_cuda_graph_max_bs p running_limit =
     (case cp_estimated_memory p of
        None \<Rightarrow> None
      | Some e \<Rightarrow>
          if me_device_total_bytes e < 60 * GIB \<or> cp_dp_attention_enabled p then None
          else (let target = min running_limit 512 in if 256 < target then Some target else None))"

section \<open>The contract of an adapter\<close>

text \<open>What the planner relies on: a plan reported as supported uses only parallelism the adapter says it
  has, an unsupported one comes with a reason, and the default number of sequences is positive.\<close>

locale inference_engine =
  fixes ops :: engine_ops
  assumes dp_attention: "sr_supported (eo_supports ops m p) \<Longrightarrow> cp_dp_attention_enabled p \<Longrightarrow> eo_supports_dp_attention ops m"
    and expert_parallel: "sr_supported (eo_supports ops m p) \<Longrightarrow> cp_expert_parallel_enabled p \<Longrightarrow> eo_supports_expert_parallel ops m"
    and ray: "sr_supported (eo_supports ops m p) \<Longrightarrow> cp_distributed_backend p = Some ''ray'' \<Longrightarrow> eo_supports_ray_backend ops"
    and reasons: "sr_supported (eo_supports ops m p) \<longleftrightarrow> sr_reasons (eo_supports ops m p) = []"
    and default_seqs: "1 \<le> eo_default_max_num_seqs ops"
begin

lemma supported_only_with_capabilities:
  "sr_supported (eo_supports ops m p) \<Longrightarrow>
     (cp_dp_attention_enabled p \<longrightarrow> eo_supports_dp_attention ops m) \<and>
     (cp_expert_parallel_enabled p \<longrightarrow> eo_supports_expert_parallel ops m) \<and>
     (cp_distributed_backend p = Some ''ray'' \<longrightarrow> eo_supports_ray_backend ops)"
  using dp_attention expert_parallel ray by blast

lemma unsupported_has_reason: "\<not> sr_supported (eo_supports ops m p) \<Longrightarrow> sr_reasons (eo_supports ops m p) \<noteq> []"
  using reasons by blast

end

interpretation vllm: inference_engine "vllm_engine rv" for rv
  by unfold_locales (auto simp: vllm_engine_def vllm_supports_def vllm_reasons_def Let_def split: if_splits)

interpretation sglang: inference_engine "sglang_engine rv" for rv
  by unfold_locales (auto simp: sglang_engine_def sglang_supports_def sglang_reasons_def Let_def split: if_splits)

section \<open>The registry\<close>

text \<open>Adapters by engine name, in insertion order; a later adapter of the same name replaces the first in place.\<close>

type_synonym registry = "(engine_name \<times> engine_ops) list"

definition make_registry :: "engine_ops list \<Rightarrow> registry" where
  "make_registry engines = foldl (\<lambda>d e. AList.update (eo_engine_name e) e d) [] engines"

definition registry_available :: "registry \<Rightarrow> engine_ops list" where
  "registry_available r = filter eo_available (map snd r)"

definition parse_engine :: "string \<Rightarrow> engine_name option" where
  "parse_engine name = find (\<lambda>e. engine_value e = name) [VLLM, SGLANG, FAKE]"

datatype engine_error = Engine_unavailable string "string list"

definition registry_get :: "registry \<Rightarrow> string \<Rightarrow> engine_error + engine_ops" where
  "registry_get r name =
     (case parse_engine name of
        None \<Rightarrow> Inl (Engine_unavailable (''unknown engine '' @ str_repr name @ ''; choose from ''
                  @ str_list str_repr [engine_value VLLM, engine_value SGLANG]) [])
      | Some key \<Rightarrow>
          (case map_of r key of
             None \<Rightarrow> Inl (Engine_unavailable (''engine '' @ str_repr (engine_value key) @ '' is not registered'') [])
           | Some e \<Rightarrow> Inr e))"

definition registry_require :: "registry \<Rightarrow> string \<Rightarrow> engine_error + engine_ops" where
  "registry_require r name =
     try_bind (registry_get r name) (\<lambda>e.
       if eo_available e then Inr e
       else Inl (Engine_unavailable (eo_name e @ '' is not installed or could not be located.'') (eo_unavailable_hints e)))"

definition select_engines :: "registry \<Rightarrow> string \<Rightarrow> engine_error + engine_ops list" where
  "select_engines r requested =
     (if requested = ''auto'' then
        (let available = filter (\<lambda>e. eo_engine_name e \<noteq> FAKE) (registry_available r);
             fake = filter (\<lambda>e. eo_engine_name e = FAKE) (registry_available r)
         in if available = [] \<and> fake \<noteq> [] then Inr fake
            else if available = []
            then Inl (Engine_unavailable ''No inference engine is installed.''
                   [''pip install vllm   or   pip install \"sglang[all]\"'',
                    ''or point ServePilot at an existing environment: SERVEPILOT_VLLM_PYTHON=/path/to/python'',
                    ''Run `servepilot doctor` to see what ServePilot detects.''])
            else Inr available)
      else try_bind (registry_require r requested) (\<lambda>e. Inr [e]))"

text \<open>
  C33: Engine selection returns only usable engines: the result is a nonempty list of available adapters,
  the fake engine is chosen by \<^verbatim>\<open>auto\<close> only when no real engine is installed, and an explicit name
  yields exactly the adapter of that name.
\<close>

theorem select_engines_usable:
  assumes "select_engines (make_registry engines) requested = Inr es"
  shows "es \<noteq> [] \<and> (\<forall>e \<in> set es. eo_available e \<and> e \<in> set engines)
    \<and> (requested = ''auto'' \<and> (\<exists>e \<in> set es. eo_engine_name e = FAKE)
        \<longrightarrow> (\<forall>e \<in> set (registry_available (make_registry engines)). eo_engine_name e = FAKE))
    \<and> (requested \<noteq> ''auto'' \<longrightarrow> (\<exists>e. es = [e] \<and> engine_value (eo_engine_name e) = requested))"
proof -
  have reg: "(k, e) \<in> set (make_registry engines) \<Longrightarrow> e \<in> set engines \<and> eo_engine_name e = k" for k e
    unfolding make_registry_def
  proof (induction engines rule: rev_induct)
    case (snoc x xs)
    then show ?case by (auto dest: in_set_update)
  qed simp
  show ?thesis
  proof (cases "requested = ''auto''")
    case True
    let ?av = "registry_available (make_registry engines)"
    have av: "e \<in> set ?av \<Longrightarrow> eo_available e \<and> e \<in> set engines" for e
      using reg by (auto simp: registry_available_def)
    from assms True consider "filter (\<lambda>e. eo_engine_name e \<noteq> FAKE) ?av = []" "es = filter (\<lambda>e. eo_engine_name e = FAKE) ?av" "es \<noteq> []"
      | "es = filter (\<lambda>e. eo_engine_name e \<noteq> FAKE) ?av" "es \<noteq> []"
      by (auto simp: select_engines_def Let_def split: if_splits)
    then show ?thesis
    proof cases
      case 1 then show ?thesis using True av by (auto simp: filter_empty_conv)
    next
      case 2 then show ?thesis using True av by auto
    qed
  next
    case False
    then obtain k e where "parse_engine requested = Some k" "map_of (make_registry engines) k = Some e" "eo_available e" "es = [e]"
      using assms by (auto simp: select_engines_def registry_require_def registry_get_def try_bind_Inr split: option.splits if_splits)
    moreover then have "engine_value k = requested" by (auto simp: parse_engine_def split: if_splits)
    ultimately show ?thesis using False reg map_of_SomeD[of "make_registry engines" k e] by auto
  qed
qed

lemma select_engines_usable_witness:
  "\<exists>e. select_engines (make_registry [vllm_engine (Some ''0.9.1''), sglang_engine None]) ''auto'' = Inr [e] \<and> eo_available e"
proof -
  let ?r = "make_registry [vllm_engine (Some ''0.9.1''), sglang_engine None]"
  have s: "select_engines ?r ''auto'' = Inr [vllm_engine (Some ''0.9.1'')]"
    by (simp add: select_engines_def registry_available_def make_registry_def vllm_engine_def sglang_engine_def)
  show ?thesis using select_engines_usable[OF s] s by auto
qed

end
