(* ===== verification/Candidates.thy ===== *)
theory Candidates
  imports GPU_Groups Engines Weights
begin

text \<open>
  Candidate generation (\<^verbatim>\<open>planner/pruning.py\<close>, \<^verbatim>\<open>planner/candidates.py\<close>, \<^verbatim>\<open>planner/planner.py\<close>): the
  pruning rules, GPU selection, context resolution, the enumeration of tensor-parallel sizes with
  their engine variants, cross-node candidates, de-duplication and ranking.
\<close>

section \<open>Pruning rules\<close>

definition divisors :: "nat \<Rightarrow> nat list" where
  "divisors n = filter (\<lambda>d. n mod d = 0) [1..<n + 1]"

definition check_tp_divisibility :: "model_profile \<Rightarrow> nat \<Rightarrow> string option" where
  "check_tp_divisibility m tp = (case mp_num_attention_heads m of
     None \<Rightarrow> None
   | Some heads \<Rightarrow> if heads mod int tp \<noteq> 0
       then Some (str_int heads @ '' attention heads are not divisible by TP='' @ str_nat tp) else None)"

definition check_ep_divisibility :: "model_profile \<Rightarrow> nat \<Rightarrow> string option" where
  "check_ep_divisibility m ep = (case mp_num_experts m of
     None \<Rightarrow> None
   | Some n \<Rightarrow> if n mod int ep \<noteq> 0
       then Some (str_int n @ '' experts are not divisible by EP='' @ str_nat ep) else None)"

definition check_context_length :: "model_profile \<Rightarrow> int \<Rightarrow> bool \<Rightarrow> string option" where
  "check_context_length m ctx allow_override = (case mp_max_position_embeddings m of
     None \<Rightarrow> None
   | Some limit \<Rightarrow> if limit < ctx \<and> \<not> allow_override
       then Some (''requested context '' @ str_int ctx @ '' exceeds the model'' @ [CHR 0x27] @ ''s max_position_embeddings (''
              @ str_int limit @ ''); pass --allow-context-override to force it'')
       else None)"

definition check_memory :: "memory_estimate \<Rightarrow> float64 \<Rightarrow> string option" where
  "check_memory e tolerance =
     (let budget = me_engine_budget_bytes e in
      if me_fits e then None
      else if of_int (me_shortfall_bytes e) \<le> fl_mul tolerance (fl_int budget) then None
      else if me_device_free_bytes e < budget
      then Some (''memory fraction '' @ fmt_f 2 (me_memory_fraction e) @ '' claims '' @ format_bytes (Some budget)
             @ '' per GPU but only '' @ format_bytes (Some (me_device_free_bytes e)) @ '' is free'')
      else Some (str_join '' ''
        [''estimated per-GPU requirement exceeds the safe budget by '' @ format_bytes (Some (me_shortfall_bytes e)),
         ''(weights '' @ format_bytes (me_weights_bytes e) @ '' + overheads ''
           @ format_bytes (Some (fixed_bytes e - the_or (me_weights_bytes e) 0)),
         ''vs budget '' @ format_bytes (Some budget) @ '' at memory fraction '' @ fmt_f 2 (me_memory_fraction e) @ '')'']))"

fun dedupe_from :: "string list \<Rightarrow> candidate_plan list \<Rightarrow> candidate_plan list \<times> candidate_plan list" where
  "dedupe_from seen [] = ([], [])"
| "dedupe_from seen (p # ps) =
     (if structural_key p \<in> set seen then apsnd ((#) p) (dedupe_from seen ps)
      else apfst ((#) p) (dedupe_from (structural_key p # seen) ps))"

definition dedupe :: "candidate_plan list \<Rightarrow> candidate_plan list \<times> candidate_plan list" where
  "dedupe ps = dedupe_from [] ps"

section \<open>Selecting GPUs\<close>

datatype planner_error = Hardware_error string "string list" | Configuration_error string "string list"
  | No_viable_plan_error string "string list" | Value_error_raised | Key_error_raised | Validation_error_raised

definition BUSY_GPU_USED_FRACTION :: float64 where "BUSY_GPU_USED_FRACTION = fl (5 / 100)"

record gpu_selection =
  gs_snapshot :: hardware_snapshot
  gs_gpu_ids :: "int list"
  gs_warnings :: "string list"

definition newline :: string where "newline = [CHR 0x0A]"

definition mixed_gpus_error :: "((string \<times> int) \<times> int list) list \<Rightarrow> planner_error" where
  "mixed_gpus_error groups =
     Hardware_error (str_join newline
       ([''Mixed GPU types/memory sizes were detected. Heterogeneous tensor-parallel topologies are not supported in v1.'',
         ''Homogeneous subsets you can select explicitly:'']
        @ map (\<lambda>((name, mem), idx).
             ''  --gpus '' @ str_join '','' (map str_int idx) @ ''   ('' @ str_nat (length idx) @ '' '' @ times_sign
             @ '' '' @ name @ '', '' @ fmt_f 0 (int_div mem GIB) @ '' GiB)'')
            (sort_key (\<lambda>kv. - int (length (snd kv))) groups)))
       [''Re-run with --gpus <indices> naming one homogeneous subset.'']"

definition busy_warnings :: "hardware_snapshot \<Rightarrow> plan_constraints \<Rightarrow> string list" where
  "busy_warnings selected k =
     (let busy = filter (\<lambda>g. BUSY_GPU_USED_FRACTION < used_fraction g) (hs_gpus selected);
          detail = str_join '', '' (map (\<lambda>g. ''GPU '' @ str_int (gd_index g) @ '': ''
                     @ format_bytes (Some (gd_used_memory_bytes g)) @ '' used'') busy)
      in if busy = [] then []
         else if pk_allow_busy_gpus k
         then [''Selected GPUs already have allocations ('' @ detail @ ''); planning against free memory only.'']
         else [''Selected GPUs already have allocations ('' @ detail
               @ ''). ServePilot plans against free memory only; pass --allow-busy-gpus to silence this warning or --gpus to choose idle devices.''])"

definition select_gpus :: "hardware_snapshot \<Rightarrow> plan_constraints \<Rightarrow> planner_error + gpu_selection" where
  "select_gpus s k =
     (if hs_gpu_count s = 0
      then Inl (Hardware_error ''no NVIDIA GPUs are visible to ServePilot.''
             [''Run `nvidia-smi` to confirm the driver sees your GPUs.'',
              ''Check CUDA_VISIBLE_DEVICES is not hiding every device.''])
      else
        (let available = sort (remdups (gpu_indices s));
             missing = (case pk_gpu_ids k of None \<Rightarrow> [] | Some ids \<Rightarrow> sort (remdups (minus_list ids available)))
         in if missing \<noteq> []
            then Inl (Configuration_error (''--gpus references GPU indices '' @ str_list str_int missing
                   @ '' that are not present (available: '' @ str_list str_int available @ '')'') [])
            else
              (let ids = (case pk_gpu_ids k of None \<Rightarrow> available | Some ids \<Rightarrow> sort (remdups ids));
                   selected = snap_select s ids
               in if 1 < length (homogeneous_groups selected)
                  then Inl (mixed_gpus_error (homogeneous_groups selected))
                  else Inr \<lparr>gs_snapshot = selected, gs_gpu_ids = ids, gs_warnings = busy_warnings selected k\<rparr>)))"

section \<open>Context length\<close>

definition resolve_context_length ::
    "model_profile \<Rightarrow> workload_profile \<Rightarrow> plan_constraints \<Rightarrow> planner_error + int \<times> string list" where
  "resolve_context_length m w k =
     (let requested = int_or (pk_context_length k) (wl_max_context_tokens w) in
      case mp_max_position_embeddings m of
        None \<Rightarrow> Inr (requested, [])
      | Some limit \<Rightarrow>
          if limit < requested \<and> pk_context_length k = None then
            (let needed = p95_sequence_tokens w in
             if limit < needed
             then Inl (Configuration_error
               (''the workload needs '' @ str_int needed @ '' tokens of context (p95 prompt + p95 output) but the model''
                @ [CHR 0x27] @ ''s maximum is '' @ str_int limit @ ''.'')
               [''Lower --input-tokens-p95 / --output-tokens-p95 or pick a shorter profile.'',
                ''Or force it: --context-length '' @ str_int needed @ '' --allow-context-override (quality beyond the trained length is not guaranteed).''])
             else Inr (limit,
               [''workload context '' @ str_int requested @ '' exceeds the model'' @ [CHR 0x27] @ ''s maximum ('' @ str_int limit
                @ ''); using '' @ str_int limit @ ''. Pass --context-length with --allow-context-override to force a longer context.'']))
          else Inr (requested, []))"

section \<open>Parts of a candidate\<close>

definition plan_id :: "engine_name \<Rightarrow> nat \<Rightarrow> nat \<Rightarrow> nat \<Rightarrow> string \<Rightarrow> string" where
  "plan_id e tp pp replicas sfx =
     engine_value e @ ''-tp'' @ str_nat tp @ (if 1 < pp then ''-pp'' @ str_nat pp else [])
     @ ''-x'' @ str_nat replicas @ sfx"

definition max_num_seqs :: "engine_ops \<Rightarrow> int option \<Rightarrow> plan_constraints \<Rightarrow> int" where
  "max_num_seqs eng est_c50 k = (case pk_max_concurrency k of
     Some c \<Rightarrow> c
   | None \<Rightarrow> (case est_c50 of None \<Rightarrow> eo_default_max_num_seqs eng | Some c \<Rightarrow> max 16 (min 1024 c)))"

fun confidence_value :: "confidence \<Rightarrow> string" where
  "confidence_value High = ''high''"
| "confidence_value Medium = ''medium''"
| "confidence_value Low = ''low''"
| "confidence_value Unknown_confidence = ''unknown''"

definition about_sign :: string where "about_sign = [CHR 0xE2, CHR 0x89, CHR 0x88]"

text \<open>Everything the loops of \<^verbatim>\<open>generate_candidates\<close> read.\<close>

record plan_env =
  pe_snapshot :: hardware_snapshot
  pe_ids :: "int list"
  pe_node_sizes :: "nat list"
  pe_gpus_per_node :: nat
  pe_model :: model_profile
  pe_workload :: workload_profile
  pe_engines :: "engine_ops list"
  pe_constraints :: plan_constraints
  pe_cfg :: memory_config
  pe_context :: int

definition base_rationale :: "plan_env \<Rightarrow> candidate_plan \<Rightarrow> memory_estimate \<Rightarrow> string list" where
  "base_rationale env p e =
     (let tp = cp_tensor_parallel_size p in
       (if tp = 1
        then [''Model weights ('' @ format_bytes (me_weights_bytes e) @ '') fit on one GPU; TP=1 avoids inter-GPU communication.'']
        else [''TP='' @ str_nat tp @ '' splits weights to ~'' @ format_bytes (me_weights_bytes e) @ '' per GPU.''])
     @ (if 1 < cp_replica_count p
        then [str_nat (cp_replica_count p) @ '' independent replicas use all '' @ str_nat (gpu_count p)
              @ '' selected GPUs; the router load-balances across them.''] else [])
     @ (case me_estimated_max_concurrency_p50 e of
          Some c \<Rightarrow> [''Estimated KV cache '' @ format_bytes (me_kv_cache_bytes_available e) @ '' per GPU '' @ about_sign @ '' ''
              @ str_int c @ '' concurrent p50 sequences per replica (confidence: '' @ confidence_value (me_kv_confidence e) @ '').'']
        | None \<Rightarrow> if me_kv_confidence e = Unknown_confidence
            then [''KV-cache capacity for this architecture is unknown statically; launch validation will establish it.''] else [])
     @ (if 1 < tp then map (\<lambda>d. ''Group '' @ d) (take 4 (describe (pe_snapshot env) (cp_gpu_groups p))) else [])
     @ (if is_cluster (pe_snapshot env)
        then [''Replicas are placed within machines ('' @ str_nat (pe_gpus_per_node env)
              @ '' GPUs per node); no replica spans the network.''] else []))"

text \<open>A variant is the suffix of its id, what it overrides in the plan, and its rationale.\<close>

type_synonym variant = "string \<times> (candidate_plan \<Rightarrow> candidate_plan) \<times> string list"

definition plain_variant :: variant where "plain_variant = ([], \<lambda>p. p, [])"

definition ep_variant :: "engine_ops \<Rightarrow> nat \<Rightarrow> variant" where
  "ep_variant eng tp = (''-ep'',
     \<lambda>p. p\<lparr>cp_expert_parallel_enabled := True, cp_expert_parallel_size := Some (int tp)\<rparr>,
     [''Expert parallelism (EP='' @ str_nat tp @ '') shards experts instead of replicating them; '' @ eo_name eng
      @ '' supports it for this model.''])"

definition dpa_variant :: "engine_ops \<Rightarrow> nat \<Rightarrow> variant" where
  "dpa_variant eng tp = (''-dpa'',
     \<lambda>p. p\<lparr>cp_expert_parallel_enabled := True, cp_expert_parallel_size := Some (int tp),
            cp_data_parallel_size := tp, cp_dp_attention_enabled := True\<rparr>,
     [''DP attention with EP='' @ str_nat tp @ '' is known to work for this architecture on '' @ eo_name eng @ ''.''])"

definition excluded :: "string \<Rightarrow> string \<Rightarrow> excluded_candidate" where
  "excluded description reason = \<lparr>ec_description = description, ec_reason = reason, ec_engine = None,
     ec_tensor_parallel_size = None, ec_replica_count = None, ec_plan = None\<rparr>"

definition engine_variants :: "plan_env \<Rightarrow> engine_ops \<Rightarrow> nat \<Rightarrow> excluded_candidate list \<times> variant list" where
  "engine_variants env eng tp =
     (let m = pe_model env; parallel_moe = (mp_is_moe m \<and> 1 < tp);
          try_ep = (parallel_moe \<and> eo_supports_expert_parallel eng m);
          ep_reason = check_ep_divisibility m tp
      in ((if try_ep \<and> ep_reason \<noteq> None
           then [(excluded (eo_name eng @ '' TP='' @ str_nat tp @ '' EP='' @ str_nat tp) (the ep_reason))
                 \<lparr>ec_engine := Some (eo_engine_name eng), ec_tensor_parallel_size := Some tp\<rparr>]
           else []),
          [plain_variant] @ (if try_ep \<and> ep_reason = None then [ep_variant eng tp] else [])
          @ (if parallel_moe \<and> eo_supports_dp_attention eng m then [dpa_variant eng tp] else [])))"

section \<open>Per-machine candidates\<close>

text \<open>The plan of one variant, before the support check.  \<open>CandidatePlan\<close> refuses a context below 16.\<close>

definition variant_plan ::
    "plan_env \<Rightarrow> engine_ops \<Rightarrow> nat \<Rightarrow> nat \<Rightarrow> int list list \<Rightarrow> memory_estimate \<Rightarrow> string list list option
     \<Rightarrow> variant \<Rightarrow> candidate_plan" where
  "variant_plan env eng tp replicas groups est nodes v =
     (let k = pe_constraints env;
          seqs = max_num_seqs eng (me_estimated_max_concurrency_p50 est) k;
          base = base_plan (plan_id (eo_engine_name eng) tp 1 replicas (fst v)) (eo_engine_name eng) groups tp replicas (pe_context env);
          plan = base\<lparr>cp_objective := Some (wl_objective (pe_workload env)), cp_memory_fraction := Some (me_memory_fraction est),
                   cp_max_num_seqs := Some seqs, cp_kv_cache_dtype := pk_kv_cache_dtype k,
                   cp_engine_args := pk_extra_engine_args k, cp_estimated_memory := Some est, cp_replica_nodes := nodes\<rparr>
      in (fst (snd v) plan)\<lparr>cp_max_running_requests := Some seqs,
           cp_max_concurrency := (if seqs \<noteq> 0 then Some (seqs * int replicas) else None)\<rparr>)"

definition plan_excluded :: "candidate_plan \<Rightarrow> string \<Rightarrow> nat \<Rightarrow> nat \<Rightarrow> excluded_candidate" where
  "plan_excluded p reason tp replicas = (excluded (label p) reason)
     \<lparr>ec_engine := Some (cp_engine p), ec_tensor_parallel_size := Some tp, ec_replica_count := Some replicas,
      ec_plan := Some p\<rparr>"

text \<open>One variant: excluded for lack of support, excluded by the memory model, or a candidate.\<close>

definition judge_variant ::
    "plan_env \<Rightarrow> engine_ops \<Rightarrow> nat \<Rightarrow> nat \<Rightarrow> memory_estimate \<Rightarrow> string list \<Rightarrow> candidate_plan
     \<Rightarrow> excluded_candidate list \<times> candidate_plan list" where
  "judge_variant env eng tp replicas est extra plan =
     (let support = eo_supports eng (pe_model env) plan;
          mem_reason = check_memory est 0;
          rationale = extra @ sr_warnings support
      in if \<not> sr_supported support then
           ([plan_excluded plan (if str_join ''; '' (sr_reasons support) \<noteq> [] then str_join ''; '' (sr_reasons support)
               else eo_name eng @ '' does not support this model'') tp replicas], [])
         else case mem_reason of
           Some reason \<Rightarrow>
             ([plan_excluded (plan\<lparr>cp_viability := Estimated_impossible, cp_rationale := reason # rationale\<rparr>) reason tp replicas], [])
         | None \<Rightarrow>
             (let plan = plan\<lparr>cp_viability := (if me_confidence est = Unknown_confidence then Unknown_viability else Estimated_viable)\<rparr>
              in ([], [plan\<lparr>cp_rationale := base_rationale env plan est @ rationale\<rparr>])))"

text \<open>A loop that collects exclusions and plans and stops at the first error.\<close>

fun collect :: "('a \<Rightarrow> 'e + 'b list \<times> 'c list) \<Rightarrow> 'a list \<Rightarrow> 'e + 'b list \<times> 'c list" where
  "collect f [] = Inr ([], [])"
| "collect f (x # xs) = try_bind (f x) (\<lambda>(a, b). try_bind (collect f xs) (\<lambda>(c, d). Inr (a @ c, b @ d)))"

definition wanted_engines :: "plan_env \<Rightarrow> engine_ops list" where
  "wanted_engines env = filter (\<lambda>e. case pk_engine (pe_constraints env) of None \<Rightarrow> True | Some n \<Rightarrow> eo_engine_name e = n)
     (pe_engines env)"

definition engine_candidates ::
    "plan_env \<Rightarrow> nat \<Rightarrow> nat \<Rightarrow> int list list \<Rightarrow> memory_estimate \<Rightarrow> string list list option \<Rightarrow> engine_ops
     \<Rightarrow> planner_error + excluded_candidate list \<times> candidate_plan list" where
  "engine_candidates env tp replicas groups est nodes eng =
     (let (ex, variants) = engine_variants env eng tp in
      if pe_context env < 16 then Inl Validation_error_raised
      else try_bind (collect (\<lambda>v. Inr (judge_variant env eng tp replicas est (snd (snd v))
                                       (variant_plan env eng tp replicas groups est nodes v))) variants)
             (\<lambda>(ex', plans). Inr (ex @ ex', plans)))"

definition group_nodes :: "hardware_snapshot \<Rightarrow> int list \<Rightarrow> string list" where
  "group_nodes s g = map (\<lambda>i. let n = text_or_empty (the_or (node_of s i) None) in if n = [] then ''local'' else n) g"

fun lift_group_error :: "group_error + 'a \<Rightarrow> planner_error + 'a" where
  "lift_group_error (Inr x) = Inr x"
| "lift_group_error (Inl (No_viable_plan msg)) = Inl (No_viable_plan_error msg [])"
| "lift_group_error (Inl (Unknown_gpu i)) = Inl Key_error_raised"
| "lift_group_error (Inl No_maximum) = Inl Value_error_raised"

definition max_replicas :: "plan_env \<Rightarrow> nat \<Rightarrow> nat" where
  "max_replicas env tp = sum_list (map (\<lambda>n. n div tp) (pe_node_sizes env))"

definition replica_request :: "plan_env \<Rightarrow> nat \<Rightarrow> planner_error + nat" where
  "replica_request env tp =
     (case pk_replica_count (pe_constraints env) of
        None \<Rightarrow> Inr (max_replicas env tp)
      | Some r \<Rightarrow>
          if max_replicas env tp < r
          then Inl (Configuration_error (''--replicas '' @ str_nat r @ '' with TP='' @ str_nat tp @ '' needs ''
                 @ str_nat (r * tp) @ '' GPUs but only '' @ str_nat (length (pe_ids env)) @ '' are selected'') [])
          else Inr r)"

definition kv_for :: "plan_env \<Rightarrow> nat \<Rightarrow> kv_estimate" where
  "kv_for env tp = estimate_kv (pe_model env) (int tp) (pk_kv_cache_dtype (pe_constraints env))"

definition group_estimate :: "plan_env \<Rightarrow> int list \<Rightarrow> nat \<Rightarrow> nat \<Rightarrow> planner_error + memory_estimate" where
  "group_estimate env ids tp pp =
     (if \<exists>i \<in> set ids. snap_gpu (pe_snapshot env) i = None then Inl Key_error_raised
      else case estimate_memory (pe_model env) (map (\<lambda>i. the (snap_gpu (pe_snapshot env) i)) ids) tp (kv_for env tp)
                  (pe_context env) (pe_workload env) (pe_cfg env) pp (pk_memory_fraction (pe_constraints env)) of
             None \<Rightarrow> Inl Value_error_raised
           | Some e \<Rightarrow> Inr e)"

definition tp_candidates :: "plan_env \<Rightarrow> nat \<Rightarrow> planner_error + excluded_candidate list \<times> candidate_plan list" where
  "tp_candidates env tp =
     (case check_tp_divisibility (pe_model env) tp of
        Some reason \<Rightarrow> Inr ([(excluded (''TP='' @ str_nat tp) reason)\<lparr>ec_tensor_parallel_size := Some tp\<rparr>], [])
      | None \<Rightarrow>
          try_bind (replica_request env tp) (\<lambda>replicas.
          try_bind (lift_group_error (plan_groups (pe_snapshot env) tp replicas (Some (pe_ids env)) False)) (\<lambda>groups.
          try_bind (group_estimate env (concat groups) tp 1) (\<lambda>est.
            let nodes = (if hs_nodes (pe_snapshot env) \<noteq> [] then Some (map (group_nodes (pe_snapshot env)) groups) else None)
            in collect (engine_candidates env tp replicas groups est nodes) (wanted_engines env)))))"

section \<open>Cross-node candidates\<close>

type_synonym shape = "nat \<times> nat \<times> string"

definition cross_plan :: "plan_env \<Rightarrow> engine_ops \<Rightarrow> int list \<Rightarrow> memory_estimate \<Rightarrow> nat \<Rightarrow> nat \<Rightarrow> candidate_plan" where
  "cross_plan env eng gpus est tp pp =
     (let k = pe_constraints env;
          seqs = max_num_seqs eng (me_estimated_max_concurrency_p50 est) k
      in (base_plan (plan_id (eo_engine_name eng) tp pp 1 ''-ray'') (eo_engine_name eng) [gpus] tp 1 (pe_context env))
         \<lparr>cp_pipeline_parallel_size := pp, cp_objective := Some (wl_objective (pe_workload env)),
          cp_memory_fraction := Some (me_memory_fraction est), cp_max_num_seqs := Some seqs,
          cp_kv_cache_dtype := pk_kv_cache_dtype k, cp_engine_args := pk_extra_engine_args k,
          cp_estimated_memory := Some est, cp_distributed_backend := Some ''ray'',
          cp_replica_nodes := Some [group_nodes (pe_snapshot env) gpus],
          cp_max_running_requests := Some seqs, cp_max_concurrency := Some seqs\<rparr>)"

definition cross_reason :: string where
  "cross_reason = ''The model does not fit inside a single machine, so one replica spans the cluster via vLLM''
     @ [CHR 0x27] @ ''s Ray executor.''"

definition cross_rationale :: "memory_estimate \<Rightarrow> string \<Rightarrow> string list" where
  "cross_rationale est why =
     [cross_reason, why, ''Estimated weights per GPU: '' @ format_bytes (me_weights_bytes est) @ ''.'']"

definition judge_cross ::
    "plan_env \<Rightarrow> engine_ops \<Rightarrow> memory_estimate \<Rightarrow> nat \<Rightarrow> string \<Rightarrow> candidate_plan
     \<Rightarrow> excluded_candidate list \<times> candidate_plan list" where
  "judge_cross env eng est tp why plan =
     (let mem_reason = check_memory est 0;
          support = eo_supports eng (pe_model env) plan
      in if \<not> sr_supported support \<or> mem_reason \<noteq> None then
           ([plan_excluded plan (case mem_reason of Some r \<Rightarrow> r | None \<Rightarrow> str_join ''; '' (sr_reasons support)) tp 1], [])
         else
           ([], [plan\<lparr>cp_viability := (if me_confidence est \<noteq> Unknown_confidence then Estimated_viable else Unknown_viability),
             cp_rationale := cross_rationale est why @ sr_warnings support\<rparr>]))"

definition cross_shape ::
    "plan_env \<Rightarrow> engine_ops \<Rightarrow> int list \<Rightarrow> shape \<Rightarrow> planner_error + excluded_candidate list \<times> candidate_plan list" where
  "cross_shape env eng gpus sh =
     (let (tp, pp, why) = sh in
      if 1 < pp \<and> \<not> eo_supports_pipeline_parallel eng then Inr ([], [])
      else
        try_bind (group_estimate env gpus tp pp) (\<lambda>est.
          if pe_context env < 16 then Inl Validation_error_raised
          else Inr (judge_cross env eng est tp why (cross_plan env eng gpus est tp pp))))"

definition cross_engine ::
    "plan_env \<Rightarrow> int list \<Rightarrow> shape list \<Rightarrow> engine_ops \<Rightarrow> planner_error + excluded_candidate list \<times> candidate_plan list" where
  "cross_engine env gpus shapes eng =
     (if \<not> eo_supports_ray_backend eng then
        Inr ([(excluded (eo_name eng @ '' multi-node'') (eo_name eng
               @ '' has no Ray-backed multi-node executor in ServePilot; only per-machine replicas are supported for it''))
              \<lparr>ec_engine := Some (eo_engine_name eng)\<rparr>], [])
      else collect (cross_shape env eng gpus) shapes)"

definition cross_node_candidates :: "plan_env \<Rightarrow> planner_error + excluded_candidate list \<times> candidate_plan list" where
  "cross_node_candidates env =
     (let k = pe_constraints env;
          by_node = gpus_by_node (pe_snapshot env);
          node_ids = sort (map the (filter (\<lambda>n. n \<noteq> None) (map fst by_node)))
      in if length node_ids < 2 then Inr ([], [])
         else if pk_replica_count k \<notin> {None, Some 1} then
           Inr ([excluded ''multi-node layouts''
                  (''a replica spanning machines is always a single copy; --replicas ''
                   @ str_nat (the_or (pk_replica_count k) 0) @ '' cannot be honoured across nodes'')], [])
         else
           (let ids_of = (\<lambda>n. the_or (map_of by_node (Some n)) []);
                tp = the_or (py_min (map (\<lambda>n. length (ids_of n)) node_ids)) 0;
                gpus = concat (map (\<lambda>n. take tp (sort (ids_of n))) node_ids);
                pp = length node_ids;
                all = tp * pp;
                shapes = [(tp, pp, ''TP within each machine, pipeline stages across machines (vLLM'' @ [CHR 0x27] @ ''s recommended multi-node layout)'')]
                  @ (if check_tp_divisibility (pe_model env) all = None
                     then [(all, 1, ''single tensor-parallel group spanning machines (higher communication cost)'')] else []);
                shapes = (case pk_tensor_parallel_size k of None \<Rightarrow> shapes | Some wanted \<Rightarrow> filter (\<lambda>sh. fst sh = wanted) shapes)
            in case (pk_tensor_parallel_size k, shapes) of
                 (Some wanted, []) \<Rightarrow>
                   Inr ([(excluded (''TP='' @ str_nat wanted @ '' multi-node'')
                          (''multi-node layouts on this cluster use TP='' @ str_nat tp @ '' per machine or TP='' @ str_nat all
                           @ '' across all machines''))\<lparr>ec_tensor_parallel_size := Some wanted\<rparr>], [])
               | _ \<Rightarrow> collect (cross_engine env gpus shapes) (wanted_engines env)))"

section \<open>The whole generation\<close>

definition tp_choices :: "plan_env \<Rightarrow> planner_error + nat list" where
  "tp_choices env =
     (let values = divisors (pe_gpus_per_node env) in
      case pk_tensor_parallel_size (pe_constraints env) of
        None \<Rightarrow> Inr values
      | Some tp \<Rightarrow>
          if tp \<in> set values then Inr [tp]
          else if pe_gpus_per_node env < tp \<and> is_cluster (pe_snapshot env) then Inr []
          else Inl (Configuration_error (''--tp '' @ str_nat tp @ '' is not possible on '' @ str_nat (pe_gpus_per_node env)
                 @ '' GPUs per node (valid values: '' @ str_list str_nat values @ '')'') []))"

definition rank_key :: "objective \<Rightarrow> candidate_plan \<Rightarrow> int \<times> nat \<times> nat \<times> string" where
  "rank_key obj p =
     ((if obj = Latency then - int (cp_tensor_parallel_size p) else int (cp_tensor_parallel_size p)),
      cp_pipeline_parallel_size p, (if cp_expert_parallel_enabled p \<or> cp_dp_attention_enabled p then 1 else 0),
      engine_value (cp_engine p))"

definition rank :: "objective \<Rightarrow> candidate_plan list \<Rightarrow> candidate_plan list" where
  "rank obj plans =
     (let ordered = sort_key (rank_key obj) plans
      in map (\<lambda>(i, p). p\<lparr>cp_heuristic_rank := Some (int i)\<rparr>) (enumerate 0 ordered))"

definition no_plan_error :: "excluded_candidate list \<Rightarrow> planner_error" where
  "no_plan_error ex =
     No_viable_plan_error (''No candidate topology is estimated to fit this model on the selected GPUs.'' @ newline
        @ str_join newline (map (\<lambda>e. ''  - '' @ ec_description e @ '': '' @ ec_reason e) (take 12 ex)))
       [''Choose a quantized variant of the model or a smaller model.'',
        ''Reduce --context-length or lower --memory-headroom.'',
        ''Select more GPUs with --gpus, or use a Ray cluster with more machines.'']"

definition duplicate_excluded :: "candidate_plan \<Rightarrow> excluded_candidate" where
  "duplicate_excluded d = (excluded (label d) ''duplicate of an identical topology'')
     \<lparr>ec_engine := Some (cp_engine d), ec_plan := Some d\<rparr>"

text \<open>All plans of the loops: the per-machine ones, then cross-node ones when a cluster has none.\<close>

definition all_plans :: "plan_env \<Rightarrow> planner_error + excluded_candidate list \<times> candidate_plan list" where
  "all_plans env =
     try_bind (tp_choices env) (\<lambda>tps.
     try_bind (collect (tp_candidates env) tps) (\<lambda>(ex, plans).
       if is_cluster (pe_snapshot env) \<and> plans = []
       then try_bind (cross_node_candidates env) (\<lambda>(ex', plans'). Inr (ex @ ex', plans'))
       else Inr (ex, plans)))"

definition conclude :: "plan_env \<Rightarrow> string list \<Rightarrow> string list \<Rightarrow> excluded_candidate list \<times> candidate_plan list
    \<Rightarrow> planner_error + planning_result" where
  "conclude env warnings notes found =
     (let (ex, plans) = found;
          (unique, dupes) = dedupe plans;
          ex = ex @ map duplicate_excluded dupes;
          ranked = rank (wl_objective (pe_workload env)) unique
      in if unique = [] then Inl (no_plan_error ex)
         else Inr \<lparr>pr_candidates = ranked, pr_excluded = ex, pr_selected_gpu_ids = pe_ids env,
                pr_estimated_minimum_tp = py_min (map (\<lambda>p. cp_tensor_parallel_size p * cp_pipeline_parallel_size p) ranked),
                pr_warnings = warnings, pr_notes = notes\<rparr>)"

definition with_headroom :: "plan_constraints \<Rightarrow> memory_config \<Rightarrow> memory_config" where
  "with_headroom k cfg = (case pk_memory_headroom k of None \<Rightarrow> cfg | Some h \<Rightarrow> cfg\<lparr>mc_headroom_fraction := h\<rparr>)"

definition uneven_warning :: "nat list \<Rightarrow> nat \<Rightarrow> string list" where
  "uneven_warning sizes per_node =
     (if 1 < length (remdups sizes)
      then [''nodes expose different GPU counts '' @ str_list str_nat (sort sizes) @ ''; per-node topologies use ''
            @ str_nat per_node @ '' GPUs per node''] else [])"

definition generate_candidates ::
    "hardware_snapshot \<Rightarrow> model_profile \<Rightarrow> workload_profile \<Rightarrow> engine_ops list \<Rightarrow> plan_constraints \<Rightarrow> memory_config
     \<Rightarrow> planner_error + planning_result" where
  "generate_candidates s m w engines k cfg =
     (if engines = [] then Inl (No_viable_plan_error ''no inference engines were provided to the planner'' [])
      else
        try_bind (select_gpus s k) (\<lambda>sel.
        try_bind (resolve_context_length m w k) (\<lambda>(ctx, notes).
          case check_context_length m ctx (pk_allow_context_override k) of
            Some err \<Rightarrow> Inl (Configuration_error err [])
          | None \<Rightarrow>
              (let sizes = map (\<lambda>(n, ids). length ids) (gpus_by_node (gs_snapshot sel)) in
               case py_min sizes of
                 None \<Rightarrow> Inl Value_error_raised
               | Some per_node \<Rightarrow>
                   (let env = \<lparr>pe_snapshot = gs_snapshot sel, pe_ids = gs_gpu_ids sel, pe_node_sizes = sizes,
                          pe_gpus_per_node = per_node, pe_model = m, pe_workload = w, pe_engines = engines,
                          pe_constraints = k, pe_cfg = with_headroom k cfg, pe_context = ctx\<rparr>
                    in try_bind (all_plans env) (conclude env (gs_warnings sel @ uneven_warning sizes per_node) notes))))))"

text \<open>\<^verbatim>\<open>Planner.heuristic_selection\<close>; \<open>None\<close> is its \<^verbatim>\<open>ValueError\<close>.\<close>

definition heuristic_selection :: "planning_result \<Rightarrow> workload_profile \<Rightarrow> selected_plan option" where
  "heuristic_selection r w =
     map_option (\<lambda>p. \<lparr>sp_plan = p, sp_objective = wl_objective w, sp_benchmarked = False, sp_slo_satisfied = None,
         sp_final_result = None,
         sp_rationale = ''UNBENCHMARKED heuristic plan (--no-tune): chosen by static estimates only.'' # cp_rationale p,
         sp_engine_version = None, sp_equivalent_commands = [], sp_pareto_front = [], sp_source = Heuristic\<rparr>)
       (min_by (\<lambda>p. the_or (cp_heuristic_rank p) 1000) (viable r))"

section \<open>What every candidate satisfies\<close>

text \<open>A memory fraction the user asked for is used, rounded to two decimals.\<close>

definition honours_fraction :: "plan_env \<Rightarrow> memory_estimate \<Rightarrow> bool" where
  "honours_fraction env est \<longleftrightarrow> (\<forall>f. pk_memory_fraction (pe_constraints env) = Some f \<longrightarrow> me_memory_fraction est = py_round2 f)"

definition sound_candidate :: "plan_env \<Rightarrow> candidate_plan \<Rightarrow> bool" where
  "sound_candidate env p \<longleftrightarrow>
     (\<exists>eng \<in> set (wanted_engines env). cp_engine p = eo_engine_name eng \<and>
        (\<exists>q. structural_key q = structural_key p \<and> sr_supported (eo_supports eng (pe_model env) q))) \<and>
     cp_viability p \<in> {Estimated_viable, Unknown_viability} \<and> cp_context_length p = pe_context env \<and>
     (\<exists>est. cp_estimated_memory p = Some est \<and> cp_memory_fraction p = Some (me_memory_fraction est) \<and> check_memory est 0 = None
        \<and> honours_fraction env est) \<and>
     (\<forall>cap. pk_max_concurrency (pe_constraints env) = Some cap \<longrightarrow> cp_max_num_seqs p = Some cap \<and> cp_max_running_requests p = Some cap) \<and>
     (cp_distributed_backend p = None \<longrightarrow>
        valid_groups (cp_tensor_parallel_size p) (cp_replica_count p) (pe_ids env) (cp_gpu_groups p) \<and>
        (\<forall>g \<in> set (cp_gpu_groups p). same_machine (pe_snapshot env) g) \<and>
        check_tp_divisibility (pe_model env) (cp_tensor_parallel_size p) = None)"

lemma collect_plans:
  "collect f xs = Inr (a, b) \<Longrightarrow> y \<in> set b \<Longrightarrow> \<exists>x \<in> set xs. \<exists>c d. f x = Inr (c, d) \<and> y \<in> set d"
proof (induction xs arbitrary: a b)
  case (Cons x xs)
  then obtain a1 b1 a2 b2 where "f x = Inr (a1, b1)" "collect f xs = Inr (a2, b2)" "b = b1 @ b2"
    by (auto simp: try_bind_Inr)
  then show ?case using Cons by fastforce
qed simp

lemma structural_key_notes [simp]:
  "structural_key (p\<lparr>cp_viability := v\<rparr>) = structural_key p"
  "structural_key (p\<lparr>cp_rationale := rs\<rparr>) = structural_key p"
  "structural_key (p\<lparr>cp_heuristic_rank := h\<rparr>) = structural_key p"
  by (simp_all add: structural_key_def expert_key_def)

lemma judge_variant_plans:
  assumes "p \<in> set (snd (judge_variant env eng tp replicas est extra plan))"
  shows "sr_supported (eo_supports eng (pe_model env) plan)" "check_memory est 0 = None"
    "\<exists>v rs. v \<in> {Estimated_viable, Unknown_viability} \<and> p = plan\<lparr>cp_viability := v, cp_rationale := rs\<rparr>"
  using assms by (auto simp: judge_variant_def Let_def split: if_splits option.splits)

lemma engine_variants_updates:
  assumes "v \<in> set (snd (engine_variants env eng tp))"
  shows "cp_engine (fst (snd v) p) = cp_engine p" "cp_gpu_groups (fst (snd v) p) = cp_gpu_groups p"
    "cp_tensor_parallel_size (fst (snd v) p) = cp_tensor_parallel_size p" "cp_replica_count (fst (snd v) p) = cp_replica_count p"
    "cp_context_length (fst (snd v) p) = cp_context_length p" "cp_estimated_memory (fst (snd v) p) = cp_estimated_memory p"
    "cp_memory_fraction (fst (snd v) p) = cp_memory_fraction p" "cp_max_num_seqs (fst (snd v) p) = cp_max_num_seqs p" "cp_distributed_backend (fst (snd v) p) = cp_distributed_backend p"
  using assms by (auto simp: engine_variants_def Let_def plain_variant_def ep_variant_def dpa_variant_def split: if_splits)

lemmas variant_fields = variant_plan_def base_plan_def Let_def

lemma engine_candidates_sound:
  assumes ec: "engine_candidates env tp replicas groups est nodes eng = Inr (ex, plans)" and p: "p \<in> set plans"
    and eng: "eng \<in> set (wanted_engines env)" and groups: "valid_groups tp replicas (pe_ids env) groups"
      "\<forall>g \<in> set groups. same_machine (pe_snapshot env) g" and tp: "check_tp_divisibility (pe_model env) tp = None" and fraction: "honours_fraction env est"
  shows "sound_candidate env p"
proof -
  obtain v where v: "v \<in> set (snd (engine_variants env eng tp))"
    and j: "p \<in> set (snd (judge_variant env eng tp replicas est (snd (snd v)) (variant_plan env eng tp replicas groups est nodes v)))"
    using ec p by (auto simp: engine_candidates_def try_bind_Inr split: prod.splits if_splits dest!: collect_plans)
  note jp = judge_variant_plans[OF j]
  obtain vi rs where pe: "vi \<in> {Estimated_viable, Unknown_viability}"
    "p = (variant_plan env eng tp replicas groups est nodes v)\<lparr>cp_viability := vi, cp_rationale := rs\<rparr>" using jp(3) by blast
  show ?thesis unfolding sound_candidate_def
  proof (intro conjI)
    show "\<exists>eng \<in> set (wanted_engines env). cp_engine p = eo_engine_name eng \<and>
        (\<exists>q. structural_key q = structural_key p \<and> sr_supported (eo_supports eng (pe_model env) q))"
      using eng jp(1) by (intro bexI[of _ eng] conjI exI[of _ "variant_plan env eng tp replicas groups est nodes v"])
        (simp_all add: pe variant_fields engine_variants_updates[OF v])
    show "\<exists>est. cp_estimated_memory p = Some est \<and> cp_memory_fraction p = Some (me_memory_fraction est) \<and> check_memory est 0 = None
        \<and> honours_fraction env est"
      using jp(2) fraction by (intro exI[of _ est]) (simp add: pe variant_fields engine_variants_updates[OF v])
  qed (use groups tp pe(1) in \<open>simp_all add: pe(2) variant_fields engine_variants_updates[OF v] max_num_seqs_def\<close>)
qed

lemma group_estimate_fraction: "group_estimate env ids tp pp = Inr est \<Longrightarrow> honours_fraction env est"
  by (auto simp: group_estimate_def honours_fraction_def chosen_fraction_def dest: estimate_memory_Some(4) split: if_splits option.splits)

lemma lift_group_error_Inr: "lift_group_error r = Inr x \<longleftrightarrow> r = Inr x"
  by (cases r rule: lift_group_error.cases) auto

lemma tp_candidates_sound:
  assumes t: "tp_candidates env tp = Inr (ex, plans)" and p: "p \<in> set plans" and ids: "distinct (pe_ids env)" and tp1: "1 \<le> tp"
  shows "sound_candidate env p"
proof (cases "check_tp_divisibility (pe_model env) tp")
  case None
  then obtain replicas groups est nodes where g: "plan_groups (pe_snapshot env) tp replicas (Some (pe_ids env)) False = Inr groups"
    and est: "group_estimate env (concat groups) tp 1 = Inr est"
    and c: "collect (engine_candidates env tp replicas groups est nodes) (wanted_engines env) = Inr (ex, plans)"
    using t by (auto simp: tp_candidates_def try_bind_Inr lift_group_error_Inr Let_def)
  obtain eng ex' plans' where "eng \<in> set (wanted_engines env)"
      "engine_candidates env tp replicas groups est nodes eng = Inr (ex', plans')" "p \<in> set plans'"
    using collect_plans[OF c p] by blast
  then show ?thesis using plan_valid[OF g ids tp1] None group_estimate_fraction[OF est] by (intro engine_candidates_sound) auto
next
  case (Some r)
  then show ?thesis using t p by (simp add: tp_candidates_def)
qed

lemma judge_cross_cases:
  "judge_cross env eng est tp why plan =
     (if sr_supported (eo_supports eng (pe_model env) plan) \<and> check_memory est 0 = None
      then ([], [plan\<lparr>cp_viability := (if me_confidence est \<noteq> Unknown_confidence then Estimated_viable else Unknown_viability),
             cp_rationale := cross_rationale est why @ sr_warnings (eo_supports eng (pe_model env) plan)\<rparr>])
      else (fst (judge_cross env eng est tp why plan), []))"
  by (simp add: judge_cross_def Let_def)

lemma judge_cross_plans:
  assumes "p \<in> set (snd (judge_cross env eng est tp why plan))"
  shows "sr_supported (eo_supports eng (pe_model env) plan)" "check_memory est 0 = None"
    "\<exists>v rs. v \<in> {Estimated_viable, Unknown_viability} \<and> p = plan\<lparr>cp_viability := v, cp_rationale := rs\<rparr>"
proof -
  show ok: "sr_supported (eo_supports eng (pe_model env) plan)" "check_memory est 0 = None"
    using assms by (subst (asm) judge_cross_cases, simp split: if_splits)+
  show "\<exists>v rs. v \<in> {Estimated_viable, Unknown_viability} \<and> p = plan\<lparr>cp_viability := v, cp_rationale := rs\<rparr>"
    using assms by (subst (asm) judge_cross_cases) (auto simp: ok)
qed

lemma cross_shape_sound:
  assumes c: "cross_shape env eng gpus sh = Inr (ex, plans)" and p: "p \<in> set plans" and eng: "eng \<in> set (wanted_engines env)"
  shows "sound_candidate env p"
proof -
  obtain tp pp why where sh: "sh = (tp, pp, why)" by (cases sh)
  obtain est where jc: "judge_cross env eng est tp why (cross_plan env eng gpus est tp pp) = (ex, plans)"
    and est: "honours_fraction env est"
    using c p unfolding sh cross_shape_def by (auto simp: try_bind_Inr dest!: group_estimate_fraction split: if_splits)
  have j: "p \<in> set (snd (judge_cross env eng est tp why (cross_plan env eng gpus est tp pp)))" using p unfolding jc by simp
  note e = judge_cross_plans[OF j]
  obtain vi rs where pe: "vi \<in> {Estimated_viable, Unknown_viability}"
    "p = (cross_plan env eng gpus est tp pp)\<lparr>cp_viability := vi, cp_rationale := rs\<rparr>" using e(3) by blast
  show ?thesis unfolding sound_candidate_def
  proof (intro conjI)
    show "\<exists>eng \<in> set (wanted_engines env). cp_engine p = eo_engine_name eng \<and>
        (\<exists>q. structural_key q = structural_key p \<and> sr_supported (eo_supports eng (pe_model env) q))"
      by (intro bexI[of _ eng] conjI exI[of _ "cross_plan env eng gpus est tp pp"])
        (simp add: pe(2) cross_plan_def base_plan_def Let_def, simp add: pe(2), rule e(1), rule eng)
    show "\<exists>est. cp_estimated_memory p = Some est \<and> cp_memory_fraction p = Some (me_memory_fraction est) \<and> check_memory est 0 = None
        \<and> honours_fraction env est"
      using e(2) est by (intro exI[of _ est]) (simp add: pe(2) cross_plan_def base_plan_def Let_def)
  qed (use pe(1) in \<open>simp_all add: pe(2) cross_plan_def base_plan_def Let_def max_num_seqs_def\<close>)
qed

lemma cross_node_candidates_sound:
  assumes c: "cross_node_candidates env = Inr (ex, plans)" and p: "p \<in> set plans"
  shows "sound_candidate env p"
proof -
  obtain gpus shapes where cc: "collect (cross_engine env gpus shapes) (wanted_engines env) = Inr (ex, plans)"
    using c p unfolding cross_node_candidates_def Let_def
    by (auto split: if_splits option.splits list.splits)
  obtain eng ex' plans' where eng: "eng \<in> set (wanted_engines env)" "cross_engine env gpus shapes eng = Inr (ex', plans')" "p \<in> set plans'"
    using collect_plans[OF cc p] by blast
  then have "collect (cross_shape env eng gpus) shapes = Inr (ex', plans')" by (auto simp: cross_engine_def split: if_splits)
  then show ?thesis using collect_plans[OF _ eng(3)] cross_shape_sound[OF _ _ eng(1)] by blast
qed

lemma tp_choices_pos: "tp_choices env = Inr tps \<Longrightarrow> tp \<in> set tps \<Longrightarrow> 1 \<le> tp"
  by (auto simp: tp_choices_def divisors_def Let_def split: option.splits if_splits)

lemma all_plans_sound:
  assumes a: "all_plans env = Inr (ex, plans)" and p: "p \<in> set plans" and ids: "distinct (pe_ids env)"
  shows "sound_candidate env p"
proof -
  obtain tps ex1 plans1 where t: "tp_choices env = Inr tps" "collect (tp_candidates env) tps = Inr (ex1, plans1)"
    and cases: "plans = plans1 \<or> (\<exists>ex2. cross_node_candidates env = Inr (ex2, plans))"
    using a by (auto simp: all_plans_def try_bind_Inr split: if_splits)
  from cases show ?thesis
  proof
    assume "plans = plans1"
    then obtain tp c d where "tp \<in> set tps" "tp_candidates env tp = Inr (c, d)" "p \<in> set d"
      using collect_plans[OF t(2)] p by blast
    then show ?thesis using tp_candidates_sound ids tp_choices_pos[OF t(1)] by blast
  qed (use cross_node_candidates_sound p in blast)
qed

section \<open>De-duplication and ranking\<close>

lemma dedupe_correct:
  assumes "dedupe ps = (unique, dupes)"
  shows "distinct (map structural_key unique) \<and> structural_key ` set unique = structural_key ` set ps
    \<and> mset unique + mset dupes = mset ps \<and> structural_key ` set dupes \<subseteq> structural_key ` set unique"
proof -
  have "dedupe_from seen ps = (u, d) \<Longrightarrow> distinct (map structural_key u) \<and> structural_key ` set u = structural_key ` set ps - set seen
    \<and> mset u + mset d = mset ps \<and> structural_key ` set d \<subseteq> structural_key ` set u \<union> set seen" for seen u d
  proof (induction ps arbitrary: seen u d)
    case (Cons p ps)
    obtain u1 d1 where r: "dedupe_from (if structural_key p \<in> set seen then seen else structural_key p # seen) ps = (u1, d1)"
      by fastforce
    show ?case
    proof (cases "structural_key p \<in> set seen")
      case True
      then have ud: "u = u1" "d = p # d1" using Cons.prems r by auto
      have IH: "distinct (map structural_key u1)" "structural_key ` set u1 = structural_key ` set ps - set seen"
        "mset u1 + mset d1 = mset ps" "structural_key ` set d1 \<subseteq> structural_key ` set u1 \<union> set seen"
        using Cons.IH[OF r[unfolded if_P[OF True]]] by blast+
      moreover have "structural_key ` set (p # d1) \<subseteq> structural_key ` set u1 \<union> set seen"
        using IH(4) True by (simp only: set_simps image_insert) blast
      moreover have "structural_key ` set u1 = structural_key ` set (p # ps) - set seen"
        using IH(2) True by (simp only: set_simps image_insert) blast
      ultimately show ?thesis unfolding ud by simp
    next
      case False
      then have ud: "u = p # u1" "d = d1" using Cons.prems r by auto
      have IH: "distinct (map structural_key u1)" "structural_key ` set u1 = structural_key ` set ps - insert (structural_key p) (set seen)"
        "mset u1 + mset d1 = mset ps" "structural_key ` set d1 \<subseteq> structural_key ` set u1 \<union> insert (structural_key p) (set seen)"
        using Cons.IH[OF r[unfolded if_not_P[OF False]], unfolded set_simps] by blast+
      have "structural_key p \<notin> structural_key ` set u1" unfolding IH(2) by simp
      moreover have "structural_key ` set (p # u1) = structural_key ` set (p # ps) - set seen"
        using IH(2) False by (simp only: set_simps image_insert) blast
      moreover have "structural_key ` set d1 \<subseteq> structural_key ` set (p # u1) \<union> set seen"
        using IH(4) by (simp only: set_simps image_insert) blast
      ultimately show ?thesis unfolding ud using IH(1,3) by simp
    qed
  qed simp
  note spec = this[of "[]" unique dupes]
  show ?thesis using spec[OF assms[unfolded dedupe_def]] by (simp only: list.set Diff_empty Un_empty_right) blast
qed

text \<open>
  De-duplication keeps one plan of every topology: the unique plans have pairwise different
  structural keys, they are plans of the input with all its keys, every plan is either kept or a
  duplicate, and each duplicate shares its key with a kept plan.
\<close>

theorem dedupe_spec:
  assumes "dedupe ps = (unique, dupes)"
  shows "distinct (map structural_key unique) \<and> structural_key ` set unique = structural_key ` set ps
    \<and> mset unique + mset dupes = mset ps \<and> structural_key ` set dupes \<subseteq> structural_key ` set unique"
  using assms by (rule dedupe_correct)

lemma dedupe_spec_witness:
  "\<exists>u d. dedupe [base_plan ''a'' VLLM [[0]] 1 1 4096, base_plan ''b'' VLLM [[0]] 1 1 4096, base_plan ''c'' SGLANG [[0]] 1 1 4096] = (u, d)
     \<and> length u = 2 \<and> length d = 1 \<and> distinct (map structural_key u)"
proof -
  let ?ps = "[base_plan ''a'' VLLM [[0]] 1 1 4096, base_plan ''b'' VLLM [[0]] 1 1 4096, base_plan ''c'' SGLANG [[0]] 1 1 4096]"
  obtain u d where ud: "dedupe ?ps = (u, d)" by fastforce
  moreover have "map_prod length length (dedupe ?ps) = (2, 1)" by code_simp
  ultimately show ?thesis using dedupe_spec[OF ud] by auto
qed

lemma rank_props:
  "length (rank obj ps) = length ps" "map structural_key (rank obj ps) = map structural_key (sort_key (rank_key obj) ps)"
  "map cp_heuristic_rank (rank obj ps) = map (\<lambda>i. Some (int i)) [0..<length ps]"
  "p \<in> set (rank obj ps) \<Longrightarrow> \<exists>q h. q \<in> set ps \<and> p = q\<lparr>cp_heuristic_rank := h\<rparr>"
proof -
  show "length (rank obj ps) = length ps" by (simp add: rank_def Let_def)
  show "map structural_key (rank obj ps) = map structural_key (sort_key (rank_key obj) ps)"
    by (intro nth_equalityI) (auto simp: rank_def Let_def nth_enumerate_eq)
  show "map cp_heuristic_rank (rank obj ps) = map (\<lambda>i. Some (int i)) [0..<length ps]"
    by (intro nth_equalityI) (auto simp: rank_def Let_def nth_enumerate_eq)
  show "p \<in> set (rank obj ps) \<Longrightarrow> \<exists>q h. q \<in> set ps \<and> p = q\<lparr>cp_heuristic_rank := h\<rparr>"
    by (auto simp: rank_def Let_def in_set_enumerate_eq) (metis nth_mem length_sort set_sort)
qed

lemma sound_candidate_rank [simp]: "sound_candidate env (p\<lparr>cp_heuristic_rank := h\<rparr>) = sound_candidate env p"
  by (simp add: sound_candidate_def)

section \<open>The planner's result\<close>

lemma resolve_context_limit:
  "resolve_context_length m w k = Inr (ctx, notes) \<Longrightarrow> check_context_length m ctx (pk_allow_context_override k) = None \<Longrightarrow>
     mp_max_position_embeddings m = Some limit \<Longrightarrow> ctx \<le> limit \<or> (pk_allow_context_override k \<and> pk_context_length k \<noteq> None)"
  by (auto simp: resolve_context_length_def check_context_length_def Let_def split: if_splits)

lemma conclude_candidates:
  assumes "conclude env ws ns (ex, plans) = Inr r" and sound: "\<forall>p \<in> set plans. sound_candidate env p"
  shows "pr_candidates r \<noteq> []" "distinct (map structural_key (pr_candidates r))"
    "map cp_heuristic_rank (pr_candidates r) = map (\<lambda>i. Some (int i)) [0..<length (pr_candidates r)]"
    "\<forall>p \<in> set (pr_candidates r). sound_candidate env p" "pr_selected_gpu_ids r = pe_ids env"
proof -
  obtain unique dupes where d: "dedupe plans = (unique, dupes)" by fastforce
  have r: "pr_candidates r = rank (wl_objective (pe_workload env)) unique" "unique \<noteq> []" "pr_selected_gpu_ids r = pe_ids env"
    using assms(1) by (auto simp: conclude_def d Let_def split: if_splits)
  note spec = dedupe_correct[OF d]
  have sub: "set unique \<subseteq> set plans" using spec by (metis mset_subset_eq_add_left set_mset_mono set_mset_mset)
  show "pr_candidates r \<noteq> []" using r rank_props(1)[of _ unique] by (metis length_0_conv)
  have "mset (map structural_key (rank (wl_objective (pe_workload env)) unique)) = mset (map structural_key unique)"
    by (simp add: rank_props(2))
  then show "distinct (map structural_key (pr_candidates r))" using spec unfolding r(1) by (metis mset_eq_imp_distinct_iff)
  show "map cp_heuristic_rank (pr_candidates r) = map (\<lambda>i. Some (int i)) [0..<length (pr_candidates r)]"
    unfolding r(1) rank_props(1,3) ..
  show "\<forall>p \<in> set (pr_candidates r). sound_candidate env p"
    unfolding r(1) using rank_props(4) sub sound by (metis sound_candidate_rank subsetD)
  show "pr_selected_gpu_ids r = pe_ids env" by (rule r(3))
qed

lemma sort_eq_Nil: "sort xs = [] \<longleftrightarrow> xs = []"
  by (metis length_0_conv length_sort)

lemma select_gpus_ids: "select_gpus s k = Inr sel \<Longrightarrow> distinct (gs_gpu_ids sel) \<and> set (gs_gpu_ids sel) \<subseteq> set (gpu_indices s)
    \<and> gs_snapshot sel = snap_select s (gs_gpu_ids sel)"
  by (auto simp: select_gpus_def Let_def minus_list_def sort_eq_Nil filter_empty_conv remdups_filter[symmetric] split: if_splits option.splits)

lemma planned_candidates:
  assumes g: "generate_candidates s m w engines k cfg = Inr r"
  shows "pr_candidates r \<noteq> [] \<and> distinct (map structural_key (pr_candidates r))
    \<and> map cp_heuristic_rank (pr_candidates r) = map (\<lambda>i. Some (int i)) [0..<length (pr_candidates r)]
    \<and> (\<exists>env. pe_engines env = engines \<and> pe_constraints env = k \<and> pe_model env = m
         \<and> pe_ids env = pr_selected_gpu_ids r \<and> set (pe_ids env) \<subseteq> set (gpu_indices s)
         \<and> pe_snapshot env = snap_select s (pe_ids env)
         \<and> (\<forall>limit. mp_max_position_embeddings m = Some limit \<longrightarrow> pe_context env \<le> limit
              \<or> (pk_allow_context_override k \<and> pk_context_length k \<noteq> None))
         \<and> (\<forall>p \<in> set (pr_candidates r). sound_candidate env p))"
proof -
  obtain sel ctx nts ws sizes per_node ex plans env where sel: "select_gpus s k = Inr sel"
    and ctx: "resolve_context_length m w k = Inr (ctx, nts)" "check_context_length m ctx (pk_allow_context_override k) = None"
    and env: "env = \<lparr>pe_snapshot = gs_snapshot sel, pe_ids = gs_gpu_ids sel, pe_node_sizes = sizes,
          pe_gpus_per_node = per_node, pe_model = m, pe_workload = w, pe_engines = engines,
          pe_constraints = k, pe_cfg = with_headroom k cfg, pe_context = ctx\<rparr>"
    and plans: "all_plans env = Inr (ex, plans)" "conclude env ws nts (ex, plans) = Inr r"
    using g by (auto simp: generate_candidates_def try_bind_Inr Let_def split: if_splits option.splits)
  note ids = select_gpus_ids[OF sel]
  have "\<forall>p \<in> set plans. sound_candidate env p" using all_plans_sound[OF plans(1)] ids env by auto
  note c = conclude_candidates[OF plans(2) this]
  have "\<forall>limit. mp_max_position_embeddings m = Some limit \<longrightarrow> pe_context env \<le> limit
      \<or> (pk_allow_context_override k \<and> pk_context_length k \<noteq> None)"
    using resolve_context_limit[OF ctx] env by auto
  then show ?thesis using c ids env by (intro conjI exI[of _ env]) auto
qed


definition demo_host :: hardware_snapshot where
  "demo_host = \<lparr>hs_hostname = ''host'', hs_platform = ''linux'', hs_gpu_count = 1, hs_gpus = [demo_gpu 0],
     hs_topology = \<lparr>gt_edges = [], gt_available = True, gt_error = None\<rparr>, hs_driver_version = None,
     hs_cuda_version = None, hs_provider = ''nvml'', hs_nodes = [], hs_cluster_address = None\<rparr>"


text \<open>
  A model of unknown weight size slips through the memory check: on a GPU that is almost full, where the
  engine's budget minus its fixed costs is far below the 2 GiB demanded, the estimate says it does
  not fit, but its shortfall is zero and the check accepts it.
\<close>

theorem unknown_weights_pass_memory_check:
  "case estimate_memory (demo_model\<lparr>mp_weight_bytes := None\<rparr>) [(demo_gpu 0)\<lparr>gd_total_memory_bytes := 8 * GIB, gd_free_memory_bytes := 4 * GIB\<rparr>]
      1 (estimate_kv demo_model 1 None) 8192 demo_workload default_memory_config 1 None of
     Some e \<Rightarrow> \<not> me_fits e \<and> me_shortfall_bytes e = 0 \<and> check_memory e 0 = None
   | None \<Rightarrow> False"
  by code_simp

end
