(* ===== verification/PyMath.thy ===== *)
theory PyMath
  imports Prelude
begin

text \<open>
  Square roots and sums of Python floats. \<open>fl_sqrt\<close> is \<^verbatim>\<open>math.sqrt\<close>: the root rounded to the nearest
  float, ties to even, computed bit by bit; \<open>fl_sum\<close> is \<^verbatim>\<open>sum\<close> over floats in the order given
  (the plain left-to-right loop of Python 3.11, the oldest version the program accepts).
\<close>

section \<open>Integer square roots\<close>

fun sqrt_bits :: "nat \<Rightarrow> rat \<Rightarrow> int \<Rightarrow> int" where
  "sqrt_bits 0 y m = m"
| "sqrt_bits (Suc k) y m = sqrt_bits k y (if of_int ((m + 2 ^ k) ^ 2) \<le> y then m + 2 ^ k else m)"

lemma sqrt_bits_spec:
  assumes "0 \<le> m" "of_int (m ^ 2) \<le> y" "y < of_int ((m + 2 ^ k) ^ 2)"
  shows "0 \<le> sqrt_bits k y m \<and> of_int (sqrt_bits k y m ^ 2) \<le> y \<and> y < of_int ((sqrt_bits k y m + 1) ^ 2)"
  using assms
proof (induction k arbitrary: m)
  case (Suc k)
  show ?case
  proof (cases "of_int ((m + 2 ^ k) ^ 2) \<le> y")
    case True
    then show ?thesis using Suc.IH[of "m + 2 ^ k"] Suc.prems by (simp add: add.assoc)
  next
    case False
    then show ?thesis using Suc.IH[of m] Suc.prems by simp
  qed
qed simp

lemma square_less: "0 \<le> (a::int) \<Longrightarrow> 0 \<le> b \<Longrightarrow> of_int (a ^ 2) < (of_int (b ^ 2) :: rat) \<Longrightarrow> a < b"
  by (metis of_int_less_iff power_less_imp_less_base)

section \<open>Rounding the root of a scaled value\<close>

definition sqrt_round :: "rat \<Rightarrow> int" where
  "sqrt_round y =
     (let m = sqrt_bits 53 y 0; mid = (of_int m + 1 / 2) ^ 2
      in if y < mid then m else if mid < y then m + 1 else if even m then m else m + 1)"

definition root_exp :: "rat \<Rightarrow> int" where
  "root_exp x = flog2 x div 2 - 52"

definition fl_sqrt :: "float64 \<Rightarrow> float64" where
  "fl_sqrt x = (if x \<le> 0 then 0 else of_int (sqrt_round (x / 2 powi (2 * root_exp x))) * 2 powi root_exp x)"

definition scaled :: "rat \<Rightarrow> bool" where
  "scaled y \<longleftrightarrow> 2 ^ 104 \<le> y \<and> y < 2 ^ 106"

lemma scaled_root:
  assumes "scaled y"
  shows "of_int (sqrt_bits 53 y 0 ^ 2) \<le> y" "y < of_int ((sqrt_bits 53 y 0 + 1) ^ 2)"
    "2 ^ 52 \<le> sqrt_bits 53 y 0" "sqrt_bits 53 y 0 < 2 ^ 53"
proof -
  have s: "0 \<le> sqrt_bits 53 y 0 \<and> of_int (sqrt_bits 53 y 0 ^ 2) \<le> y \<and> y < of_int ((sqrt_bits 53 y 0 + 1) ^ 2)"
    using assms by (intro sqrt_bits_spec) (simp_all add: scaled_def)
  then show "of_int (sqrt_bits 53 y 0 ^ 2) \<le> y" "y < of_int ((sqrt_bits 53 y 0 + 1) ^ 2)" by auto
  have y: "of_int ((2 ^ 52) ^ 2) \<le> y" "y < of_int ((2 ^ 53) ^ 2)" using assms by (simp_all add: scaled_def)
  have "of_int ((2 ^ 52) ^ 2) < (of_int ((sqrt_bits 53 y 0 + 1) ^ 2) :: rat)" using s y by linarith
  then have "2 ^ 52 < sqrt_bits 53 y 0 + 1" using s by (intro square_less) auto
  then show "2 ^ 52 \<le> sqrt_bits 53 y 0" by simp
  have "of_int (sqrt_bits 53 y 0 ^ 2) < (of_int ((2 ^ 53) ^ 2) :: rat)" using s y by linarith
  then show "sqrt_bits 53 y 0 < 2 ^ 53" using s by (intro square_less) auto
qed

lemma sqrt_round_near: "sqrt_round y = sqrt_bits 53 y 0 \<or> sqrt_round y = sqrt_bits 53 y 0 + 1"
  by (simp add: sqrt_round_def Let_def)

lemma sqrt_round_mono:
  assumes "scaled y" "scaled z" "y \<le> z"
  shows "sqrt_round y \<le> sqrt_round z"
proof -
  let ?m = "sqrt_bits 53 y 0" and ?n = "sqrt_bits 53 z 0"
  have "of_int (?m ^ 2) < (of_int ((?n + 1) ^ 2) :: rat)" using scaled_root(1,2) assms by (meson le_less_trans less_le_trans)
  then have "?m < ?n + 1" using scaled_root(3) assms by (intro square_less) (smt (verit) zero_le_power)+
  then consider "?m = ?n" | "?m + 1 \<le> ?n" by linarith
  then show ?thesis
  proof cases
    case 1
    then show ?thesis using assms(3) by (auto simp: sqrt_round_def Let_def)
  next
    case 2
    then show ?thesis using sqrt_round_near[of y] sqrt_round_near[of z] by linarith
  qed
qed

lemma scaled_value:
  assumes "0 < x"
  shows "scaled (x / 2 powi (2 * root_exp x))"
proof -
  have b: "2 powi flog2 x \<le> x" "x < 2 powi (flog2 x + 1)" using flog2_bounds[OF assms] by auto
  have e: "flog2 x \<le> 2 * (flog2 x div 2) + 1" "2 * (flog2 x div 2) \<le> flog2 x" by linarith+
  have "2 powi (2 * root_exp x + 104) \<le> (2::rat) powi flog2 x" "(2::rat) powi (flog2 x + 1) \<le> 2 powi (2 * root_exp x + 106)"
    using e by (intro powi_2_le; simp add: root_exp_def)+
  then have "2 powi (2 * root_exp x + 104) \<le> x" "x < 2 powi (2 * root_exp x + 106)" using b by linarith+
  moreover have "(2::rat) powi (2 * root_exp x + 104) = 2 powi (2 * root_exp x) * 2 ^ 104"
    "(2::rat) powi (2 * root_exp x + 106) = 2 powi (2 * root_exp x) * 2 ^ 106"
    by (simp_all add: power_int_add del: power_int_of_nat)
  ultimately show ?thesis by (simp add: scaled_def field_simps)
qed

lemma fl_sqrt_nonneg: "0 \<le> fl_sqrt x"
proof (cases "x \<le> 0")
  case False
  then have "scaled (x / 2 powi (2 * root_exp x))" by (intro scaled_value) simp
  then have "0 \<le> sqrt_round (x / 2 powi (2 * root_exp x))"
    using scaled_root(3) sqrt_round_near by (smt (verit) zero_le_power)
  then show ?thesis using False by (simp add: fl_sqrt_def)
qed (simp add: fl_sqrt_def)

lemma fl_sqrt_mono:
  assumes "x \<le> y"
  shows "fl_sqrt x \<le> fl_sqrt y"
proof (cases "x \<le> 0")
  case True
  then show ?thesis using fl_sqrt_nonneg[of y] by (simp add: fl_sqrt_def)
next
  case False
  then have pos: "0 < x" "0 < y" using assms by auto
  note sx = scaled_value[OF pos(1)] and sy = scaled_value[OF pos(2)]
  have "root_exp x \<le> root_exp y" using flog2_mono[OF pos(1) assms] by (simp add: root_exp_def zdiv_mono1)
  then consider "root_exp x = root_exp y" | "root_exp x + 1 \<le> root_exp y" by linarith
  then show ?thesis
  proof cases
    case 1
    have "x / 2 powi (2 * root_exp x) \<le> y / 2 powi (2 * root_exp y)" unfolding 1 using assms by (simp add: divide_right_mono)
    then have "sqrt_round (x / 2 powi (2 * root_exp x)) \<le> sqrt_round (y / 2 powi (2 * root_exp y))" by (rule sqrt_round_mono[OF sx sy])
    then show ?thesis using pos 1 by (simp add: fl_sqrt_def)
  next
    case 2
    have "sqrt_round (x / 2 powi (2 * root_exp x)) \<le> 2 ^ 53"
      using scaled_root(4)[OF sx] sqrt_round_near[of "x / 2 powi (2 * root_exp x)"] by linarith
    then have "(of_int (sqrt_round (x / 2 powi (2 * root_exp x))) :: rat) \<le> of_int (2 ^ 53)" by (simp only: of_int_le_iff)
    then have "fl_sqrt x \<le> 2 ^ 53 * 2 powi root_exp x" using pos by (simp add: fl_sqrt_def mult_right_mono)
    also have "\<dots> = 2 ^ 52 * 2 powi (root_exp x + 1)" by (simp add: power_int_add)
    also have "\<dots> \<le> 2 ^ 52 * 2 powi root_exp y" using powi_2_le[OF 2] by simp
    also have "\<dots> \<le> fl_sqrt y"
    proof -
      have "2 ^ 52 \<le> sqrt_round (y / 2 powi (2 * root_exp y))"
        using scaled_root(3)[OF sy] sqrt_round_near[of "y / 2 powi (2 * root_exp y)"] by linarith
      then have "(of_int (2 ^ 52) :: rat) \<le> of_int (sqrt_round (y / 2 powi (2 * root_exp y)))" by (simp only: of_int_le_iff)
      then show ?thesis using pos by (simp add: fl_sqrt_def)
    qed
    finally show ?thesis .
  qed
qed

section \<open>Sums\<close>

definition fl_sum :: "float64 list \<Rightarrow> float64" where
  "fl_sum xs = foldl fl_add 0 xs"

lemma fl_add_mono: "a \<le> b \<Longrightarrow> c \<le> d \<Longrightarrow> fl_add a c \<le> fl_add b d"
  by (simp add: fl_add_def fl_mono)

lemma fl_mul_mono: "a \<le> b \<Longrightarrow> 0 \<le> c \<Longrightarrow> fl_mul a c \<le> fl_mul b c" "a \<le> b \<Longrightarrow> 0 \<le> c \<Longrightarrow> fl_mul c a \<le> fl_mul c b"
  by (simp_all add: fl_mul_def fl_mono mult_right_mono mult_left_mono)

lemma fl_mul_mono2: "a \<le> b \<Longrightarrow> c \<le> d \<Longrightarrow> 0 \<le> b \<Longrightarrow> 0 \<le> c \<Longrightarrow> fl_mul a c \<le> fl_mul b d"
  by (simp add: fl_mul_def fl_mono mult_mono)

lemma fl_div_mono: "a \<le> b \<Longrightarrow> 0 \<le> c \<Longrightarrow> fl_div a c \<le> fl_div b c"
  by (simp add: fl_div_def fl_mono divide_right_mono)

lemma fl_div_antimono: "0 \<le> a \<Longrightarrow> 0 < b \<Longrightarrow> b \<le> c \<Longrightarrow> fl_div a c \<le> fl_div a b"
  by (simp add: fl_div_def fl_mono divide_left_mono)

lemma fl_ops_nonneg: "0 \<le> a \<Longrightarrow> 0 \<le> b \<Longrightarrow> 0 \<le> fl_add a b" "0 \<le> a \<Longrightarrow> 0 \<le> b \<Longrightarrow> 0 \<le> fl_mul a b"
  "0 \<le> a \<Longrightarrow> 0 \<le> b \<Longrightarrow> 0 \<le> fl_div a b"
  by (simp_all add: fl_add_def fl_mul_def fl_div_def fl_nonneg)

lemma fl_sum_mono: "list_all2 (\<le>) xs ys \<Longrightarrow> fl_sum xs \<le> fl_sum ys"
proof -
  have "list_all2 (\<le>) xs ys \<Longrightarrow> a \<le> b \<Longrightarrow> foldl fl_add a xs \<le> foldl fl_add b ys" for a b
    by (induction xs ys arbitrary: a b rule: list_all2_induct) (auto simp: fl_add_mono)
  then show "list_all2 (\<le>) xs ys \<Longrightarrow> fl_sum xs \<le> fl_sum ys" by (simp add: fl_sum_def)
qed

lemma fl_sum_nonneg: "\<forall>x \<in> set xs. 0 \<le> x \<Longrightarrow> 0 \<le> fl_sum xs"
proof -
  have "\<forall>x \<in> set xs. 0 \<le> x \<Longrightarrow> 0 \<le> a \<Longrightarrow> 0 \<le> foldl fl_add a xs" for a
    by (induction xs arbitrary: a) (auto simp: fl_ops_nonneg)
  then show "\<forall>x \<in> set xs. 0 \<le> x \<Longrightarrow> 0 \<le> fl_sum xs" by (simp add: fl_sum_def)
qed

end
