(* ===== verification/Scoring.thy ===== *)
theory Scoring
  imports Plan PyMath
begin

text \<open>
  \<^verbatim>\<open>planner/scoring.py\<close>: SLO filtering, validity, the score of every objective, the selection of a
  winner, when a concurrency sweep stops, the operating point it yields, and the Pareto frontier. The
  lemmas show that better measurements never lower a score, what the winner and the operating point
  satisfy, and that the frontier is exactly the set of undominated points.
\<close>

record scoring_config =
  sc_max_error_rate :: float64
  sc_error_penalty_weight :: float64
  sc_plateau_min_gain :: float64
  sc_plateau_latency_rise :: float64
  sc_throughput_drop_stop :: float64

definition default_scoring :: scoring_config where
  "default_scoring =
     \<lparr>sc_max_error_rate = fl (1 / 100), sc_error_penalty_weight = 5, sc_plateau_min_gain = fl (2 / 100),
      sc_plateau_latency_rise = fl (10 / 100), sc_throughput_drop_stop = fl (5 / 100)\<rparr>"

record scored_result =
  sr_result :: benchmark_result
  sr_score :: float64
  sr_valid :: bool
  sr_slo_satisfied :: bool
  sr_reasons :: "string list"

definition eligible :: "scored_result \<Rightarrow> bool" where
  "eligible s \<longleftrightarrow> sr_valid s \<and> sr_slo_satisfied s"

section \<open>Validity and SLOs\<close>

definition optional_violation :: "string \<Rightarrow> nat \<Rightarrow> float64 option \<Rightarrow> float64 option \<Rightarrow> string list" where
  "optional_violation what d limit value =
     (case limit of None \<Rightarrow> []
      | Some l \<Rightarrow>
         (case value of None \<Rightarrow> [what @ '' unavailable; cannot verify the requested SLO'']
          | Some v \<Rightarrow> if l < v then [what @ '' '' @ fmt_f d v @ '' ms > '' @ fmt_f d l @ '' ms''] else []))"

definition slo_violations :: "benchmark_result \<Rightarrow> latency_constraints option \<Rightarrow> string list" where
  "slo_violations r slo =
     (case slo of None \<Rightarrow> []
      | Some c \<Rightarrow>
         if slo_is_empty c then []
         else optional_violation ''p95 TTFT'' 0 (lc_max_p95_ttft_ms c) (br_ttft_p95_ms r)
           @ (case lc_max_p95_latency_ms c of None \<Rightarrow> []
              | Some l \<Rightarrow> if l < br_latency_p95_ms r
                  then [''p95 latency '' @ fmt_f 0 (br_latency_p95_ms r) @ '' ms > '' @ fmt_f 0 l @ '' ms''] else [])
           @ optional_violation ''p95 TPOT'' 1 (lc_max_p95_tpot_ms c) (br_tpot_p95_ms r))"

definition error_factor :: "benchmark_result \<Rightarrow> scoring_config \<Rightarrow> float64" where
  "error_factor r cfg = max 0 (fl_sub 1 (fl_mul (sc_error_penalty_weight cfg) (br_error_rate r)))"

definition invalid_reason :: "benchmark_result \<Rightarrow> scoring_config \<Rightarrow> string option" where
  "invalid_reason r cfg =
     (if br_successful_requests r = 0 then Some ''no request succeeded''
      else if sc_max_error_rate cfg < br_error_rate r
      then Some (''error rate '' @ fmt_pct 1 (br_error_rate r) @ '' exceeds '' @ fmt_pct 1 (sc_max_error_rate cfg))
      else None)"

definition is_valid :: "benchmark_result \<Rightarrow> scoring_config \<Rightarrow> bool" where
  "is_valid r cfg \<longleftrightarrow> invalid_reason r cfg = None"

section \<open>Scores\<close>

definition ratio :: "float64 option \<Rightarrow> float64 option \<Rightarrow> float64 option" where
  "ratio best value = (case (best, value) of
     (Some b, Some v) \<Rightarrow> if v \<le> 0 then None else Some (fl_div b v) | _ \<Rightarrow> None)"

record normalisers =
  nm_best_tps :: "float64 option"
  nm_best_lat :: "float64 option"
  nm_best_ttft :: "float64 option"
  nm_best_tpot :: "float64 option"

definition normalisers_of :: "benchmark_result list \<Rightarrow> normalisers" where
  "normalisers_of valid =
     \<lparr>nm_best_tps = py_max (map br_output_tokens_per_second valid),
      nm_best_lat = py_min (filter (\<lambda>l. 0 < l) (map br_latency_p95_ms valid)),
      nm_best_ttft = py_min (List.map_filter br_ttft_p95_ms valid),
      nm_best_tpot = py_min (List.map_filter br_tpot_p95_ms valid)\<rparr>"

definition latency_parts :: "normalisers \<Rightarrow> benchmark_result \<Rightarrow> (float64 \<times> float64) list" where
  "latency_parts n r =
     List.map_filter (\<lambda>(w, q). map_option (Pair w) q)
       [(1 / 2, ratio (nm_best_lat n) (Some (br_latency_p95_ms r))),
        (1 / 4, ratio (nm_best_ttft n) (br_ttft_p95_ms r)),
        (1 / 4, ratio (nm_best_tpot n) (br_tpot_p95_ms r))]"

definition latency_score :: "normalisers \<Rightarrow> benchmark_result \<Rightarrow> float64" where
  "latency_score n r =
     (let parts = latency_parts n r; total_w = fl_sum (map fst parts)
      in if total_w \<noteq> 0 then fl_div (fl_sum (map (\<lambda>(w, v). fl_mul w v) parts)) total_w else 0)"

definition balanced_score :: "normalisers \<Rightarrow> benchmark_result \<Rightarrow> float64" where
  "balanced_score n r =
     (let t_norm = (case nm_best_tps n of None \<Rightarrow> 0
            | Some b \<Rightarrow> if b \<noteq> 0 then fl_div (br_output_tokens_per_second r) b else 0);
          l_norm = the_or (ratio (nm_best_lat n) (Some (br_latency_p95_ms r))) 0
      in fl_sqrt (fl_mul (max t_norm 0) (max l_norm 0)))"

fun score_of :: "objective \<Rightarrow> normalisers \<Rightarrow> scoring_config \<Rightarrow> benchmark_result \<Rightarrow> float64" where
  "score_of Throughput n cfg r = fl_mul (br_output_tokens_per_second r) (error_factor r cfg)"
| "score_of Latency n cfg r = fl_mul (latency_score n r) (error_factor r cfg)"
| "score_of Balanced n cfg r = fl_mul (balanced_score n r) (error_factor r cfg)"

definition score_results :: "benchmark_result list \<Rightarrow> objective \<Rightarrow> latency_constraints option \<Rightarrow> scoring_config
    \<Rightarrow> scored_result list" where
  "score_results results objective slo cfg =
     (let n = normalisers_of (filter (\<lambda>r. is_valid r cfg) results)
      in map (\<lambda>r. \<lparr>sr_result = r, sr_score = score_of objective n cfg r, sr_valid = is_valid r cfg,
           sr_slo_satisfied = (slo_violations r slo = []),
           sr_reasons = (case invalid_reason r cfg of None \<Rightarrow> [] | Some why \<Rightarrow> [why]) @ slo_violations r slo\<rparr>) results)"

section \<open>The winner\<close>

record selection =
  sl_winner :: scored_result
  sl_slo_satisfied :: bool
  sl_notes :: "string list"

definition select_best :: "scored_result list \<Rightarrow> selection option" where
  "select_best scored =
     (case max_by sr_score (filter eligible scored) of
        Some w \<Rightarrow> Some \<lparr>sl_winner = w, sl_slo_satisfied = True, sl_notes = []\<rparr>
      | None \<Rightarrow> map_option (\<lambda>w. \<lparr>sl_winner = w, sl_slo_satisfied = False,
            sl_notes = [''No tested configuration satisfied the requested SLO; reporting the best observed.'']\<rparr>)
          (max_by sr_score (filter sr_valid scored)))"

section \<open>Concurrency sweeps\<close>

type_synonym sweep_decision = "bool \<times> string"

text \<open>\<^verbatim>\<open>(new - old) / max(old, 1e-9)\<close>.\<close>

definition gain_over :: "float64 \<Rightarrow> float64 \<Rightarrow> float64" where
  "gain_over new old = fl_div (fl_sub new old) (max old (fl (1 / 10 ^ 9)))"

definition tps_gain :: "benchmark_result \<Rightarrow> benchmark_result \<Rightarrow> float64" where
  "tps_gain new old = gain_over (br_output_tokens_per_second new) (br_output_tokens_per_second old)"

definition latency_rise :: "benchmark_result \<Rightarrow> benchmark_result \<Rightarrow> float64" where
  "latency_rise new old = gain_over (br_latency_p95_ms new) (br_latency_p95_ms old)"

definition trend_decision :: "benchmark_result list \<Rightarrow> scoring_config \<Rightarrow> sweep_decision" where
  "trend_decision history cfg =
     (let lst = last history; prev = history ! (length history - 2);
          gain = tps_gain lst prev; lat_rise = latency_rise lst prev
      in if gain < sc_plateau_min_gain cfg \<and> sc_plateau_latency_rise cfg < lat_rise
         then (False, ''throughput plateaued (+'' @ fmt_pct 1 gain @ '') while p95 latency rose '' @ fmt_pct 0 lat_rise)
         else if gain < sc_plateau_min_gain cfg \<and> 3 \<le> length history
           \<and> tps_gain prev (history ! (length history - 3)) < sc_plateau_min_gain cfg
         then (False, ''throughput plateaued for two consecutive steps'')
         else (True, ''throughput still improving (+'' @ fmt_pct 1 gain @ '')''))"

definition should_continue_sweep :: "benchmark_result list \<Rightarrow> latency_constraints option \<Rightarrow> scoring_config \<Rightarrow> sweep_decision" where
  "should_continue_sweep history slo cfg =
     (if history = [] then (True, ''no data yet'')
      else let lst = last history; c = str_int (br_concurrency lst);
             best_tps = the_or (py_max (map br_output_tokens_per_second history)) 0
      in case invalid_reason lst cfg of
           Some why \<Rightarrow> (False, ''failures appeared at concurrency '' @ c @ '': '' @ why)
         | None \<Rightarrow>
             if slo_violations lst slo \<noteq> [] then (False, ''SLO violated at concurrency '' @ c)
             else if length history < 2 then (True, ''need at least two points'')
             else if br_output_tokens_per_second lst < fl_mul best_tps (fl_sub 1 (sc_throughput_drop_stop cfg))
             then (False, ''throughput dropped '' @ fmt_pct 1 (fl_sub 1 (fl_div (br_output_tokens_per_second lst) best_tps))
               @ '' from the best point'')
             else trend_decision history cfg)"

type_synonym concurrency_choice = "benchmark_result \<times> string"

definition prefer_step :: "scoring_config \<Rightarrow> concurrency_choice \<Rightarrow> benchmark_result \<Rightarrow> concurrency_choice" where
  "prefer_step cfg cur nxt =
     (let current = fst cur; gain = tps_gain nxt current; rise = latency_rise nxt current;
          c = str_int (br_concurrency current); n = str_int (br_concurrency nxt)
      in if gain \<le> 0 then (current, ''concurrency '' @ n @ '' did not improve throughput over '' @ c)
         else if gain < sc_plateau_min_gain cfg \<and> sc_plateau_latency_rise cfg < rise
         then (current, ''at '' @ n @ '' concurrent requests throughput improved '' @ fmt_pct 1 gain
                @ '' while p95 latency rose '' @ fmt_pct 0 rise @ ''; '' @ c @ '' is preferred under the plateau rule'')
         else (nxt, ''concurrency '' @ n @ '' had the highest throughput under the plateau rule''))"

definition valid_points :: "benchmark_result list \<Rightarrow> scoring_config \<Rightarrow> benchmark_result list" where
  "valid_points history cfg = sort_key br_concurrency (filter (\<lambda>r. is_valid r cfg) history)"

definition choose_concurrency :: "benchmark_result list \<Rightarrow> objective \<Rightarrow> latency_constraints option \<Rightarrow> scoring_config
    \<Rightarrow> concurrency_choice option" where
  "choose_concurrency history objective slo cfg =
     (let points = valid_points history cfg; ok = filter (\<lambda>r. slo_violations r slo = []) points;
          pool = (if ok \<noteq> [] then ok else points);
          note = (if ok \<noteq> [] then [] else '' (no point satisfied the SLO; using best observed)'')
      in if points = [] then None
         else if objective = Latency
         then if ok \<noteq> [] \<and> slo \<noteq> None \<and> \<not> slo_is_empty (the slo)
              then map_option (\<lambda>b. (b, ''highest concurrency ('' @ str_int (br_concurrency b) @ '') that satisfies the SLO''))
                     (max_by br_concurrency ok)
              else map_option (\<lambda>b. (b, ''lowest p95 latency at concurrency '' @ str_int (br_concurrency b) @ note))
                     (min_by br_latency_p95_ms pool)
         else let c = foldl (prefer_step cfg) (hd pool,
                  ''concurrency '' @ str_int (br_concurrency (hd pool)) @ '' is the only valid point'') (tl pool)
              in Some (fst c, snd c @ note))"

section \<open>The Pareto frontier\<close>

definition point_of :: "benchmark_result \<Rightarrow> pareto_point" where
  "point_of r = \<lparr>pp_candidate_id = br_candidate_id r, pp_concurrency = br_concurrency r,
     pp_output_tokens_per_second = br_output_tokens_per_second r, pp_latency_p95_ms = br_latency_p95_ms r,
     pp_on_front = False\<rparr>"

definition beats :: "pareto_point \<Rightarrow> pareto_point \<Rightarrow> bool" where
  "beats q p \<longleftrightarrow> pp_output_tokens_per_second p \<le> pp_output_tokens_per_second q \<and> pp_latency_p95_ms q \<le> pp_latency_p95_ms p
     \<and> (pp_output_tokens_per_second p < pp_output_tokens_per_second q \<or> pp_latency_p95_ms q < pp_latency_p95_ms p)"

definition pareto_front :: "benchmark_result list \<Rightarrow> pareto_point list" where
  "pareto_front results =
     (let points = map point_of (filter (\<lambda>r. 0 < br_successful_requests r) results)
      in sort_key (\<lambda>p. (pp_latency_p95_ms p, - pp_output_tokens_per_second p))
           (map (\<lambda>p. p\<lparr>pp_on_front := \<not> list_ex (\<lambda>q. beats q p) points\<rparr>) points))"

section \<open>Better measurements never score lower\<close>

definition sane_result :: "benchmark_result \<Rightarrow> bool" where
  "sane_result r \<longleftrightarrow> 0 \<le> br_output_tokens_per_second r \<and> 0 \<le> br_latency_p95_ms r \<and> 0 \<le> br_error_rate r
     \<and> opt_all (\<lambda>x. 0 \<le> x) (br_ttft_p95_ms r) \<and> opt_all (\<lambda>x. 0 \<le> x) (br_tpot_p95_ms r)"

definition at_most :: "float64 option \<Rightarrow> float64 option \<Rightarrow> bool" where
  "at_most x y \<longleftrightarrow> rel_option (\<lambda>a b. 0 < a \<and> a \<le> b) x y"

definition better_measured :: "benchmark_result \<Rightarrow> benchmark_result \<Rightarrow> bool" where
  "better_measured a b \<longleftrightarrow> br_output_tokens_per_second b \<le> br_output_tokens_per_second a
     \<and> at_most (Some (br_latency_p95_ms a)) (Some (br_latency_p95_ms b))
     \<and> at_most (br_ttft_p95_ms a) (br_ttft_p95_ms b) \<and> at_most (br_tpot_p95_ms a) (br_tpot_p95_ms b)
     \<and> br_error_rate a \<le> br_error_rate b"

lemma py_best_nonneg: "\<forall>x \<in> set xs. 0 \<le> x \<Longrightarrow> opt_all (\<lambda>x. 0 \<le> x) (py_min xs)"
  "\<forall>x \<in> set xs. 0 \<le> x \<Longrightarrow> opt_all (\<lambda>x. 0 \<le> x) (py_max xs)"
proof -
  show "\<forall>x \<in> set xs. 0 \<le> x \<Longrightarrow> opt_all (\<lambda>x. 0 \<le> x) (py_min xs)"
    unfolding opt_all_def using py_min_iff[of xs] by (auto split: option.split)
  show "\<forall>x \<in> set xs. 0 \<le> x \<Longrightarrow> opt_all (\<lambda>x. 0 \<le> x) (py_max xs)"
    unfolding opt_all_def using py_max_iff[of xs] by (auto split: option.split)
qed

lemma normalisers_nonneg:
  assumes "\<forall>r \<in> set rs. sane_result r"
  shows "opt_all (\<lambda>x. 0 \<le> x) (nm_best_tps (normalisers_of rs))" "opt_all (\<lambda>x. 0 \<le> x) (nm_best_lat (normalisers_of rs))"
    "opt_all (\<lambda>x. 0 \<le> x) (nm_best_ttft (normalisers_of rs))" "opt_all (\<lambda>x. 0 \<le> x) (nm_best_tpot (normalisers_of rs))"
proof -
  have "\<forall>x \<in> set (List.map_filter br_ttft_p95_ms rs). 0 \<le> x" "\<forall>x \<in> set (List.map_filter br_tpot_p95_ms rs). 0 \<le> x"
    using assms by (fastforce simp: map_filter_def sane_result_def opt_all_def)+
  then show "opt_all (\<lambda>x. 0 \<le> x) (nm_best_ttft (normalisers_of rs))" "opt_all (\<lambda>x. 0 \<le> x) (nm_best_tpot (normalisers_of rs))"
    by (simp_all add: normalisers_of_def py_best_nonneg)
  show "opt_all (\<lambda>x. 0 \<le> x) (nm_best_tps (normalisers_of rs))" "opt_all (\<lambda>x. 0 \<le> x) (nm_best_lat (normalisers_of rs))"
    using assms by (auto simp: normalisers_of_def sane_result_def intro!: py_best_nonneg)
qed

lemma ratio_mono:
  assumes "at_most x y" "opt_all (\<lambda>b. 0 \<le> b) best"
  shows "rel_option (\<lambda>b a. b \<le> a \<and> 0 \<le> b) (ratio best y) (ratio best x)"
  using assms by (cases best; cases x; cases y) (auto simp: at_most_def ratio_def fl_div_antimono fl_ops_nonneg)

lemma parts_mono:
  assumes "rel_option (\<lambda>b a. b \<le> a \<and> 0 \<le> (b::float64)) q1 p1" "rel_option (\<lambda>b a. b \<le> a \<and> 0 \<le> b) q2 p2"
    "rel_option (\<lambda>b a. b \<le> a \<and> 0 \<le> b) q3 p3"
  shows "list_all2 (\<lambda>(w, b) (w', a). w = w' \<and> b \<le> a \<and> 0 \<le> b)
    (List.map_filter (\<lambda>(w, q). map_option (Pair w) q) [(w1, q1), (w2, q2), (w3, q3)])
    (List.map_filter (\<lambda>(w, q). map_option (Pair w) q) [(w1, p1), (w2, p2), (w3, p3)])"
  using assms by (cases q1; cases q2; cases q3; cases p1; cases p2; cases p3) (auto simp: map_filter_def)

lemma parts_weights: "set (map fst (latency_parts n r)) \<subseteq> {1 / 2, 1 / 4}"
  by (auto simp: latency_parts_def map_filter_def split: option.splits if_splits)

lemma latency_score_mono:
  assumes "better_measured a b" "\<forall>r \<in> set rs. sane_result r"
  shows "latency_score (normalisers_of rs) b \<le> latency_score (normalisers_of rs) a"
    "0 \<le> latency_score (normalisers_of rs) b"
proof -
  let ?n = "normalisers_of rs"
  note nn = normalisers_nonneg[OF assms(2)]
  have m: "list_all2 (\<lambda>(w, b) (w', a). w = w' \<and> b \<le> a \<and> 0 \<le> b) (latency_parts ?n b) (latency_parts ?n a)"
    unfolding latency_parts_def using assms(1) nn by (intro parts_mono ratio_mono) (simp_all add: better_measured_def)
  have pos: "\<forall>p \<in> set (latency_parts ?n b). 0 \<le> fst p" using parts_weights[of ?n b] by force
  from m have "map fst (latency_parts ?n b) = map fst (latency_parts ?n a)"
    by (induction rule: list_all2_induct) auto
  moreover from m pos have "list_all2 (\<le>) (map (\<lambda>(w, v). fl_mul w v) (latency_parts ?n b)) (map (\<lambda>(w, v). fl_mul w v) (latency_parts ?n a))"
    by (induction rule: list_all2_induct) (auto simp: fl_mul_mono)
  moreover from m pos have "\<forall>x \<in> set (map (\<lambda>(w, v). fl_mul w v) (latency_parts ?n b)). 0 \<le> x"
    by (induction rule: list_all2_induct) (auto simp: fl_ops_nonneg)
  moreover have "0 \<le> fl_sum (map fst (latency_parts ?n b))" using pos by (intro fl_sum_nonneg) auto
  ultimately show "latency_score ?n b \<le> latency_score ?n a" "0 \<le> latency_score ?n b"
    by (simp_all add: latency_score_def Let_def fl_div_mono fl_sum_mono fl_ops_nonneg fl_sum_nonneg del: set_map)
qed

lemma balanced_score_mono:
  assumes "better_measured a b" "\<forall>r \<in> set rs. sane_result r" "sane_result b"
  shows "balanced_score (normalisers_of rs) b \<le> balanced_score (normalisers_of rs) a"
proof -
  let ?n = "normalisers_of rs"
  let ?t = "\<lambda>r. case nm_best_tps ?n of None \<Rightarrow> 0 | Some b \<Rightarrow> if b \<noteq> 0 then fl_div (br_output_tokens_per_second r) b else 0"
  let ?l = "\<lambda>r. the_or (ratio (nm_best_lat ?n) (Some (br_latency_p95_ms r))) 0"
  note nn = normalisers_nonneg[OF assms(2)]
  have "?t b \<le> ?t a" using nn(1) assms(1) by (auto simp: better_measured_def intro!: fl_div_mono split: option.splits)
  moreover have "rel_option (\<lambda>b a. b \<le> a \<and> 0 \<le> b) (ratio (nm_best_lat ?n) (Some (br_latency_p95_ms b)))
      (ratio (nm_best_lat ?n) (Some (br_latency_p95_ms a)))"
    using assms(1) nn by (intro ratio_mono) (simp_all add: better_measured_def)
  then have "?l b \<le> ?l a" by (cases rule: option.rel_cases) auto
  ultimately show ?thesis unfolding balanced_score_def Let_def
    by (intro fl_sqrt_mono fl_mul_mono2 max.mono) auto
qed

lemma error_factor_mono:
  assumes "br_error_rate a \<le> br_error_rate b" "0 \<le> sc_error_penalty_weight cfg"
  shows "error_factor b cfg \<le> error_factor a cfg" "0 \<le> error_factor b cfg"
  unfolding error_factor_def fl_sub_def using assms
  by (intro max.mono order_refl fl_mono diff_mono fl_mul_mono) simp_all

lemma score_of_mono:
  assumes "better_measured a b" "\<forall>r \<in> set rs. sane_result r" "sane_result a" "sane_result b" "0 \<le> sc_error_penalty_weight cfg"
  shows "score_of obj (normalisers_of rs) cfg b \<le> score_of obj (normalisers_of rs) cfg a"
proof -
  have e: "error_factor b cfg \<le> error_factor a cfg" "0 \<le> error_factor b cfg"
    using assms by (auto simp: better_measured_def intro!: error_factor_mono)
  have t: "br_output_tokens_per_second b \<le> br_output_tokens_per_second a" "0 \<le> br_output_tokens_per_second a"
    using assms by (simp_all add: better_measured_def sane_result_def)
  note l = latency_score_mono[OF assms(1,2)]
  note s = balanced_score_mono[OF assms(1,2,4)]
  have s0: "0 \<le> balanced_score (normalisers_of rs) a" by (simp add: balanced_score_def Let_def fl_sqrt_nonneg)
  show ?thesis
    by (cases obj) (use e t l s s0 in \<open>auto intro!: fl_mul_mono2\<close>)
qed

text \<open>
  Scoring is monotone: of two results of the same run, the one with at least the throughput, at
  most the latencies and at most the error rate never gets the lower score, whatever the objective
  and whatever else was measured; rounding and normalisation cannot invert the order.
\<close>

theorem score_results_monotone:
  assumes "\<forall>r \<in> set results. sane_result r" "0 \<le> sc_error_penalty_weight cfg"
    "i < length results" "j < length results" "better_measured (results ! i) (results ! j)"
  shows "sr_score (score_results results obj slo cfg ! j) \<le> sr_score (score_results results obj slo cfg ! i)"
  using assms by (auto simp: score_results_def Let_def intro!: score_of_mono)

section \<open>Winner, operating point and frontier\<close>

lemma best_of_Nil [simp]: "max_by f [] = None" "min_by f [] = None"
  by simp_all

lemma sort_key_Nil_iff [simp]: "sort_key f xs = [] \<longleftrightarrow> xs = []"
  by (metis set_sort set_empty)

text \<open>
  C28: The winner of a selection is a valid result; it satisfies the SLO whenever some valid result
  does, no competitor of its class has a higher score, and no winner is named only when no
  result is valid.
\<close>

theorem select_best_spec:
  "case select_best scored of
     None \<Rightarrow> \<forall>s \<in> set scored. \<not> sr_valid s
   | Some sel \<Rightarrow> sl_winner sel \<in> set scored \<and> sr_valid (sl_winner sel)
       \<and> (sl_slo_satisfied sel \<longleftrightarrow> (\<exists>s \<in> set scored. eligible s))
       \<and> (sl_slo_satisfied sel \<longrightarrow> eligible (sl_winner sel))
       \<and> (\<forall>s \<in> set scored. sr_valid s \<and> (sl_slo_satisfied sel \<longrightarrow> eligible s) \<longrightarrow> sr_score s \<le> sr_score (sl_winner sel))"
proof (cases "max_by sr_score (filter eligible scored)")
  case (Some w)
  then show ?thesis using max_by_in[OF Some] max_by_ge[OF Some] by (auto simp: select_best_def eligible_def)
next
  case None
  then have no: "\<forall>s \<in> set scored. \<not> eligible s" by (simp add: filter_empty_conv)
  show ?thesis
  proof (cases "max_by sr_score (filter sr_valid scored)")
    case (Some w)
    then have sel: "\<exists>n. select_best scored = Some \<lparr>sl_winner = w, sl_slo_satisfied = False, sl_notes = n\<rparr>"
      using None unfolding select_best_def by (simp del: max_by_None)
    then show ?thesis using no max_by_in[OF Some] max_by_ge[OF Some] by auto
  qed (use None in \<open>auto simp: select_best_def filter_empty_conv\<close>)
qed

definition pays_off :: "scoring_config \<Rightarrow> benchmark_result \<Rightarrow> benchmark_result \<Rightarrow> bool" where
  "pays_off cfg new old \<longleftrightarrow> 0 < tps_gain new old
     \<and> \<not> (tps_gain new old < sc_plateau_min_gain cfg \<and> sc_plateau_latency_rise cfg < latency_rise new old)"

lemma fst_prefer_step: "fst (prefer_step cfg cur nxt) = (if pays_off cfg nxt (fst cur) then nxt else fst cur)"
  by (auto simp: prefer_step_def pays_off_def Let_def)

lemma pays_off_tps: "pays_off cfg new old \<Longrightarrow> br_output_tokens_per_second old < br_output_tokens_per_second new"
proof (rule ccontr)
  assume p: "pays_off cfg new old" and "\<not> ?thesis"
  then have "fl_sub (br_output_tokens_per_second new) (br_output_tokens_per_second old) \<le> 0"
    by (simp add: fl_sub_def fl_nonpos)
  moreover have "0 < max (br_output_tokens_per_second old) (fl (1 / 10 ^ 9))"
  proof -
    have "0 < fl (1 / 10 ^ 9)" by code_simp
    then show ?thesis by (simp add: less_max_iff_disj)
  qed
  ultimately have "tps_gain new old \<le> 0" unfolding tps_gain_def gain_over_def fl_div_def
    by (intro fl_nonpos divide_nonpos_pos)
  then show False using p by (simp add: pays_off_def)
qed

text \<open>What the walk over the pool ends with: a point after which nothing pays off.\<close>

lemma prefer_walk:
  "\<exists>pre post. c # xs = pre @ fst (foldl (prefer_step cfg) (c, why) xs) # post
     \<and> (\<forall>x \<in> set post. \<not> pays_off cfg x (fst (foldl (prefer_step cfg) (c, why) xs)))
     \<and> br_output_tokens_per_second c \<le> br_output_tokens_per_second (fst (foldl (prefer_step cfg) (c, why) xs))"
proof (induction xs rule: rev_induct)
  case (snoc x xs)
  let ?r = "foldl (prefer_step cfg) (c, why) xs"
  obtain pre post where IH: "c # xs = pre @ fst ?r # post" "\<forall>y \<in> set post. \<not> pays_off cfg y (fst ?r)"
    "br_output_tokens_per_second c \<le> br_output_tokens_per_second (fst ?r)" using snoc by blast
  show ?case
  proof (cases "pays_off cfg x (fst ?r)")
    case True
    then show ?thesis using IH pays_off_tps[OF True]
      by (intro exI[of _ "c # xs"] exI[of _ "[]"]) (simp add: fst_prefer_step)
  next
    case False
    then show ?thesis using IH by (intro exI[of _ pre] exI[of _ "post @ [x]"]) (simp add: fst_prefer_step)
  qed
qed (auto intro: exI[of _ "[]"])

definition slo_pool :: "benchmark_result list \<Rightarrow> latency_constraints option \<Rightarrow> benchmark_result list" where
  "slo_pool points slo =
     (let ok = filter (\<lambda>r. slo_violations r slo = []) points in if ok \<noteq> [] then ok else points)"


lemma slo_pool_props:
  "set (slo_pool (valid_points history cfg) slo) \<subseteq> {r \<in> set history. is_valid r cfg}"
  "(\<exists>r \<in> set history. is_valid r cfg \<and> slo_violations r slo = [])
    \<Longrightarrow> \<forall>r \<in> set (slo_pool (valid_points history cfg) slo). slo_violations r slo = []"
  "slo_pool (valid_points history cfg) slo = [] \<longleftrightarrow> (\<forall>r \<in> set history. \<not> is_valid r cfg)"
  by (auto simp: slo_pool_def valid_points_def Let_def filter_empty_conv)

lemma choose_walk:
  assumes "objective \<noteq> Latency"
  shows "map_option fst (choose_concurrency history objective slo cfg) =
    (case slo_pool (valid_points history cfg) slo of [] \<Rightarrow> None | p # ps \<Rightarrow> Some (fst (foldl (prefer_step cfg)
       (p, ''concurrency '' @ str_int (br_concurrency p) @ '' is the only valid point'') ps)))"
  using assms unfolding choose_concurrency_def slo_pool_def Let_def
  by (auto split: list.splits if_splits)

lemma choose_latency:
  "choose_concurrency history Latency slo cfg = Some (r, why) \<Longrightarrow>
     r \<in> set (slo_pool (valid_points history cfg) slo)
     \<and> (slo \<noteq> None \<and> \<not> slo_is_empty (the slo) \<and> slo_violations r slo = [] \<longrightarrow>
        (\<forall>x \<in> set history. is_valid x cfg \<and> slo_violations x slo = [] \<longrightarrow> br_concurrency x \<le> br_concurrency r))"
  unfolding choose_concurrency_def slo_pool_def Let_def valid_points_def
  by (auto simp: filter_empty_conv split: if_splits dest: max_by_in min_by_in max_by_ge)


lemma beats_key: "beats q p \<Longrightarrow> (pp_latency_p95_ms q, - pp_output_tokens_per_second q) < (pp_latency_p95_ms p, - pp_output_tokens_per_second p)"
  by (auto simp: beats_def less_prod_def)

lemma beats_marks [simp]: "beats (q\<lparr>pp_on_front := x\<rparr>) p = beats q p" "beats q (p\<lparr>pp_on_front := y\<rparr>) = beats q p"
  by (simp_all add: beats_def)

lemma unmark_points: "map (\<lambda>p. p\<lparr>pp_on_front := False\<rparr>) (map point_of rs) = map point_of rs"
  by (simp add: point_of_def)

lemma pareto_marks:
  assumes "p \<in> set (pareto_front results)"
  shows "pp_on_front p \<longleftrightarrow> \<not> (\<exists>q \<in> set (pareto_front results). beats q p)"
  using assms by (auto simp: pareto_front_def Let_def list_ex_iff)

lemma pareto_sorted: "sorted (map (\<lambda>p. (pp_latency_p95_ms p, - pp_output_tokens_per_second p)) (pareto_front results))"
  by (simp add: pareto_front_def Let_def)

text \<open>
  C32: The Pareto frontier lists every result with a success once, sorted by latency; a point is marked
  exactly when no measured point beats it, and the first point (the fastest) always is.
\<close>

theorem pareto_front_spec:
  "mset (map (\<lambda>p. p\<lparr>pp_on_front := False\<rparr>) (pareto_front results))
      = mset (map point_of (filter (\<lambda>r. 0 < br_successful_requests r) results))
   \<and> sorted (map pp_latency_p95_ms (pareto_front results))
   \<and> (\<forall>p \<in> set (pareto_front results). pp_on_front p \<longleftrightarrow> \<not> (\<exists>q \<in> set (pareto_front results). beats q p))
   \<and> (pareto_front results \<noteq> [] \<longrightarrow> pp_on_front (hd (pareto_front results)))"
proof (intro conjI)
  let ?clear = "\<lambda>p. p\<lparr>pp_on_front := False\<rparr>" and ?ps = "map point_of (filter (\<lambda>r. 0 < br_successful_requests r) results)"
  have "mset (map ?clear (pareto_front results)) = image_mset ?clear (mset (map (\<lambda>p. p\<lparr>pp_on_front := \<not> list_ex (\<lambda>q. beats q p) ?ps\<rparr>) ?ps))"
    by (simp add: pareto_front_def Let_def)
  also have "\<dots> = mset (map ?clear ?ps)" by (simp add: image_mset.compositionality comp_def)
  finally show "mset (map ?clear (pareto_front results)) = mset ?ps" unfolding unmark_points .
  have "sorted (map (\<lambda>p. (pp_latency_p95_ms p, - pp_output_tokens_per_second p)) xs) \<Longrightarrow> sorted (map pp_latency_p95_ms xs)" for xs
    by (induction xs) (auto simp: less_eq_prod_def)
  then show "sorted (map pp_latency_p95_ms (pareto_front results))" using pareto_sorted .
  show marks: "\<forall>p \<in> set (pareto_front results). pp_on_front p \<longleftrightarrow> \<not> (\<exists>q \<in> set (pareto_front results). beats q p)"
    using pareto_marks by blast
  show "pareto_front results \<noteq> [] \<longrightarrow> pp_on_front (hd (pareto_front results))"
  proof
    assume ne: "pareto_front results \<noteq> []"
    have "\<not> beats q (hd (pareto_front results))" if "q \<in> set (pareto_front results)" for q
    proof
      assume "beats q (hd (pareto_front results))"
      then show False using that ne pareto_sorted[of results] beats_key[of q "hd (pareto_front results)"]
        by (cases "pareto_front results") auto
    qed
    then show "pp_on_front (hd (pareto_front results))" using marks ne by auto
  qed
qed

section \<open>A measured sweep\<close>

definition demo_spec :: "int \<Rightarrow> benchmark_spec" where
  "demo_spec c = \<lparr>bs_concurrency = c, bs_num_requests = 32, bs_seed = 1234, bs_streaming = True,
     bs_endpoint = Chat, bs_mode = Closed, bs_request_rate = None, bs_input_tokens_p50 = 512,
     bs_input_tokens_p95 = 1024, bs_output_tokens_p50 = 128, bs_output_tokens_p95 = 256,
     bs_warmup_requests = 2, bs_request_timeout_seconds = 300, bs_label = None\<rparr>"

definition demo_result :: "int \<Rightarrow> float64 \<Rightarrow> float64 \<Rightarrow> benchmark_result" where
  "demo_result c tps lat = \<lparr>br_candidate_id = ''vllm-tp1-x1'', br_spec = demo_spec c, br_total_requests = 32,
     br_successful_requests = 32, br_failed_requests = 0, br_duration_seconds = 10, br_request_throughput = 3,
     br_input_tokens_per_second = 1600, br_output_tokens_per_second = tps, br_total_tokens_per_second = 1600 + tps,
     br_ttft_p50_ms = Some 100, br_ttft_p95_ms = Some (lat / 10), br_ttft_p99_ms = Some 300,
     br_tpot_p50_ms = None, br_tpot_p95_ms = None, br_tpot_p99_ms = None, br_latency_p50_ms = lat / 2,
     br_latency_p95_ms = lat, br_latency_p99_ms = lat, br_error_rate = 0, br_gpu_metrics = empty_gpu_metrics,
     br_score = None, br_errors_sample = []\<rparr>"

definition demo_slo :: latency_constraints where
  "demo_slo = \<lparr>lc_max_p95_ttft_ms = Some 250, lc_max_p95_latency_ms = None, lc_max_p95_tpot_ms = None\<rparr>"

lemma score_results_monotone_witness:
  "sr_score (score_results [demo_result 4 400 1000, demo_result 8 300 1200] Balanced None default_scoring ! 1)
     \<le> sr_score (score_results [demo_result 4 400 1000, demo_result 8 300 1200] Balanced None default_scoring ! 0)"
  by (rule score_results_monotone)
    (simp_all add: sane_result_def better_measured_def at_most_def demo_result_def default_scoring_def)

lemma select_best_spec_witness:
  "\<exists>sel. select_best (score_results [demo_result 4 400 1000, demo_result 8 700 3000] Throughput (Some demo_slo) default_scoring) = Some sel
     \<and> sl_slo_satisfied sel \<and> eligible (sl_winner sel)"
proof -
  let ?s = "score_results [demo_result 4 400 1000, demo_result 8 700 3000] Throughput (Some demo_slo) default_scoring"
  have c: "map_option sl_slo_satisfied (select_best ?s) = Some True" by code_simp
  then obtain sel where sel: "select_best ?s = Some sel" "sl_slo_satisfied sel" by auto
  then show ?thesis using select_best_spec[of ?s] by auto
qed


lemma pareto_front_spec_witness:
  "\<exists>p. p \<in> set (pareto_front [demo_result 4 400 1000, demo_result 8 300 1200]) \<and> pp_on_front p"
proof -
  have "pareto_front [demo_result 4 400 1000, demo_result 8 300 1200] \<noteq> []"
    by (simp add: pareto_front_def demo_result_def)
  then show ?thesis using pareto_front_spec[of "[demo_result 4 400 1000, demo_result 8 300 1200]"] hd_in_set by blast
qed

text \<open>What lets a sweep go on: the last point works, meets the SLO and is near the best throughput so far.\<close>

lemma sweep_goes_on:
  "fst (should_continue_sweep history slo cfg) \<Longrightarrow> history \<noteq> [] \<Longrightarrow>
     is_valid (last history) cfg \<and> slo_violations (last history) slo = []"
  unfolding should_continue_sweep_def is_valid_def Let_def by (auto split: option.splits if_splits)

end
