(* ===== verification/Bench_Run.thy ===== *)
theory Bench_Run
  imports Scoring Memory_Model
begin

text \<open>
  One benchmark: \<^verbatim>\<open>benchmark/workload.py\<close> generates the requests, \<^verbatim>\<open>benchmark/runner.py\<close> warms the endpoint
  up and drives the measured run, and \<^verbatim>\<open>benchmark/metrics.py\<close> aggregates it. The tokenizer, the
  pseudo-random source and what the endpoint answers are arguments. The closed loop is a step relation
  over its workers and their shared queue. The lemmas show that the loop answers every request exactly
  once and always ends, and that the aggregate is a consistent result.
\<close>

section \<open>Aggregating measurements (benchmark/metrics.py)\<close>

record gpu_sample =
  gs_index :: int
  gs_timestamp :: float64
  gs_utilization_percent :: "float64 option"
  gs_memory_used_bytes :: "int option"
  gs_memory_total_bytes :: "int option"
  gs_temperature_c :: "float64 option"
  gs_power_watts :: "float64 option"

definition percentile :: "float64 list \<Rightarrow> float64 \<Rightarrow> float64 option" where
  "percentile values pct =
     (if values = [] then None
      else let ordered = sort values
      in if length ordered = 1 then Some (ordered ! 0)
         else let rank = fl_mul (fl_div pct 100) (fl_int (int (length ordered) - 1));
                  lo = \<lfloor>rank\<rfloor>; hi = \<lceil>rank\<rceil>; low = ordered ! nat lo; high = ordered ! nat hi
         in if lo = hi then Some low
            else Some (fl_add low (fl_mul (fl_sub high low) (fl_sub rank (fl_int lo)))))"

definition mean :: "float64 list \<Rightarrow> float64 option" where
  "mean xs = (if xs = [] then None else Some (fl_div (fl_sum xs) (fl_int (int (length xs)))))"

definition aggregate_gpu_samples :: "gpu_sample list \<Rightarrow> gpu_benchmark_metrics" where
  "aggregate_gpu_samples samples =
     (if samples = [] then empty_gpu_metrics
      else let utils = List.map_filter gs_utilization_percent samples;
             mems = List.map_filter gs_memory_used_bytes samples;
             power = List.map_filter gs_power_watts samples
      in \<lparr>gm_mean_gpu_utilization = mean utils, gm_peak_gpu_utilization = py_max utils,
          gm_peak_memory_bytes = py_max mems, gm_mean_power_watts = mean power,
          gm_sample_count = int (length samples)\<rparr>)"

definition finished_at :: "request_benchmark_result \<Rightarrow> float64" where
  "finished_at r = (case rr_completed_at r of Some t \<Rightarrow> if t \<noteq> 0 then t else rr_started_at r | None \<Rightarrow> rr_started_at r)"

definition run_duration :: "request_benchmark_result list \<Rightarrow> float64 option \<Rightarrow> float64" where
  "run_duration results wall =
     (case wall of Some d \<Rightarrow> d
      | None \<Rightarrow>
         if results = [] then fl (1 / 10 ^ 6)
         else max (fl_sub (the_or (py_max (map finished_at results)) 0) (the_or (py_min (map rr_started_at results)) 0))
                (fl (1 / 10 ^ 6)))"

definition failed_count :: "request_benchmark_result list \<Rightarrow> int" where
  "failed_count results = int (length results) - int (length (filter rr_success results))"

definition error_texts :: "request_benchmark_result list \<Rightarrow> string list" where
  "error_texts results = filter (\<lambda>e. e \<noteq> []) (List.map_filter rr_error results)"

text \<open>A measured run that took no time divides by zero, which Python raises: \<open>None\<close>.\<close>

definition aggregate :: "string \<Rightarrow> benchmark_spec \<Rightarrow> request_benchmark_result list \<Rightarrow> gpu_sample list
    \<Rightarrow> float64 option \<Rightarrow> benchmark_result option" where
  "aggregate candidate spec results samples wall =
     (let ok = filter rr_success results; count = int (length results); failed = failed_count results;
          duration = run_duration results wall;
          ins = sum_list (map rr_input_tokens ok); outs = sum_list (map rr_output_tokens ok);
          latencies = List.map_filter rr_e2e_latency_ms ok;
          ttfts = List.map_filter rr_ttft_ms ok; tpots = List.map_filter rr_tpot_ms ok
      in if duration = 0 then None
         else Some \<lparr>br_candidate_id = candidate, br_spec = spec, br_total_requests = count,
           br_successful_requests = int (length ok), br_failed_requests = failed, br_duration_seconds = duration,
           br_request_throughput = fl_div (fl_int (int (length ok))) duration,
           br_input_tokens_per_second = fl_div (fl_int ins) duration,
           br_output_tokens_per_second = fl_div (fl_int outs) duration,
           br_total_tokens_per_second = fl_div (fl_int (ins + outs)) duration,
           br_ttft_p50_ms = percentile ttfts 50, br_ttft_p95_ms = percentile ttfts 95, br_ttft_p99_ms = percentile ttfts 99,
           br_tpot_p50_ms = percentile tpots 50, br_tpot_p95_ms = percentile tpots 95, br_tpot_p99_ms = percentile tpots 99,
           br_latency_p50_ms = the_or (percentile latencies 50) 0, br_latency_p95_ms = the_or (percentile latencies 95) 0,
           br_latency_p99_ms = the_or (percentile latencies 99) 0,
           br_error_rate = (if count \<noteq> 0 then int_div failed count else 1),
           br_gpu_metrics = aggregate_gpu_samples samples, br_score = None,
           br_errors_sample = take 5 (sort (remdups (error_texts results)))\<rparr>)"

section \<open>Generating requests (benchmark/workload.py)\<close>

definition VOCABULARY :: "string list" where
  "VOCABULARY =
    [''the'', ''quick'', ''brown'', ''fox'', ''jumps'', ''over'', ''a'', ''lazy'', ''dog'', ''while'',
     ''seven'', ''engineers'', ''debate'', ''whether'', ''latency'', ''or'', ''throughput'', ''matters'',
     ''more'', ''for'', ''production'', ''systems'', ''that'', ''serve'', ''language'', ''models'', ''to'',
     ''thousands'', ''of'', ''users'', ''every'', ''second'', ''across'', ''regions'', ''with'', ''different'',
     ''network'', ''conditions'', ''and'', ''hardware'', ''budgets'', ''consider'', ''memory'', ''bandwidth'',
     ''compute'', ''density'', ''interconnect'', ''topology'', ''batching'', ''strategies'', ''caching'',
     ''scheduling'', ''fairness'', ''cost'', ''energy'', ''reliability'', ''observability'', ''and'', ''the'',
     ''many'', ''trade'', ''offs'', ''involved'', ''when'', ''planning'', ''capacity'', ''for'',
     ''unpredictable'', ''demand'', ''patterns'', ''during'', ''peak'', ''hours'', ''weekends'', ''holidays'',
     ''product'', ''launches'', ''and'', ''incidents'', ''that'', ''require'', ''rapid'', ''mitigation'',
     ''careful'', ''analysis'', ''and'', ''clear'', ''communication'', ''between'', ''teams'', ''responsible'',
     ''for'', ''infrastructure'', ''applications'', ''and'', ''customer'', ''success'']"

record tokenizer =
  tk_exact :: bool
  tk_encode :: "string \<Rightarrow> int list"
  tk_decode :: "int list \<Rightarrow> string"

definition token_count :: "tokenizer \<Rightarrow> string \<Rightarrow> int" where
  "token_count tok text = int (length (tk_encode tok text))"

text \<open>\<^verbatim>\<open>random.Random\<close>: seeding, \<^verbatim>\<open>random()\<close> in \<open>[0, 1)\<close> and the index \<^verbatim>\<open>choice\<close> draws below a bound.\<close>

record 'g random_source =
  rg_seed :: "int \<Rightarrow> 'g"
  rg_random :: "'g \<Rightarrow> float64 \<times> 'g"
  rg_below :: "nat \<Rightarrow> 'g \<Rightarrow> nat \<times> 'g"

record benchmark_request =
  bq_index :: nat
  bq_prompt :: string
  bq_input_tokens :: int
  bq_max_tokens :: int
  bq_shared_prefix :: string

fun word_list :: "'g random_source \<Rightarrow> nat \<Rightarrow> 'g \<Rightarrow> string list \<times> 'g" where
  "word_list rnd 0 g = ([], g)"
| "word_list rnd (Suc n) g =
     (let d = rg_below rnd (length VOCABULARY) g; rest = word_list rnd n (snd d)
      in (VOCABULARY ! fst d # fst rest, snd rest))"

definition tokens_per_word :: "tokenizer \<Rightarrow> float64" where
  "tokens_per_word tok = max (1 / 4) (int_div (token_count tok (str_join '' '' VOCABULARY)) (int (length VOCABULARY)))"

definition words_for :: "tokenizer \<Rightarrow> int \<Rightarrow> nat" where
  "words_for tok n = nat (max 1 (py_round (fl_div (fl_int n) (tokens_per_word tok))))"

text \<open>The correction rounds: at most four, each adding or dropping words.\<close>

fun fit_words :: "tokenizer \<Rightarrow> 'g random_source \<Rightarrow> nat \<Rightarrow> int \<Rightarrow> string list \<Rightarrow> 'g \<Rightarrow> string list \<times> 'g" where
  "fit_words tok rnd 0 target ws g = (ws, g)"
| "fit_words tok rnd (Suc k) target ws g =
     (let deficit = target - token_count tok (str_join '' '' ws)
      in if \<bar>deficit\<bar> \<le> max 1 (target div 100) then (ws, g)
         else if 0 < deficit
         then let more = word_list rnd (words_for tok deficit) g in fit_words tok rnd k target (ws @ fst more) (snd more)
         else fit_words tok rnd k target (take (nat (max 1 (int (length ws) - int (words_for tok (- deficit))))) ws) g)"

definition text_with_tokens :: "tokenizer \<Rightarrow> 'g random_source \<Rightarrow> int \<Rightarrow> 'g \<Rightarrow> (string \<times> int) \<times> 'g" where
  "text_with_tokens tok rnd target_tokens g =
     (let target = max 1 target_tokens;
          first = word_list rnd (words_for tok target) g;
          fitted = fit_words tok rnd 4 target (fst first) (snd first);
          text = str_join '' '' (fst fitted); ids = tk_encode tok text;
          trimmed = py_strip (tk_decode tok (take (nat target) ids))
      in if target < int (length ids) \<and> tk_exact tok
         then ((trimmed, token_count tok trimmed), snd fitted)
         else ((text, int (length ids)), snd fitted))"

definition sample_length :: "'g random_source \<Rightarrow> int \<Rightarrow> int \<Rightarrow> 'g \<Rightarrow> int \<times> 'g" where
  "sample_length rnd p50 p95 g =
     (if p95 \<le> p50 then (p50, g)
      else let r = rg_random rnd g; u = rg_random rnd (snd r)
      in if fst r < fl (7 / 10)
         then (max 1 (py_int (fl_mul (fl_int p50) (fl_add (3 / 4) (fl_mul (fl_sub (5 / 4) (3 / 4)) (fst u))))), snd u)
         else (py_int (fl_add (fl_int p50) (fl_mul (fl_int (p95 - p50)) (fst u))), snd u))"

definition shared_prefix_text :: "tokenizer \<Rightarrow> 'g random_source \<Rightarrow> int \<Rightarrow> workload_profile \<Rightarrow> string" where
  "shared_prefix_text tok rnd seed w =
     (if 0 < wl_shared_prefix_fraction w
      then fst (fst (text_with_tokens tok rnd
             (py_int (fl_mul (fl_int (wl_input_tokens_p50 w)) (wl_shared_prefix_fraction w))) (rg_seed rnd seed)))
      else [])"

definition draw_lengths :: "'g random_source \<Rightarrow> workload_profile \<Rightarrow> nat \<Rightarrow> 'g \<Rightarrow> (int \<times> int) \<times> 'g" where
  "draw_lengths rnd w i g =
     (if i mod 20 = 19 then ((wl_input_tokens_p95 w, wl_output_tokens_p95 w), g)
      else let a = sample_length rnd (wl_input_tokens_p50 w) (wl_input_tokens_p95 w) g;
             b = sample_length rnd (wl_output_tokens_p50 w) (wl_output_tokens_p95 w) (snd a)
      in ((fst a, fst b), snd b))"

definition make_request :: "tokenizer \<Rightarrow> workload_profile \<Rightarrow> string \<Rightarrow> nat \<Rightarrow> int \<Rightarrow> string \<times> int \<Rightarrow> benchmark_request" where
  "make_request tok w shared i out_tokens body =
     (let total_in = snd body + (if shared \<noteq> [] then token_count tok shared else 0)
      in \<lparr>bq_index = i, bq_prompt = (if shared \<noteq> [] then py_strip (shared @ '' '' @ fst body) else fst body),
          bq_input_tokens = total_in, bq_max_tokens = max 1 (min out_tokens (wl_max_context_tokens w - total_in)),
          bq_shared_prefix = shared\<rparr>)"

fun generate_from :: "tokenizer \<Rightarrow> 'g random_source \<Rightarrow> workload_profile \<Rightarrow> string \<Rightarrow> nat list \<Rightarrow> 'g \<Rightarrow> benchmark_request list" where
  "generate_from tok rnd w shared [] g = []"
| "generate_from tok rnd w shared (i # is) g =
     (let lens = draw_lengths rnd w i g;
          body = text_with_tokens tok rnd
            (max 1 (fst (fst lens) - (if shared \<noteq> [] then token_count tok shared else 0))) (snd lens)
      in make_request tok w shared i (snd (fst lens)) (fst body) # generate_from tok rnd w shared is (snd body))"

definition generate :: "tokenizer \<Rightarrow> 'g random_source \<Rightarrow> int \<Rightarrow> workload_profile \<Rightarrow> nat \<Rightarrow> int \<Rightarrow> benchmark_request list" where
  "generate tok rnd seed w n seed_offset =
     generate_from tok rnd w (shared_prefix_text tok rnd seed w) [0..<n] (rg_seed rnd (seed + seed_offset))"

definition warmup_count :: "int \<Rightarrow> int \<Rightarrow> int \<Rightarrow> int" where
  "warmup_count concurrency minimum maximum =
     max minimum (min maximum \<lceil>fl_mul (fl_sqrt (fl_int concurrency)) 2\<rceil>)"

section \<open>Driving a run (benchmark/runner.py)\<close>

definition make_spec :: "workload_profile \<Rightarrow> int \<Rightarrow> int \<Rightarrow> int \<Rightarrow> string option \<Rightarrow> float64 option \<Rightarrow> benchmark_endpoint
    \<Rightarrow> float64 \<Rightarrow> benchmark_spec" where
  "make_spec w concurrency num_requests seed lbl request_rate endpoint timeout =
     \<lparr>bs_concurrency = concurrency, bs_num_requests = num_requests, bs_seed = seed, bs_streaming = wl_streaming w,
      bs_endpoint = endpoint, bs_mode = (if request_rate \<noteq> None \<and> request_rate \<noteq> Some 0 then Open else Closed),
      bs_request_rate = request_rate, bs_input_tokens_p50 = wl_input_tokens_p50 w,
      bs_input_tokens_p95 = wl_input_tokens_p95 w, bs_output_tokens_p50 = wl_output_tokens_p50 w,
      bs_output_tokens_p95 = wl_output_tokens_p95 w, bs_warmup_requests = warmup_count concurrency 2 16,
      bs_request_timeout_seconds = timeout, bs_label = lbl\<rparr>"

datatype benchmark_error = Benchmark_error string "string list" | Zero_division_error

definition warmup_verdict :: "benchmark_spec \<Rightarrow> request_benchmark_result list \<Rightarrow> benchmark_error + unit" where
  "warmup_verdict spec results =
     (if bs_warmup_requests spec \<le> 0 \<or> list_ex rr_success results then Inr ()
      else Inl (Benchmark_error ''warmup requests all failed; the endpoint is not generating tokens''
        (map (\<lambda>e. ''Backend error: '' @ e)
          (take 3 (sort (remdups (map (\<lambda>r. case rr_error r of Some e \<Rightarrow> if e \<noteq> [] then e else ''unknown''
             | None \<Rightarrow> ''unknown'') results)))))))"

text \<open>What one run observes of the endpoint: the answers to the warm-up and to the measured requests, the
  elapsed time and the GPU samples.\<close>

record run_observation =
  ro_warmup :: "request_benchmark_result list"
  ro_results :: "request_benchmark_result list"
  ro_duration :: float64
  ro_samples :: "gpu_sample list"

definition run_benchmark :: "benchmark_spec \<Rightarrow> string \<Rightarrow> bool \<Rightarrow> run_observation \<Rightarrow> benchmark_error + benchmark_result" where
  "run_benchmark spec candidate warm w =
     try_bind (if warm then warmup_verdict spec (ro_warmup w) else Inr ()) (\<lambda>_.
       case aggregate candidate spec (ro_results w) (ro_samples w) (Some (ro_duration w)) of
         None \<Rightarrow> Inl Zero_division_error | Some r \<Rightarrow> Inr r)"

subsection \<open>The closed loop: workers pulling from a shared queue\<close>

datatype 'r worker = Idle | Busy 'r | Gone

record ('q, 'a) closed_loop =
  cl_queue :: "'q list"
  cl_workers :: "'q worker list"
  cl_results :: "'a list"
  cl_progress :: "(nat \<times> nat) list"

definition closed_start :: "nat \<Rightarrow> 'q list \<Rightarrow> ('q, 'a) closed_loop" where
  "closed_start concurrency reqs =
     \<lparr>cl_queue = reqs, cl_workers = replicate (min concurrency (length reqs)) Idle, cl_results = [], cl_progress = []\<rparr>"

text \<open>\<open>n\<close> is the number of requests, which every progress call repeats; \<open>answers\<close> is what the client may return.\<close>

inductive closed_step :: "('q \<Rightarrow> 'a \<Rightarrow> bool) \<Rightarrow> nat \<Rightarrow> ('q, 'a) closed_loop \<Rightarrow> ('q, 'a) closed_loop \<Rightarrow> bool"
  for answers n where
  take: "i < length (cl_workers s) \<Longrightarrow> cl_workers s ! i = Idle \<Longrightarrow> cl_queue s = r # q \<Longrightarrow>
     closed_step answers n s (s\<lparr>cl_queue := q, cl_workers := (cl_workers s)[i := Busy r]\<rparr>)"
| leave: "i < length (cl_workers s) \<Longrightarrow> cl_workers s ! i = Idle \<Longrightarrow> cl_queue s = [] \<Longrightarrow>
     closed_step answers n s (s\<lparr>cl_workers := (cl_workers s)[i := Gone]\<rparr>)"
| answer: "i < length (cl_workers s) \<Longrightarrow> cl_workers s ! i = Busy r \<Longrightarrow> answers r a \<Longrightarrow>
     closed_step answers n s (s\<lparr>cl_workers := (cl_workers s)[i := Idle], cl_results := cl_results s @ [a],
       cl_progress := cl_progress s @ [(Suc (length (cl_results s)), n)]\<rparr>)"

definition all_gone :: "('q, 'a) closed_loop \<Rightarrow> bool" where
  "all_gone s \<longleftrightarrow> (\<forall>w \<in> set (cl_workers s). w = Gone)"

fun in_flight :: "'q worker list \<Rightarrow> 'q list" where
  "in_flight [] = []"
| "in_flight (Busy r # ws) = r # in_flight ws"
| "in_flight (_ # ws) = in_flight ws"

lemma in_flight_append: "in_flight (us @ ws) = in_flight us @ in_flight ws"
  by (induction us rule: in_flight.induct) auto

lemma in_flight_replicate [simp]: "in_flight (replicate k Idle) = []"
  by (induction k) auto

lemma in_flight_gone: "\<forall>w \<in> set ws. w = Gone \<Longrightarrow> in_flight ws = []"
  by (induction ws rule: in_flight.induct) auto

lemma in_flight_length: "length (in_flight ws) \<le> length ws"
  by (induction ws rule: in_flight.induct) auto

lemma in_flight_update:
  assumes "i < length ws"
  shows "mset (in_flight (ws[i := w])) + mset (in_flight [ws ! i]) = mset (in_flight ws) + mset (in_flight [w])"
proof -
  have u: "ws[i := w] = take i ws @ [w] @ drop (Suc i) ws" using assms by (simp add: upd_conv_take_nth_drop)
  have v: "ws = take i ws @ [ws ! i] @ drop (Suc i) ws" using assms by (simp add: id_take_nth_drop)
  have "mset (in_flight (ws[i := w])) = mset (in_flight (take i ws)) + mset (in_flight [w]) + mset (in_flight (drop (Suc i) ws))"
    unfolding u by (simp only: in_flight_append mset_append) (simp add: ac_simps)
  moreover have "mset (in_flight ws) = mset (in_flight (take i ws)) + mset (in_flight [ws ! i]) + mset (in_flight (drop (Suc i) ws))"
    by (subst v) (simp only: in_flight_append mset_append, simp add: ac_simps)
  ultimately show ?thesis by (simp add: ac_simps)
qed

text \<open>The invariant: queue, requests in flight and served requests together are the requests.\<close>

definition closed_inv :: "('q \<Rightarrow> 'a \<Rightarrow> bool) \<Rightarrow> 'q list \<Rightarrow> nat \<Rightarrow> ('q, 'a) closed_loop \<Rightarrow> bool" where
  "closed_inv answers reqs c s \<longleftrightarrow> length (cl_workers s) = min c (length reqs)
     \<and> (Gone \<in> set (cl_workers s) \<longrightarrow> cl_queue s = [])
     \<and> cl_progress s = map (\<lambda>i. (Suc i, length reqs)) [0..<length (cl_results s)]
     \<and> (\<exists>served. list_all2 answers served (cl_results s)
         \<and> mset served + mset (in_flight (cl_workers s)) + mset (cl_queue s) = mset reqs)"

lemma closed_inv_start: "closed_inv answers reqs c (closed_start c reqs)"
  by (auto simp: closed_inv_def closed_start_def)

lemma closed_inv_step [preserves]:
  assumes "closed_step answers (length reqs) s t" "closed_inv answers reqs c s"
  shows "closed_inv answers reqs c t"
proof -
  obtain served where sv: "list_all2 answers served (cl_results s)"
    "mset served + mset (in_flight (cl_workers s)) + mset (cl_queue s) = mset reqs"
    using assms(2) by (auto simp: closed_inv_def)
  from assms(1) show ?thesis
  proof cases
    case (take i r q)
    have "mset (in_flight ((cl_workers s)[i := Busy r])) = mset (in_flight (cl_workers s)) + {#r#}"
      using in_flight_update[OF take(2), of "Busy r"] take(3) by simp
    then show ?thesis using assms(2) sv take
      by (auto simp: closed_inv_def ac_simps dest: set_update_subset_insert[THEN subsetD] intro!: exI[of _ served])
  next
    case (leave i)
    have "mset (in_flight ((cl_workers s)[i := Gone])) = mset (in_flight (cl_workers s))"
      using in_flight_update[OF leave(2), of Gone] leave(3) by simp
    then show ?thesis using assms(2) sv leave
      by (auto simp: closed_inv_def intro!: exI[of _ served])
  next
    case (answer i r a)
    have e: "mset (in_flight (cl_workers s)) = add_mset r (mset (in_flight ((cl_workers s)[i := Idle])))"
      using in_flight_update[OF answer(2), of Idle] answer(3) by simp
    have "mset (served @ [r]) + mset (in_flight (cl_workers t)) + mset (cl_queue t) = mset reqs"
      using sv(2) answer unfolding e by (simp add: ac_simps)
    then show ?thesis using assms(2) sv(1) answer
      by (auto simp: closed_inv_def list_all2_appendI dest: set_update_subset_insert[THEN subsetD] intro!: exI[of _ "served @ [r]"])
  qed
qed

lemma closed_inv_reachable: "(closed_step answers (length reqs))\<^sup>*\<^sup>* (closed_start c reqs) s \<Longrightarrow> closed_inv answers reqs c s"
  by (induction rule: rtranclp_induct) (auto intro: closed_inv_start closed_inv_step)

definition worker_cost :: "'q worker \<Rightarrow> nat" where
  "worker_cost w = (case w of Idle \<Rightarrow> 1 | Busy _ \<Rightarrow> 2 | Gone \<Rightarrow> 0)"

definition loop_cost :: "('q, 'a) closed_loop \<Rightarrow> nat" where
  "loop_cost s = 2 * length (cl_queue s) + sum_list (map worker_cost (cl_workers s))"

lemma worker_cost_simps [simp]: "worker_cost Idle = 1" "worker_cost (Busy r) = 2" "worker_cost Gone = 0"
  by (simp_all add: worker_cost_def)

lemma cost_update: "i < length ws \<Longrightarrow>
    sum_list (map worker_cost (ws[i := w])) + worker_cost (ws ! i) = sum_list (map worker_cost ws) + worker_cost w"
  using elem_le_sum_list[of i "map worker_cost ws"]
  by (simp add: map_update sum_list_update)

text \<open>Every step costs exactly one unit.\<close>

lemma closed_step_cost:
  assumes "closed_step answers n s t"
  shows "loop_cost s = Suc (loop_cost t)"
  using assms
proof cases
  case (take i r q)
  then show ?thesis using cost_update[of i "cl_workers s" "Busy r"] by (simp add: loop_cost_def)
next
  case (leave i)
  then show ?thesis using cost_update[of i "cl_workers s" Gone] by (simp add: loop_cost_def)
next
  case (answer i r a)
  then show ?thesis using cost_update[of i "cl_workers s" Idle] by (simp add: loop_cost_def)
qed

lemma closed_run_cost: "(closed_step answers n ^^ k) s t \<Longrightarrow> loop_cost s = k + loop_cost t"
  by (induction k arbitrary: t) (auto dest: closed_step_cost)

lemma closed_start_cost: "loop_cost (closed_start c reqs) = 2 * length reqs + min c (length reqs)"
  by (simp add: loop_cost_def closed_start_def sum_list_replicate)

lemma closed_progress:
  assumes "closed_inv answers reqs c s" "\<forall>r \<in> set reqs. \<exists>a. answers r a" "\<not> all_gone s"
  shows "\<exists>t. closed_step answers (length reqs) s t"
proof -
  obtain i where i: "i < length (cl_workers s)" "cl_workers s ! i \<noteq> Gone"
    using assms(3) by (auto simp: all_gone_def in_set_conv_nth)
  show ?thesis
  proof (cases "cl_workers s ! i")
    case Idle
    then show ?thesis using i by (cases "cl_queue s") (blast intro: closed_step.intros)+
  next
    case (Busy r)
    have "r \<in> set (in_flight (cl_workers s))" using i(1) Busy
      by (subst id_take_nth_drop[OF i(1)]) (simp add: in_flight_append)
    then have "r \<in># mset reqs" using assms(1) unfolding closed_inv_def by (metis UnCI set_mset_mset set_mset_union)
    then show ?thesis using assms(2) i Busy by (auto intro: closed_step.intros)
  qed (use i in simp)
qed

text \<open>
  C34: A closed-loop run always ends: whatever the interleaving of the workers, no more than the allowed
  number of requests is in flight, a run takes at most two steps per request and one per worker, and as long as a worker
  is left and the client answers its requests, some worker can move.
\<close>

theorem closed_loop_ends:
  assumes "(closed_step answers (length reqs) ^^ k) (closed_start c reqs) s" "\<forall>r \<in> set reqs. \<exists>a. answers r a"
  shows "length (in_flight (cl_workers s)) \<le> c \<and> k \<le> 2 * length reqs + min c (length reqs)
    \<and> (all_gone s \<or> (\<exists>t. closed_step answers (length reqs) s t))"
proof -
  have inv: "closed_inv answers reqs c s"
    using assms(1) by (intro closed_inv_reachable) (rule relpowp_imp_rtranclp)
  have "length (in_flight (cl_workers s)) \<le> c"
    using in_flight_length[of "cl_workers s"] inv by (simp add: closed_inv_def)
  moreover have "k \<le> 2 * length reqs + min c (length reqs)" using closed_run_cost[OF assms(1)] by (simp add: closed_start_cost)
  ultimately show ?thesis using closed_progress[OF inv assms(2)] by blast
qed

text \<open>
  C33: When the workers of a closed-loop run have all left, every request was served exactly once: the
  results are answers to a permutation of the requests, and progress was reported once per request, counting up.
\<close>

theorem closed_loop_serves_all:
  assumes "(closed_step answers (length reqs))\<^sup>*\<^sup>* (closed_start c reqs) s" "all_gone s" "1 \<le> c"
  shows "(\<exists>served. mset served = mset reqs \<and> list_all2 answers served (cl_results s))
    \<and> cl_progress s = map (\<lambda>i. (Suc i, length reqs)) [0..<length reqs]"
proof -
  have inv: "closed_inv answers reqs c s" by (rule closed_inv_reachable[OF assms(1)])
  have fl: "in_flight (cl_workers s) = []" using assms(2) by (simp add: all_gone_def in_flight_gone)
  have q: "cl_queue s = []"
  proof (cases "reqs = []")
    case True
    then show ?thesis using inv by (auto simp: closed_inv_def)
  next
    case False
    then have "0 < length (cl_workers s)" using inv assms(3) by (simp add: closed_inv_def)
    then have "Gone \<in> set (cl_workers s)" using assms(2) by (cases "cl_workers s") (auto simp: all_gone_def)
    then show ?thesis using inv by (simp add: closed_inv_def)
  qed
  obtain served where sv: "mset served = mset reqs" "list_all2 answers served (cl_results s)"
    using inv fl q by (auto simp: closed_inv_def)
  then have "length (cl_results s) = length reqs" by (metis list_all2_lengthD mset_eq_length)
  then show ?thesis using sv inv by (auto simp: closed_inv_def)
qed


section \<open>The aggregate is a consistent result\<close>

lemma percentile_nonneg:
  assumes "percentile values pct = Some x" "\<forall>v \<in> set values. 0 \<le> v" "0 \<le> pct" "pct \<le> 100" "length values < 2 ^ 53"
  shows "0 \<le> x"
proof -
  let ?o = "sort values" let ?n = "length values"
  have ne: "values \<noteq> []" using assms(1) by (auto simp: percentile_def)
  have pos: "0 \<le> ?o ! i" if "i < ?n" for i using that assms(2) by (metis length_sort nth_mem set_sort)
  show ?thesis
  proof (cases "?n = 1")
    case True
    then show ?thesis using assms(1) ne pos[of 0] by (simp add: percentile_def Let_def)
  next
    case False
    define rank where "rank = fl_mul (fl_div pct 100) (fl_int (int ?n - 1))"
    have n: "fl_int (int ?n - 1) = of_int (int ?n - 1)" using assms(5) ne by (intro fl_int_exact) simp
    have r0: "0 \<le> rank" using ne assms(3) unfolding rank_def n by (intro fl_ops_nonneg) (simp_all add: Suc_leI)
    have "fl_div pct 100 \<le> 1" using assms(4) by (simp add: fl_div_def fl_le_1)
    then have "fl_div pct 100 * of_int (int ?n - 1) \<le> of_int (int ?n - 1)"
      using ne mult_right_mono[of "fl_div pct 100" 1 "of_int (int ?n - 1)"] by (simp add: Suc_leI)
    then have "rank \<le> of_int (int ?n - 1)"
      unfolding rank_def n fl_mul_def using assms(5) ne by (intro fl_le_of_int) simp_all
    then have hi: "\<lceil>rank\<rceil> \<le> int ?n - 1" by (rule ceiling_le)
    have lohi: "\<lfloor>rank\<rfloor> \<le> \<lceil>rank\<rceil>" "0 \<le> \<lfloor>rank\<rfloor>" using r0 by (simp_all add: floor_le_ceiling)
    have ix: "nat \<lfloor>rank\<rfloor> \<le> nat \<lceil>rank\<rceil>" "nat \<lceil>rank\<rceil> < ?n" using hi lohi nat_mono[OF lohi(1)] ne by (auto simp: nat_less_iff)
    have le: "?o ! nat \<lfloor>rank\<rfloor> \<le> ?o ! nat \<lceil>rank\<rceil>" using ix by (intro sorted_nth_mono) auto
    have "fl_int \<lfloor>rank\<rfloor> \<le> rank"
    proof -
      have "int ?n < 2 ^ 53" using assms(5) by (metis of_nat_less_iff of_nat_numeral of_nat_power)
      then have "\<bar>\<lfloor>rank\<rfloor>\<bar> < 2 ^ 53" using hi lohi by linarith
      then show ?thesis by (simp add: fl_int_exact)
    qed
    then have "0 \<le> fl_sub rank (fl_int \<lfloor>rank\<rfloor>)" "0 \<le> fl_sub (?o ! nat \<lceil>rank\<rceil>) (?o ! nat \<lfloor>rank\<rfloor>)"
      using le by (simp_all add: fl_sub_def fl_nonneg)
    then have "0 \<le> fl_add (?o ! nat \<lfloor>rank\<rfloor>) (fl_mul (fl_sub (?o ! nat \<lceil>rank\<rceil>) (?o ! nat \<lfloor>rank\<rfloor>)) (fl_sub rank (fl_int \<lfloor>rank\<rfloor>)))"
      using pos[of "nat \<lfloor>rank\<rfloor>"] ix by (intro fl_ops_nonneg) simp_all
    then show ?thesis using assms(1) ne False pos[of "nat \<lfloor>rank\<rfloor>"] ix
      by (auto simp: percentile_def Let_def rank_def split: if_splits)
  qed
qed

definition sane_request :: "request_benchmark_result \<Rightarrow> bool" where
  "sane_request r \<longleftrightarrow> 0 \<le> rr_input_tokens r \<and> 0 \<le> rr_output_tokens r \<and> opt_all (\<lambda>x. 0 \<le> x) (rr_ttft_ms r)
     \<and> opt_all (\<lambda>x. 0 \<le> x) (rr_e2e_latency_ms r) \<and> opt_all (\<lambda>x. 0 \<le> x) (rr_tpot_ms r)"

lemma percentile_measured:
  assumes "\<forall>r \<in> set rs. opt_all (\<lambda>x. 0 \<le> x) (f r)" "length rs < 2 ^ 53" "0 \<le> pct" "pct \<le> 100"
  shows "opt_all (\<lambda>x. 0 \<le> x) (percentile (List.map_filter f rs) pct)"
proof -
  have v: "\<forall>v \<in> set (List.map_filter f rs). 0 \<le> v" using assms(1) by (fastforce simp: map_filter_def opt_all_def)
  have l: "length (List.map_filter f rs) < 2 ^ 53"
    using assms(2) by (simp add: map_filter_def) (meson le_less_trans length_filter_le)
  show ?thesis unfolding opt_all_def using percentile_nonneg[OF _ v assms(3,4) l] by (auto split: option.split)
qed



section \<open>Generated requests fit the context\<close>

lemma make_request_props [simp]:
  "bq_index (make_request tok w shared i outs body) = i" "1 \<le> bq_max_tokens (make_request tok w shared i outs body)"
  "bq_input_tokens (make_request tok w shared i outs body) < wl_max_context_tokens w \<Longrightarrow>
     bq_input_tokens (make_request tok w shared i outs body) + bq_max_tokens (make_request tok w shared i outs body) \<le> wl_max_context_tokens w"
  "bq_max_tokens (make_request tok w shared i outs body)
     = max 1 (min outs (wl_max_context_tokens w - bq_input_tokens (make_request tok w shared i outs body)))"
  by (auto simp: make_request_def Let_def)

lemma draw_lengths_tail: "i mod 20 = 19 \<Longrightarrow> snd (fst (draw_lengths rnd w i g)) = wl_output_tokens_p95 w"
  by (simp add: draw_lengths_def)

lemma generate_from_props:
  "map bq_index (generate_from tok rnd w shared is g) = is
   \<and> (\<forall>q \<in> set (generate_from tok rnd w shared is g). 1 \<le> bq_max_tokens q
        \<and> (bq_input_tokens q < wl_max_context_tokens w \<longrightarrow> bq_input_tokens q + bq_max_tokens q \<le> wl_max_context_tokens w)
        \<and> (bq_index q mod 20 = 19 \<longrightarrow> bq_max_tokens q = max 1 (min (wl_output_tokens_p95 w) (wl_max_context_tokens w - bq_input_tokens q))))"
proof (induction "is" arbitrary: g)
  case (Cons i "is")
  show ?case using Cons by (simp add: Let_def draw_lengths_tail del: make_request_props(4)) (simp add: draw_lengths_tail)
qed simp

text \<open>
  Request generation is bounded: exactly the requested number of requests, numbered in order, each
  asking for at least one token and, when its prompt leaves room, for no more than the context holds; every
  twentieth request asks for the p95 output, so the tail is always represented.
\<close>

theorem generate_bounded:
  "map bq_index (generate tok rnd seed w n off) = [0..<n]
   \<and> (\<forall>q \<in> set (generate tok rnd seed w n off). 1 \<le> bq_max_tokens q
        \<and> (bq_input_tokens q < wl_max_context_tokens w \<longrightarrow> bq_input_tokens q + bq_max_tokens q \<le> wl_max_context_tokens w)
        \<and> (bq_index q mod 20 = 19 \<longrightarrow> bq_max_tokens q = max 1 (min (wl_output_tokens_p95 w) (wl_max_context_tokens w - bq_input_tokens q))))"
  unfolding generate_def by (rule generate_from_props)

lemma sample_length_pos: "1 \<le> p50 \<Longrightarrow> \<bar>p50\<bar> < 2 ^ 53 \<Longrightarrow> 0 \<le> fst (rg_random rnd (snd (rg_random rnd g))) \<Longrightarrow> 1 \<le> fst (sample_length rnd p50 p95 g)"
proof -
  assume p: "1 \<le> p50" "\<bar>p50\<bar> < 2 ^ 53" and u: "0 \<le> fst (rg_random rnd (snd (rg_random rnd g)))" (is "0 \<le> ?u")
  have "0 \<le> fl_mul (fl_int (p95 - p50)) ?u" if "p50 < p95"
    using that u by (intro fl_ops_nonneg) (simp_all add: fl_int_def fl_nonneg)
  then have "of_int p50 \<le> fl_int p50 + fl_mul (fl_int (p95 - p50)) ?u" if "p50 < p95" using that p by (simp add: fl_int_exact)
  then have "of_int p50 \<le> fl_add (fl_int p50) (fl_mul (fl_int (p95 - p50)) ?u)" if "p50 < p95"
    unfolding fl_add_def using that p by (intro fl_ge_of_int) auto
  then have "p50 \<le> py_int (fl_add (fl_int p50) (fl_mul (fl_int (p95 - p50)) ?u))" if "p50 < p95"
    using that py_int_mono[of "of_int p50"] by force
  then show ?thesis using p by (auto simp: sample_length_def Let_def not_le)
qed

lemma warmup_count_bounds: "mn \<le> mx \<Longrightarrow> mn \<le> warmup_count c mn mx \<and> warmup_count c mn mx \<le> mx"
  by (simp add: warmup_count_def)

lemma warmup_count_mono: "c \<le> d \<Longrightarrow> warmup_count c mn mx \<le> warmup_count d mn mx"
  unfolding warmup_count_def
  by (intro max.mono min.mono order_refl ceiling_mono fl_mul_mono fl_sqrt_mono) (simp_all add: fl_int_def fl_mono)

section \<open>Examples\<close>

definition char_tokenizer :: tokenizer where
  "char_tokenizer = \<lparr>tk_exact = True, tk_encode = map of_char, tk_decode = map char_of\<rparr>"

definition counting_source :: "nat random_source" where
  "counting_source = \<lparr>rg_seed = nat, rg_random = (\<lambda>g. (1 / 2, Suc g)), rg_below = (\<lambda>n g. (g mod n, Suc g))\<rparr>"

lemma generate_bounded_witness:
  "length (generate char_tokenizer counting_source 7 demo_workload 2 0) = 2
     \<and> 1 \<le> bq_max_tokens (generate char_tokenizer counting_source 7 demo_workload 2 0 ! 1)"
proof -
  note spec = generate_bounded[of char_tokenizer counting_source 7 demo_workload 2 0]
  have l: "length (generate char_tokenizer counting_source 7 demo_workload 2 0) = 2"
    using spec by (metis diff_zero length_map length_upt)
  then show ?thesis using spec by (simp add: nth_mem)
qed

definition answered :: "string \<Rightarrow> nat \<Rightarrow> bool" where
  "answered q a \<longleftrightarrow> a = length q"

lemma one_request_run:
  "(closed_step answered (length [''ab'']) ^^ 3) (closed_start 2 [''ab''])
     \<lparr>cl_queue = [], cl_workers = [Gone], cl_results = [2], cl_progress = [(1, 1)]\<rparr>"
proof -
  let ?s1 = "\<lparr>cl_queue = [], cl_workers = [Busy ''ab''], cl_results = [], cl_progress = []\<rparr> :: (string, nat) closed_loop"
  let ?s2 = "\<lparr>cl_queue = [], cl_workers = [Idle], cl_results = [2], cl_progress = [(1, 1)]\<rparr> :: (string, nat) closed_loop"
  have "closed_step answered (length [''ab'']) (closed_start 2 [''ab'']) ?s1"
    using closed_step.take[of 0 "closed_start 2 [''ab'']" "''ab''" "[]" answered 1] by (simp add: closed_start_def)
  moreover have "closed_step answered (length [''ab'']) ?s1 ?s2"
    using closed_step.answer[of 0 ?s1 "''ab''" answered 2 1] by (simp add: answered_def)
  moreover have "closed_step answered (length [''ab'']) ?s2 \<lparr>cl_queue = [], cl_workers = [Gone], cl_results = [2], cl_progress = [(1, 1)]\<rparr>"
    using closed_step.leave[of 0 ?s2 answered 1] by simp
  ultimately show ?thesis by (auto simp: numeral_3_eq_3 intro!: relcomppI)
qed

lemma closed_loop_ends_witness:
  "length (in_flight ([Gone] :: string worker list)) \<le> 2 \<and> 3 \<le> 2 * length [''ab''] + min 2 (length [''ab''])"
  using closed_loop_ends[OF one_request_run] by (simp add: answered_def)

lemma closed_loop_serves_all_witness:
  "\<exists>served. mset served = mset [''ab''] \<and> list_all2 answered served [2]"
  using closed_loop_serves_all[OF relpowp_imp_rtranclp[OF one_request_run]] by (simp add: all_gone_def)

definition demo_request :: "bool \<Rightarrow> float64 \<Rightarrow> request_benchmark_result" where
  "demo_request ok lat = \<lparr>rr_success = ok, rr_input_tokens = 512, rr_output_tokens = 128, rr_started_at = 0,
     rr_first_token_at = Some 1, rr_completed_at = Some 3, rr_ttft_ms = Some 100, rr_e2e_latency_ms = Some lat,
     rr_tpot_ms = Some 10, rr_error = (if ok then None else Some ''timeout''), rr_status_code = None\<rparr>"


end
