(* ===== verification/Explain.thy ===== *)
theory Explain
  imports Scoring Candidates
begin

text \<open>
  \<^verbatim>\<open>planner/explain.py\<close>: the sentences that explain a static planning result and a tuning outcome. Every
  sentence is computed from a memory estimate, a benchmark result or a recorded failure; the one way to
  fail is a recorded failure with an empty message, whose first line does not exist.
\<close>

section \<open>The static explanation\<close>

definition ge_sign :: string where
  "ge_sign = [CHR 0xE2, CHR 0x89, CHR 0xA5]"

definition option_letter :: "nat \<Rightarrow> string" where
  "option_letter i = (if i < 26 then [char_of (65 + i)] else str_nat i)"

definition minimum_tp_line :: "nat \<Rightarrow> model_profile \<Rightarrow> gpu_device \<Rightarrow> string" where
  "minimum_tp_line tp m gpu =
     (let weights = format_bytes (mp_weight_bytes m) @ '', '' @ source_value (mp_weight_size_source m);
          device = format_bytes (Some (gd_total_memory_bytes gpu))
      in if tp = 1
         then ''Why TP=1 is viable: model weights ('' @ weights @ '') fit within one '' @ device
           @ '' device with the requested context and headroom.''
         else ''Why TP'' @ ge_sign @ str_nat tp @ '': model weights ('' @ weights @ '') cannot safely fit on one '' @ device
           @ '' device at the requested precision and context; TP='' @ str_nat tp
           @ '' is the smallest viable tensor-parallel size.'')"

definition explain_plan :: "planning_result \<Rightarrow> model_profile \<Rightarrow> hardware_snapshot \<Rightarrow> string list" where
  "explain_plan result m hw =
     (case (pr_estimated_minimum_tp result, hs_gpus hw) of
        (Some tp, gpu # _) \<Rightarrow> [minimum_tp_line tp m gpu] | _ \<Rightarrow> [])
     @ (case viable result of
          [] \<Rightarrow> []
        | [p] \<Rightarrow> [''Only one structural topology is viable ('' @ label p
              @ ''); tuning will focus on concurrency and memory settings.'']
        | ps \<Rightarrow> [str_nat (length (pr_selected_gpu_ids result)) @ '' GPUs are selected. Viable layouts for benchmarking:'']
              @ map (\<lambda>(i, p). ''  '' @ option_letter i @ ''. '' @ label p) (enumerate 0 ps)
              @ [''The final topology will be selected by benchmarking, not by these estimates.''])"

section \<open>The explanation of a tuning outcome\<close>

definition pct_change :: "float64 \<Rightarrow> float64 \<Rightarrow> string" where
  "pct_change new old = (if old \<le> 0 then ''n/a'' else fmt_pct_sign 1 (fl_div (fl_sub new old) old))"

definition best_point :: "benchmark_result list \<Rightarrow> objective \<Rightarrow> benchmark_result option" where
  "best_point results obj =
     (let ok = filter (\<lambda>r. 0 < br_successful_requests r \<and> bs_label (br_spec r) \<noteq> Some ''final'') results
      in if obj = Latency then min_by br_latency_p95_ms ok else max_by br_output_tokens_per_second ok)"

definition compared_evaluations :: "candidate_evaluation list \<Rightarrow> candidate_evaluation list" where
  "compared_evaluations es = filter (\<lambda>e. ce_stage e \<in> {''structural'', ''concurrency''} \<and> ce_results e \<noteq> []) es"

definition eval_key :: "candidate_evaluation \<Rightarrow> string" where
  "eval_key e = structural_key (ce_plan e)"

definition results_by_key :: "candidate_evaluation list \<Rightarrow> (string \<times> benchmark_result list) list" where
  "results_by_key es = map (\<lambda>(k, rss). (k, concat rss)) (group_by eval_key ce_results (compared_evaluations es))"

definition last_plan :: "candidate_evaluation list \<Rightarrow> string \<Rightarrow> candidate_plan" where
  "last_plan es key = ce_plan (last (filter (\<lambda>e. eval_key e = key) (compared_evaluations es)))"

definition memory_sentence :: "candidate_plan \<Rightarrow> bool \<Rightarrow> string list" where
  "memory_sentence winner smaller_tp_excluded =
     (case cp_estimated_memory winner of None \<Rightarrow> []
      | Some est \<Rightarrow>
         if me_weights_bytes est = None then []
         else let tp = str_nat (cp_tensor_parallel_size winner); w = format_bytes (me_weights_bytes est)
         in if cp_tensor_parallel_size winner = 1
            then [''TP=1 is memory-safe for this model ('' @ w @ '' of weights per GPU).'']
            else if smaller_tp_excluded
            then [''TP='' @ tp @ '' keeps weights at ~'' @ w @ '' per GPU; smaller TP sizes did not fit statically.'']
            else [''TP='' @ tp @ '' keeps weights at ~'' @ w @ '' per GPU.''])"

definition replica_sentence :: "candidate_plan \<Rightarrow> string list" where
  "replica_sentence winner =
     (if 1 < cp_replica_count winner
      then [''TP='' @ str_nat (cp_tensor_parallel_size winner) @ '' permits '' @ str_nat (cp_replica_count winner)
        @ '' independent replicas across '' @ str_nat (gpu_count winner) @ '' GPUs.''] else [])"

definition rival_sentence :: "objective \<Rightarrow> benchmark_result \<Rightarrow> candidate_plan \<Rightarrow> benchmark_result \<Rightarrow> string" where
  "rival_sentence obj best rival other =
     (if obj = Latency
      then label rival @ '' reached p95 latency '' @ fmt_f0_commas (br_latency_p95_ms other) @ '' ms at best (concurrency ''
        @ str_int (br_concurrency other) @ '') vs '' @ fmt_f0_commas (br_latency_p95_ms best) @ '' ms for the winner (''
        @ pct_change (br_latency_p95_ms other) (br_latency_p95_ms best) @ '').''
      else label rival @ '' peaked at '' @ fmt_f0_commas (br_output_tokens_per_second other) @ '' output tok/s (concurrency ''
        @ str_int (br_concurrency other) @ '') vs '' @ fmt_f0_commas (br_output_tokens_per_second best) @ '' for the winner (''
        @ pct_change (br_output_tokens_per_second other) (br_output_tokens_per_second best) @ '').'')"

definition rival_engine_sentence :: "candidate_evaluation list \<Rightarrow> candidate_plan \<Rightarrow> objective \<Rightarrow> benchmark_result \<Rightarrow> string list" where
  "rival_engine_sentence es winner obj best =
     (let rivals = List.map_filter (\<lambda>(k, rs). if cp_engine (last_plan es k) = cp_engine winner then None
             else map_option (Pair k) (best_point rs obj)) (results_by_key es)
      in if obj = Latency then []
         else case max_by (\<lambda>kr. br_output_tokens_per_second (snd kr)) rivals of None \<Rightarrow> []
           | Some (k, other) \<Rightarrow> [engine_value (cp_engine winner) @ '' outperformed the best tested ''
               @ engine_value (cp_engine (last_plan es k)) @ '' candidate by ''
               @ pct_change (br_output_tokens_per_second best) (br_output_tokens_per_second other) @ '' output tok/s.''])"

definition comparison_sentences :: "candidate_evaluation list \<Rightarrow> candidate_plan \<Rightarrow> objective \<Rightarrow> string list" where
  "comparison_sentences es winner obj =
     (let by_key = results_by_key es; key = structural_key winner in
      case best_point (the_or (map_of by_key key) []) obj of None \<Rightarrow> []
      | Some best \<Rightarrow>
         if length by_key \<le> 1 then []
         else List.map_filter (\<lambda>(k, rs). if k = key then None
                else map_option (rival_sentence obj best (last_plan es k)) (best_point rs obj)) by_key
           @ rival_engine_sentence es winner obj best)"

text \<open>\<^verbatim>\<open>splitlines()[0]\<close>: there is no first line in an empty text, which raises.\<close>

definition first_line :: "string \<Rightarrow> string option" where
  "first_line t = (if t = [] then None else Some (takeWhile (\<lambda>c. \<not> line_break c) t))"

definition failure_sentence :: "candidate_evaluation \<Rightarrow> string option" where
  "failure_sentence e =
     (case ce_failure e of None \<Rightarrow> None
      | Some f \<Rightarrow> map_option (\<lambda>l. label (ce_plan e) @ '' failed to launch ('' @ failure_value (cf_type f) @ ''): '' @ take 140 l)
          (first_line (cf_message f)))"

definition failure_sentences :: "candidate_evaluation list \<Rightarrow> string list option" where
  "failure_sentences es =
     those (map failure_sentence (take 4 (filter (\<lambda>e. ce_status e = Failed \<and> ce_failure e \<noteq> None) es)))"

definition sweep_sentence :: "benchmark_result list \<Rightarrow> string list" where
  "sweep_sentence history =
     (if length history \<le> 1 then []
      else let pts = sort_key br_concurrency history
      in case max_by br_output_tokens_per_second pts of None \<Rightarrow> []
         | Some best \<Rightarrow> [''Concurrency was swept from '' @ str_int (br_concurrency (hd pts)) @ '' to ''
             @ str_int (br_concurrency (last pts)) @ ''; throughput peaked at ''
             @ fmt_f0_commas (br_output_tokens_per_second best) @ '' tok/s (concurrency '' @ str_int (br_concurrency best) @ '').''])"

definition capitalised :: "string \<Rightarrow> string" where
  "capitalised t = (case t of [] \<Rightarrow> [] | c # cs \<Rightarrow> upper_char c # cs)"

definition final_sentence :: "benchmark_result \<Rightarrow> string" where
  "final_sentence r =
     ''Final confirmation run ('' @ str_int (br_total_requests r) @ '' requests at concurrency '' @ str_int (br_concurrency r)
     @ ''): '' @ fmt_f0_commas (br_output_tokens_per_second r) @ '' output tok/s, p95 latency ''
     @ fmt_f0_commas (br_latency_p95_ms r) @ '' ms''
     @ (case br_ttft_p95_ms r of None \<Rightarrow> [] | Some t \<Rightarrow> '', p95 TTFT '' @ fmt_f0_commas t @ '' ms'')
     @ '', error rate '' @ fmt_pct 1 (br_error_rate r) @ ''.''"

definition build_rationale :: "candidate_plan \<Rightarrow> candidate_evaluation list \<Rightarrow> objective \<Rightarrow> benchmark_result list
    \<Rightarrow> string option \<Rightarrow> benchmark_result option \<Rightarrow> bool option \<Rightarrow> string option \<Rightarrow> bool \<Rightarrow> string list option" where
  "build_rationale winner es obj history reason final slo_satisfied memory_note smaller_tp_excluded =
     map_option (\<lambda>failures.
       memory_sentence winner smaller_tp_excluded @ replica_sentence winner @ comparison_sentences es winner obj
       @ failures @ sweep_sentence history
       @ (case reason of None \<Rightarrow> [] | Some t \<Rightarrow> if t = [] then [] else [capitalised t @ ''.''])
       @ (case memory_note of None \<Rightarrow> [] | Some n \<Rightarrow> if n = [] then [] else [n])
       @ (case final of None \<Rightarrow> [] | Some r \<Rightarrow> [final_sentence r])
       @ (if slo_satisfied = Some False
          then [''No tested configuration satisfied the requested SLO; this is the best observed configuration.''] else []))
     (failure_sentences es)"

section \<open>When the explanation exists, and what it rests on\<close>

lemma those_eq_None: "those xs = None \<longleftrightarrow> None \<in> set xs"
  by (induction xs) (auto split: option.splits)

lemma failure_sentence_None:
  "failure_sentence e = None \<longleftrightarrow> ce_failure e = None \<or> (\<exists>f. ce_failure e = Some f \<and> cf_message f = [])"
  by (auto simp: failure_sentence_def first_line_def split: option.splits)

lemma build_rationale_total:
  assumes "\<And>e f. e \<in> set es \<Longrightarrow> ce_failure e = Some f \<Longrightarrow> cf_message f \<noteq> []"
  shows "build_rationale winner es obj history reason final slo note smaller \<noteq> None"
proof -
  have "failure_sentence e \<noteq> None" if "e \<in> set (take 4 (filter (\<lambda>e. ce_status e = Failed \<and> ce_failure e \<noteq> None) es))" for e
    using that assms by (auto simp: failure_sentence_None dest!: in_set_takeD)
  then have "failure_sentences es \<noteq> None" unfolding failure_sentences_def those_eq_None by force
  then show ?thesis by (simp add: build_rationale_def)
qed

lemma best_point_measured:
  "best_point rs obj = Some r \<Longrightarrow> r \<in> set rs \<and> 0 < br_successful_requests r \<and> bs_label (br_spec r) \<noteq> Some ''final''"
  by (auto simp: best_point_def Let_def split: if_splits dest!: min_by_in max_by_in)

lemma empty_failure_message_raises:
  assumes "ce_status e = Failed" "ce_failure e = Some f" "cf_message f = []"
  shows "build_rationale winner (e # es) obj history reason final slo note smaller = None"
  using assms by (simp add: build_rationale_def failure_sentences_def failure_sentence_def first_line_def)

section \<open>A winner that did not outperform\<close>

text \<open>Two engines measured once each: the winner of an SLO-bound selection may be the slower one.\<close>

definition measured_candidate :: "string \<Rightarrow> engine_name \<Rightarrow> float64 \<Rightarrow> float64 \<Rightarrow> candidate_evaluation" where
  "measured_candidate i e tps lat = (new_evaluation (base_plan i e [[0]] 1 1 4096) ''structural'')\<lparr>ce_status := Benchmarked,
     ce_results := [demo_result 8 tps lat]\<rparr>"

text \<open>
  The explanation can claim an advantage the winner does not have: the sentence comparing engines
  says the winner outperformed the rival whatever the sign of the difference, here by -20.0%.
\<close>

theorem outperformed_by_negative_margin:
  "rival_engine_sentence [measured_candidate ''vllm-tp1-x1'' VLLM 400 500, measured_candidate ''sglang-tp1-x1'' SGLANG 500 3000]
     (base_plan ''vllm-tp1-x1'' VLLM [[0]] 1 1 4096) Throughput (demo_result 8 400 500)
   = [''vllm outperformed the best tested sglang candidate by -20.0% output tok/s.'']
   \<and> map_option (\<lambda>s. br_output_tokens_per_second (sr_result (sl_winner s)))
       (select_best (score_results [demo_result 8 400 500, demo_result 8 500 3000] Throughput (Some demo_slo) default_scoring)) = Some 400"
proof
  show "map_option (\<lambda>s. br_output_tokens_per_second (sr_result (sl_winner s)))
       (select_best (score_results [demo_result 8 400 500, demo_result 8 500 3000] Throughput (Some demo_slo) default_scoring)) = Some 400"
    by code_simp
  have p: "pct_change 400 500 = ''-20.0%''" by code_simp
  have k: "structural_key (base_plan ''vllm-tp1-x1'' VLLM [[0]] 1 1 4096) \<noteq> structural_key (base_plan ''sglang-tp1-x1'' SGLANG [[0]] 1 1 4096)"
    by (simp add: structural_key_def base_plan_def)
  let ?es = "[measured_candidate ''vllm-tp1-x1'' VLLM 400 500, measured_candidate ''sglang-tp1-x1'' SGLANG 500 3000]"
  have m: "eval_key (measured_candidate i e t l) = structural_key (base_plan i e [[0]] 1 1 4096)"
    "ce_results (measured_candidate i e t l) = [demo_result 8 t l]" "ce_plan (measured_candidate i e t l) = base_plan i e [[0]] 1 1 4096"
    "ce_stage (measured_candidate i e t l) = ''structural''" for i e t l
    by (simp_all add: measured_candidate_def new_evaluation_def eval_key_def)
  have c: "compared_evaluations ?es = ?es" by (simp add: compared_evaluations_def m)
  have b: "best_point [demo_result 8 t l] Throughput = Some (demo_result 8 t l)" for t l
    by (simp add: best_point_def demo_result_def demo_spec_def max_by_def)
  show "rival_engine_sentence ?es (base_plan ''vllm-tp1-x1'' VLLM [[0]] 1 1 4096) Throughput (demo_result 8 400 500)
      = [''vllm outperformed the best tested sglang candidate by -20.0% output tok/s.'']"
    unfolding rival_engine_sentence_def results_by_key_def last_plan_def c group_by_def Let_def
    using k by (simp add: m append_at_def AList.update.simps map_filter_def b max_by_def p)
      (simp add: base_plan_def demo_result_def p)
qed

end
