(* ===== verification/Tuner.thy ===== *)
theory Tuner
  imports Bench_Run Explain
begin

text \<open>
  \<^verbatim>\<open>benchmark/tuner.py\<close>: the staged search. The tuner's fields are a record threaded through the stages
  with an outcome that may be an exception. Benchmark results are Python objects shared by several
  evaluations and rescored in place, so they live in a store and evaluations hold references. The
  evaluator (launch, benchmark, close) is an argument over an arbitrary world; its calls and the
  persistence hook are recorded as a trace. Progress messages for the console are not modelled.
\<close>

section \<open>State, exceptions, references\<close>

datatype tune_error = No_viable_candidates string "string list" | Cleanup_failed candidate_failure
  | Invalid_spec | Raised string | Never_returns

datatype bench_exception = Bench_error string | Other_exception string

record session =
  se_plan :: candidate_plan
  se_launch_seconds :: float64
  se_engine_version :: "string option"
  se_runtime_metadata :: "(string \<times> json) list"

record tuning_settings =
  ts_max_structural_candidates :: nat
  ts_top_k :: nat
  ts_stage_a_requests :: int
  ts_sweep_requests :: int
  ts_final_multiplier :: int
  ts_memory_tuning :: bool
  ts_seed :: int
  ts_sweep_start :: int
  ts_sweep_max :: int
  ts_sweep_growth :: int
  ts_refinement_points :: nat
  ts_memory_step :: float64
  ts_memory_min_gain :: float64
  ts_scoring :: scoring_config
  ts_request_timeout_seconds :: float64

definition default_tuning :: tuning_settings where
  "default_tuning = \<lparr>ts_max_structural_candidates = 6, ts_top_k = 2, ts_stage_a_requests = 32, ts_sweep_requests = 32,
     ts_final_multiplier = 4, ts_memory_tuning = True, ts_seed = 1234, ts_sweep_start = 4, ts_sweep_max = 1024,
     ts_sweep_growth = 2, ts_refinement_points = 2, ts_memory_step = fl (4 / 100), ts_memory_min_gain = fl (2 / 100),
     ts_scoring = default_scoring, ts_request_timeout_seconds = 300\<rparr>"

text \<open>An evaluation whose results are references into the store.\<close>

record tuned =
  td_plan :: candidate_plan
  td_stage :: string
  td_status :: evaluation_status
  td_results :: "nat list"
  td_failure :: "candidate_failure option"
  td_launch_seconds :: "float64 option"
  td_engine_version :: "string option"
  td_runtime_metadata :: "(string \<times> json) list"
  td_notes :: "string list"

definition new_tuned :: "candidate_plan \<Rightarrow> string \<Rightarrow> string option \<Rightarrow> tuned" where
  "new_tuned p stage version = \<lparr>td_plan = p, td_stage = stage, td_status = Pending, td_results = [], td_failure = None,
     td_launch_seconds = None, td_engine_version = version, td_runtime_metadata = [], td_notes = []\<rparr>"

definition deref :: "benchmark_result list \<Rightarrow> nat list \<Rightarrow> benchmark_result list" where
  "deref store is = map (\<lambda>i. store ! i) is"

definition read_tuned :: "benchmark_result list \<Rightarrow> tuned \<Rightarrow> candidate_evaluation" where
  "read_tuned store e = \<lparr>ce_plan = td_plan e, ce_stage = td_stage e, ce_status = td_status e,
     ce_results = deref store (td_results e), ce_failure = td_failure e, ce_launch_seconds = td_launch_seconds e,
     ce_engine_version = td_engine_version e, ce_runtime_metadata = td_runtime_metadata e, ce_notes = td_notes e\<rparr>"

datatype tuner_event = Opened candidate_plan | Open_failed candidate_plan
  | Measured candidate_plan benchmark_result | Measure_failed candidate_plan | Closed_session candidate_plan
  | Persisted candidate_evaluation

record 'w tuner =
  tn_world :: 'w
  tn_store :: "benchmark_result list"
  tn_evaluations :: "tuned list"
  tn_notes :: "string list"
  tn_session :: "session option"
  tn_trace :: "tuner_event list"

record 'w tuner_env =
  tv_open :: "candidate_plan \<Rightarrow> 'w \<Rightarrow> (candidate_failure + session) \<times> 'w"
  tv_benchmark :: "session \<Rightarrow> benchmark_spec \<Rightarrow> 'w \<Rightarrow> (bench_exception + benchmark_result) \<times> 'w"
  tv_close :: "session \<Rightarrow> 'w \<Rightarrow> candidate_failure option \<times> 'w"
  tv_workload :: workload_profile
  tv_settings :: tuning_settings
  tv_completed :: "(string \<times> tuned) list"

type_synonym ('w, 'a) tm = "'w tuner \<Rightarrow> (tune_error + 'a) \<times> 'w tuner"

definition ret :: "'a \<Rightarrow> ('w, 'a) tm" where "ret x s = (Inr x, s)"
definition throw :: "tune_error \<Rightarrow> ('w, 'a) tm" where "throw e s = (Inl e, s)"
definition asks :: "('w tuner \<Rightarrow> 'a) \<Rightarrow> ('w, 'a) tm" where "asks f s = (Inr (f s), s)"
definition change :: "('w tuner \<Rightarrow> 'w tuner) \<Rightarrow> ('w, unit) tm" where "change f s = (Inr (), f s)"

definition bind :: "('w, 'a) tm \<Rightarrow> ('a \<Rightarrow> ('w, 'b) tm) \<Rightarrow> ('w, 'b) tm" where
  "bind m f s = (case m s of (Inl e, s') \<Rightarrow> (Inl e, s') | (Inr x, s') \<Rightarrow> f x s')"

definition andthen :: "('w, 'a) tm \<Rightarrow> ('w, 'b) tm \<Rightarrow> ('w, 'b) tm" where
  "andthen m n = bind m (\<lambda>_. n)"

text \<open>A \<^verbatim>\<open>for\<close> loop that collects what its body yields (\<open>None\<close>: the body said \<^verbatim>\<open>continue\<close>), and one that may break.\<close>

fun collect :: "('x \<Rightarrow> ('w, 'a option) tm) \<Rightarrow> 'x list \<Rightarrow> ('w, 'a list) tm" where
  "collect f [] = ret []"
| "collect f (x # xs) = bind (f x) (\<lambda>y. bind (collect f xs) (\<lambda>ys. ret (case y of None \<Rightarrow> ys | Some z \<Rightarrow> z # ys)))"

fun loop :: "('x \<Rightarrow> 'a \<Rightarrow> ('w, 'a \<times> bool) tm) \<Rightarrow> 'x list \<Rightarrow> 'a \<Rightarrow> ('w, 'a) tm" where
  "loop f [] a = ret a"
| "loop f (x # xs) a = bind (f x a) (\<lambda>r. if snd r then loop f xs (fst r) else ret (fst r))"

section \<open>Helpers of the tuner\<close>

definition tv_objective :: "'w tuner_env \<Rightarrow> objective" where
  "tv_objective env = wl_objective (tv_workload env)"

definition tv_slo :: "'w tuner_env \<Rightarrow> latency_constraints option" where
  "tv_slo env = wl_latency_constraints (tv_workload env)"

definition tv_scoring :: "'w tuner_env \<Rightarrow> scoring_config" where
  "tv_scoring env = ts_scoring (tv_settings env)"

definition emit :: "tuner_event \<Rightarrow> ('w, unit) tm" where
  "emit e = change (\<lambda>s. s\<lparr>tn_trace := tn_trace s @ [e]\<rparr>)"

definition record_evaluation :: "tuned \<Rightarrow> ('w, unit) tm" where
  "record_evaluation e = change (\<lambda>s. s\<lparr>tn_evaluations := tn_evaluations s @ [e],
     tn_trace := tn_trace s @ [Persisted (read_tuned (tn_store s) e)]\<rparr>)"

definition tuner_spec :: "'w tuner_env \<Rightarrow> int \<Rightarrow> int \<Rightarrow> string \<Rightarrow> benchmark_spec" where
  "tuner_spec env concurrency requests lbl =
     make_spec (tv_workload env) concurrency (max requests (2 * concurrency)) (ts_seed (tv_settings env)) (Some lbl)
       (if tv_objective env = Latency then wl_target_request_rate (tv_workload env) else None) Chat
       (ts_request_timeout_seconds (tv_settings env))"

definition note_once :: "string \<Rightarrow> ('w, unit) tm" where
  "note_once m = change (\<lambda>s. if m \<in> set (tn_notes s) then s else s\<lparr>tn_notes := tn_notes s @ [m]\<rparr>)"

definition default_concurrency_note :: string where
  "default_concurrency_note = ''No expected concurrency given for the latency objective; benchmarking at ''
     @ str_int DEFAULT_LATENCY_CONCURRENCY @ '' concurrent requests.''"

definition stage_a_concurrency :: "'w tuner_env \<Rightarrow> candidate_plan \<Rightarrow> ('w, int) tm" where
  "stage_a_concurrency env p =
     (case wl_expected_concurrency (tv_workload env) of
        Some c \<Rightarrow> ret c
      | None \<Rightarrow>
         if tv_objective env = Latency
         then andthen (note_once default_concurrency_note) (ret DEFAULT_LATENCY_CONCURRENCY)
         else let cap = int_or (cp_max_concurrency p) (int_or (cp_max_num_seqs p) 64 * int (cp_replica_count p))
              in ret (max 8 (max (2 * int (cp_replica_count p)) (min 256 (cap div 2)))))"

definition close_session :: "'w tuner_env \<Rightarrow> ('w, unit) tm" where
  "close_session env s =
     (case tn_session s of
        None \<Rightarrow> (Inr (), s)
      | Some se \<Rightarrow>
         let r = tv_close env se (tn_world s);
             s' = s\<lparr>tn_session := None, tn_world := snd r, tn_trace := tn_trace s @ [Closed_session (se_plan se)]\<rparr>
         in (case fst r of None \<Rightarrow> (Inr (), s') | Some f \<Rightarrow> (Inl (Cleanup_failed f), s')))"

definition launch :: "'w tuner_env \<Rightarrow> candidate_plan \<Rightarrow> ('w, candidate_failure + session) tm" where
  "launch env p s =
     (let r = tv_open env p (tn_world s)
      in case fst r of
           Inl f \<Rightarrow> (Inr (Inl f), s\<lparr>tn_world := snd r, tn_trace := tn_trace s @ [Open_failed p]\<rparr>)
         | Inr se \<Rightarrow> (Inr (Inr se), s\<lparr>tn_world := snd r, tn_session := Some se,
                        tn_trace := tn_trace s @ [Opened (se_plan se)]\<rparr>))"

definition serves :: "session \<Rightarrow> candidate_plan \<Rightarrow> bool" where
  "serves se p \<longleftrightarrow> structural_key (se_plan se) = structural_key p \<and> cp_memory_fraction (se_plan se) = cp_memory_fraction p"

definition open_session :: "'w tuner_env \<Rightarrow> candidate_plan \<Rightarrow> ('w, candidate_failure + session) tm" where
  "open_session env p =
     bind (asks tn_session) (\<lambda>cur.
       case cur of
         Some se \<Rightarrow> if serves se p then ret (Inr se) else andthen (close_session env) (launch env p)
       | None \<Rightarrow> launch env p)"

text \<open>One benchmark on a session; the result becomes a new object of the store. A spec whose concurrency or
  number of requests is below one does not validate.\<close>

definition measure_session :: "'w tuner_env \<Rightarrow> session \<Rightarrow> benchmark_spec \<Rightarrow> ('w, string + nat) tm" where
  "measure_session env se spec s =
     (if bs_concurrency spec < 1 \<or> bs_num_requests spec < 1 then (Inl Invalid_spec, s)
      else let r = tv_benchmark env se spec (tn_world s)
      in case fst r of
           Inl (Bench_error m) \<Rightarrow> (Inr (Inl m), s\<lparr>tn_world := snd r, tn_trace := tn_trace s @ [Measure_failed (se_plan se)]\<rparr>)
         | Inl (Other_exception m) \<Rightarrow>
             (Inl (Raised m), s\<lparr>tn_world := snd r, tn_trace := tn_trace s @ [Measure_failed (se_plan se)]\<rparr>)
         | Inr b \<Rightarrow> (Inr (Inr (length (tn_store s))), s\<lparr>tn_world := snd r, tn_store := tn_store s @ [b],
                      tn_trace := tn_trace s @ [Measured (se_plan se) b]\<rparr>))"

definition scored_refs :: "'w tuner_env \<Rightarrow> benchmark_result list \<Rightarrow> nat list \<Rightarrow> scored_result list" where
  "scored_refs env store is = score_results (deref store is) (tv_objective env) (tv_slo env) (tv_scoring env)"

definition write_score :: "nat \<Rightarrow> float64 \<Rightarrow> benchmark_result list \<Rightarrow> benchmark_result list" where
  "write_score i v store = store[i := (store ! i)\<lparr>br_score := Some v\<rparr>]"

definition write_scores :: "(nat \<times> float64) list \<Rightarrow> benchmark_result list \<Rightarrow> benchmark_result list" where
  "write_scores ws store = foldl (\<lambda>st (i, v). write_score i v st) store ws"

definition score_refs :: "'w tuner_env \<Rightarrow> nat list \<Rightarrow> ('w, unit) tm" where
  "score_refs env is = change (\<lambda>s. s\<lparr>tn_store := write_scores (zip is (map sr_score (scored_refs env (tn_store s) is))) (tn_store s)\<rparr>)"

section \<open>Stage A: structural search\<close>

text \<open>The launch configuration: the plan without its diagnostics.\<close>

definition launch_config :: "candidate_plan \<Rightarrow> candidate_plan" where
  "launch_config p = p\<lparr>cp_estimated_memory := None, cp_rationale := [], cp_viability := Unknown_viability, cp_heuristic_rank := None\<rparr>"

definition reusable :: "'w tuner_env \<Rightarrow> candidate_plan \<Rightarrow> tuned option" where
  "reusable env p =
     (case map_of (tv_completed env) (cp_id p) of None \<Rightarrow> None
      | Some prior \<Rightarrow> if launch_config (td_plan prior) = launch_config p then Some prior else None)"

definition failed_tuned :: "tuned \<Rightarrow> candidate_failure option \<Rightarrow> tuned" where
  "failed_tuned e f = e\<lparr>td_status := Failed, td_failure := f\<rparr>"

definition bench_failure :: "string \<Rightarrow> string \<Rightarrow> candidate_failure" where
  "bench_failure m stage = \<lparr>cf_type = UNKNOWN_FAILURE, cf_message = m, cf_stderr_tail = [], cf_stdout_tail = [],
     cf_exit_code = None, cf_stage = Some stage\<rparr>"

definition launched_tuned :: "tuned \<Rightarrow> session \<Rightarrow> tuned" where
  "launched_tuned e se = e\<lparr>td_launch_seconds := Some (se_launch_seconds se), td_runtime_metadata := se_runtime_metadata se\<rparr>"

definition stage_a_launched :: "'w tuner_env \<Rightarrow> candidate_plan \<Rightarrow> int \<Rightarrow> bool \<Rightarrow> session \<Rightarrow> ('w, tuned option) tm" where
  "stage_a_launched env p c is_last se =
     (let e = (launched_tuned (new_tuned (p\<lparr>cp_viability := Launch_validated\<rparr>) ''structural'' None) se)\<lparr>td_engine_version := se_engine_version se\<rparr>
      in bind (measure_session env se (tuner_spec env c (ts_stage_a_requests (tv_settings env)) ''stage-a'')) (\<lambda>r.
           case r of
             Inl m \<Rightarrow> andthen (record_evaluation (failed_tuned e (Some (bench_failure m ''benchmark''))))
                        (andthen (close_session env) (ret None))
           | Inr i \<Rightarrow> let done = e\<lparr>td_results := [i], td_status := Benchmarked\<rparr>
                      in andthen (record_evaluation done)
                           (andthen (if is_last then ret () else close_session env) (ret (Some done)))))"

definition stage_a_one :: "'w tuner_env \<Rightarrow> bool \<Rightarrow> candidate_plan \<Rightarrow> ('w, tuned option) tm" where
  "stage_a_one env is_last p =
     (case reusable env p of
        Some prior \<Rightarrow> andthen (change (\<lambda>s. s\<lparr>tn_evaluations := tn_evaluations s @ [prior]\<rparr>)) (ret (Some prior))
      | None \<Rightarrow>
         bind (stage_a_concurrency env p) (\<lambda>c.
         bind (open_session env p) (\<lambda>o1.
           case o1 of
             Inl f \<Rightarrow> andthen (record_evaluation (failed_tuned (new_tuned (p\<lparr>cp_viability := Launch_failed\<rparr>) ''structural'' None) (Some f)))
                        (ret None)
           | Inr se \<Rightarrow> stage_a_launched env p c is_last se)))"

definition stage_a :: "'w tuner_env \<Rightarrow> candidate_plan list \<Rightarrow> ('w, tuned list) tm" where
  "stage_a env candidates =
     bind (collect (\<lambda>(i, p). stage_a_one env (Suc i = length candidates) p) (enumerate 0 candidates)) (\<lambda>benchmarked.
       if list_ex (\<lambda>e. td_results e = []) benchmarked then throw (Raised ''IndexError'')
       else andthen (score_refs env (map (\<lambda>e. hd (td_results e)) benchmarked)) (ret benchmarked))"

section \<open>Stage B: concurrency sweeps\<close>

definition rank_structural :: "'w tuner_env \<Rightarrow> benchmark_result list \<Rightarrow> tuned list \<Rightarrow> tuned list" where
  "rank_structural env store es =
     map fst (sort_key (\<lambda>(e, sc). (\<not> eligible sc, - sr_score sc))
       (zip es (scored_refs env store (map (\<lambda>e. hd (td_results e)) es))))"

text \<open>The growth loop \<^verbatim>\<open>while c <= upper\<close> returns only when the concurrency outgrows the bound.\<close>

partial_function (option) grow_points :: "int \<Rightarrow> int \<Rightarrow> int \<Rightarrow> int list option" where
  "grow_points upper growth c =
     (if c \<le> upper then Option.bind (grow_points upper growth (c * growth)) (\<lambda>ps. Some (c # ps)) else Some [])"

declare grow_points.simps [code]

definition sweep_upper :: "'w tuner_env \<Rightarrow> candidate_plan \<Rightarrow> int" where
  "sweep_upper env p = min (ts_sweep_max (tv_settings env)) (int_or (cp_max_concurrency p) (ts_sweep_max (tv_settings env)))"

definition sweep_points :: "'w tuner_env \<Rightarrow> candidate_plan \<Rightarrow> int list option" where
  "sweep_points env p =
     map_option (\<lambda>ps. sort (remdups (if ps = [] \<or> last ps < sweep_upper env p then ps @ [sweep_upper env p] else ps)))
       (grow_points (sweep_upper env p) (ts_sweep_growth (tv_settings env)) (ts_sweep_start (tv_settings env)))"

text \<open>What a sweep updates: the history of the candidate and the evaluation being filled.\<close>

record sweep =
  sw_history :: "nat list"
  sw_evaluation :: tuned

definition add_note :: "string \<Rightarrow> sweep \<Rightarrow> sweep" where
  "add_note m w = w\<lparr>sw_evaluation := (sw_evaluation w)\<lparr>td_notes := td_notes (sw_evaluation w) @ [m]\<rparr>\<rparr>"

definition add_point :: "nat \<Rightarrow> sweep \<Rightarrow> sweep" where
  "add_point i w = \<lparr>sw_history = sw_history w @ [i],
     sw_evaluation = (sw_evaluation w)\<lparr>td_results := td_results (sw_evaluation w) @ [i]\<rparr>\<rparr>"

definition already_run :: "benchmark_result list \<Rightarrow> int \<Rightarrow> bool" where
  "already_run rs c \<longleftrightarrow> list_ex (\<lambda>r. br_concurrency r = c \<and> bs_label (br_spec r) \<noteq> Some ''stage-a'') rs"

definition run_point :: "'w tuner_env \<Rightarrow> session \<Rightarrow> int \<Rightarrow> sweep \<Rightarrow> string \<Rightarrow> ('w, sweep \<times> nat option) tm" where
  "run_point env se c w lbl =
     bind (asks tn_store) (\<lambda>store.
       if already_run (deref store (sw_history w)) c then ret (w, None)
       else bind (measure_session env se (tuner_spec env c (ts_sweep_requests (tv_settings env)) lbl)) (\<lambda>r.
         case r of Inl m \<Rightarrow> ret (add_note (''concurrency '' @ str_int c @ '': '' @ m) w, None)
                 | Inr i \<Rightarrow> ret (add_point i w, Some i)))"

definition sweep_verdict :: "'w tuner_env \<Rightarrow> benchmark_result list \<Rightarrow> nat list \<Rightarrow> sweep_decision" where
  "sweep_verdict env store is = should_continue_sweep (deref store is) (tv_slo env) (tv_scoring env)"

definition sweep_step :: "'w tuner_env \<Rightarrow> session \<Rightarrow> int \<Rightarrow> sweep \<times> nat list \<Rightarrow> ('w, (sweep \<times> nat list) \<times> bool) tm" where
  "sweep_step env se c st =
     bind (run_point env se c (fst st) ''sweep'') (\<lambda>r.
       case snd r of
         None \<Rightarrow> ret ((fst r, snd st), True)
       | Some i \<Rightarrow> bind (asks tn_store) (\<lambda>store.
           let d = sweep_verdict env store (snd st @ [i])
           in if fst d then ret ((fst r, snd st @ [i]), True)
              else ret ((add_note (''sweep stopped at '' @ str_int c @ '': '' @ snd d) (fst r), snd st @ [i]), False)))"

definition refinement_points :: "benchmark_result list \<Rightarrow> nat \<Rightarrow> int list" where
  "refinement_points history limit =
     (let ok = sort_key br_concurrency (filter (\<lambda>r. 0 < br_successful_requests r) history)
      in case max_by br_output_tokens_per_second ok of
           None \<Rightarrow> []
         | Some best \<Rightarrow>
             if length ok < 2 \<or> limit = 0 then []
             else let idx = length (takeWhile (\<lambda>r. r \<noteq> best) ok);
                    neighbours = (if idx + 1 < length ok then [(br_concurrency best + br_concurrency (ok ! (idx + 1))) div 2] else [])
                      @ (if 0 < idx then [(br_concurrency best + br_concurrency (ok ! (idx - 1))) div 2] else [])
             in filter (\<lambda>c. c \<notin> set (map br_concurrency ok) \<and> 0 < c) (take limit neighbours))"

definition sweep_throughput :: "'w tuner_env \<Rightarrow> session \<Rightarrow> candidate_plan \<Rightarrow> sweep \<Rightarrow> ('w, sweep) tm" where
  "sweep_throughput env se p w =
     (case sweep_points env p of
        None \<Rightarrow> throw Never_returns
      | Some points \<Rightarrow>
         bind (loop (sweep_step env se) points (w, [])) (\<lambda>st.
         bind (asks tn_store) (\<lambda>store.
           loop (\<lambda>c v. bind (run_point env se c v ''refine'') (\<lambda>r. ret (fst r, True)))
             (refinement_points (deref store (sw_history (fst st))) (ts_refinement_points (tv_settings env))) (fst st))))"

text \<open>The SLO search of the latency objective. \<open>fuel\<close> bounds the iterations of \<^verbatim>\<open>while c <= upper\<close>; it never runs
  out for a growth factor of at least two (\<open>latency_loop_fuel\<close> below).\<close>

fun latency_loop :: "'w tuner_env \<Rightarrow> session \<Rightarrow> int \<Rightarrow> nat \<Rightarrow> int \<Rightarrow> sweep \<times> nat list \<Rightarrow> ('w, sweep) tm" where
  "latency_loop env se upper 0 c st = throw Never_returns"
| "latency_loop env se upper (Suc fuel) c st =
     (if upper < c then ret (fst st)
      else bind (run_point env se c (fst st) ''sweep'') (\<lambda>r.
        case snd r of
          None \<Rightarrow> ret (fst r)
        | Some i \<Rightarrow> bind (asks tn_store) (\<lambda>store.
            let d = sweep_verdict env store (snd st @ [i])
            in if fst d then latency_loop env se upper fuel (c * ts_sweep_growth (tv_settings env)) (fst r, snd st @ [i])
               else ret (add_note (''sweep stopped at '' @ str_int c @ '': '' @ snd d) (fst r)))))"

definition sweep_latency :: "'w tuner_env \<Rightarrow> session \<Rightarrow> candidate_plan \<Rightarrow> sweep \<Rightarrow> ('w, sweep) tm" where
  "sweep_latency env se p w =
     (let base = int_or (wl_expected_concurrency (tv_workload env)) DEFAULT_LATENCY_CONCURRENCY
      in bind (run_point env se base w ''latency'') (\<lambda>r.
           if \<not> has_slo (tv_workload env) then ret (fst r)
           else bind (asks tn_store) (\<lambda>store.
             latency_loop env se (sweep_upper env p) (nat (sweep_upper env p) + 2) (base * ts_sweep_growth (tv_settings env))
               (fst r, filter (\<lambda>i. br_concurrency (store ! i) = base) (sw_history (fst r))))))"

definition stage_b_one :: "'w tuner_env \<Rightarrow> tuned \<Rightarrow> ('w, tuned option) tm" where
  "stage_b_one env e0 =
     (let p = td_plan e0; e = new_tuned p ''concurrency'' (td_engine_version e0)
      in bind (open_session env p) (\<lambda>o1.
           case o1 of
             Inl f \<Rightarrow> andthen (record_evaluation (failed_tuned e (Some f))) (ret None)
           | Inr se \<Rightarrow>
               bind ((if tv_objective env = Latency then sweep_latency else sweep_throughput) env se p
                       \<lparr>sw_history = td_results e0, sw_evaluation = e\<rparr>) (\<lambda>w.
                 let done = (sw_evaluation w)\<lparr>td_status :=
                       (if td_results (sw_evaluation w) \<noteq> [] \<or> sw_history w \<noteq> [] then Benchmarked else Failed)\<rparr>
                 in andthen (score_refs env (sw_history w)) (andthen (record_evaluation done) (ret (Some done))))))"

definition open_first :: "session option \<Rightarrow> tuned list \<Rightarrow> tuned list" where
  "open_first cur es =
     (case cur of None \<Rightarrow> es
      | Some se \<Rightarrow> sort_key (\<lambda>e. structural_key (td_plan e) \<noteq> structural_key (se_plan se)) es)"

definition stage_b :: "'w tuner_env \<Rightarrow> tuned list \<Rightarrow> ('w, tuned list) tm" where
  "stage_b env structural =
     bind (asks (\<lambda>s. open_first (tn_session s) (take (ts_top_k (tv_settings env)) (rank_structural env (tn_store s) structural)))) (\<lambda>ranked.
     bind (collect (stage_b_one env) ranked) (\<lambda>sweeps.
       if sweeps \<noteq> [] then ret sweeps
       else andthen (note_once ''No top candidate could be relaunched for the concurrency sweep; selecting on stage A results.'')
              (ret ranked)))"

section \<open>Selection\<close>

definition key_history :: "tuned list \<Rightarrow> string \<Rightarrow> nat list" where
  "key_history es key = concat (map td_results (filter (\<lambda>e. structural_key (td_plan e) = key) es))"

text \<open>The object among some references that a selection over their values returned.\<close>

definition ref_of :: "benchmark_result list \<Rightarrow> nat list \<Rightarrow> benchmark_result \<Rightarrow> nat" where
  "ref_of store is r = is ! length (takeWhile (\<lambda>i. store ! i \<noteq> r) is)"

definition operating_point :: "'w tuner_env \<Rightarrow> 'w tuner \<Rightarrow> tuned \<Rightarrow> (tuned \<times> nat \<times> string) option" where
  "operating_point env s e =
     (let history = key_history (tn_evaluations s) (structural_key (td_plan e))
      in map_option (\<lambda>(r, reason). (e, ref_of (tn_store s) history r, reason))
           (choose_concurrency (deref (tn_store s) history) (tv_objective env) (tv_slo env) (tv_scoring env)))"

definition pick_winner :: "'w tuner_env \<Rightarrow> tuned list \<Rightarrow> ('w, tuned \<times> nat \<times> string) tm" where
  "pick_winner env sweeps =
     bind (asks (\<lambda>s. List.map_filter (operating_point env s) sweeps)) (\<lambda>ops.
       if ops = [] then throw (No_viable_candidates ''no candidate produced a valid benchmark result'' [])
       else bind (asks (\<lambda>s. scored_refs env (tn_store s) (map (\<lambda>t. fst (snd t)) ops))) (\<lambda>scored.
         case select_best scored of
           None \<Rightarrow> throw (No_viable_candidates ''every benchmarked candidate exceeded the acceptable error rate'' [])
         | Some sel \<Rightarrow>
            let k = length (takeWhile (\<lambda>sc. sc \<noteq> sl_winner sel) scored) in
            andthen (loop (\<lambda>m u. andthen (note_once m) (ret (u, True))) (sl_notes sel) ())
            (andthen (change (\<lambda>s. s\<lparr>tn_store := write_scores
                 (take (Suc k) (zip (map (\<lambda>t. fst (snd t)) ops) (map sr_score scored))) (tn_store s)\<rparr>))
              (ret (ops ! k)))))"

section \<open>Stage C: memory tuning\<close>

type_synonym stage_result = "tuned \<times> nat \<times> string option"

definition memory_ceiling :: "memory_estimate \<Rightarrow> float64" where
  "memory_ceiling est =
     int_div \<lfloor>fl_mul (int_div (me_device_free_bytes est - GIB) (me_device_total_bytes est)) 100\<rfloor> 100"

definition raised_fraction :: "'w tuner_env \<Rightarrow> float64 \<Rightarrow> memory_estimate \<Rightarrow> float64" where
  "raised_fraction env f est = py_round2 (min (fl_add f (ts_memory_step (tv_settings env))) (memory_ceiling est))"

definition tuned_memory_plan :: "candidate_plan \<Rightarrow> float64 \<Rightarrow> candidate_plan" where
  "tuned_memory_plan p f = p\<lparr>cp_id := cp_id p @ ''-mem'' @ str_int (py_int (fl_mul f 100)), cp_memory_fraction := Some f\<rparr>"

definition memory_concurrencies :: "'w tuner_env \<Rightarrow> candidate_plan \<Rightarrow> int \<Rightarrow> int list" where
  "memory_concurrencies env p c0 =
     takeWhile (\<lambda>c. \<not> (truthy (cp_max_concurrency p) \<and> the (cp_max_concurrency p) * 2 < c))
       [c0, c0 * ts_sweep_growth (tv_settings env)]"

definition memory_verdict :: "'w tuner_env \<Rightarrow> tuned \<Rightarrow> nat \<Rightarrow> tuned \<Rightarrow> nat \<Rightarrow> string \<Rightarrow> string \<Rightarrow> ('w, stage_result) tm" where
  "memory_verdict env best best_ref tuned_eval i new_f old_f =
     bind (asks (\<lambda>s. scored_refs env (tn_store s) [best_ref, i])) (\<lambda>pair.
       let s0 = sr_score (pair ! 0); s1 = sr_score (pair ! 1);
           gain = fl_div (fl_sub s1 s0) (max s0 (fl (1 / 10 ^ 9)))
       in if eligible (pair ! 1) \<and> ts_memory_min_gain (tv_settings env) \<le> gain
          then andthen (change (\<lambda>s. s\<lparr>tn_store := write_score i s1 (tn_store s)\<rparr>))
                 (ret (tuned_eval, i, Some (''Raising the memory fraction to '' @ new_f @ '' improved the ''
                    @ objective_value (tv_objective env) @ '' score by '' @ fmt_pct 1 gain @ ''; adopted.'')))
          else andthen (close_session env)
                 (ret (best, best_ref, Some (''Raising the memory fraction to '' @ new_f @ '' changed the score by ''
                    @ fmt_pct_sign 1 gain @ '' (< '' @ fmt_pct 0 (ts_memory_min_gain (tv_settings env)) @ ''); keeping '' @ old_f @ ''.''))))"

definition try_memory :: "'w tuner_env \<Rightarrow> tuned \<Rightarrow> nat \<Rightarrow> float64 \<Rightarrow> float64 \<Rightarrow> ('w, stage_result) tm" where
  "try_memory env best best_ref old_fraction new_fraction =
     (let p = tuned_memory_plan (td_plan best) new_fraction; e = new_tuned p ''memory'' (td_engine_version best);
          new_f = fmt_f 2 new_fraction; old_f = fmt_f 2 old_fraction
      in andthen (close_session env) (bind (open_session env p) (\<lambda>o1.
         case o1 of
           Inl f \<Rightarrow> andthen (record_evaluation (failed_tuned e (Some f)))
             (ret (best, best_ref, Some (''Memory fraction '' @ new_f @ '' failed to launch ('' @ failure_value (cf_type f)
                @ ''); keeping '' @ old_f @ ''.'')))
         | Inr se \<Rightarrow>
             bind (asks (\<lambda>s. br_concurrency (tn_store s ! best_ref))) (\<lambda>c0.
             bind (loop (\<lambda>c w. bind (run_point env se c w ''memory'') (\<lambda>r. ret (fst r, True)))
                     (memory_concurrencies env (td_plan best) c0) \<lparr>sw_history = [], sw_evaluation = e\<rparr>) (\<lambda>w.
             let done = (sw_evaluation w)\<lparr>td_status := (if sw_history w \<noteq> [] then Benchmarked else Failed)\<rparr> in
             andthen (score_refs env (sw_history w)) (andthen (record_evaluation done)
             (bind (asks tn_store) (\<lambda>store.
               case choose_concurrency (deref store (sw_history w)) (tv_objective env) (tv_slo env) (tv_scoring env) of
                 None \<Rightarrow> ret (best, best_ref, Some (''Memory fraction '' @ new_f @ '' produced no valid result; keeping '' @ old_f @ ''.''))
               | Some (r, _) \<Rightarrow> memory_verdict env best best_ref done (ref_of store (sw_history w) r) new_f old_f))))))))"

definition stage_c :: "'w tuner_env \<Rightarrow> tuned \<Rightarrow> nat \<Rightarrow> ('w, stage_result) tm" where
  "stage_c env best best_ref =
     (if \<not> ts_memory_tuning (tv_settings env) \<or> tv_objective env = Latency then ret (best, best_ref, None)
      else case (cp_memory_fraction (td_plan best), cp_estimated_memory (td_plan best)) of
        (Some f, Some est) \<Rightarrow>
          if me_device_total_bytes est = 0 then throw (Raised ''ZeroDivisionError'')
          else let new = raised_fraction env f est
               in if new \<le> f then ret (best, best_ref, None) else try_memory env best best_ref f new
      | _ \<Rightarrow> ret (best, best_ref, None))"

section \<open>Stage D and the outcome\<close>

definition stage_d :: "'w tuner_env \<Rightarrow> tuned \<Rightarrow> nat \<Rightarrow> ('w, tuned \<times> nat) tm" where
  "stage_d env best best_ref =
     bind (asks (\<lambda>s. br_concurrency (tn_store s ! best_ref))) (\<lambda>c.
       let p = (td_plan best)\<lparr>cp_max_concurrency := Some c\<rparr>; e = new_tuned p ''final'' (td_engine_version best)
       in bind (open_session env p) (\<lambda>o1.
         case o1 of
           Inl f \<Rightarrow> andthen (record_evaluation (failed_tuned e (Some f)))
             (andthen (note_once ''Final confirmation launch failed; using the preliminary measurement as the final result.'')
               (ret (best, best_ref)))
         | Inr se \<Rightarrow>
             bind (measure_session env se (tuner_spec env (int_or (Some c) 1)
               (ts_sweep_requests (tv_settings env) * ts_final_multiplier (tv_settings env)) ''final'')) (\<lambda>r.
             case r of
               Inl m \<Rightarrow> andthen (record_evaluation (failed_tuned (launched_tuned e se) (Some (bench_failure m ''final''))))
                 (andthen (note_once (''Final confirmation benchmark failed ('' @ m @ ''); using the preliminary measurement.''))
                   (ret (best, best_ref)))
             | Inr i \<Rightarrow> let done = (launched_tuned e se)\<lparr>td_results := [i], td_status := Benchmarked\<rparr>
                        in andthen (score_refs env [i]) (andthen (record_evaluation done) (ret (done, i))))))"

definition all_failed_error :: "tuned list \<Rightarrow> tune_error" where
  "all_failed_error es = No_viable_candidates
     (''Every candidate failed to launch or benchmark.'' @ [CHR 0x0A]
       @ str_join [CHR 0x0A] (map (\<lambda>e. ''  - '' @ label (td_plan e) @ '': ''
            @ (case td_failure e of None \<Rightarrow> ''unknown'' | Some f \<Rightarrow> cf_message f)) (filter (\<lambda>e. td_status e = Failed) es)))
     [''Run with -vv to see engine logs.'', ''Try a smaller context (--context-length) or a lower --memory-headroom.'']"

definition search :: "'w tuner_env \<Rightarrow> candidate_plan list \<Rightarrow> ('w, tuned \<times> nat \<times> string \<times> string option) tm" where
  "search env candidates =
     bind (stage_a env candidates) (\<lambda>structural.
       if structural = [] then bind (asks tn_evaluations) (\<lambda>es. throw (all_failed_error es))
       else bind (stage_b env structural) (\<lambda>sweeps.
            bind (pick_winner env sweeps) (\<lambda>w.
            bind (stage_c env (fst w) (fst (snd w))) (\<lambda>c.
            bind (stage_d env (fst c) (fst (snd c))) (\<lambda>d.
            ret (fst d, snd d, snd (snd w), snd (snd c)))))))"

text \<open>\<^verbatim>\<open>try: ... finally: await self._close_session()\<close>: an exception of the close replaces the outcome.\<close>

definition finally_close :: "'w tuner_env \<Rightarrow> ('w, 'a) tm \<Rightarrow> ('w, 'a) tm" where
  "finally_close env m s =
     (let r = m s; c = close_session env (snd r)
      in case fst c of Inl e \<Rightarrow> (Inl e, snd c) | Inr _ \<Rightarrow> (fst r, snd c))"

definition smaller_tp_excluded :: "planning_result \<Rightarrow> tuned list \<Rightarrow> candidate_plan \<Rightarrow> bool" where
  "smaller_tp_excluded planning es winner \<longleftrightarrow>
     list_ex (\<lambda>x. the_or (ec_tensor_parallel_size x) 0 < cp_tensor_parallel_size winner
       \<and> contains ''memory'' (str_lower (ec_reason x))) (pr_excluded planning)
     \<and> \<not> list_ex (\<lambda>e. cp_tensor_parallel_size (td_plan e) < cp_tensor_parallel_size winner \<and> td_status e = Benchmarked) es"

record tuning_outcome =
  to_winner :: selected_plan
  to_evaluations :: "candidate_evaluation list"
  to_notes :: "string list"

definition tuned_winner_plan :: "tuned \<Rightarrow> benchmark_result \<Rightarrow> candidate_plan" where
  "tuned_winner_plan e r = (td_plan e)\<lparr>cp_max_concurrency := Some (br_concurrency r), cp_viability := Launch_validated\<rparr>"

definition outcome_of :: "'w tuner_env \<Rightarrow> planning_result \<Rightarrow> tuned \<Rightarrow> nat \<Rightarrow> string \<Rightarrow> string option \<Rightarrow> ('w, tuning_outcome) tm" where
  "outcome_of env planning final_eval i reason memory_note s =
     (let store = tn_store s; es = tn_evaluations s; result = store ! i;
          winner = tuned_winner_plan final_eval result;
          slo_ok = (if has_slo (tv_workload env) then Some (sr_slo_satisfied (hd (scored_refs env store [i]))) else None);
          rationale = build_rationale winner (map (read_tuned store) es) (tv_objective env)
            (deref store (key_history es (structural_key winner))) (Some reason) (Some result) slo_ok memory_note
            (smaller_tp_excluded planning es winner)
      in case rationale of
           None \<Rightarrow> (Inl (Raised ''IndexError''), s)
         | Some lines \<Rightarrow>
            (Inr \<lparr>to_winner = \<lparr>sp_plan = winner, sp_objective = tv_objective env, sp_benchmarked = True,
                sp_slo_satisfied = slo_ok, sp_final_result = Some result, sp_rationale = lines,
                sp_engine_version = td_engine_version final_eval, sp_equivalent_commands = [],
                sp_pareto_front = pareto_front (concat (map (\<lambda>e. deref store (td_results e)) es)), sp_source = Tuned\<rparr>,
              to_evaluations = map (read_tuned store) es, to_notes = tn_notes s\<rparr>, s))"

definition tune :: "'w tuner_env \<Rightarrow> planning_result \<Rightarrow> ('w, tuning_outcome) tm" where
  "tune env planning =
     (let candidates = take (ts_max_structural_candidates (tv_settings env)) (viable planning)
      in if candidates = [] then throw (No_viable_candidates ''no viable candidates to tune'' [])
         else bind (finally_close env (search env candidates)) (\<lambda>r.
           outcome_of env planning (fst r) (fst (snd r)) (fst (snd (snd r))) (snd (snd (snd r)))))"

text \<open>A new tuner: the completed evaluations of an interrupted run are loaded into the store, keyed by the plan's id.\<close>

fun load_completed :: "candidate_evaluation list \<Rightarrow> benchmark_result list \<Rightarrow> (string \<times> tuned) list
    \<Rightarrow> (string \<times> tuned) list \<times> benchmark_result list" where
  "load_completed [] store d = (d, store)"
| "load_completed (e # es) store d =
     (if ce_stage e = ''structural'' \<and> ce_status e = Benchmarked
      then load_completed es (store @ ce_results e)
        (AList.update (cp_id (ce_plan e))
          \<lparr>td_plan = ce_plan e, td_stage = ce_stage e, td_status = ce_status e,
           td_results = [length store..<length store + length (ce_results e)], td_failure = ce_failure e,
           td_launch_seconds = ce_launch_seconds e, td_engine_version = ce_engine_version e,
           td_runtime_metadata = ce_runtime_metadata e, td_notes = ce_notes e\<rparr> d)
      else load_completed es store d)"

definition tuner_start :: "'w \<Rightarrow> benchmark_result list \<Rightarrow> 'w tuner" where
  "tuner_start w store = \<lparr>tn_world = w, tn_store = store, tn_evaluations = [], tn_notes = [], tn_session = None, tn_trace = []\<rparr>"

section \<open>How many launches a tuning run can make\<close>

definition launches :: "'w tuner \<Rightarrow> nat" where
  "launches s = length (filter (\<lambda>e. case e of Opened _ \<Rightarrow> True | Open_failed _ \<Rightarrow> True | _ \<Rightarrow> False) (tn_trace s))"

definition costs :: "('w, 'a) tm \<Rightarrow> nat \<Rightarrow> bool" where
  "costs m k \<longleftrightarrow> (\<forall>s. launches (snd (m s)) \<le> launches s + k)"

named_theorems cost_rules \<open>launch bounds of the operations that launch nothing\<close>

lemma costs_mono: "costs m k \<Longrightarrow> k \<le> k' \<Longrightarrow> costs m k'"
  unfolding costs_def by (meson add_left_mono le_trans)

lemma costs_bind: "costs m k \<Longrightarrow> (\<And>x. costs (f x) l) \<Longrightarrow> costs (bind m f) (k + l)"
  unfolding costs_def
proof
  fix s assume m: "\<forall>s. launches (snd (m s)) \<le> launches s + k" and f: "\<And>x. \<forall>s. launches (snd (f x s)) \<le> launches s + l"
  obtain r s' where r: "m s = (r, s')" by fastforce
  then have "launches s' \<le> launches s + k" using m by (metis snd_conv)
  then show "launches (snd (bind m f s)) \<le> launches s + (k + l)"
  proof (cases r)
    case (Inr x)
    then show ?thesis using f[rule_format, of x s'] \<open>launches s' \<le> launches s + k\<close> by (simp add: bind_def r)
  qed (simp add: bind_def r)
qed

lemma costs_andthen: "costs m k \<Longrightarrow> costs n l \<Longrightarrow> costs (andthen m n) (k + l)"
  unfolding andthen_def by (rule costs_bind)

lemma costs_bind0 [cost_rules]: "costs m 0 \<Longrightarrow> (\<And>x. costs (f x) k) \<Longrightarrow> costs (bind m f) k"
  using costs_bind[of m 0 f k] by simp

lemma costs_andthen0 [cost_rules]: "costs m 0 \<Longrightarrow> costs n k \<Longrightarrow> costs (andthen m n) k"
  using costs_andthen[of m 0 n k] by simp

lemma costs_bind1: "costs m k \<Longrightarrow> (\<And>x. costs (f x) 0) \<Longrightarrow> costs (bind m f) k"
  using costs_bind[of m k f 0] by simp

lemma costs_simple [cost_rules]: "costs (ret x) k" "costs (throw e) k" "costs (asks f) k"
  by (simp_all add: costs_def ret_def throw_def asks_def)

lemma costs_cases [cost_rules]: "costs m k \<Longrightarrow> costs n k \<Longrightarrow> costs (if b then m else n) k"
  "costs m k \<Longrightarrow> (\<And>y. costs (g y) k) \<Longrightarrow> costs (case x of None \<Rightarrow> m | Some y \<Rightarrow> g y) k"
  "(\<And>y. costs (h y) k) \<Longrightarrow> (\<And>y. costs (j y) k) \<Longrightarrow> costs (case z of Inl y \<Rightarrow> h y | Inr y \<Rightarrow> j y) k"
  by (auto split: option.split sum.split)

lemma costs_change: "(\<And>s. launches (f s) \<le> launches s) \<Longrightarrow> costs (change f) k"
  by (simp add: costs_def change_def add.commute trans_le_add2)

lemma costs_updates [cost_rules]: "costs (record_evaluation e) k" "costs (note_once m) k" "costs (score_refs env is) k"
  "costs (change (\<lambda>s. s\<lparr>tn_store := f s\<rparr>)) k" "costs (change (\<lambda>s. s\<lparr>tn_evaluations := g s\<rparr>)) k"
  unfolding record_evaluation_def note_once_def score_refs_def by (rule costs_change; simp add: launches_def)+

lemma costs_close [cost_rules]: "costs (close_session env) k"
  by (auto simp: costs_def close_session_def launches_def Let_def split: option.splits)

lemma costs_measure [cost_rules]: "costs (measure_session env se spec) k"
  by (auto simp: costs_def measure_session_def launches_def Let_def split: sum.splits bench_exception.splits)

lemma costs_launch: "costs (launch env p) 1"
  by (auto simp: costs_def launch_def launches_def Let_def split: sum.splits)

lemma costs_open: "costs (open_session env p) 1"
  unfolding open_session_def by (intro cost_rules costs_launch)

lemma costs_collect: "(\<And>x. x \<in> set xs \<Longrightarrow> costs (f x) k) \<Longrightarrow> costs (collect f xs) (length xs * k)"
proof (induction xs)
  case (Cons x xs)
  then have c: "costs (f x) k" "costs (collect f xs) (length xs * k)" by auto
  have "costs (bind (f x) (\<lambda>y. bind (collect f xs) (\<lambda>ys. ret (case y of None \<Rightarrow> ys | Some z \<Rightarrow> z # ys)))) (k + length xs * k)"
    by (intro costs_bind c costs_bind1 costs_simple)
  then show ?case by simp
qed (simp add: costs_simple)

lemma costs_loop [cost_rules]: "(\<And>x a. costs (f x a) 0) \<Longrightarrow> costs (loop f xs a) 0"
  by (induction xs arbitrary: a) (simp_all add: costs_simple costs_bind0 costs_cases(1))

lemma costs_run_point [cost_rules]: "costs (run_point env se c w lbl) k"
  unfolding run_point_def by (intro cost_rules)

lemma costs_sweep_throughput [cost_rules]: "costs (sweep_throughput env se p w) 0"
  unfolding sweep_throughput_def sweep_step_def Let_def by (intro cost_rules)

lemma costs_latency_loop [cost_rules]: "costs (latency_loop env se upper fuel c st) 0"
proof (induction fuel arbitrary: c st)
  case (Suc fuel)
  show ?case unfolding latency_loop.simps Let_def by (intro cost_rules Suc)
qed (simp add: costs_simple)

lemma costs_sweep_latency [cost_rules]: "costs (sweep_latency env se p w) 0"
  unfolding sweep_latency_def Let_def by (intro cost_rules)

lemma costs_either_sweep [cost_rules]: "costs ((if b then sweep_latency else sweep_throughput) env se p w) 0"
  by (simp add: costs_sweep_latency costs_sweep_throughput)

lemma costs_stage_a_one: "costs (stage_a_one env l p) 1"
proof -
  have launched: "costs (stage_a_launched env p c l se) 0" for c se
    unfolding stage_a_launched_def Let_def by (intro cost_rules)
  have c: "costs (stage_a_concurrency env p) 0"
    unfolding stage_a_concurrency_def Let_def by (intro cost_rules)
  show ?thesis unfolding stage_a_one_def
    by (rule costs_cases(2), rule costs_bind0[OF c], rule costs_bind1[OF costs_open], intro cost_rules launched)
      (intro cost_rules)
qed

lemma costs_stage_a: "costs (stage_a env cs) (length cs)"
proof -
  have "costs (collect (\<lambda>(i, p). stage_a_one env (Suc i = length cs) p) (enumerate 0 cs)) (length (enumerate 0 cs) * 1)"
    using costs_stage_a_one by (intro costs_collect) auto
  then have c: "costs (collect (\<lambda>(i, p). stage_a_one env (Suc i = length cs) p) (enumerate 0 cs)) (length cs)" by simp
  show ?thesis unfolding stage_a_def by (rule costs_bind1[OF c], intro cost_rules)
qed

lemma costs_stage_b_one: "costs (stage_b_one env e) 1"
  unfolding stage_b_one_def Let_def
  by (rule costs_bind1[OF costs_open], intro cost_rules)

lemma costs_asks_bind: "(\<And>s. costs (f (g s)) k) \<Longrightarrow> costs (bind (asks g) f) k"
  by (simp add: costs_def bind_def asks_def)

lemma costs_stage_b: "costs (stage_b env es) (ts_top_k (tv_settings env))"
proof -
  have "costs (collect (stage_b_one env) (open_first cur (take k rs))) k" for cur k and rs :: "tuned list"
  proof -
    have "length (open_first cur (take k rs)) * 1 \<le> k" by (cases cur) (simp_all add: open_first_def)
    then show ?thesis by (rule costs_mono[OF costs_collect[OF costs_stage_b_one]])
  qed
  then show ?thesis unfolding stage_b_def by (intro costs_asks_bind costs_bind1 cost_rules)
qed

lemma costs_pick: "costs (pick_winner env sweeps) 0"
  unfolding pick_winner_def Let_def by (intro cost_rules)

lemma costs_stage_c: "costs (stage_c env best r) 1"
proof -
  have v: "costs (memory_verdict env best r e i a b) 0" for e i a b
    unfolding memory_verdict_def Let_def by (intro cost_rules)
  have "costs (try_memory env best r f g) 1" for f g
    unfolding try_memory_def Let_def
    by (rule costs_andthen0[OF costs_close], rule costs_bind1[OF costs_open], rule costs_cases(3)) (auto intro!: cost_rules v split: prod.split)
  then show ?thesis unfolding stage_c_def Let_def by (auto intro!: cost_rules split: option.split)
qed

lemma costs_stage_d: "costs (stage_d env best r) 1"
  unfolding stage_d_def Let_def
  by (rule costs_bind0[OF costs_simple(3)], rule costs_bind1[OF costs_open], intro cost_rules)

lemma costs_search: "costs (search env cs) (length cs + (ts_top_k (tv_settings env) + 2))"
proof -
  have d: "costs (bind (stage_d env a b) (\<lambda>d. ret (fst d, snd d, x, y))) 1" for a b x y
    by (rule costs_bind1[OF costs_stage_d costs_simple(1)])
  have c: "costs (bind (stage_c env a b) (\<lambda>c. bind (stage_d env (fst c) (fst (snd c))) (\<lambda>d. ret (fst d, snd d, x, snd (snd c))))) 2" for a b x
    using costs_bind[OF costs_stage_c d] by (simp add: numeral_2_eq_2)
  have p: "costs (bind (pick_winner env sw) (\<lambda>w. bind (stage_c env (fst w) (fst (snd w))) (\<lambda>c. bind (stage_d env (fst c) (fst (snd c)))
      (\<lambda>d. ret (fst d, snd d, snd (snd w), snd (snd c)))))) 2" for sw
    by (rule costs_bind0[OF costs_pick c])
  show ?thesis unfolding search_def
    by (rule costs_bind[OF costs_stage_a], rule costs_cases(1))
      (rule costs_bind0[OF costs_simple(3) costs_simple(2)], rule costs_bind[OF costs_stage_b p])
qed

text \<open>
  C26: Tuning has a launch budget: whatever the engines do, a run starts at most one launch for every structural
  candidate considered, one for every swept candidate, and two more for memory tuning and the final confirmation.
\<close>

theorem tune_launch_budget:
  "launches (snd (tune env planning s)) \<le> launches s + (ts_max_structural_candidates (tv_settings env) + ts_top_k (tv_settings env) + 2)"
proof -
  let ?cs = "take (ts_max_structural_candidates (tv_settings env)) (viable planning)"
  have "costs (finally_close env (search env ?cs)) (length ?cs + (ts_top_k (tv_settings env) + 2))"
    using costs_search[of env ?cs] costs_close[of env 0]
    by (auto simp: costs_def finally_close_def Let_def split: sum.splits) (meson le_trans)+
  moreover have "costs (outcome_of env planning a b c d) 0" for a b c d
    by (auto simp: costs_def outcome_of_def Let_def split: option.splits)
  ultimately have "costs (tune env planning) (length ?cs + (ts_top_k (tv_settings env) + 2))"
    unfolding tune_def Let_def by (intro costs_cases(1) costs_simple costs_bind1)
  then show ?thesis unfolding costs_def using min.cobounded2 by (smt (verit) add_le_mono add.assoc length_take le_trans order_refl)
qed

section \<open>The loops of the sweeps return\<close>

lemma grow_points_returns:
  assumes "1 \<le> c" "2 \<le> growth"
  shows "\<exists>ps. grow_points upper growth c = Some ps \<and> (\<forall>p \<in> set ps. c \<le> p \<and> p \<le> upper)"
  using assms
proof (induction "nat (upper + 1 - c)" arbitrary: c rule: less_induct)
  case less
  show ?case
  proof (cases "c \<le> upper")
    case True
    have grow: "c + 1 \<le> c * growth" using less.prems mult_left_mono[of 2 growth c] by linarith
    then obtain ps where "grow_points upper growth (c * growth) = Some ps" "\<forall>p \<in> set ps. c * growth \<le> p \<and> p \<le> upper"
      using less.hyps[of "c * growth"] less.prems True by auto
    then show ?thesis using True grow by (subst grow_points.simps) force
  next
    case False
    then show ?thesis by (subst grow_points.simps) simp
  qed
qed

text \<open>Without growth the loop cannot return: a list would have to be one longer than itself.\<close>

lemma grow_points_stuck:
  assumes "c \<le> upper"
  shows "grow_points upper 1 c = None"
proof -
  have "grow_points upper 1 c = Option.bind (grow_points upper 1 (c * 1)) (\<lambda>ps. Some (c # ps))"
    using assms by (subst grow_points.simps) (simp only: if_True)
  then show ?thesis by (cases "grow_points upper 1 c") simp_all
qed

definition sweep_settings_ok :: "tuning_settings \<Rightarrow> bool" where
  "sweep_settings_ok st \<longleftrightarrow> 1 \<le> ts_sweep_start st \<and> 2 \<le> ts_sweep_growth st"

lemma sweep_points_returns: "sweep_settings_ok (tv_settings env) \<Longrightarrow> sweep_points env p \<noteq> None"
  using grow_points_returns[of "ts_sweep_start (tv_settings env)" "ts_sweep_growth (tv_settings env)" "sweep_upper env p"]
  by (auto simp: sweep_points_def sweep_settings_ok_def)

definition returns :: "('w, 'a) tm \<Rightarrow> bool" where
  "returns m \<longleftrightarrow> (\<forall>s. fst (m s) \<noteq> Inl Never_returns)"

named_theorems return_rules \<open>operations that always return\<close>

lemma returns_bind [return_rules]: "returns m \<Longrightarrow> (\<And>x. returns (f x)) \<Longrightarrow> returns (bind m f)"
  by (auto simp: returns_def bind_def split: prod.split sum.split) (metis fst_conv)

lemma returns_andthen [return_rules]: "returns m \<Longrightarrow> returns n \<Longrightarrow> returns (andthen m n)"
  unfolding andthen_def by (rule returns_bind)

lemma returns_simple [return_rules]: "returns (ret x)" "returns (asks f)" "returns (change g)"
  by (simp_all add: returns_def ret_def asks_def change_def)

lemma returns_throw: "e \<noteq> Never_returns \<Longrightarrow> returns (throw e)"
  by (simp add: returns_def throw_def)

lemma returns_cases [return_rules]: "returns m \<Longrightarrow> returns n \<Longrightarrow> returns (if b then m else n)"
  "returns m \<Longrightarrow> (\<And>y. returns (g y)) \<Longrightarrow> returns (case x of None \<Rightarrow> m | Some y \<Rightarrow> g y)"
  "(\<And>y. returns (h y)) \<Longrightarrow> (\<And>y. returns (j y)) \<Longrightarrow> returns (case z of Inl y \<Rightarrow> h y | Inr y \<Rightarrow> j y)"
  "(\<And>a b. returns (k a b)) \<Longrightarrow> returns (case q of (a, b) \<Rightarrow> k a b)"
  by (auto split: option.split sum.split prod.split)

lemma returns_prims [return_rules]: "returns (record_evaluation e)" "returns (note_once m)" "returns (score_refs env is)"
  "returns (close_session env)" "returns (launch env p)" "returns (measure_session env se spec)"
  unfolding record_evaluation_def note_once_def score_refs_def
  by (auto simp: returns_def change_def close_session_def launch_def measure_session_def Let_def
      split: option.split sum.split bench_exception.split)

lemma returns_collect [return_rules]: "(\<And>x. returns (f x)) \<Longrightarrow> returns (collect f xs)"
  by (induction xs) (auto intro!: return_rules)

lemma returns_loop [return_rules]: "(\<And>x a. returns (f x a)) \<Longrightarrow> returns (loop f xs a)"
  by (induction xs arbitrary: a) (auto intro!: return_rules)

lemma returns_open [return_rules]: "returns (open_session env p)"
  unfolding open_session_def by (intro return_rules)

lemma returns_run_point [return_rules]: "returns (run_point env se c w lbl)"
  unfolding run_point_def by (intro return_rules)

lemma returns_latency_loop:
  "1 \<le> c \<Longrightarrow> 2 \<le> ts_sweep_growth (tv_settings env) \<Longrightarrow> upper + 1 < c + int fuel \<Longrightarrow> 0 < fuel \<Longrightarrow> returns (latency_loop env se upper fuel c st)"
proof (induction fuel arbitrary: c st)
  case (Suc fuel)
  let ?g = "ts_sweep_growth (tv_settings env)"
  show ?case
  proof (cases "upper < c")
    case True
    then show ?thesis by (simp add: returns_simple)
  next
    case False
    have "c + 1 \<le> c * ?g" using Suc.prems mult_left_mono[of 2 ?g c] by linarith
    then have next_ok: "returns (latency_loop env se upper fuel (c * ?g) st')" for st'
      using Suc.prems False by (intro Suc.IH) auto
    show ?thesis unfolding latency_loop.simps Let_def if_not_P[OF False] by (intro return_rules next_ok)
  qed
qed simp

lemma returns_either_sweep:
  assumes "sweep_settings_ok (tv_settings env)" "opt_all (\<lambda>c. 0 \<le> c) (wl_expected_concurrency (tv_workload env))"
  shows "returns ((if b then sweep_latency else sweep_throughput) env se p w)"
proof (cases b)
  case True
  let ?base = "int_or (wl_expected_concurrency (tv_workload env)) DEFAULT_LATENCY_CONCURRENCY"
  have "1 \<le> ?base" using assms(2)
    by (cases "wl_expected_concurrency (tv_workload env)") (auto simp: int_or_def DEFAULT_LATENCY_CONCURRENCY_def)
  then have "2 \<le> ?base * ts_sweep_growth (tv_settings env)"
    using assms(1) mult_mono[of 1 ?base 2 "ts_sweep_growth (tv_settings env)"] by (simp add: sweep_settings_ok_def)
  then have "returns (latency_loop env se (sweep_upper env p) (nat (sweep_upper env p) + 2) (?base * ts_sweep_growth (tv_settings env)) st)" for st
    using assms(1) by (intro returns_latency_loop) (auto simp: sweep_settings_ok_def)
  then show ?thesis using True unfolding sweep_latency_def Let_def by (simp only: if_True) (intro return_rules)
next
  case False
  obtain ps where "sweep_points env p = Some ps" using sweep_points_returns[OF assms(1)] by blast
  then show ?thesis using False unfolding sweep_throughput_def sweep_step_def Let_def
    by (simp only: if_False option.case) (intro return_rules)
qed

lemma returns_stage_a: "returns (stage_a env cs)"
proof -
  have "returns (stage_a_launched env p c l se)" for p c l se unfolding stage_a_launched_def Let_def by (intro return_rules)
  moreover have "returns (stage_a_concurrency env p)" for p unfolding stage_a_concurrency_def Let_def by (intro return_rules)
  ultimately have "returns (stage_a_one env l p)" for l p unfolding stage_a_one_def by (intro return_rules)
  then show ?thesis unfolding stage_a_def by (intro return_rules returns_throw) simp_all
qed

lemma returns_stage_b:
  assumes "sweep_settings_ok (tv_settings env)" "opt_all (\<lambda>c. 0 \<le> c) (wl_expected_concurrency (tv_workload env))"
  shows "returns (stage_b env es)"
proof -
  have "returns (stage_b_one env e)" for e
    unfolding stage_b_one_def Let_def by (intro return_rules returns_either_sweep assms)
  then show ?thesis unfolding stage_b_def by (intro return_rules)
qed

lemma returns_later: "returns (pick_winner env sweeps)" "returns (stage_c env best r)" "returns (stage_d env best r)"
proof -
  show "returns (pick_winner env sweeps)" unfolding pick_winner_def Let_def by (intro return_rules returns_throw) simp_all
  have "returns (memory_verdict env best r e i a b)" for e i a b unfolding memory_verdict_def Let_def by (intro return_rules)
  then have "returns (try_memory env best r f g)" for f g unfolding try_memory_def Let_def by (intro return_rules)
  then show "returns (stage_c env best r)" unfolding stage_c_def Let_def by (intro return_rules returns_throw) simp_all
  show "returns (stage_d env best r)" unfolding stage_d_def Let_def by (intro return_rules)
qed


section \<open>One session at a time\<close>

fun advance :: "tuner_event \<Rightarrow> candidate_plan option \<Rightarrow> candidate_plan option option" where
  "advance (Opened p) None = Some (Some p)"
| "advance (Open_failed p) None = Some None"
| "advance (Measured p r) (Some q) = (if p = q then Some (Some q) else None)"
| "advance (Measure_failed p) (Some q) = (if p = q then Some (Some q) else None)"
| "advance (Closed_session p) (Some q) = (if p = q then Some None else None)"
| "advance (Persisted e) cur = Some cur"
| "advance _ _ = None"

text \<open>What is running after a trace; \<open>None\<close> when the trace launched over a running session or used one that was not running.\<close>

definition protocol :: "tuner_event list \<Rightarrow> candidate_plan option option" where
  "protocol t = foldl (\<lambda>st e. Option.bind st (advance e)) (Some None) t"

lemma protocol_snoc [simp]: "protocol (t @ [e]) = Option.bind (protocol t) (advance e)" "protocol [] = Some None"
  by (simp_all add: protocol_def)

definition disciplined :: "'w tuner \<Rightarrow> bool" where
  "disciplined s \<longleftrightarrow> protocol (tn_trace s) = Some (map_option se_plan (tn_session s))"

definition safe :: "('w, 'a) tm \<Rightarrow> bool" where
  "safe m \<longleftrightarrow> (\<forall>s. disciplined s \<longrightarrow> disciplined (snd (m s)))"

text \<open>Operations that need a running session: those that leave it running, and those that may close it.\<close>

definition held :: "session \<Rightarrow> ('w, 'a) tm \<Rightarrow> bool" where
  "held se m \<longleftrightarrow> (\<forall>s. disciplined s \<and> tn_session s = Some se \<longrightarrow> disciplined (snd (m s)) \<and> tn_session (snd (m s)) = Some se)"

definition in_session :: "session \<Rightarrow> ('w, 'a) tm \<Rightarrow> bool" where
  "in_session se m \<longleftrightarrow> (\<forall>s. disciplined s \<and> tn_session s = Some se \<longrightarrow> disciplined (snd (m s)))"

named_theorems hold_rules \<open>operations that leave the running session running\<close>
named_theorems safe_rules \<open>operations that keep the session protocol\<close>

lemma bind_cases: "bind m f s = (case fst (m s) of Inl e \<Rightarrow> (Inl e, snd (m s)) | Inr x \<Rightarrow> f x (snd (m s)))"
  by (simp add: bind_def split: prod.split sum.split)

lemma held_bind [hold_rules]: "held se m \<Longrightarrow> (\<And>x. held se (f x)) \<Longrightarrow> held se (bind m f)"
  by (auto simp: held_def bind_cases split: sum.split)

lemma within_bind: "held se m \<Longrightarrow> (\<And>x. in_session se (f x)) \<Longrightarrow> in_session se (bind m f)"
  by (auto simp: held_def in_session_def bind_cases split: sum.split)

lemma safe_bind [safe_rules]: "safe m \<Longrightarrow> (\<And>x. safe (f x)) \<Longrightarrow> safe (bind m f)"
  by (auto simp: safe_def bind_cases split: sum.split)

lemma andthen_rules [hold_rules]: "held se m \<Longrightarrow> held se n \<Longrightarrow> held se (andthen m n)"
  unfolding andthen_def by (rule held_bind)

lemma within_andthen: "held se m \<Longrightarrow> in_session se n \<Longrightarrow> in_session se (andthen m n)"
  unfolding andthen_def by (rule within_bind)

lemma safe_andthen [safe_rules]: "safe m \<Longrightarrow> safe n \<Longrightarrow> safe (andthen m n)"
  unfolding andthen_def by (rule safe_bind)

lemma held_within: "held se m \<Longrightarrow> in_session se m" by (simp add: held_def in_session_def)
lemma safe_within: "safe m \<Longrightarrow> in_session se m" by (simp add: safe_def in_session_def)

lemma neutral_rules [hold_rules]: "held se (ret x)" "held se (throw e)" "held se (asks f)"
  by (simp_all add: held_def ret_def throw_def asks_def)

lemma neutral_safe [safe_rules]: "safe (ret x)" "safe (throw e)" "safe (asks f)"
  by (simp_all add: safe_def ret_def throw_def asks_def)

lemma hold_cases [hold_rules]: "held se m \<Longrightarrow> held se n \<Longrightarrow> held se (if b then m else n)"
  "held se m \<Longrightarrow> (\<And>y. held se (g y)) \<Longrightarrow> held se (case x of None \<Rightarrow> m | Some y \<Rightarrow> g y)"
  "(\<And>y. held se (h y)) \<Longrightarrow> (\<And>y. held se (j y)) \<Longrightarrow> held se (case z of Inl y \<Rightarrow> h y | Inr y \<Rightarrow> j y)"
  by (auto split: option.split sum.split)

lemma safe_cases [safe_rules]: "safe m \<Longrightarrow> safe n \<Longrightarrow> safe (if b then m else n)"
  "safe m \<Longrightarrow> (\<And>y. safe (g y)) \<Longrightarrow> safe (case x of None \<Rightarrow> m | Some y \<Rightarrow> g y)"
  "(\<And>y. safe (h y)) \<Longrightarrow> (\<And>y. safe (j y)) \<Longrightarrow> safe (case z of Inl y \<Rightarrow> h y | Inr y \<Rightarrow> j y)"
  by (auto split: option.split sum.split)

lemma quiet_updates [hold_rules]: "held se (record_evaluation e)" "held se (note_once m)" "held se (score_refs env is)"
  "held se (change (\<lambda>s. s\<lparr>tn_store := f s\<rparr>))" "held se (change (\<lambda>s. s\<lparr>tn_evaluations := g s\<rparr>))"
  by (auto simp: held_def record_evaluation_def note_once_def score_refs_def change_def disciplined_def)

lemma quiet_safe [safe_rules]: "safe (record_evaluation e)" "safe (note_once m)" "safe (score_refs env is)"
  "safe (change (\<lambda>s. s\<lparr>tn_store := f s\<rparr>))" "safe (change (\<lambda>s. s\<lparr>tn_evaluations := g s\<rparr>))"
  by (auto simp: safe_def record_evaluation_def note_once_def score_refs_def change_def disciplined_def)

lemma safe_close [safe_rules]: "safe (close_session env)"
  by (auto simp: safe_def close_session_def disciplined_def Let_def split: option.split)

lemma closed_after: "tn_session (snd (close_session env s)) = None"
  by (auto simp: close_session_def Let_def split: option.split)

lemma held_measure [hold_rules]: "held se (measure_session env se spec)"
  by (auto simp: held_def measure_session_def disciplined_def Let_def split: sum.split bench_exception.split)

text \<open>Opening a session: the work done with it runs with exactly that session open.\<close>

lemma launch_post: "disciplined s \<Longrightarrow> tn_session s = None \<Longrightarrow> disciplined (snd (launch env p s))
    \<and> (\<forall>se. fst (launch env p s) = Inr (Inr se) \<longrightarrow> tn_session (snd (launch env p s)) = Some se)"
  by (auto simp: launch_def disciplined_def Let_def split: sum.split)

lemma open_post:
  assumes "disciplined s"
  shows "disciplined (snd (open_session env p s))
    \<and> (\<forall>se. fst (open_session env p s) = Inr (Inr se) \<longrightarrow> tn_session (snd (open_session env p s)) = Some se)"
proof (cases "tn_session s")
  case None
  then show ?thesis using launch_post[OF assms None] by (simp add: open_session_def bind_cases asks_def)
next
  case (Some cur)
  show ?thesis
  proof (cases "serves cur p")
    case True
    then show ?thesis using Some assms by (simp add: open_session_def bind_cases asks_def ret_def)
  next
    case False
    let ?s = "snd (close_session env s)"
    have "disciplined ?s" using safe_close[of env] assms unfolding safe_def by blast
    from launch_post[OF this closed_after] show ?thesis using \<open>disciplined ?s\<close> Some False
      by (cases "fst (close_session env s)") (simp_all add: open_session_def andthen_def bind_cases asks_def)
  qed
qed

lemma safe_open_bind:
  assumes "\<And>f. safe (h f)" "\<And>se. in_session se (j se)"
  shows "safe (bind (open_session env p) (\<lambda>o1. case o1 of Inl f \<Rightarrow> h f | Inr se \<Rightarrow> j se))"
  unfolding safe_def
proof (intro allI impI)
  fix s :: "'a tuner" assume d: "disciplined s"
  note post = open_post[OF d, of env p]
  show "disciplined (snd (bind (open_session env p) (\<lambda>o1. case o1 of Inl f \<Rightarrow> h f | Inr se \<Rightarrow> j se) s))"
    using post assms unfolding bind_cases safe_def in_session_def by (auto split: sum.split)
qed

lemma held_loop [hold_rules]: "(\<And>x a. held se (f x a)) \<Longrightarrow> held se (loop f xs a)"
  by (induction xs arbitrary: a) (simp_all add: neutral_rules held_bind hold_cases(1))

lemma safe_loop [safe_rules]: "(\<And>x a. safe (f x a)) \<Longrightarrow> safe (loop f xs a)"
  by (induction xs arbitrary: a) (simp_all add: neutral_safe safe_bind safe_cases(1))

lemma safe_collect [safe_rules]: "(\<And>x. safe (f x)) \<Longrightarrow> safe (collect f xs)"
  by (induction xs) (simp_all add: neutral_safe safe_bind)

lemma held_run_point [hold_rules]: "held se (run_point env se c w lbl)"
  unfolding run_point_def by (intro hold_rules)

lemma held_latency_loop [hold_rules]: "held se (latency_loop env se upper fuel c st)"
proof (induction fuel arbitrary: c st)
  case (Suc fuel)
  show ?case unfolding latency_loop.simps Let_def by (intro hold_rules Suc)
qed (simp add: neutral_rules)

lemma held_sweeps [hold_rules]: "held se ((if b then sweep_latency else sweep_throughput) env se p w)"
proof -
  have "held se (sweep_latency env se p w)" unfolding sweep_latency_def Let_def by (intro hold_rules)
  moreover have "held se (sweep_throughput env se p w)" unfolding sweep_throughput_def sweep_step_def Let_def by (intro hold_rules)
  ultimately show ?thesis by simp
qed

lemma safe_stage_a: "safe (stage_a env cs)"
proof -
  have launched: "in_session se (stage_a_launched env p c l se)" for p c l se
    unfolding stage_a_launched_def Let_def
    by (rule within_bind[OF held_measure]) (auto intro!: within_andthen[OF quiet_updates(1)] safe_within safe_rules split: sum.split)
  have conc: "safe (stage_a_concurrency env p)" for p unfolding stage_a_concurrency_def Let_def by (intro safe_rules)
  have "safe (stage_a_one env l p)" for l p
    unfolding stage_a_one_def
    by (rule safe_cases(2), rule safe_bind[OF conc], rule safe_open_bind[OF _ launched]) (intro safe_rules)+
  then show ?thesis unfolding stage_a_def by (intro safe_rules) (auto intro: safe_rules split: prod.split)
qed

lemma safe_stage_b: "safe (stage_b env es)"
proof -
  have "safe (stage_b_one env e)" for e
    unfolding stage_b_one_def Let_def by (rule safe_open_bind, intro safe_rules, rule held_within, intro hold_rules)
  then show ?thesis unfolding stage_b_def by (intro safe_rules)
qed

lemma safe_later: "safe (pick_winner env sweeps)" "safe (stage_c env best r)" "safe (stage_d env best r)"
proof -
  show "safe (pick_winner env sweeps)" unfolding pick_winner_def Let_def by (intro safe_rules)
  have verdict: "in_session se (memory_verdict env best r e i a b)" for se e i a b
    unfolding memory_verdict_def Let_def by (rule safe_within, intro safe_rules)
  have "safe (try_memory env best r f g)" for f g
    unfolding try_memory_def Let_def
    by (rule safe_andthen[OF safe_close], rule safe_open_bind, intro safe_rules,
        intro within_bind[OF neutral_rules(3)] within_bind[OF held_loop] within_andthen[OF quiet_updates(3)] within_andthen[OF quiet_updates(1)] hold_rules)
      (auto intro: verdict held_within[OF neutral_rules(1)] split: option.split prod.split)
  then show "safe (stage_c env best r)" unfolding stage_c_def Let_def by (auto intro!: safe_rules split: option.split)
  show "safe (stage_d env best r)"
    unfolding stage_d_def Let_def
    by (rule safe_bind[OF neutral_safe(3)], rule safe_open_bind, intro safe_rules, rule held_within, intro hold_rules)
qed


section \<open>The winner rests on a measurement\<close>

definition unscored :: "benchmark_result \<Rightarrow> benchmark_result" where
  "unscored r = r\<lparr>br_score := None\<rparr>"

definition below :: "nat \<Rightarrow> nat list \<Rightarrow> bool" where
  "below k is \<longleftrightarrow> (\<forall>i \<in> set is. i < k)"

lemma below_mono: "below k is \<Longrightarrow> k \<le> l \<Longrightarrow> below l is"
  by (auto simp: below_def)

text \<open>Every object of the store was measured in this run or belongs to the given results, up to its score;
  every recorded evaluation refers to objects of the store.\<close>

definition grounded :: "benchmark_result set \<Rightarrow> 'w tuner \<Rightarrow> bool" where
  "grounded B s \<longleftrightarrow> (\<forall>r \<in> set (tn_store s). \<exists>r0. unscored r = unscored r0 \<and> (r0 \<in> B \<or> (\<exists>p. Measured p r0 \<in> set (tn_trace s))))
     \<and> (\<forall>e \<in> set (tn_evaluations s). below (length (tn_store s)) (td_results e))"

text \<open>From a store of at least \<open>n\<close> objects \<open>m\<close> stays grounded, loses no object and yields values fit for the store it leaves.\<close>

definition yields :: "benchmark_result set \<Rightarrow> nat \<Rightarrow> ('w, 'a) tm \<Rightarrow> (nat \<Rightarrow> 'a \<Rightarrow> bool) \<Rightarrow> bool" where
  "yields B n m V \<longleftrightarrow> (\<forall>s. grounded B s \<and> n \<le> length (tn_store s) \<longrightarrow>
     grounded B (snd (m s)) \<and> length (tn_store s) \<le> length (tn_store (snd (m s)))
     \<and> (\<forall>x. fst (m s) = Inr x \<longrightarrow> V (length (tn_store (snd (m s)))) x))"

abbreviation anything :: "nat \<Rightarrow> 'a \<Rightarrow> bool" where "anything \<equiv> \<lambda>_ _. True"

named_theorems yield_rules \<open>operations that keep the tuner grounded\<close>

lemma yields_bind:
  assumes "yields B n m V" "\<And>x k. n \<le> k \<Longrightarrow> V k x \<Longrightarrow> yields B k (f x) W"
  shows "yields B n (bind m f) W"
  unfolding yields_def
proof (intro allI impI)
  fix s :: "'a tuner" assume s: "grounded B s \<and> n \<le> length (tn_store s)"
  have m: "grounded B (snd (m s))" "length (tn_store s) \<le> length (tn_store (snd (m s)))"
    "\<And>x. fst (m s) = Inr x \<Longrightarrow> V (length (tn_store (snd (m s)))) x"
    using assms(1) s by (auto simp: yields_def)
  show "grounded B (snd (bind m f s)) \<and> length (tn_store s) \<le> length (tn_store (snd (bind m f s)))
     \<and> (\<forall>x. fst (bind m f s) = Inr x \<longrightarrow> W (length (tn_store (snd (bind m f s)))) x)"
  proof (cases "fst (m s)")
    case (Inr x)
    have "yields B (length (tn_store (snd (m s)))) (f x) W" using m(2,3) Inr s by (intro assms(2)) auto
    then show ?thesis using m(1,2) Inr by (auto simp: yields_def bind_cases intro: order_trans)
  qed (use m in \<open>simp add: bind_cases\<close>)
qed

lemma yields_weaken: "yields B n m V \<Longrightarrow> (\<And>k x. n \<le> k \<Longrightarrow> V k x \<Longrightarrow> W k x) \<Longrightarrow> yields B n m W"
  by (auto simp: yields_def intro: order_trans)

lemma yields_less: "yields B n m V \<Longrightarrow> n \<le> k \<Longrightarrow> yields B k m V"
  by (auto simp: yields_def)

lemma yields_andthen: "yields B n m V \<Longrightarrow> (\<And>k. n \<le> k \<Longrightarrow> yields B k f W) \<Longrightarrow> yields B n (andthen m f) W"
  unfolding andthen_def by (rule yields_bind) auto

lemma yields_ret: "(\<And>k. n \<le> k \<Longrightarrow> V k x) \<Longrightarrow> yields B n (ret x) V"
  by (simp add: yields_def ret_def)

lemma yields_throw: "yields B n (throw e) V"
  by (simp add: yields_def throw_def)

lemma yields_asks: "yields B n (asks f) anything"
  by (simp add: yields_def asks_def)

lemma yields_cases: "yields B n m V \<Longrightarrow> yields B n m' V \<Longrightarrow> yields B n (if b then m else m') V"
  "(x = None \<Longrightarrow> yields B n m V) \<Longrightarrow> (\<And>y. x = Some y \<Longrightarrow> yields B n (g y) V) \<Longrightarrow> yields B n (case x of None \<Rightarrow> m | Some y \<Rightarrow> g y) V"
  "(\<And>y. z = Inl y \<Longrightarrow> yields B n (h y) V) \<Longrightarrow> (\<And>y. z = Inr y \<Longrightarrow> yields B n (j y) V) \<Longrightarrow> yields B n (case z of Inl y \<Rightarrow> h y | Inr y \<Rightarrow> j y) V"
  by (auto split: option.split sum.split)

lemma write_scores_props:
  "length (write_scores ws store) = length store"
  "map unscored (write_scores ws store) = map unscored store"
proof -
  have one: "length (write_score i v st) = length st \<and> map unscored (write_score i v st) = map unscored st" for i v st
    by (cases "i < length st") (auto simp: write_score_def unscored_def map_update list_update_same_conv intro!: nth_equalityI simp: nth_list_update)
  show "length (write_scores ws store) = length store" "map unscored (write_scores ws store) = map unscored store"
    unfolding write_scores_def using one by (induction ws arbitrary: store) (auto split: prod.split)
qed

lemma grounded_rescored:
  assumes "grounded B s" "length st = length (tn_store s)" "map unscored st = map unscored (tn_store s)"
  shows "grounded B (s\<lparr>tn_store := st\<rparr>)"
proof -
  have "unscored ` set st = unscored ` set (tn_store s)" using assms(3) by (metis set_map)
  then have "\<exists>r' \<in> set (tn_store s). unscored r = unscored r'" if "r \<in> set st" for r using that by (metis image_iff)
  then show ?thesis using assms(1,2) by (fastforce simp: grounded_def)
qed

lemma yields_rescore: "yields B n (change (\<lambda>s. s\<lparr>tn_store := write_scores (ws s) (tn_store s)\<rparr>)) anything"
  by (auto simp: yields_def change_def write_scores_props intro!: grounded_rescored)

lemma yields_score_refs: "yields B n (score_refs env is) anything"
  unfolding score_refs_def by (rule yields_rescore)

lemma yields_write: "yields B n (change (\<lambda>s. s\<lparr>tn_store := write_score i v (tn_store s)\<rparr>)) anything"
  using yields_rescore[of B n "\<lambda>_. [(i, v)]"] by (simp add: write_scores_def)

lemma yields_record: "below n (td_results e) \<Longrightarrow> yields B n (record_evaluation e) anything"
  by (auto simp: yields_def record_evaluation_def change_def grounded_def intro: below_mono)

lemma yields_append: "below n (td_results e) \<Longrightarrow> yields B n (change (\<lambda>s. s\<lparr>tn_evaluations := tn_evaluations s @ [e]\<rparr>)) anything"
  by (auto simp: yields_def change_def grounded_def intro: below_mono)

lemma yields_note: "yields B n (note_once m) anything"
  by (auto simp: yields_def note_once_def change_def grounded_def)

lemma yields_close: "yields B n (close_session env) anything"
  by (auto simp: yields_def close_session_def grounded_def Let_def split: option.split)

lemma yields_launch: "yields B n (launch env p) anything"
  by (auto simp: yields_def launch_def grounded_def Let_def split: sum.split)

lemma yields_open: "yields B n (open_session env p) anything"
  unfolding open_session_def
  by (rule yields_bind[OF yields_asks], rule yields_cases(2), rule yields_launch, rule yields_cases(1))
    (auto intro: yields_ret yields_andthen[OF yields_close] yields_launch)

lemma yields_measure: "yields B n (measure_session env se spec) (\<lambda>k r. \<forall>i. r = Inr i \<longrightarrow> i < k)"
  by (fastforce simp: yields_def measure_session_def grounded_def below_def Let_def split: sum.split bench_exception.split)

lemma yields_collect:
  assumes "\<And>x k. x \<in> set xs \<Longrightarrow> n \<le> k \<Longrightarrow> yields B k (f x) (\<lambda>k y. \<forall>z. y = Some z \<longrightarrow> G k z)"
    and mono: "\<And>k l z. G k z \<Longrightarrow> k \<le> l \<Longrightarrow> G l z"
  shows "yields B n (collect f xs) (\<lambda>k ys. \<forall>z \<in> set ys. G k z)"
  using assms(1)
proof (induction xs arbitrary: n)
  case (Cons x xs)
  show ?case unfolding collect.simps
    by (rule yields_bind[OF Cons.prems[OF _ order_refl]], simp,
        rule yields_bind[OF Cons.IH], rule Cons.prems, simp, erule (1) order_trans, rule yields_ret)
      (auto split: option.split intro: mono)
qed (simp add: yields_ret)

lemma yields_loop:
  assumes "\<And>x a k. n \<le> k \<Longrightarrow> G k a \<Longrightarrow> yields B k (f x a) (\<lambda>k r. G k (fst r))" "G n a"
    and mono: "\<And>k l z. G k z \<Longrightarrow> k \<le> l \<Longrightarrow> G l z"
  shows "yields B n (loop f xs a) G"
  using assms(1,2)
proof (induction xs arbitrary: n a)
  case Nil
  then show ?case by (auto intro: yields_ret mono)
next
  case (Cons x xs)
  show ?case unfolding loop.simps
    by (rule yields_bind[OF Cons.prems(1)[OF order_refl Cons.prems(2)]], rule yields_cases(1), rule Cons.IH)
      (auto intro: yields_ret mono Cons.prems(1) order_trans)
qed

definition good :: "nat \<Rightarrow> tuned \<Rightarrow> bool" where
  "good k e \<longleftrightarrow> below k (td_results e)"

definition good_sweep :: "nat \<Rightarrow> sweep \<Rightarrow> bool" where
  "good_sweep k w \<longleftrightarrow> below k (sw_history w) \<and> good k (sw_evaluation w)"

definition good_pick :: "nat \<Rightarrow> tuned \<times> nat \<times> 'x \<Rightarrow> bool" where
  "good_pick k t \<longleftrightarrow> good k (fst t) \<and> fst (snd t) < k"

lemma good_mono: "good k e \<Longrightarrow> k \<le> l \<Longrightarrow> good l e" "good_sweep k w \<Longrightarrow> k \<le> l \<Longrightarrow> good_sweep l w"
  "good_pick k t \<Longrightarrow> k \<le> l \<Longrightarrow> good_pick l t"
  by (auto simp: good_def good_sweep_def good_pick_def intro: below_mono)

lemma good_updates [simp]: "good k (new_tuned p st v)" "good k (failed_tuned e f) = good k e" "good k (launched_tuned e se) = good k e"
  "good k (e\<lparr>td_status := x\<rparr>) = good k e" "good k (e\<lparr>td_engine_version := v\<rparr>) = good k e"
  "good k (e\<lparr>td_results := [i]\<rparr>) = (i < k)" "td_results (new_tuned p st v) = []" "below k []"
  "good_sweep k (add_note m w) = good_sweep k w" "good_sweep k (add_point i w) \<longleftrightarrow> good_sweep k w \<and> i < k"
  by (auto simp: good_def new_tuned_def failed_tuned_def launched_tuned_def good_sweep_def add_note_def add_point_def below_def)

lemma yields_recorded: "good n e \<Longrightarrow> yields B n (record_evaluation e) anything"
  unfolding good_def by (rule yields_record)

lemma yields_reads: "(\<And>s. grounded B s \<Longrightarrow> n \<le> length (tn_store s) \<Longrightarrow> V (length (tn_store s)) (f s)) \<Longrightarrow> yields B n (asks f) V"
  by (simp add: yields_def asks_def)

lemma yields_run_point:
  assumes "good_sweep n w"
  shows "yields B n (run_point env se c w lbl) (\<lambda>k r. good_sweep k (fst r))"
proof -
  have w: "good_sweep k w" if "n \<le> k" for k using assms that by (rule good_mono(2))
  show ?thesis unfolding run_point_def
    by (rule yields_bind[OF yields_asks], rule yields_cases(1), rule yields_ret, simp add: w,
        rule yields_bind[OF yields_measure], rule yields_cases(3))
      (rule yields_ret, simp add: w, rule yields_ret, simp add: w)
qed

lemma yields_either_sweep:
  assumes w: "good_sweep n w"
  shows "yields B n ((if b then sweep_latency else sweep_throughput) env se p w) good_sweep"
proof -
  have step: "yields B k (sweep_step env se c st) (\<lambda>k r. good_sweep k (fst (fst r)))" if "good_sweep k (fst st)" for k c st
    unfolding sweep_step_def
  proof (rule yields_bind[OF yields_run_point[OF that]])
    fix r :: "sweep \<times> nat option" and k' assume "k \<le> k'" "good_sweep k' (fst r)"
    then have g: "good_sweep l (fst r)" if "k' \<le> l" for l using that by (blast intro: good_mono(2))
    show "yields B k' (case snd r of None \<Rightarrow> ret ((fst r, snd st), True)
       | Some i \<Rightarrow> bind (asks tn_store) (\<lambda>store.
           let d = sweep_verdict env store (snd st @ [i])
           in if fst d then ret ((fst r, snd st @ [i]), True)
              else ret ((add_note (''sweep stopped at '' @ str_int c @ '': '' @ snd d) (fst r), snd st @ [i]), False)))
       (\<lambda>k r. good_sweep k (fst (fst r)))"
      unfolding Let_def
      by (rule yields_cases(2), rule yields_ret, simp add: g, rule yields_bind[OF yields_asks], rule yields_cases(1))
        (rule yields_ret, simp add: g)+
  qed
  have lat: "yields B k (latency_loop env se u fuel c st) good_sweep" if "good_sweep k (fst st)" for k u fuel c st
    using that
  proof (induction fuel arbitrary: k c st)
    case (Suc fuel)
    show ?case unfolding latency_loop.simps
    proof (rule yields_cases(1))
      show "yields B k (ret (fst st)) good_sweep" using Suc.prems by (auto intro: yields_ret good_mono(2))
      show "yields B k (bind (run_point env se c (fst st) ''sweep'') (\<lambda>r. case snd r of None \<Rightarrow> ret (fst r)
          | Some i \<Rightarrow> bind (asks tn_store) (\<lambda>store. let d = sweep_verdict env store (snd st @ [i])
              in if fst d then latency_loop env se u fuel (c * ts_sweep_growth (tv_settings env)) (fst r, snd st @ [i])
                 else ret (add_note (''sweep stopped at '' @ str_int c @ '': '' @ snd d) (fst r))))) good_sweep"
        by (rule yields_bind[OF yields_run_point[OF Suc.prems]], rule yields_cases(2), rule yields_ret, erule (1) good_mono(2),
            rule yields_bind[OF yields_asks], unfold Let_def, rule yields_cases(1), rule Suc.IH)
          (auto intro!: yields_ret intro: good_mono(2) order_trans)
    qed
  qed (simp add: yields_throw)
  show ?thesis
  proof (cases b)
    case True
    have "yields B n (sweep_latency env se p w) good_sweep"
      unfolding sweep_latency_def Let_def
      by (rule yields_bind[OF yields_run_point[OF w]], rule yields_cases(1), rule yields_ret, erule (1) good_mono(2),
          rule yields_bind[OF yields_asks], rule lat) (auto intro: good_mono(2) order_trans)
    then show ?thesis using True by simp
  next
    case False
    have refine: "yields B k (loop (\<lambda>c v. bind (run_point env se c v ''refine'') (\<lambda>r. ret (fst r, True))) cs v) good_sweep"
      if "good_sweep k v" for k cs v
      by (rule yields_loop[where G = good_sweep], rule yields_bind[OF yields_run_point], assumption)
        (auto intro!: yields_ret that intro: good_mono(2))
    have points: "yields B n (loop (sweep_step env se) cs (w, [])) (\<lambda>k st. good_sweep k (fst st))" for cs
      by (rule yields_loop) (auto intro: step good_mono(2) w)
    have "yields B n (sweep_throughput env se p w) good_sweep"
      unfolding sweep_throughput_def
      by (rule yields_cases(2), rule yields_throw, rule yields_bind[OF points], rule yields_bind[OF yields_asks], rule refine)
        (erule (1) good_mono(2))
    then show ?thesis using False by simp
  qed
qed

lemma yields_stage_a:
  assumes prior: "\<forall>(i, e) \<in> set (tv_completed env). good n e"
  shows "yields B n (stage_a env cs) (\<lambda>k es. \<forall>e \<in> set es. good k e)"
proof -
  have conc: "yields B k (stage_a_concurrency env p) anything" for k p
    unfolding stage_a_concurrency_def Let_def
    by (rule yields_cases(2), rule yields_cases(1), rule yields_andthen[OF yields_note]) (auto intro: yields_ret)
  have launched: "yields B k (stage_a_launched env p c l se) (\<lambda>k y. \<forall>z. y = Some z \<longrightarrow> good k z)" for k p c l se
    unfolding stage_a_launched_def Let_def
    by (rule yields_bind[OF yields_measure], rule yields_cases(3),
        rule yields_andthen[OF yields_recorded], simp, rule yields_andthen[OF yields_close], rule yields_ret, simp,
        rule yields_andthen[OF yields_recorded], simp, rule yields_andthen[OF yields_cases(1)[OF _ yields_close]], rule yields_ret, simp,
        rule yields_ret, simp)
  have one: "yields B k (stage_a_one env l p) (\<lambda>k y. \<forall>z. y = Some z \<longrightarrow> good k z)" if "n \<le> k" for k l p
    unfolding stage_a_one_def
  proof (rule yields_cases(2))
    show "yields B k (bind (stage_a_concurrency env p) (\<lambda>c. bind (open_session env p) (\<lambda>o1. case o1 of
        Inl f \<Rightarrow> andthen (record_evaluation (failed_tuned (new_tuned (p\<lparr>cp_viability := Launch_failed\<rparr>) ''structural'' None) (Some f))) (ret None)
      | Inr se \<Rightarrow> stage_a_launched env p c l se))) (\<lambda>k y. \<forall>z. y = Some z \<longrightarrow> good k z)"
      by (rule yields_bind[OF conc], rule yields_bind[OF yields_open], rule yields_cases(3), rule yields_andthen[OF yields_recorded])
        (auto intro: yields_ret launched)
  next
    fix e assume "reusable env p = Some e"
    then obtain i where "(i, e) \<in> set (tv_completed env)"
      by (auto simp: reusable_def split: option.splits if_splits dest: map_of_SomeD)
    then have "good l e" if "n \<le> l" for l using prior that by (auto intro: good_mono(1))
    then show "yields B k (andthen (change (\<lambda>s. s\<lparr>tn_evaluations := tn_evaluations s @ [e]\<rparr>)) (ret (Some e))) (\<lambda>k y. \<forall>z. y = Some z \<longrightarrow> good k z)"
      using \<open>n \<le> k\<close> by (intro yields_andthen[OF yields_append]) (auto simp: good_def intro!: yields_ret)
  qed
  have "yields B n (collect (\<lambda>(i, p). stage_a_one env (Suc i = length cs) p) (enumerate 0 cs)) (\<lambda>k es. \<forall>e \<in> set es. good k e)"
    by (rule yields_collect) (auto intro: one good_mono(1) split: prod.split)
  then show ?thesis unfolding stage_a_def
    by (rule yields_bind, intro yields_cases(1) yields_throw yields_andthen[OF yields_score_refs] yields_ret) (auto intro: good_mono(1))
qed

lemma yields_finish:
  assumes "good n e"
  shows "yields B n (andthen (score_refs env is) (andthen (record_evaluation (e\<lparr>td_status := x\<rparr>)) (ret (Some (e\<lparr>td_status := x\<rparr>)))))
    (\<lambda>k y. \<forall>z. y = Some z \<longrightarrow> good k z)"
proof -
  have g: "good k e" if "n \<le> k" for k using assms that by (rule good_mono(1))
  show ?thesis
    by (rule yields_andthen[OF yields_score_refs], rule yields_andthen[OF yields_recorded], simp add: g, rule yields_ret, simp add: g)
qed

lemma rank_structural_subset: "set (rank_structural env store es) \<subseteq> set es"
  by (auto simp: rank_structural_def dest: set_zip_leftD)

lemma yields_stage_b:
  assumes es: "\<forall>e \<in> set es. good n e"
  shows "yields B n (stage_b env es) (\<lambda>k es. \<forall>e \<in> set es. good k e)"
proof -
  have one: "yields B k (stage_b_one env e) (\<lambda>k y. \<forall>z. y = Some z \<longrightarrow> good k z)" if "good k e" for k e
  proof -
    have w: "good_sweep l \<lparr>sw_history = td_results e, sw_evaluation = new_tuned (td_plan e) ''concurrency'' (td_engine_version e)\<rparr>"
      if "k \<le> l" for l using \<open>good k e\<close> that by (auto simp: good_sweep_def good_def intro: below_mono)
    show ?thesis unfolding stage_b_one_def Let_def
      by (rule yields_bind[OF yields_open], rule yields_cases(3), rule yields_andthen[OF yields_recorded], simp, rule yields_ret, simp,
          rule yields_bind[OF yields_either_sweep[OF w]], assumption, rule yields_finish, simp add: good_sweep_def)
  qed
  have sub: "set (open_first cur (take m (rank_structural env st es))) \<subseteq> set es" for cur m st
    using rank_structural_subset[of env st es] by (cases cur) (auto simp: open_first_def dest: in_set_takeD)
  have read: "yields B n (asks (\<lambda>s. open_first (tn_session s) (take (ts_top_k (tv_settings env)) (rank_structural env (tn_store s) es))))
      (\<lambda>k rs. set rs \<subseteq> set es)"
    by (rule yields_reads) (rule sub)
  show ?thesis unfolding stage_b_def
  proof (rule yields_bind[OF read])
    fix rs k assume "n \<le> k" "set rs \<subseteq> set es"
    then have rs: "\<forall>e \<in> set rs. good l e" if "k \<le> l" for l using es that by (meson good_mono(1) le_trans subsetD)
    have "yields B k (collect (stage_b_one env) rs) (\<lambda>k es. \<forall>e \<in> set es. good k e)"
      by (rule yields_collect) (auto intro: one good_mono(1) rs[rule_format])
    then show "yields B k (bind (collect (stage_b_one env) rs) (\<lambda>sweeps. if sweeps \<noteq> [] then ret sweeps
        else andthen (note_once ''No top candidate could be relaunched for the concurrency sweep; selecting on stage A results.'') (ret rs)))
        (\<lambda>k es. \<forall>e \<in> set es. good k e)"
      by (rule yields_bind, intro yields_cases(1) yields_andthen[OF yields_note] yields_ret)
        (auto intro: good_mono(1) rs[rule_format])
  qed
qed

lemma takeWhile_short: "x \<in> set xs \<Longrightarrow> \<not> P x \<Longrightarrow> length (takeWhile P xs) < length xs"
  by (induction xs) auto

lemma ref_of_in: "r \<in> set (deref store is) \<Longrightarrow> ref_of store is r \<in> set is"
proof -
  assume "r \<in> set (deref store is)"
  then obtain i where "i \<in> set is" "\<not> (store ! i \<noteq> r)" by (auto simp: deref_def)
  then have "length (takeWhile (\<lambda>i. store ! i \<noteq> r) is) < length is" by (rule takeWhile_short)
  then show ?thesis by (simp add: ref_of_def)
qed

lemma choose_in: "choose_concurrency history obj slo cfg = Some (r, why) \<Longrightarrow> r \<in> set history"
proof (cases "obj = Latency")
  case True
  assume "choose_concurrency history obj slo cfg = Some (r, why)"
  then show ?thesis using True choose_latency[of history slo cfg r why] slo_pool_props(1)[of history cfg slo] by blast
next
  case False
  assume c: "choose_concurrency history obj slo cfg = Some (r, why)"
  obtain p ps where pool: "slo_pool (valid_points history cfg) slo = p # ps"
    "r = fst (foldl (prefer_step cfg) (p, ''concurrency '' @ str_int (br_concurrency p) @ '' is the only valid point'') ps)"
    using choose_walk[OF False, of history slo cfg] c by (cases "slo_pool (valid_points history cfg) slo") auto
  obtain pre post where "p # ps = pre @ r # post" using prefer_walk[of p ps cfg] unfolding pool(2) by blast
  then have "r \<in> set (slo_pool (valid_points history cfg) slo)" using pool(1) by simp
  then show ?thesis using slo_pool_props(1)[of history cfg slo] by blast
qed

lemma choose_ref:
  assumes "choose_concurrency (deref store is) obj slo cfg = Some (r, why)" "below k is"
  shows "ref_of store is r < k"
  using ref_of_in[OF choose_in[OF assms(1)]] assms(2) by (simp add: below_def)

lemma select_best_in: "select_best scored = Some sel \<Longrightarrow> sl_winner sel \<in> set scored"
  by (auto simp: select_best_def split: option.splits dest!: max_by_in)

lemma grounded_history:
  assumes "grounded B s"
  shows "below (length (tn_store s)) (key_history (tn_evaluations s) key)"
  using assms by (auto simp: grounded_def key_history_def below_def)

lemma yields_pick:
  assumes sweeps: "\<forall>e \<in> set sweeps. good n e"
  shows "yields B n (pick_winner env sweeps) good_pick"
proof -
  have ops: "yields B n (asks (\<lambda>s. List.map_filter (operating_point env s) sweeps)) (\<lambda>k ops. \<forall>t \<in> set ops. good_pick k t)"
  proof (rule yields_reads, rule ballI)
    fix s and t :: "tuned \<times> nat \<times> string"
    assume s: "grounded B s" "n \<le> length (tn_store s)" and "t \<in> set (List.map_filter (operating_point env s) sweeps)"
    then obtain e where e: "e \<in> set sweeps" "operating_point env s e = Some t"
      by (auto simp: map_filter_def)
    obtain r why where c: "choose_concurrency (deref (tn_store s) (key_history (tn_evaluations s) (structural_key (td_plan e))))
        (tv_objective env) (tv_slo env) (tv_scoring env) = Some (r, why)"
      and t: "t = (e, ref_of (tn_store s) (key_history (tn_evaluations s) (structural_key (td_plan e))) r, why)"
      using e(2) by (auto simp: operating_point_def Let_def)
    show "good_pick (length (tn_store s)) t"
      unfolding t good_pick_def using choose_ref[OF c grounded_history[OF s(1)]] sweeps e(1) s(2) by (auto intro: good_mono(1))
  qed
  show ?thesis unfolding pick_winner_def
  proof (rule yields_bind[OF ops], rule yields_cases(1), rule yields_throw, rule yields_bind[OF yields_reads])
    fix s and ops :: "(tuned \<times> nat \<times> string) list"
    show "length (scored_refs env (tn_store s) (map (\<lambda>t. fst (snd t)) ops)) = length ops"
      by (simp add: scored_refs_def score_results_def deref_def Let_def)
  next
    fix ops :: "(tuned \<times> nat \<times> string) list" and scored :: "scored_result list" and k k'
    assume good: "\<forall>t \<in> set ops. good_pick k t" "k \<le> k'" and len: "length scored = length ops"
    show "yields B k' (case select_best scored of
           None \<Rightarrow> throw (No_viable_candidates ''every benchmarked candidate exceeded the acceptable error rate'' [])
         | Some sel \<Rightarrow>
            let k = length (takeWhile (\<lambda>sc. sc \<noteq> sl_winner sel) scored) in
            andthen (loop (\<lambda>m u. andthen (note_once m) (ret (u, True))) (sl_notes sel) ())
            (andthen (change (\<lambda>s. s\<lparr>tn_store := write_scores
                 (take (Suc k) (zip (map (\<lambda>t. fst (snd t)) ops) (map sr_score scored))) (tn_store s)\<rparr>))
              (ret (ops ! k)))) good_pick"
    proof (rule yields_cases(2), rule yields_throw)
      fix sel assume "select_best scored = Some sel"
      then have "sl_winner sel \<in> set scored" by (rule select_best_in)
      then have "length (takeWhile (\<lambda>sc. sc \<noteq> sl_winner sel) scored) < length ops"
        unfolding len[symmetric] by (rule takeWhile_short) simp
      then have pick: "good_pick l (ops ! length (takeWhile (\<lambda>sc. sc \<noteq> sl_winner sel) scored))" if "k \<le> l" for l
        using good(1) that by (auto intro: good_mono(3))
      show "yields B k' (let k = length (takeWhile (\<lambda>sc. sc \<noteq> sl_winner sel) scored) in
            andthen (loop (\<lambda>m u. andthen (note_once m) (ret (u, True))) (sl_notes sel) ())
            (andthen (change (\<lambda>s. s\<lparr>tn_store := write_scores
                 (take (Suc k) (zip (map (\<lambda>t. fst (snd t)) ops) (map sr_score scored))) (tn_store s)\<rparr>))
              (ret (ops ! k)))) good_pick"
        unfolding Let_def
        by (rule yields_andthen[OF yields_loop[where G = anything]], rule yields_andthen[OF yields_note], rule yields_ret, simp, simp, simp,
            rule yields_andthen[OF yields_rescore], rule yields_ret, rule pick) (use good(2) in linarith)
    qed
  qed
qed

lemma yields_stage_c:
  assumes best: "good n best" "i < n"
  shows "yields B n (stage_c env best i) good_pick"
proof -
  have keep: "yields B k (ret (best, i, m)) good_pick" if "n \<le> k" for k and m :: "string option"
    by (rule yields_ret) (use best that good_mono(1)[OF best(1)] in \<open>simp add: good_pick_def\<close>)
  have verdict: "yields B k (memory_verdict env best i e j a b) good_pick" if "n \<le> k" "good k e" "j < k" for k e j a b
  proof -
    have adopt: "yields B l (ret (e, j, m)) good_pick" if "k \<le> l" for l and m :: "string option"
      by (rule yields_ret) (use that \<open>j < k\<close> good_mono(1)[OF \<open>good k e\<close>] in \<open>simp add: good_pick_def\<close>)
    show ?thesis unfolding memory_verdict_def Let_def
      by (rule yields_bind[OF yields_asks], rule yields_cases(1), rule yields_andthen[OF yields_write], rule adopt, simp,
          rule yields_andthen[OF yields_close], rule keep) (use that in linarith)
  qed
  have attempt: "yields B k (try_memory env best i f g) good_pick" if "n \<le> k" for k f g
    unfolding try_memory_def Let_def
  proof (rule yields_andthen[OF yields_close], rule yields_bind[OF yields_open], rule yields_cases(3), goal_cases)
    case (1 l x l' y)
    then show ?case by (intro yields_andthen[OF yields_recorded] keep) (use that in simp_all)
  next
    case (2 l x l' se)
    have init: "good_sweep m \<lparr>sw_history = [], sw_evaluation = new_tuned p ''memory'' v\<rparr>" for m p v
      by (simp add: good_sweep_def)
    have sweep: "yields B m (loop (\<lambda>c w. bind (run_point env se c w ''memory'') (\<lambda>r. ret (fst r, True))) cs
        \<lparr>sw_history = [], sw_evaluation = new_tuned p ''memory'' v\<rparr>) good_sweep" for m cs p v
      by (rule yields_loop[where G = good_sweep], rule yields_bind[OF yields_run_point], assumption)
        (auto intro!: yields_ret init intro: good_mono(2))
    show ?case
    proof (rule yields_bind[OF yields_asks], rule yields_bind[OF sweep], goal_cases)
      case (1 c m w m')
      have ok: "good_sweep q w" if "m' \<le> q" for q using 1 that by (auto intro: good_mono(2))
      then have g: "good q ((sw_evaluation w)\<lparr>td_status := st\<rparr>)" "below q (sw_history w)" if "m' \<le> q" for q st
        using that by (auto simp: good_sweep_def)
      have big: "n \<le> m'" using 1 2 that by linarith
      show ?case
      proof (rule yields_andthen[OF yields_score_refs], rule yields_andthen[OF yields_recorded], simp only: g, rule yields_bind[OF yields_asks], rule yields_cases(2), goal_cases)
        case (1 q q' store q'')
        then show ?case by (intro keep) (use big in linarith)
      next
        case (2 q q' store q'' y)
        obtain r why where y: "y = (r, why)" by fastforce
        have q'': "m' \<le> q''" using 2 by linarith
        have "ref_of store (sw_history w) r < q''" using choose_ref[OF 2(5)[unfolded y] g(2)[OF q'']] .
        moreover have "n \<le> q''" using big q'' by linarith
        ultimately show ?case unfolding y prod.case by (intro verdict g(1)[OF q''])
      qed
    qed
  qed
  show ?thesis unfolding stage_c_def Let_def
    by (auto intro!: yields_cases(1) keep yields_throw attempt split: option.split)
qed

lemma yields_stage_d:
  assumes best: "good n best" "i < n"
  shows "yields B n (stage_d env best i) (\<lambda>k r. snd r < k)"
proof -
  have keep: "yields B k (ret (best, i)) (\<lambda>k r. snd r < k)" if "n \<le> k" for k
    using best that by (auto intro!: yields_ret)
  show ?thesis unfolding stage_d_def Let_def
  proof (rule yields_bind[OF yields_asks], rule yields_bind[OF yields_open], rule yields_cases(3), goal_cases)
    case (1 c k o1 k' f)
    then show ?case by (intro yields_andthen[OF yields_recorded] yields_andthen[OF yields_note] keep) simp_all
  next
    case (2 c k o1 k' se)
    then show ?case
    proof (intro yields_bind[OF yields_measure] yields_cases(3), goal_cases)
      case (1 r l m)
      then show ?case by (intro yields_andthen[OF yields_recorded] yields_andthen[OF yields_note] keep) simp_all
    next
      case (2 r l j)
      then show ?case by (intro yields_andthen[OF yields_score_refs] yields_andthen[OF yields_recorded] yields_ret) simp_all
    qed
  qed
qed

lemma yields_search:
  assumes prior: "\<forall>(i, e) \<in> set (tv_completed env). good n e"
  shows "yields B n (search env cs) (\<lambda>k r. fst (snd r) < k)"
  unfolding search_def
proof (rule yields_bind[OF yields_stage_a[OF prior]], rule yields_cases(1), rule yields_bind[OF yields_asks yields_throw],
    rule yields_bind[OF yields_stage_b], assumption, rule yields_bind[OF yields_pick], assumption,
    rule yields_bind[OF yields_stage_c], simp add: good_pick_def, simp add: good_pick_def,
    rule yields_bind[OF yields_stage_d], simp add: good_pick_def, simp add: good_pick_def, rule yields_ret)
qed simp

lemma load_completed_props:
  assumes "load_completed es st d = (d', st')" "\<forall>(i, e) \<in> set d. good (length st) e"
  shows "\<forall>(i, e) \<in> set d'. good (length st') e"
    "set st' \<subseteq> set st \<union> (\<Union>e \<in> set es. set (ce_results e))"
proof -
  have "load_completed es st d = (d', st') \<Longrightarrow> \<forall>(i, e) \<in> set d. good (length st) e \<Longrightarrow>
      (\<forall>(i, e) \<in> set d'. good (length st') e) \<and> set st' \<subseteq> set st \<union> (\<Union>e \<in> set es. set (ce_results e))"
  proof (induction es st d rule: load_completed.induct)
    case (2 e es st d)
    show ?case
    proof (cases "ce_stage e = ''structural'' \<and> ce_status e = Benchmarked")
      case True
      let ?new = "\<lparr>td_plan = ce_plan e, td_stage = ce_stage e, td_status = ce_status e,
           td_results = [length st..<length st + length (ce_results e)], td_failure = ce_failure e,
           td_launch_seconds = ce_launch_seconds e, td_engine_version = ce_engine_version e,
           td_runtime_metadata = ce_runtime_metadata e, td_notes = ce_notes e\<rparr>"
      have new: "good (length (st @ ce_results e)) ?new" by (simp add: good_def below_def)
      have old: "\<forall>(i, e') \<in> set d. good (length (st @ ce_results e)) e'" using 2(4) by (auto intro: good_mono(1))
      have "\<forall>(i, e') \<in> set (AList.update (cp_id (ce_plan e)) ?new d). good (length (st @ ce_results e)) e'"
        using new old by (auto dest!: in_set_update)
      moreover have "load_completed es (st @ ce_results e) (AList.update (cp_id (ce_plan e)) ?new d) = (d', st')"
        using 2(3) True by simp
      ultimately have "(\<forall>(i, e) \<in> set d'. good (length st') e) \<and> set st' \<subseteq> set (st @ ce_results e) \<union> (\<Union>e \<in> set es. set (ce_results e))"
        using 2(1)[OF True] by blast
      then show ?thesis by auto
    next
      case False
      then have "load_completed es st d = (d', st')" using 2(3) by (simp split: if_splits)
      then have "(\<forall>(i, e) \<in> set d'. good (length st') e) \<and> set st' \<subseteq> set st \<union> (\<Union>e \<in> set es. set (ce_results e))"
        using 2(2)[OF False] 2(4) by blast
      then show ?thesis by auto
    qed
  qed auto
  then show "\<forall>(i, e) \<in> set d'. good (length st') e" "set st' \<subseteq> set st \<union> (\<Union>e \<in> set es. set (ce_results e))"
    using assms by blast+
qed


section \<open>A resumed run on a machine that no longer launches anything\<close>

definition refusal :: candidate_failure where
  "refusal = \<lparr>cf_type = OOM, cf_message = ''no memory'', cf_stderr_tail = [], cf_stdout_tail = [], cf_exit_code = None, cf_stage = Some ''prelaunch''\<rparr>"

text \<open>One candidate was measured in the interrupted run; every launch is refused in this one.\<close>

definition resumed_evaluation :: "candidate_plan \<Rightarrow> string option \<Rightarrow> candidate_evaluation" where
  "resumed_evaluation p version = (new_evaluation p ''structural'')\<lparr>ce_status := Benchmarked, ce_engine_version := version,
     ce_results := [demo_result 8 400 1000]\<rparr>"

definition resumed_tuned :: "candidate_plan \<Rightarrow> string option \<Rightarrow> tuned" where
  "resumed_tuned p version = (new_tuned p ''structural'' version)\<lparr>td_results := [0], td_status := Benchmarked\<rparr>"

definition refusing :: "candidate_plan \<Rightarrow> string option \<Rightarrow> nat tuner_env \<Rightarrow> bool" where
  "refusing p version env \<longleftrightarrow>
     tv_open env = (\<lambda>p w. (Inl refusal, Suc w)) \<and> tv_completed env = fst (load_completed [resumed_evaluation p version] [] [])
     \<and> tv_objective env = Latency \<and> tv_slo env = None \<and> tv_scoring env = default_scoring
     \<and> ts_max_structural_candidates (tv_settings env) = 6 \<and> ts_top_k (tv_settings env) = 2"

definition resumed_plan :: candidate_plan where
  "resumed_plan = (base_plan ''vllm-tp1-x1'' VLLM [[0]] 1 1 4096)\<lparr>cp_viability := Estimated_viable\<rparr>"

definition refusing_env :: "nat tuner_env" where
  "refusing_env = \<lparr>tv_open = (\<lambda>p w. (Inl refusal, Suc w)), tv_benchmark = (\<lambda>se spec w. (Inl (Bench_error ''unreachable''), w)),
     tv_close = (\<lambda>se w. (None, w)),
     tv_workload = demo_workload\<lparr>wl_objective := Latency, wl_expected_concurrency := Some 2, wl_latency_constraints := None\<rparr>,
     tv_settings = default_tuning, tv_completed = fst (load_completed [resumed_evaluation resumed_plan None] [] [])\<rparr>"

definition one_plan :: planning_result where
  "one_plan = \<lparr>pr_candidates = [resumed_plan], pr_excluded = [],
     pr_selected_gpu_ids = [0], pr_estimated_minimum_tp = Some 1, pr_warnings = [], pr_notes = []\<rparr>"

text \<open>One valid point is the operating point and the winner.\<close>

lemma choose_single: "is_valid r cfg \<Longrightarrow> \<exists>why. choose_concurrency [r] Latency None cfg = Some (r, why)"
  by (auto simp: choose_concurrency_def valid_points_def slo_violations_def min_by_def)

lemma select_single: "sr_valid sc \<Longrightarrow> sr_slo_satisfied sc \<Longrightarrow> select_best [sc] = Some \<lparr>sl_winner = sc, sl_slo_satisfied = True, sl_notes = []\<rparr>"
  by (simp add: select_best_def eligible_def max_by_def)

lemma resumed_loaded: "load_completed [resumed_evaluation p version] [] [] = ([(cp_id p, resumed_tuned p version)], [demo_result 8 400 1000])"
  by (simp add: resumed_evaluation_def new_evaluation_def resumed_tuned_def new_tuned_def)

abbreviation refusing_start :: "nat tuner" where "refusing_start \<equiv> tuner_start 0 [demo_result 8 400 1000]"

lemmas monad_steps = bind_def andthen_def ret_def throw_def asks_def change_def

lemma refused_run:
  assumes r: "refusing p version env" and pl: "viable pl = [p]"
  shows "\<exists>out. fst (tune env pl refusing_start) = Inr out"
proof -
  let ?e = "resumed_tuned p version"
  have env: "tv_completed env = [(cp_id p, ?e)]" "tv_objective env = Latency" "tv_slo env = None" "\<not> has_slo (tv_workload env)"
    "tv_scoring env = default_scoring" "ts_top_k (tv_settings env) = 2"
    using r by (simp_all add: refusing_def resumed_loaded tv_slo_def has_slo_def del: load_completed.simps)
  have cs: "take (ts_max_structural_candidates (tv_settings env)) (viable pl) = [p]" using r pl by (simp add: refusing_def)
  have reuse: "reusable env p = Some ?e" by (simp add: reusable_def env resumed_tuned_def new_tuned_def)
  define v where "v = sr_score (hd (scored_refs env [demo_result 8 400 1000] [0]))"
  let ?r = "(demo_result 8 400 1000)\<lparr>br_score := Some v\<rparr>"
  have score: "scored_refs env [q] [0] = [\<lparr>sr_result = q, sr_score = sr_score (hd (scored_refs env [q] [0])),
      sr_valid = True, sr_slo_satisfied = True, sr_reasons = []\<rparr>]" if "q = demo_result 8 400 1000 \<or> q = ?r" for q
    using that fl_nonneg[of "1 / 100"] by (auto simp: scored_refs_def score_results_def deref_def Let_def env is_valid_def invalid_reason_def
        slo_violations_def demo_result_def default_scoring_def)
  have a: "stage_a env [p] refusing_start
      = (Inr [?e], refusing_start\<lparr>tn_store := [?r], tn_evaluations := [?e]\<rparr>)"
    by (simp add: stage_a_def stage_a_one_def reuse monad_steps score_refs_def resumed_tuned_def new_tuned_def
        write_scores_def write_score_def tuner_start_def v_def, subst score) (simp_all add: v_def)
  let ?s1 = "refusing_start\<lparr>tn_store := [?r], tn_evaluations := [?e]\<rparr>"
  have rank: "rank_structural env [?r] [?e] = [?e]"
    by (simp add: rank_structural_def resumed_tuned_def, subst score) simp_all
  have launch: "launch env p s = (Inr (Inl refusal), s\<lparr>tn_world := Suc (tn_world s), tn_trace := tn_trace s @ [Open_failed p]\<rparr>)" for p s
    using r by (simp add: launch_def refusing_def)
  have b: "\<exists>s2. stage_b env [?e] ?s1 = (Inr [?e], s2) \<and> tn_session s2 = None \<and> tn_store s2 = [?r]
      \<and> key_history (tn_evaluations s2) (structural_key (td_plan ?e)) = [0]
      \<and> (\<forall>e \<in> set (tn_evaluations s2). \<forall>f. td_failure e = Some f \<longrightarrow> f = refusal)"
    by (simp add: stage_b_def monad_steps Let_def rank open_first_def tuner_start_def env stage_b_one_def open_session_def
        launch record_evaluation_def note_once_def key_history_def)
      (simp add: resumed_tuned_def failed_tuned_def new_tuned_def)
  then obtain s2 where s2: "stage_b env [?e] ?s1 = (Inr [?e], s2)" "tn_session s2 = None" "tn_store s2 = [?r]"
      "key_history (tn_evaluations s2) (structural_key (td_plan ?e)) = [0]"
      "\<forall>e \<in> set (tn_evaluations s2). \<forall>f. td_failure e = Some f \<longrightarrow> f = refusal" by blast
  obtain why where "choose_concurrency [?r] Latency None default_scoring = Some (?r, why)"
    using choose_single[of ?r default_scoring] fl_nonneg[of "1 / 100"]
    by (auto simp: is_valid_def invalid_reason_def demo_result_def default_scoring_def)
  then have op: "operating_point env s2 ?e = Some (?e, 0, why)"
    by (simp add: operating_point_def s2 deref_def env ref_of_def Let_def)
  obtain s3 where s3: "pick_winner env [?e] s2 = (Inr (?e, 0, why), s3)" "tn_session s3 = None"
      "tn_evaluations s3 = tn_evaluations s2"
  proof -
    obtain sc where sc: "scored_refs env [?r] [0] = [sc]" "sr_valid sc" "sr_slo_satisfied sc"
      by (rule that[OF score]) simp_all
    show thesis
      by (rule that[of "s2\<lparr>tn_store := write_scores [(0, sr_score sc)] [?r]\<rparr>"])
        (simp_all add: pick_winner_def monad_steps op map_filter_def s2 sc select_single[OF sc(2,3)] Let_def)
  qed
  have c: "stage_c env ?e 0 s3 = (Inr (?e, 0, None), s3)"
    by (simp add: stage_c_def env monad_steps)
  obtain s4 where s4: "stage_d env ?e 0 s3 = (Inr (?e, 0), s4)" "tn_session s4 = None"
      "\<forall>e \<in> set (tn_evaluations s4). \<forall>f. td_failure e = Some f \<longrightarrow> f = refusal"
    using s2(5) s3(2,3) by (simp add: stage_d_def monad_steps open_session_def launch record_evaluation_def note_once_def Let_def failed_tuned_def)
  have "search env [p] refusing_start = (Inr (?e, 0, why, None), s4)"
    by (simp add: search_def bind_cases a s2(1) s3(1) c s4(1) ret_def)
  then have "finally_close env (search env [p]) refusing_start = (Inr (?e, 0, why, None), s4)"
    by (simp add: finally_close_def close_session_def s4(2))
  moreover have "\<exists>out. fst (outcome_of env pl ?e 0 why None s4) = Inr out"
  proof -
    have "cf_message f \<noteq> []" if "e \<in> set (map (read_tuned (tn_store s4)) (tn_evaluations s4))" "ce_failure e = Some f" for e f
      using that s4(3) by (auto simp: read_tuned_def refusal_def)
    then have "build_rationale w (map (read_tuned (tn_store s4)) (tn_evaluations s4)) ob h rs fi sl no sm \<noteq> None" for w ob h rs fi sl no sm
      by (rule build_rationale_total)
    then show ?thesis by (simp add: outcome_of_def Let_def option.case_eq_if)
  qed
  ultimately show ?thesis by (simp add: tune_def env cs bind_cases)
qed

lemma refusing_sample: "refusing resumed_plan None refusing_env" "viable one_plan = [resumed_plan]"
  by (simp_all add: refusing_def refusing_env_def tv_objective_def tv_slo_def tv_scoring_def default_tuning_def one_plan_def viable_def resumed_plan_def)



end
