(* ===== verification/Router.thy ===== *)
theory Router
  imports Model "HOL-Library.Multiset"
begin

text \<open>
  The replica router: the routing policies of \<^verbatim>\<open>runtime/policies.py\<close> and \<^verbatim>\<open>ReplicaRouter\<close> of
  \<^verbatim>\<open>runtime/router.py\<close>. Replica states are shared, mutable objects (a lease keeps its replica even after
  the router forgot it), so the router holds a store of objects and its dictionary maps ids to their
  addresses; semaphores are objects too, because \<^verbatim>\<open>set_max_concurrency\<close> replaces the current one while
  requests still wait for the old one. The locale \<open>routing_policy\<close> is what the router relies on.
\<close>

section \<open>Replica states (schemas/runtime.py)\<close>

datatype replica_status = Starting | Healthy | Unhealthy | Stopped

record replica_state =
  rs_id :: string
  rs_base_url :: string
  rs_gpu_ids :: "int list"
  rs_status :: replica_status
  rs_inflight_requests :: int
  rs_total_requests :: int
  rs_failures :: int
  rs_consecutive_health_failures :: int
  rs_restarts :: int
  rs_pid :: "int option"
  rs_last_error :: "string option"

definition new_replica_state :: "string \<Rightarrow> string \<Rightarrow> int list \<Rightarrow> int option \<Rightarrow> replica_state" where
  "new_replica_state rid url gpus pid = \<lparr>rs_id = rid, rs_base_url = url, rs_gpu_ids = gpus, rs_status = Starting,
     rs_inflight_requests = 0, rs_total_requests = 0, rs_failures = 0, rs_consecutive_health_failures = 0,
     rs_restarts = 0, rs_pid = pid, rs_last_error = None\<rparr>"

definition rs_healthy :: "replica_state \<Rightarrow> bool" where
  "rs_healthy r \<longleftrightarrow> rs_status r = Healthy"

section \<open>Routing policies (runtime/policies.py)\<close>

text \<open>A policy with its tick counter returns the position of its choice; \<open>None\<close> is the \<^verbatim>\<open>ValueError\<close> of an empty list.\<close>

definition least_select :: "nat \<Rightarrow> replica_state list \<Rightarrow> (nat \<times> nat) option" where
  "least_select tick rs =
     (case py_min (map rs_inflight_requests rs) of None \<Rightarrow> None
      | Some m \<Rightarrow>
          let ties = filter (\<lambda>i. rs_inflight_requests (rs ! i) = m) [0..<length rs]
          in if length ties = 1 then Some (ties ! 0, tick) else Some (ties ! (tick mod length ties), Suc tick))"

definition round_robin_select :: "nat \<Rightarrow> replica_state list \<Rightarrow> (nat \<times> nat) option" where
  "round_robin_select tick rs = (if rs = [] then None else Some (tick mod length rs, Suc tick))"

datatype policy = Least_inflight nat | Round_robin nat

definition policy_select :: "policy \<Rightarrow> replica_state list \<Rightarrow> (nat \<times> policy) option" where
  "policy_select p rs =
     (case p of Least_inflight t \<Rightarrow> map_option (map_prod id Least_inflight) (least_select t rs)
      | Round_robin t \<Rightarrow> map_option (map_prod id Round_robin) (round_robin_select t rs))"

definition POLICIES :: "(string \<times> policy) list" where
  "POLICIES = [(''least_inflight'', Least_inflight 0), (''round_robin'', Round_robin 0)]"

text \<open>An unknown name raises a \<^verbatim>\<open>ValueError\<close> listing the known ones.\<close>

definition make_policy :: "string \<Rightarrow> string list + policy" where
  "make_policy name = (case map_of POLICIES name of None \<Rightarrow> Inl (sort (map fst POLICIES)) | Some p \<Rightarrow> Inr p)"

section \<open>The contract of a routing policy\<close>

locale routing_policy =
  fixes pick :: "'p \<Rightarrow> replica_state list \<Rightarrow> (nat \<times> 'p) option"
  assumes pick_some: "rs \<noteq> [] \<Longrightarrow> \<exists>r. pick p rs = Some r"
    and pick_member: "pick p rs = Some (i, p') \<Longrightarrow> i < length rs"
begin

lemma pick_none: "pick p rs = None \<longleftrightarrow> rs = []"
  using pick_some[of rs p] pick_member[of p "[]"] by (cases "pick p rs") auto

lemma pick_among:
  assumes "pick p (map f xs) = Some (i, p')"
  shows "xs ! i \<in> set xs" "(map f xs) ! i = f (xs ! i)"
  using pick_member[OF assms] by auto

end

locale load_aware_policy = routing_policy +
  assumes pick_least: "pick p rs = Some (i, p') \<Longrightarrow> r \<in> set rs \<Longrightarrow> rs_inflight_requests (rs ! i) \<le> rs_inflight_requests r"
begin

lemma pick_least_among:
  "pick p (map f xs) = Some (i, p') \<Longrightarrow> y \<in> set xs \<Longrightarrow> rs_inflight_requests (f (xs ! i)) \<le> rs_inflight_requests (f y)"
  using pick_least[of p "map f xs" i p' "f y"] pick_among[of p f xs i p'] by auto

end

lemma least_select_spec:
  assumes "least_select t rs = Some (i, t')"
  shows "i < length rs \<and> (\<forall>r \<in> set rs. rs_inflight_requests (rs ! i) \<le> rs_inflight_requests r)"
proof -
  obtain m where m: "py_min (map rs_inflight_requests rs) = Some m"
    using assms by (auto simp: least_select_def split: option.splits)
  let ?ties = "filter (\<lambda>i. rs_inflight_requests (rs ! i) = m) [0..<length rs]"
  have "\<exists>j < length rs. rs_inflight_requests (rs ! j) = m" using m by (auto simp: py_min_iff in_set_conv_nth)
  then have "?ties \<noteq> []" by (auto simp: filter_empty_conv)
  then have "i \<in> set ?ties" using assms
    by (auto simp: least_select_def m Let_def split: if_splits simp del: set_filter intro!: nth_mem)
  then show ?thesis using m by (auto simp: py_min_iff)
qed

lemma least_select_some: "rs \<noteq> [] \<Longrightarrow> \<exists>r. least_select t rs = Some r"
  by (cases "py_min (map rs_inflight_requests rs)") (auto simp: least_select_def Let_def)

interpretation least: load_aware_policy least_select
  by unfold_locales (use least_select_spec least_select_some in blast)+

interpretation turns: routing_policy round_robin_select
  by unfold_locales (auto simp: round_robin_select_def split: if_splits)

interpretation routing: routing_policy policy_select
proof
  fix p :: policy and rs :: "replica_state list" assume "rs \<noteq> []"
  then show "\<exists>r. policy_select p rs = Some r"
    using least.pick_some turns.pick_some by (cases p) (fastforce simp: policy_select_def)+
next
  fix p rs i p' assume "policy_select p rs = Some (i, p')"
  then show "i < length rs"
    using least.pick_member turns.pick_member by (cases p) (fastforce simp: policy_select_def)+
qed

section \<open>The router (runtime/router.py)\<close>

text \<open>\<^verbatim>\<open>asyncio.Semaphore\<close>: its value, the tickets that wait in order, and those a release has granted a slot
  but that have not resumed yet.\<close>

record semaphore =
  sm_value :: int
  sm_waiters :: "nat list"
  sm_granted :: "nat list"

definition locked :: "semaphore \<Rightarrow> bool" where
  "locked s \<longleftrightarrow> sm_value s = 0 \<or> sm_waiters s \<noteq> [] \<or> sm_granted s \<noteq> []"

definition wake_next :: "semaphore \<Rightarrow> semaphore" where
  "wake_next s = (case sm_waiters s of [] \<Rightarrow> s
     | t # ts \<Rightarrow> s\<lparr>sm_value := sm_value s - 1, sm_waiters := ts, sm_granted := sm_granted s @ [t]\<rparr>)"

definition sem_release :: "semaphore \<Rightarrow> semaphore" where
  "sem_release s = wake_next (s\<lparr>sm_value := sm_value s + 1\<rparr>)"

definition sem_resume :: "nat \<Rightarrow> semaphore \<Rightarrow> semaphore" where
  "sem_resume t s = (let s1 = s\<lparr>sm_granted := remove1 t (sm_granted s)\<rparr> in if 0 < sm_value s1 then wake_next s1 else s1)"

datatype route_error = No_healthy_replica | Overloaded int

record lease =
  ls_replica :: nat
  ls_excluded :: "string list"

record router =
  rt_policy :: policy
  rt_objects :: "replica_state list"
  rt_registry :: "(string \<times> nat) list"
  rt_max_concurrency :: "int option"
  rt_max_queue_depth :: int
  rt_semaphores :: "semaphore list"
  rt_semaphore :: "nat option"
  rt_waiting :: int
  rt_total_requests :: int
  rt_total_errors :: int
  rt_rejected_overload :: int

definition DEFAULT_MAX_QUEUE_DEPTH :: int where "DEFAULT_MAX_QUEUE_DEPTH = 1024"

text \<open>A negative bound raises the semaphore's \<^verbatim>\<open>ValueError\<close>: \<open>None\<close>.\<close>

definition install_semaphore :: "int option \<Rightarrow> router \<Rightarrow> router option" where
  "install_semaphore v rt =
     (if \<not> truthy v then Some (rt\<lparr>rt_semaphore := None\<rparr>)
      else if the v < 0 then None
      else Some (rt\<lparr>rt_semaphores := rt_semaphores rt @ [\<lparr>sm_value = the v, sm_waiters = [], sm_granted = []\<rparr>],
                    rt_semaphore := Some (length (rt_semaphores rt))\<rparr>))"

definition new_router :: "policy option \<Rightarrow> int option \<Rightarrow> int \<Rightarrow> router option" where
  "new_router p cap depth = install_semaphore cap
     \<lparr>rt_policy = the_or p (Least_inflight 0), rt_objects = [], rt_registry = [], rt_max_concurrency = cap,
      rt_max_queue_depth = depth, rt_semaphores = [], rt_semaphore = None, rt_waiting = 0, rt_total_requests = 0,
      rt_total_errors = 0, rt_rejected_overload = 0\<rparr>"

definition set_max_concurrency :: "int option \<Rightarrow> router \<Rightarrow> router option" where
  "set_max_concurrency v rt = install_semaphore v (rt\<lparr>rt_max_concurrency := v\<rparr>)"

abbreviation object :: "router \<Rightarrow> nat \<Rightarrow> replica_state" where
  "object rt a \<equiv> rt_objects rt ! a"

definition update_object :: "nat \<Rightarrow> (replica_state \<Rightarrow> replica_state) \<Rightarrow> router \<Rightarrow> router" where
  "update_object a f rt = rt\<lparr>rt_objects := (rt_objects rt)[a := f (object rt a)]\<rparr>"

definition add_replica :: "string \<Rightarrow> string \<Rightarrow> int list \<Rightarrow> int option \<Rightarrow> router \<Rightarrow> nat \<times> router" where
  "add_replica rid url gpus pid rt =
     (let a = length (rt_objects rt)
      in (a, rt\<lparr>rt_objects := rt_objects rt @ [new_replica_state rid url gpus pid],
                rt_registry := AList.update rid a (rt_registry rt)\<rparr>))"

definition remove_replica :: "string \<Rightarrow> router \<Rightarrow> router" where
  "remove_replica rid rt = rt\<lparr>rt_registry := AList.delete rid (rt_registry rt)\<rparr>"

definition set_status :: "string \<Rightarrow> replica_status \<Rightarrow> string option \<Rightarrow> router \<Rightarrow> router" where
  "set_status rid st err rt =
     (case map_of (rt_registry rt) rid of None \<Rightarrow> rt
      | Some a \<Rightarrow> update_object a (\<lambda>r. r\<lparr>rs_status := st,
          rs_last_error := (case err of None \<Rightarrow> rs_last_error r | Some e \<Rightarrow> Some e)\<rparr>) rt)"

definition find_replica :: "string \<Rightarrow> router \<Rightarrow> replica_state option" where
  "find_replica rid rt = map_option (object rt) (map_of (rt_registry rt) rid)"

definition router_replicas :: "router \<Rightarrow> replica_state list" where
  "router_replicas rt = map (object rt) (map snd (rt_registry rt))"

definition healthy_replicas :: "router \<Rightarrow> nat list" where
  "healthy_replicas rt = filter (\<lambda>a. rs_status (object rt a) = Healthy) (map snd (rt_registry rt))"

definition router_inflight :: "router \<Rightarrow> int" where
  "router_inflight rt = sum_list (map rs_inflight_requests (router_replicas rt))"

definition route_candidates :: "string list \<Rightarrow> router \<Rightarrow> nat list" where
  "route_candidates excluded rt = filter (\<lambda>a. rs_id (object rt a) \<notin> set excluded) (healthy_replicas rt)"

text \<open>The policy raises only on an empty list, which is the case \<^verbatim>\<open>NoHealthyReplicaError\<close> covers first.\<close>

definition route_select :: "string list \<Rightarrow> router \<Rightarrow> (route_error + nat) \<times> router" where
  "route_select excluded rt =
     (case policy_select (rt_policy rt) (map (object rt) (route_candidates excluded rt)) of
        None \<Rightarrow> (Inl No_healthy_replica, rt)
      | Some (i, p) \<Rightarrow> (Inr (route_candidates excluded rt ! i), rt\<lparr>rt_policy := p\<rparr>))"

text \<open>\<^verbatim>\<open>self._semaphore.release()\<close> on the semaphore that is current at that moment.\<close>

definition release_slot :: "router \<Rightarrow> router" where
  "release_slot rt =
     (case rt_semaphore rt of None \<Rightarrow> rt
      | Some k \<Rightarrow> rt\<lparr>rt_semaphores := (rt_semaphores rt)[k := sem_release (rt_semaphores rt ! k)]\<rparr>)"

definition charge_request :: "replica_state \<Rightarrow> replica_state" where
  "charge_request r = r\<lparr>rs_inflight_requests := rs_inflight_requests r + 1, rs_total_requests := rs_total_requests r + 1\<rparr>"

text \<open>\<^verbatim>\<open>acquire\<close> from the point where the slot is held: pick a replica, or give the slot back.\<close>

definition take_replica :: "router \<Rightarrow> (route_error + lease) \<times> router" where
  "take_replica rt =
     (case route_select [] rt of
        (Inl e, rt') \<Rightarrow> (Inl e, release_slot rt')
      | (Inr a, rt') \<Rightarrow>
          (Inr \<lparr>ls_replica = a, ls_excluded = [rs_id (object rt' a)]\<rparr>,
           update_object a charge_request (rt'\<lparr>rt_total_requests := rt_total_requests rt' + 1\<rparr>)))"

text \<open>\<^verbatim>\<open>acquire\<close> up to its first suspension: \<open>Inr None\<close> means that ticket \<open>t\<close> now waits for the semaphore.\<close>

definition begin_acquire :: "nat \<Rightarrow> router \<Rightarrow> (route_error + lease option) \<times> router" where
  "begin_acquire t rt =
     (case rt_semaphore rt of
        None \<Rightarrow> map_prod (map_sum id Some) id (take_replica rt)
      | Some k \<Rightarrow>
          let s = rt_semaphores rt ! k
          in if locked s \<and> rt_max_queue_depth rt \<le> rt_waiting rt
             then (Inl (Overloaded (rt_waiting rt)), rt\<lparr>rt_rejected_overload := rt_rejected_overload rt + 1\<rparr>)
             else if locked s
             then (Inr None, rt\<lparr>rt_waiting := rt_waiting rt + 1,
                    rt_semaphores := (rt_semaphores rt)[k := s\<lparr>sm_waiters := sm_waiters s @ [t]\<rparr>]\<rparr>)
             else map_prod (map_sum id Some) id
                    (take_replica (rt\<lparr>rt_semaphores := (rt_semaphores rt)[k := s\<lparr>sm_value := sm_value s - 1\<rparr>]\<rparr>)))"

text \<open>\<^verbatim>\<open>acquire\<close> from its suspension on, once semaphore \<open>k\<close> has granted ticket \<open>t\<close> a slot.\<close>

definition resume_acquire :: "nat \<Rightarrow> nat \<Rightarrow> router \<Rightarrow> (route_error + lease) \<times> router" where
  "resume_acquire t k rt = take_replica (rt\<lparr>rt_waiting := rt_waiting rt - 1,
     rt_semaphores := (rt_semaphores rt)[k := sem_resume t (rt_semaphores rt ! k)]\<rparr>)"

definition charge_failure :: "string option \<Rightarrow> replica_state \<Rightarrow> replica_state" where
  "charge_failure err r = r\<lparr>rs_failures := rs_failures r + 1,
     rs_last_error := (case err of None \<Rightarrow> rs_last_error r | Some e \<Rightarrow> Some e)\<rparr>"

definition drop_request :: "replica_state \<Rightarrow> replica_state" where
  "drop_request r = r\<lparr>rs_inflight_requests := max 0 (rs_inflight_requests r - 1)\<rparr>"

definition reroute :: "lease \<Rightarrow> string option \<Rightarrow> router \<Rightarrow> (route_error + lease) \<times> router" where
  "reroute l err rt =
     (case route_select (ls_excluded l) rt of
        (Inl e, rt') \<Rightarrow> (Inl e, rt')
      | (Inr a, rt') \<Rightarrow>
          (let rt1 = update_object (ls_replica l) (charge_failure err \<circ> drop_request) rt';
               rt2 = update_object a charge_request rt1
           in (Inr \<lparr>ls_replica = a, ls_excluded = rs_id (object rt2 a) # ls_excluded l\<rparr>, rt2)))"

definition release :: "lease \<Rightarrow> bool \<Rightarrow> string option \<Rightarrow> router \<Rightarrow> router" where
  "release l failed err rt =
     (let rt1 = update_object (ls_replica l) drop_request rt;
          rt2 = (if failed then update_object (ls_replica l) (charge_failure err)
                   (rt1\<lparr>rt_total_errors := rt_total_errors rt1 + 1\<rparr>) else rt1)
      in release_slot rt2)"

record router_snapshot =
  rp_replicas :: "replica_state list"
  rp_healthy_replicas :: nat
  rp_total_replicas :: nat
  rp_inflight :: int
  rp_queue_depth :: int
  rp_max_concurrency :: "int option"
  rp_max_queue_depth :: int
  rp_total_requests :: int
  rp_total_errors :: int
  rp_rejected_overload :: int

definition router_snapshot :: "router \<Rightarrow> router_snapshot" where
  "router_snapshot rt = \<lparr>rp_replicas = router_replicas rt, rp_healthy_replicas = length (healthy_replicas rt),
     rp_total_replicas = length (rt_registry rt), rp_inflight = router_inflight rt, rp_queue_depth = rt_waiting rt,
     rp_max_concurrency = rt_max_concurrency rt, rp_max_queue_depth = rt_max_queue_depth rt,
     rp_total_requests = rt_total_requests rt, rp_total_errors = rt_total_errors rt,
     rp_rejected_overload = rt_rejected_overload rt\<rparr>"

section \<open>What the router picks\<close>

lemma route_select_Inr:
  assumes "route_select ex rt = (Inr a, rt')"
  shows "a \<in> set (route_candidates ex rt)" "\<exists>p. rt' = rt\<lparr>rt_policy := p\<rparr>"
proof -
  obtain i p where p: "policy_select (rt_policy rt) (map (object rt) (route_candidates ex rt)) = Some (i, p)"
    using assms by (auto simp: route_select_def split: option.splits)
  then show "a \<in> set (route_candidates ex rt)" "\<exists>p. rt' = rt\<lparr>rt_policy := p\<rparr>"
    using assms routing.pick_among[OF p] by (auto simp: route_select_def)
qed

lemma route_select_Inl: "route_select ex rt = (Inl e, rt') \<longleftrightarrow> route_candidates ex rt = [] \<and> e = No_healthy_replica \<and> rt' = rt"
proof -
  have "policy_select (rt_policy rt) (map (object rt) (route_candidates ex rt)) = None \<longleftrightarrow> route_candidates ex rt = []"
    by (simp add: routing.pick_none)
  then show ?thesis unfolding route_select_def by (auto split: option.splits)
qed

lemma route_candidates_iff: "a \<in> set (route_candidates ex rt) \<longleftrightarrow>
    a \<in> snd ` set (rt_registry rt) \<and> rs_status (object rt a) = Healthy \<and> rs_id (object rt a) \<notin> set ex"
  by (auto simp: route_candidates_def healthy_replicas_def)

lemma least_route:
  assumes "route_select ex rt = (Inr a, rt')" "rt_policy rt = Least_inflight t" "b \<in> set (route_candidates ex rt)"
  shows "rs_inflight_requests (object rt a) \<le> rs_inflight_requests (object rt b)"
proof -
  obtain i t' where "least_select t (map (object rt) (route_candidates ex rt)) = Some (i, t')" "a = route_candidates ex rt ! i"
    using assms by (auto simp: route_select_def policy_select_def split: option.splits)
  then show ?thesis using least.pick_least_among[of t "object rt" "route_candidates ex rt" i t' b] assms(3) by simp
qed

text \<open>
  Routing is sound: the router picks a registered, healthy replica that is not excluded, one with the fewest
  requests in flight when the policy is least-inflight, and reports that no replica is available exactly when
  every healthy replica is excluded.
\<close>

theorem route_select_sound:
  "(\<forall>a. fst (route_select ex rt) = Inr a \<longrightarrow> a \<in> snd ` set (rt_registry rt) \<and> rs_status (object rt a) = Healthy
       \<and> rs_id (object rt a) \<notin> set ex
       \<and> (\<forall>t b. rt_policy rt = Least_inflight t \<and> b \<in> set (healthy_replicas rt) \<and> rs_id (object rt b) \<notin> set ex
            \<longrightarrow> rs_inflight_requests (object rt a) \<le> rs_inflight_requests (object rt b)))
   \<and> (fst (route_select ex rt) = Inl No_healthy_replica \<longleftrightarrow> (\<forall>a \<in> set (healthy_replicas rt). rs_id (object rt a) \<in> set ex))"
proof (cases "route_select ex rt")
  case (Pair r rt')
  show ?thesis
  proof (cases r)
    case (Inl e)
    then show ?thesis using Pair route_select_Inl[of ex rt e rt'] by (auto simp: route_candidates_def filter_empty_conv)
  next
    case (Inr a)
    have a: "a \<in> set (route_candidates ex rt)" using Pair Inr route_select_Inr by simp
    have "\<forall>t b. rt_policy rt = Least_inflight t \<and> b \<in> set (healthy_replicas rt) \<and> rs_id (object rt b) \<notin> set ex
            \<longrightarrow> rs_inflight_requests (object rt a) \<le> rs_inflight_requests (object rt b)"
      using least_route[of ex rt a rt'] Pair Inr by (simp add: route_candidates_def)
    then show ?thesis using Pair Inr a by (auto simp: route_candidates_def healthy_replicas_def)
  qed
qed

fun select_times :: "nat \<Rightarrow> policy \<Rightarrow> replica_state list \<Rightarrow> nat list" where
  "select_times 0 p rs = []"
| "select_times (Suc k) p rs = (case policy_select p rs of None \<Rightarrow> [] | Some (i, p') \<Rightarrow> i # select_times k p' rs)"

lemma round_robin_times: "rs \<noteq> [] \<Longrightarrow> select_times k (Round_robin t) rs = map (\<lambda>j. (t + j) mod length rs) [0..<k]"
proof (induction k arbitrary: t)
  case (Suc k)
  have "map (\<lambda>j. (t + j) mod length rs) [0..<Suc k] = t mod length rs # map (\<lambda>j. (Suc t + j) mod length rs) [0..<k]"
    unfolding upt_conv_Cons[OF zero_less_Suc] by (simp add: map_Suc_upt[symmetric] del: upt_Suc)
  then show ?case using Suc by (simp add: policy_select_def round_robin_select_def)
qed simp

lemma window_permutes:
  assumes "0 < n" shows "mset (map (\<lambda>j. (t + j) mod n) [0..<n]) = mset [0..<n]"
proof (induction t)
  case (Suc t)
  have "map (\<lambda>j. (Suc t + j) mod n) [0..<n] = map (\<lambda>j. (t + j) mod n) [Suc 0..<Suc n]"
    by (simp add: map_Suc_upt[symmetric] del: upt_Suc)
  moreover have "map (\<lambda>j. (t + j) mod n) [0..<Suc n] = t mod n # map (\<lambda>j. (t + j) mod n) [Suc 0..<Suc n]"
    unfolding upt_conv_Cons[OF zero_less_Suc] by simp
  ultimately have "add_mset (t mod n) (mset (map (\<lambda>j. (Suc t + j) mod n) [0..<n])) = mset (map (\<lambda>j. (t + j) mod n) [0..<Suc n])"
    by (metis mset.simps(2))
  also have "\<dots> = add_mset (t mod n) (mset (map (\<lambda>j. (t + j) mod n) [0..<n]))" by simp
  finally show ?case using Suc.IH by simp
next
  case 0
  have "map (\<lambda>j. (0 + j) mod n) [0..<n] = [0..<n]" by (rule map_idI) simp
  then show ?case by (simp only:)
qed

lemma windows_permute:
  assumes "0 < n" shows "mset (map (\<lambda>j. (t + j) mod n) [0..<k * n]) = repeat_mset k (mset [0..<n])"
proof (induction k)
  case (Suc k)
  have "[0..<Suc k * n] = [0..<k * n] @ map (\<lambda>j. k * n + j) [0..<n]"
    using upt_add_eq_append[of 0 "k * n" n] by (simp add: map_add_upt[symmetric] add.commute)
  then have "mset (map (\<lambda>j. (t + j) mod n) [0..<Suc k * n])
      = repeat_mset k (mset [0..<n]) + mset (map (\<lambda>j. ((t + k * n) + j) mod n) [0..<n])"
    using Suc by (simp add: o_def add.assoc del: mset_upt)
  then show ?case using window_permutes[OF assms, of "t + k * n"] by (simp add: union_commute)
qed simp

text \<open>
  C40: Round robin is fair: from any state of its counter, any \<open>k * n\<close> consecutive selections over \<open>n\<close> replicas
  choose every replica exactly \<open>k\<close> times.
\<close>

theorem round_robin_fair:
  assumes "rs \<noteq> []" "i < length rs"
  shows "count (mset (select_times (k * length rs) (Round_robin t) rs)) i = k"
  using assms windows_permute[of "length rs" t k] by (simp add: round_robin_times)

definition demo_replica :: "string \<Rightarrow> replica_status \<Rightarrow> replica_state" where
  "demo_replica n st = (new_replica_state n [] [] None)\<lparr>rs_status := st\<rparr>"

theorem round_robin_fair_witness:
  "count (mset (select_times (2 * length [demo_replica ''a'' Healthy, demo_replica ''b'' Healthy]) (Round_robin 5)
     [demo_replica ''a'' Healthy, demo_replica ''b'' Healthy])) 1 = 2"
  by (rule round_robin_fair) simp_all

theorem route_select_sound_witness:
  "let rt = snd (add_replica ''a'' ''http://h:1'' [0] None (the (new_router None (Some 1) 1)));
       rt = set_status ''a'' Healthy None rt
   in route_select [] rt = (Inr 0, rt) \<and> rs_status (object rt 0) = Healthy
      \<and> fst (route_select [''a''] rt) = Inl No_healthy_replica"
proof -
  define rt where "rt = set_status ''a'' Healthy None (snd (add_replica ''a'' ''http://h:1'' [0] None (the (new_router None (Some 1) 1))))"
  have "route_select [] rt = (Inr 0, rt)" unfolding rt_def by code_simp
  moreover have "fst (route_select [''a''] rt) = Inl No_healthy_replica" unfolding rt_def by code_simp
  ultimately show ?thesis using route_select_sound[of "[]" rt] by (simp add: rt_def[symmetric] Let_def)
qed

end
