(* ===== verification/Proxy.thy ===== *)
theory Proxy
  imports Router Plan
begin

text \<open>
  The serving side: \<^verbatim>\<open>api/proxy.py\<close> with the counters of \<^verbatim>\<open>api/metrics.py\<close> it moves, and \<^verbatim>\<open>api/health.py\<close>.
  A request is a state machine over the suspension points of \<^verbatim>\<open>proxy_generation\<close> (it waits for a slot, for the
  head of a replica's answer, for the body to be streamed, or is finished); what the replicas, the client
  and the health checker do is the input of the steps. The lemmas show that the router's accounts balance
  in every reachable state, that the concurrency gate is a bounded first-come-first-served queue, that
  every failed attempt is charged exactly once and that no request is left behind.
\<close>

section \<open>Requests and their phases\<close>

datatype answer = Relayed int string | Refused int string

datatype phase = Waiting nat | Sending lease nat | Streaming lease nat int | Finished answer nat bool

record client_request =
  cr_endpoint :: string
  cr_phase :: phase

record serving =
  sv_router :: router
  sv_requests :: "client_request list"
  sv_requests_inflight :: int
  sv_requests_total :: "(string \<times> string) list"
  sv_request_errors_total :: "(string \<times> string) list"
  sv_request_latency :: "string list"

text \<open>What a replica does with an attempt: it breaks before the answer's head, or answers with a status.\<close>

datatype attempt_result = Broken string | Status int

definition status_class :: "int \<Rightarrow> string" where
  "status_class s = str_int (s div 100) @ ''xx''"

abbreviation phase_of :: "serving \<Rightarrow> nat \<Rightarrow> phase" where
  "phase_of sv i \<equiv> cr_phase (sv_requests sv ! i)"

definition set_phase :: "nat \<Rightarrow> phase \<Rightarrow> serving \<Rightarrow> serving" where
  "set_phase i p sv = sv\<lparr>sv_requests := (sv_requests sv)[i := (sv_requests sv ! i)\<lparr>cr_phase := p\<rparr>]\<rparr>"

definition count_total :: "nat \<Rightarrow> string \<Rightarrow> serving \<Rightarrow> serving" where
  "count_total i cls sv = sv\<lparr>sv_requests_total := sv_requests_total sv @ [(cr_endpoint (sv_requests sv ! i), cls)]\<rparr>"

definition count_error :: "nat \<Rightarrow> string \<Rightarrow> serving \<Rightarrow> serving" where
  "count_error i reason sv =
     sv\<lparr>sv_request_errors_total := sv_request_errors_total sv @ [(cr_endpoint (sv_requests sv ! i), reason)]\<rparr>"

text \<open>The end of a request: \<^verbatim>\<open>cleanup\<close>, which releases the lease when there is one. \<open>n\<close> keeps the number of
  attempts that were re-routed.\<close>

definition cleanup :: "nat \<Rightarrow> answer \<Rightarrow> nat \<Rightarrow> lease option \<Rightarrow> string option \<Rightarrow> serving \<Rightarrow> serving" where
  "cleanup i ans n l err sv =
     set_phase i (Finished ans n (l \<noteq> None \<and> err \<noteq> None))
       (sv\<lparr>sv_router := (case l of None \<Rightarrow> sv_router sv | Some l \<Rightarrow> release l (err \<noteq> None) err (sv_router sv)),
           sv_requests_inflight := sv_requests_inflight sv - 1,
           sv_request_latency := sv_request_latency sv @ [cr_endpoint (sv_requests sv ! i)]\<rparr>)"

definition overloaded_message :: "int \<Rightarrow> string" where
  "overloaded_message n = ''ServePilot is overloaded: request queue is full ('' @ str_int n @ '' waiting)''"

definition refuse :: "nat \<Rightarrow> route_error \<Rightarrow> serving \<Rightarrow> serving" where
  "refuse i e sv =
     (case e of
        Overloaded n \<Rightarrow> cleanup i (Refused 503 (overloaded_message n)) 0 None None
          (count_total i ''5xx'' (count_error i ''overloaded'' sv))
      | No_healthy_replica \<Rightarrow> cleanup i (Refused 503 ''no healthy model replica is available'') 0 None None
          (count_total i ''5xx'' (count_error i ''no_healthy_replica'' sv)))"

definition arrive :: "string \<Rightarrow> serving \<Rightarrow> serving" where
  "arrive ep sv =
     (let i = length (sv_requests sv); r = begin_acquire i (sv_router sv);
          sv1 = sv\<lparr>sv_requests_inflight := sv_requests_inflight sv + 1,
                  sv_requests := sv_requests sv @ [\<lparr>cr_endpoint = ep, cr_phase = Waiting (the_or (rt_semaphore (sv_router sv)) 0)\<rparr>],
                  sv_router := snd r\<rparr>
      in case fst r of
           Inl e \<Rightarrow> refuse i e sv1
         | Inr None \<Rightarrow> sv1
         | Inr (Some l) \<Rightarrow> set_phase i (Sending l 0) sv1)"

definition resume :: "nat \<Rightarrow> nat \<Rightarrow> serving \<Rightarrow> serving" where
  "resume i k sv =
     (let r = resume_acquire i k (sv_router sv); sv1 = sv\<lparr>sv_router := snd r\<rparr>
      in case fst r of Inl e \<Rightarrow> refuse i e sv1 | Inr l \<Rightarrow> set_phase i (Sending l 0) sv1)"

text \<open>\<^verbatim>\<open>_send_with_retry\<close> gave up: 502, with the lease charged at its release.\<close>

definition bad_gateway :: "nat \<Rightarrow> lease \<Rightarrow> nat \<Rightarrow> string \<Rightarrow> serving \<Rightarrow> serving" where
  "bad_gateway i l n err sv = cleanup i (Refused 502 ''model replica is unreachable or failing'') n (Some l) (Some err)
     (count_total i ''5xx'' (count_error i ''backend_unreachable'' sv))"

definition attempt_failed :: "nat \<Rightarrow> lease \<Rightarrow> nat \<Rightarrow> string \<Rightarrow> serving \<Rightarrow> serving" where
  "attempt_failed i l n err sv =
     (if 1 \<le> n then bad_gateway i l n err sv
      else let r = reroute l (Some err) (sv_router sv); sv1 = sv\<lparr>sv_router := snd r\<rparr>
      in case fst r of Inl _ \<Rightarrow> bad_gateway i l n err sv1 | Inr l' \<Rightarrow> set_phase i (Sending l' (n + 1)) sv1)"

definition attempt :: "nat \<Rightarrow> lease \<Rightarrow> nat \<Rightarrow> attempt_result \<Rightarrow> serving \<Rightarrow> serving" where
  "attempt i l n res sv =
     (case res of
        Broken err \<Rightarrow> attempt_failed i l n err sv
      | Status s \<Rightarrow> if s < 500 then set_phase i (Streaming l n s) (count_total i (status_class s) sv)
                    else attempt_failed i l n (''HTTP '' @ str_int s) sv)"

text \<open>The stream ends, because the body is complete or the client went away, or the replica drops it.\<close>

definition stream_end :: "nat \<Rightarrow> lease \<Rightarrow> nat \<Rightarrow> int \<Rightarrow> serving \<Rightarrow> serving" where
  "stream_end i l n s sv = cleanup i (Relayed s (rs_id (object (sv_router sv) (ls_replica l)))) n (Some l) None sv"

definition stream_drop :: "nat \<Rightarrow> lease \<Rightarrow> nat \<Rightarrow> int \<Rightarrow> string \<Rightarrow> serving \<Rightarrow> serving" where
  "stream_drop i l n s err sv = cleanup i (Relayed s (rs_id (object (sv_router sv) (ls_replica l)))) n (Some l) (Some err)
     (count_error i ''backend_disconnect'' sv)"

text \<open>A fresh server over a router without requests.\<close>

definition new_serving :: "router \<Rightarrow> serving" where
  "new_serving rt = \<lparr>sv_router = rt, sv_requests = [], sv_requests_inflight = 0, sv_requests_total = [],
     sv_request_errors_total = [], sv_request_latency = []\<rparr>"

section \<open>Steps\<close>

text \<open>The steps of the admitted requests, and those of everything around them.\<close>

inductive progress :: "serving \<Rightarrow> serving \<Rightarrow> bool" where
  resumed: "i < length (sv_requests sv) \<Longrightarrow> phase_of sv i = Waiting k \<Longrightarrow>
     i \<in> set (sm_granted (rt_semaphores (sv_router sv) ! k)) \<Longrightarrow> progress sv (resume i k sv)"
| attempted: "i < length (sv_requests sv) \<Longrightarrow> phase_of sv i = Sending l n \<Longrightarrow> progress sv (attempt i l n res sv)"
| ended: "i < length (sv_requests sv) \<Longrightarrow> phase_of sv i = Streaming l n s \<Longrightarrow> progress sv (stream_end i l n s sv)"
| dropped: "i < length (sv_requests sv) \<Longrightarrow> phase_of sv i = Streaming l n s \<Longrightarrow> progress sv (stream_drop i l n s err sv)"

inductive outside :: "serving \<Rightarrow> serving \<Rightarrow> bool" where
  health_changed: "outside sv (sv\<lparr>sv_router := set_status rid st err (sv_router sv)\<rparr>)"
| replica_added: "outside sv (sv\<lparr>sv_router := snd (add_replica rid url gpus pid (sv_router sv))\<rparr>)"
| replica_removed: "outside sv (sv\<lparr>sv_router := remove_replica rid (sv_router sv)\<rparr>)"

inductive serve_step :: "serving \<Rightarrow> serving \<Rightarrow> bool" where
  arrived: "serve_step sv (arrive ep sv)"
| progressed: "progress sv sv' \<Longrightarrow> serve_step sv sv'"
| changed: "outside sv sv' \<Longrightarrow> serve_step sv sv'"

definition serves_from :: "router \<Rightarrow> serving \<Rightarrow> bool" where
  "serves_from rt sv \<longleftrightarrow> serve_step\<^sup>*\<^sup>* (new_serving rt) sv"

section \<open>Headers and the model field\<close>

definition HOP_BY_HOP :: "string list" where
  "HOP_BY_HOP = [''connection'', ''keep-alive'', ''proxy-authenticate'', ''proxy-authorization'', ''te'', ''trailers'',
     ''transfer-encoding'', ''upgrade'', ''host'', ''content-length'']"

text \<open>A dict comprehension: a later header of the same name replaces the value of an earlier one.\<close>

definition end_to_end :: "(string \<times> string) list \<Rightarrow> (string \<times> string) list" where
  "end_to_end hs = foldl (\<lambda>d (k, v). AList.update k v d) [] (filter (\<lambda>(k, v). str_lower k \<notin> set HOP_BY_HOP) hs)"

definition forward_headers :: "(string \<times> string) list \<Rightarrow> (string \<times> string) list" where
  "forward_headers hs = AList.update ''x-servepilot-proxy'' ''1'' (end_to_end hs)"

definition response_headers :: "(string \<times> string) list \<Rightarrow> string \<Rightarrow> (string \<times> string) list" where
  "response_headers hs replica = AList.update ''x-servepilot-replica'' replica (end_to_end hs)"

text \<open>\<^verbatim>\<open>json.loads\<close> (\<open>None\<close> when it raises) and \<^verbatim>\<open>json.dumps\<close> are arguments.\<close>

definition rewrite_model_field ::
    "(string \<Rightarrow> json option) \<Rightarrow> (json \<Rightarrow> string) \<Rightarrow> string \<Rightarrow> string option \<Rightarrow> string option \<Rightarrow> string" where
  "rewrite_model_field loads dumps body served backend =
     (case (served, backend) of
        (Some s, Some b) \<Rightarrow>
          if s = '''' \<or> b = '''' \<or> s = b then body
          else (case loads body of
                  Some (JObj fs) \<Rightarrow> if map_of fs ''model'' = Some (JStr s) then dumps (JObj (AList.update ''model'' (JStr b) fs)) else body
                | _ \<Rightarrow> body)
      | _ \<Rightarrow> body)"

section \<open>Health (api/health.py)\<close>

record health =
  hp_status :: string
  hp_model :: string
  hp_healthy_replicas :: nat
  hp_total_replicas :: nat

definition health_payload :: "string \<Rightarrow> router \<Rightarrow> health \<times> bool" where
  "health_payload model rt =
     (let healthy = length (healthy_replicas rt); total = length (rt_registry rt); ok = 0 < healthy
      in (\<lparr>hp_status = (if healthy = total \<and> ok then ''healthy'' else if ok then ''degraded'' else ''unhealthy''),
           hp_model = model, hp_healthy_replicas = healthy, hp_total_replicas = total\<rparr>, ok))"

section \<open>Counting phases\<close>

definition tally :: "(phase \<Rightarrow> int) \<Rightarrow> serving \<Rightarrow> int" where
  "tally f sv = sum_list (map (\<lambda>r. f (cr_phase r)) (sv_requests sv))"

fun lease_of :: "phase \<Rightarrow> lease option" where
  "lease_of (Sending l n) = Some l" | "lease_of (Streaming l n s) = Some l" | "lease_of p = None"

definition holds :: "nat \<Rightarrow> phase \<Rightarrow> int" where
  "holds a p = (case lease_of p of None \<Rightarrow> 0 | Some l \<Rightarrow> if ls_replica l = a then 1 else 0)"

definition active :: "phase \<Rightarrow> int" where
  "active p = (if lease_of p = None then 0 else 1)"

fun charges :: "phase \<Rightarrow> int" where
  "charges (Waiting k) = 0" | "charges (Sending l n) = int n" | "charges (Streaming l n s) = int n"
| "charges (Finished ans n failed) = int n + (if failed then 1 else 0)"

fun failed_end :: "phase \<Rightarrow> int" where
  "failed_end (Finished ans n failed) = (if failed then 1 else 0)" | "failed_end p = 0"

fun unfinished :: "phase \<Rightarrow> int" where
  "unfinished (Finished ans n failed) = 0" | "unfinished p = 1"

fun counted :: "phase \<Rightarrow> int" where
  "counted (Streaming l n s) = 1" | "counted (Finished ans n failed) = 1" | "counted p = 0"

named_theorems phase_simps \<open>what a phase counts for\<close>

lemma phase_counts [phase_simps]:
  "holds a (Waiting k) = 0" "holds a (Finished ans n failed) = 0" "active (Waiting k) = 0" "active (Finished ans n failed) = 0"
  "holds a (Sending l n) = (if ls_replica l = a then 1 else 0)" "holds a (Streaming l n s) = (if ls_replica l = a then 1 else 0)"
  "active (Sending l n) = 1" "active (Streaming l n s) = 1"
  by (simp_all add: holds_def active_def)

lemma sum_list_int_update:
  "i < length xs \<Longrightarrow> sum_list (map f (xs[i := y])) = sum_list (map f xs) + (f y - f (xs ! i) :: int)"
  by (induction xs arbitrary: i) (auto split: nat.split)

lemma tally_set_phase: "i < length (sv_requests sv) \<Longrightarrow> tally f (set_phase i p sv) = tally f sv + (f p - f (phase_of sv i))"
  by (simp add: tally_def set_phase_def sum_list_int_update)

lemma tally_member:
  assumes "i < length (sv_requests sv)" "\<And>p. 0 \<le> f p" shows "f (phase_of sv i) \<le> tally f sv"
proof -
  have "phase_of sv i \<in> set (map cr_phase (sv_requests sv))" using assms(1) by simp
  then have "f (phase_of sv i) \<le> sum_list (map f (map cr_phase (sv_requests sv)))"
    using assms(2) by (intro member_le_sum_list) auto
  then show ?thesis by (simp add: tally_def o_def)
qed

lemma tally_count: "tally (\<lambda>p. if P p then 1 else 0) sv = int (length (filter (\<lambda>r. P (cr_phase r)) (sv_requests sv)))"
proof -
  have "sum_list (map (\<lambda>r. if P (cr_phase r) then 1 else 0) xs) = int (length (filter (\<lambda>r. P (cr_phase r)) xs))" for xs
    by (induction xs) auto
  then show ?thesis by (simp add: tally_def)
qed

section \<open>What the router's operations keep\<close>

lemma release_slot_simps [simp]:
  "rt_policy (release_slot rt) = rt_policy rt" "rt_objects (release_slot rt) = rt_objects rt"
  "rt_registry (release_slot rt) = rt_registry rt" "rt_max_concurrency (release_slot rt) = rt_max_concurrency rt"
  "rt_max_queue_depth (release_slot rt) = rt_max_queue_depth rt" "rt_semaphore (release_slot rt) = rt_semaphore rt"
  "rt_waiting (release_slot rt) = rt_waiting rt" "rt_total_errors (release_slot rt) = rt_total_errors rt"
  "length (rt_semaphores (release_slot rt)) = length (rt_semaphores rt)"
  by (simp_all add: release_slot_def split: option.split)

lemma update_object_simps [simp]:
  "rt_objects (update_object a f rt) = (rt_objects rt)[a := f (object rt a)]"
  "rt_registry (update_object a f rt) = rt_registry rt" "rt_max_concurrency (update_object a f rt) = rt_max_concurrency rt"
  "rt_max_queue_depth (update_object a f rt) = rt_max_queue_depth rt" "rt_semaphore (update_object a f rt) = rt_semaphore rt"
  "rt_semaphores (update_object a f rt) = rt_semaphores rt" "rt_waiting (update_object a f rt) = rt_waiting rt"
  "rt_total_errors (update_object a f rt) = rt_total_errors rt" "rt_policy (update_object a f rt) = rt_policy rt"
  by (simp_all add: update_object_def)

lemma object_fields [simp]:
  "rs_inflight_requests (charge_request r) = rs_inflight_requests r + 1" "rs_failures (charge_request r) = rs_failures r"
  "rs_inflight_requests (charge_failure e r) = rs_inflight_requests r" "rs_failures (charge_failure e r) = rs_failures r + 1"
  "rs_inflight_requests (drop_request r) = max 0 (rs_inflight_requests r - 1)" "rs_failures (drop_request r) = rs_failures r"
  "rs_id (charge_request r) = rs_id r" "rs_id (charge_failure e r) = rs_id r" "rs_id (drop_request r) = rs_id r"
  by (simp_all add: charge_request_def charge_failure_def drop_request_def)

text \<open>The router refers to existing objects only, under their own names.\<close>

definition registry_ok :: "router \<Rightarrow> bool" where
  "registry_ok rt \<longleftrightarrow> (\<forall>(rid, a) \<in> set (rt_registry rt). a < length (rt_objects rt) \<and> rs_id (object rt a) = rid)"

lemma candidate_ok: "registry_ok rt \<Longrightarrow> a \<in> set (route_candidates ex rt) \<Longrightarrow> a < length (rt_objects rt) \<and> rs_id (object rt a) \<notin> set ex"
  by (auto simp: registry_ok_def route_candidates_iff)

text \<open>The parts of the router that hold the accounts, and those of the gate.\<close>

definition same_accounts :: "router \<Rightarrow> router \<Rightarrow> bool" where
  "same_accounts rt rt' \<longleftrightarrow> rt_objects rt' = rt_objects rt \<and> rt_registry rt' = rt_registry rt \<and> rt_total_errors rt' = rt_total_errors rt"

definition same_gate :: "router \<Rightarrow> router \<Rightarrow> bool" where
  "same_gate rt rt' \<longleftrightarrow> rt_semaphores rt' = rt_semaphores rt \<and> rt_semaphore rt' = rt_semaphore rt \<and> rt_waiting rt' = rt_waiting rt
     \<and> rt_max_concurrency rt' = rt_max_concurrency rt \<and> rt_max_queue_depth rt' = rt_max_queue_depth rt"

lemma take_replica_Inl: "take_replica rt = (Inl e, rt') \<Longrightarrow> rt' = release_slot rt"
  by (auto simp: take_replica_def route_select_Inl split: prod.splits sum.splits)

lemma take_replica_Inr:
  assumes "take_replica rt = (Inr l, rt')" "registry_ok rt"
  shows "ls_replica l < length (rt_objects rt)" "ls_excluded l = [rs_id (object rt (ls_replica l))]"
    "rt_objects rt' = (rt_objects rt)[ls_replica l := charge_request (object rt (ls_replica l))]"
    "rt_registry rt' = rt_registry rt" "rt_total_errors rt' = rt_total_errors rt" "same_gate rt rt'"
proof -
  obtain a rt1 where a: "route_select [] rt = (Inr a, rt1)"
    using assms(1) by (auto simp: take_replica_def split: prod.splits sum.splits)
  obtain p where p: "rt1 = rt\<lparr>rt_policy := p\<rparr>" using route_select_Inr(2)[OF a] by blast
  have l: "l = \<lparr>ls_replica = a, ls_excluded = [rs_id (object rt a)]\<rparr>"
    and rt': "rt' = update_object a charge_request (rt1\<lparr>rt_total_requests := rt_total_requests rt1 + 1\<rparr>)"
    using assms(1) a p by (auto simp: take_replica_def)
  show "ls_replica l < length (rt_objects rt)" "ls_excluded l = [rs_id (object rt (ls_replica l))]"
    "rt_objects rt' = (rt_objects rt)[ls_replica l := charge_request (object rt (ls_replica l))]"
    "rt_registry rt' = rt_registry rt" "rt_total_errors rt' = rt_total_errors rt" "same_gate rt rt'"
    using candidate_ok[OF assms(2) route_select_Inr(1)[OF a]] by (simp_all add: l rt' p same_gate_def)
qed

lemma reroute_Inl: "reroute l err rt = (Inl e, rt') \<Longrightarrow> rt' = rt"
  by (auto simp: reroute_def route_select_Inl Let_def split: prod.splits sum.splits)

lemma reroute_Inr:
  assumes "reroute l err rt = (Inr l', rt')" "registry_ok rt" "rs_id (object rt (ls_replica l)) \<in> set (ls_excluded l)"
  shows "ls_replica l' < length (rt_objects rt)" "ls_replica l' \<noteq> ls_replica l"
    "rs_id (object rt (ls_replica l')) \<notin> set (ls_excluded l)" "ls_excluded l' = rs_id (object rt (ls_replica l')) # ls_excluded l"
    "rt_objects rt' = (rt_objects rt)[ls_replica l := charge_failure err (drop_request (object rt (ls_replica l))),
       ls_replica l' := charge_request (object rt (ls_replica l'))]"
    "rt_registry rt' = rt_registry rt" "rt_total_errors rt' = rt_total_errors rt" "same_gate rt rt'"
proof -
  obtain a rt1 where a: "route_select (ls_excluded l) rt = (Inr a, rt1)"
    using assms(1) by (auto simp: reroute_def Let_def split: prod.splits sum.splits)
  obtain p where p: "rt1 = rt\<lparr>rt_policy := p\<rparr>" using route_select_Inr(2)[OF a] by blast
  have c: "a < length (rt_objects rt)" "rs_id (object rt a) \<notin> set (ls_excluded l)"
    using candidate_ok[OF assms(2) route_select_Inr(1)[OF a]] by auto
  then have ne: "a \<noteq> ls_replica l" using assms(3) by auto
  have l': "l' = \<lparr>ls_replica = a, ls_excluded = rs_id (object rt a) # ls_excluded l\<rparr>"
    and rt': "rt' = update_object a charge_request (update_object (ls_replica l) (charge_failure err \<circ> drop_request) rt1)"
    using assms(1) a p ne c by (auto simp: reroute_def Let_def)
  show "ls_replica l' < length (rt_objects rt)" "ls_replica l' \<noteq> ls_replica l"
    "rs_id (object rt (ls_replica l')) \<notin> set (ls_excluded l)" "ls_excluded l' = rs_id (object rt (ls_replica l')) # ls_excluded l"
    "rt_objects rt' = (rt_objects rt)[ls_replica l := charge_failure err (drop_request (object rt (ls_replica l))),
       ls_replica l' := charge_request (object rt (ls_replica l'))]"
    "rt_registry rt' = rt_registry rt" "rt_total_errors rt' = rt_total_errors rt" "same_gate rt rt'"
    using c ne by (simp_all add: l' rt' p same_gate_def)
qed

section \<open>The accounts balance\<close>

definition lease_fine :: "router \<Rightarrow> lease \<Rightarrow> nat \<Rightarrow> bool" where
  "lease_fine rt l n \<longleftrightarrow> ls_replica l < length (rt_objects rt) \<and> n \<le> 1 \<and> length (ls_excluded l) = n + 1
     \<and> distinct (ls_excluded l) \<and> ls_excluded l ! 0 = rs_id (object rt (ls_replica l))"

fun phase_fine :: "router \<Rightarrow> phase \<Rightarrow> bool" where
  "phase_fine rt (Waiting k) = True" | "phase_fine rt (Sending l n) = lease_fine rt l n"
| "phase_fine rt (Streaming l n s) = lease_fine rt l n" | "phase_fine rt (Finished ans n failed) = (n \<le> 1)"

abbreviation objects :: "serving \<Rightarrow> replica_state list" where
  "objects sv \<equiv> rt_objects (sv_router sv)"

definition books :: "serving \<Rightarrow> bool" where
  "books sv \<longleftrightarrow> registry_ok (sv_router sv)
     \<and> (\<forall>a < length (objects sv). rs_inflight_requests (objects sv ! a) = tally (holds a) sv)
     \<and> sum_list (map rs_failures (objects sv)) = tally charges sv
     \<and> rt_total_errors (sv_router sv) = tally failed_end sv
     \<and> sv_requests_inflight sv = tally unfinished sv
     \<and> int (length (sv_requests_total sv)) = tally counted sv
     \<and> (\<forall>i < length (sv_requests sv). phase_fine (sv_router sv) (phase_of sv i))"

text \<open>Request \<open>i\<close> moves to phase \<open>p\<close> and the accounts follow.\<close>

definition moves :: "nat \<Rightarrow> phase \<Rightarrow> serving \<Rightarrow> serving \<Rightarrow> bool" where
  "moves i p sv sv' \<longleftrightarrow> sv_requests sv' = sv_requests (set_phase i p sv) \<and> registry_ok (sv_router sv')
     \<and> map rs_id (objects sv') = map rs_id (objects sv)
     \<and> (\<forall>a < length (objects sv). rs_inflight_requests (objects sv' ! a)
           = rs_inflight_requests (objects sv ! a) + (holds a p - holds a (phase_of sv i)))
     \<and> sum_list (map rs_failures (objects sv')) = sum_list (map rs_failures (objects sv)) + (charges p - charges (phase_of sv i))
     \<and> rt_total_errors (sv_router sv') = rt_total_errors (sv_router sv) + (failed_end p - failed_end (phase_of sv i))
     \<and> sv_requests_inflight sv' = sv_requests_inflight sv + (unfinished p - unfinished (phase_of sv i))
     \<and> int (length (sv_requests_total sv')) = int (length (sv_requests_total sv)) + (counted p - counted (phase_of sv i))
     \<and> phase_fine (sv_router sv) p"

lemma tally_requests: "sv_requests sv = sv_requests sv' \<Longrightarrow> tally f sv = tally f sv'"
  by (simp add: tally_def)

lemma phase_fine_ids:
  "map rs_id (rt_objects rt') = map rs_id (rt_objects rt) \<Longrightarrow> phase_fine rt' p = phase_fine rt p"
proof -
  assume ids: "map rs_id (rt_objects rt') = map rs_id (rt_objects rt)"
  then have len: "length (rt_objects rt') = length (rt_objects rt)" by (rule map_eq_imp_length_eq)
  have "a < length (rt_objects rt) \<Longrightarrow> rs_id (object rt' a) = rs_id (object rt a)" for a
    using arg_cong[OF ids, of "\<lambda>xs. xs ! a"] by (simp add: len)
  then show ?thesis by (cases p) (auto simp: lease_fine_def len)
qed

lemma books_moves:
  assumes "books sv" "i < length (sv_requests sv)" "moves i p sv sv'" shows "books sv'"
proof -
  have t: "tally f sv' = tally f sv + (f p - f (phase_of sv i))" for f
    using assms(2,3) tally_set_phase[of i sv f p] tally_requests[of sv' "set_phase i p sv" f] by (simp add: moves_def)
  have ids: "map rs_id (objects sv') = map rs_id (objects sv)" using assms(3) by (simp add: moves_def)
  then have len: "length (objects sv') = length (objects sv)" by (rule map_eq_imp_length_eq)
  have "phase_fine (sv_router sv') (phase_of sv' j)" if "j < length (sv_requests sv')" for j
    using that assms by (cases "j = i") (auto simp: moves_def set_phase_def books_def phase_fine_ids[OF ids])
  then show ?thesis using assms(1,3) unfolding books_def by (simp add: t moves_def len)
qed

lemma same_accounts_simps: "same_accounts rt rt' \<Longrightarrow> rt_objects rt' = rt_objects rt \<and> rt_total_errors rt' = rt_total_errors rt
    \<and> registry_ok rt' = registry_ok rt"
  by (simp add: same_accounts_def registry_ok_def)

lemma books_inflight_pos:
  assumes "books sv" "i < length (sv_requests sv)" "lease_of (phase_of sv i) = Some l"
  shows "ls_replica l < length (objects sv)" "1 \<le> rs_inflight_requests (objects sv ! ls_replica l)"
proof -
  show a: "ls_replica l < length (objects sv)"
    using assms unfolding books_def by (cases "phase_of sv i") (auto simp: lease_fine_def)
  have "holds (ls_replica l) (phase_of sv i) \<le> tally (holds (ls_replica l)) sv"
    using assms(2) by (rule tally_member) (simp add: holds_def split: option.split)
  then show "1 \<le> rs_inflight_requests (objects sv ! ls_replica l)"
    using assms a by (simp add: books_def holds_def)
qed

lemma sum_list_map_update: "a < length xs \<Longrightarrow> sum_list (map f (xs[a := y])) = sum_list (map f xs) + (f y - f (xs ! a) :: int)"
  by (rule sum_list_int_update)

lemma registry_ok_update:
  "registry_ok rt \<Longrightarrow> map rs_id (rt_objects rt') = map rs_id (rt_objects rt) \<Longrightarrow> rt_registry rt' = rt_registry rt \<Longrightarrow> registry_ok rt'"
proof -
  assume ok: "registry_ok rt" and ids: "map rs_id (rt_objects rt') = map rs_id (rt_objects rt)" and reg: "rt_registry rt' = rt_registry rt"
  have len: "length (rt_objects rt') = length (rt_objects rt)" using ids by (rule map_eq_imp_length_eq)
  have "a < length (rt_objects rt) \<Longrightarrow> rs_id (object rt' a) = rs_id (object rt a)" for a
    using arg_cong[OF ids, of "\<lambda>xs. xs ! a"] by (simp add: len)
  then show ?thesis using ok by (auto simp: registry_ok_def reg len)
qed

lemma map_update_same: "f y = f (xs ! a) \<Longrightarrow> map f (xs[a := y]) = map f xs"
  by (cases "a < length xs") (simp_all add: map_update list_update_same_conv list_update_beyond)

lemma cleanup_moves:
  assumes b: "books sv" and i: "i < length (sv_requests sv)" and req: "sv_requests sv0 = sv_requests sv"
    and acc: "same_accounts (sv_router sv) (sv_router sv0)" and g: "sv_requests_inflight sv0 = sv_requests_inflight sv"
    and old: "lease_of (phase_of sv i) = l" "charges (phase_of sv i) = int n" "unfinished (phase_of sv i) = 1"
    and tot: "int (length (sv_requests_total sv0)) = int (length (sv_requests_total sv)) + (1 - counted (phase_of sv i))"
  shows "moves i (Finished ans n (l \<noteq> None \<and> err \<noteq> None)) sv (cleanup i ans n l err sv0)"
proof -
  have n: "n \<le> 1" using b i old(2,3) unfolding books_def by (cases "phase_of sv i") (auto simp: lease_fine_def split: if_splits)
  have f: "failed_end (phase_of sv i) = 0" using old(3) by (cases "phase_of sv i") auto
  have e: "sv_requests (cleanup i ans n l err sv0) = sv_requests (set_phase i (Finished ans n (l \<noteq> None \<and> err \<noteq> None)) sv)"
    by (simp add: cleanup_def set_phase_def req)
  show ?thesis
  proof (cases l)
    case None
    then show ?thesis using b n f old tot g same_accounts_simps[OF acc] e
      by (auto simp: moves_def cleanup_def set_phase_def holds_def books_def)
  next
    case (Some lz)
    note pos = books_inflight_pos[OF b i, of lz]
    let ?rt = "release lz (err \<noteq> None) err (sv_router sv0)"
    have ids: "map rs_id (rt_objects ?rt) = map rs_id (objects sv)"
      using same_accounts_simps[OF acc] pos(1) old(1) Some by (simp add: release_def Let_def map_update_same)
    have reg: "registry_ok ?rt"
      by (rule registry_ok_update[of "sv_router sv"]) (use b acc ids in \<open>auto simp: books_def release_def Let_def same_accounts_def\<close>)
    have infl: "\<forall>a < length (objects sv). rs_inflight_requests (rt_objects ?rt ! a)
        = rs_inflight_requests (objects sv ! a) + (0 - holds a (phase_of sv i))"
      using pos old(1) Some same_accounts_simps[OF acc]
      by (auto simp: release_def Let_def holds_def nth_list_update)
    have fails: "sum_list (map rs_failures (rt_objects ?rt)) = sum_list (map rs_failures (objects sv)) + (if err \<noteq> None then 1 else 0)"
      using pos old(1) Some same_accounts_simps[OF acc] by (simp add: release_def Let_def sum_list_map_update)
    have errs: "rt_total_errors ?rt = rt_total_errors (sv_router sv) + (if err \<noteq> None then 1 else 0)"
      using same_accounts_simps[OF acc] by (simp add: release_def Let_def)
    show ?thesis unfolding moves_def e
      using ids reg infl fails errs old f tot g n Some by (simp add: cleanup_def set_phase_def phase_simps)
  qed
qed

lemma counters_simps [simp]:
  "sv_requests (count_error i r sv) = sv_requests sv" "sv_requests (count_total i c sv) = sv_requests sv"
  "sv_router (count_error i r sv) = sv_router sv" "sv_router (count_total i c sv) = sv_router sv"
  "sv_requests_inflight (count_error i r sv) = sv_requests_inflight sv" "sv_requests_inflight (count_total i c sv) = sv_requests_inflight sv"
  "sv_requests_total (count_error i r sv) = sv_requests_total sv"
  "length (sv_requests_total (count_total i c sv)) = length (sv_requests_total sv) + 1"
  by (simp_all add: count_error_def count_total_def)

lemma same_accounts_refl [simp]: "same_accounts rt rt"
  by (simp add: same_accounts_def)

lemma refuse_moves:
  assumes "books sv" "i < length (sv_requests sv)" "phase_of sv i = Waiting k" "same_accounts (sv_router sv) rt"
  shows "\<exists>p. moves i p sv (refuse i e (sv\<lparr>sv_router := rt\<rparr>)) \<and> (\<exists>ans. p = Finished ans 0 False)"
proof -
  have "moves i (Finished ans 0 False) sv (cleanup i ans 0 None None (count_total i c (count_error i r (sv\<lparr>sv_router := rt\<rparr>))))" for ans c r
    using cleanup_moves[OF assms(1,2), of "count_total i c (count_error i r (sv\<lparr>sv_router := rt\<rparr>))" None 0 ans None] assms(3,4) by simp
  then show ?thesis unfolding refuse_def by (cases e) auto
qed

text \<open>A request that waits for its slot gets a replica, or is refused.\<close>

lemma admitted_moves:
  assumes b: "books sv" and i: "i < length (sv_requests sv)" "phase_of sv i = Waiting k"
    and acc: "same_accounts (sv_router sv) rt"
  shows "fst (take_replica rt) = Inl e \<Longrightarrow> \<exists>p. moves i p sv (refuse i e (sv\<lparr>sv_router := snd (take_replica rt)\<rparr>))"
    and "fst (take_replica rt) = Inr l \<Longrightarrow> moves i (Sending l 0) sv (set_phase i (Sending l 0) (sv\<lparr>sv_router := snd (take_replica rt)\<rparr>))"
proof -
  assume "fst (take_replica rt) = Inl e"
  then have "snd (take_replica rt) = release_slot rt" by (metis take_replica_Inl prod.collapse)
  then have "same_accounts (sv_router sv) (snd (take_replica rt))" using acc by (simp add: same_accounts_def)
  then show "\<exists>p. moves i p sv (refuse i e (sv\<lparr>sv_router := snd (take_replica rt)\<rparr>))" using refuse_moves[OF b i] by blast
next
  assume l: "fst (take_replica rt) = Inr l"
  have ok: "registry_ok rt" using b acc same_accounts_simps by (simp add: books_def)
  obtain rt' where t: "take_replica rt = (Inr l, rt')" using l by (metis prod.collapse)
  note f = take_replica_Inr[OF t ok]
  have ids: "map rs_id (rt_objects rt') = map rs_id (objects sv)" using f(3) acc by (simp add: map_update_same same_accounts_def)
  have "registry_ok rt'" by (rule registry_ok_update[of "sv_router sv"]) (use b acc ids f in \<open>auto simp: books_def same_accounts_def\<close>)
  then show "moves i (Sending l 0) sv (set_phase i (Sending l 0) (sv\<lparr>sv_router := snd (take_replica rt)\<rparr>))"
    unfolding moves_def using f ids acc i t
    by (auto simp: set_phase_def same_accounts_def phase_simps nth_list_update sum_list_map_update lease_fine_def)
qed

lemma rerouted_moves:
  assumes b: "books sv" and i: "i < length (sv_requests sv)" "phase_of sv i = Sending l 0"
    and r: "reroute l err (sv_router sv) = (Inr l', rt')"
  shows "moves i (Sending l' 1) sv (set_phase i (Sending l' 1) (sv\<lparr>sv_router := rt'\<rparr>))"
proof -
  have fine: "lease_fine (sv_router sv) l 0" using b i by (auto simp: books_def dest: spec[of _ i])
  have ok: "registry_ok (sv_router sv)" using b by (simp add: books_def)
  have "rs_id (object (sv_router sv) (ls_replica l)) \<in> set (ls_excluded l)"
    using fine unfolding lease_fine_def by (metis add.commute nth_mem plus_1_eq_Suc zero_less_Suc)
  note f = reroute_Inr[OF r ok this]
  note pos = books_inflight_pos[OF b i(1), of l]
  have ids: "map rs_id (rt_objects rt') = map rs_id (objects sv)"
    using f(2,5) by (simp add: map_update_same nth_list_update)
  have "registry_ok rt'" by (rule registry_ok_update[OF ok ids f(6)])
  moreover have "lease_fine (sv_router sv) l' 1" using fine f by (simp add: lease_fine_def)
  ultimately show ?thesis unfolding moves_def using f ids pos i
    by (auto simp: set_phase_def phase_simps nth_list_update sum_list_map_update)
qed

lemma bad_gateway_moves:
  assumes "books sv" "i < length (sv_requests sv)" "phase_of sv i = Sending l n"
  shows "\<exists>p. moves i p sv (bad_gateway i l n err sv)"
  using cleanup_moves[OF assms(1,2), of "count_total i ''5xx'' (count_error i ''backend_unreachable'' sv)" "Some l" n _ "Some err"] assms(3)
  unfolding bad_gateway_def by (intro exI) (simp del: count_total_def count_error_def)

lemma attempt_failed_moves:
  assumes "books sv" "i < length (sv_requests sv)" "phase_of sv i = Sending l n"
  shows "\<exists>p. moves i p sv (attempt_failed i l n err sv)"
proof (cases "1 \<le> n")
  case True
  then show ?thesis using bad_gateway_moves[OF assms] by (simp add: attempt_failed_def)
next
  case False
  then have n: "n = 0" by simp
  obtain r rt' where r: "reroute l (Some err) (sv_router sv) = (r, rt')" by fastforce
  show ?thesis
  proof (cases r)
    case (Inl e)
    then have "rt' = sv_router sv" using r reroute_Inl by blast
    then show ?thesis using bad_gateway_moves[OF assms, of err] Inl r n by (simp add: attempt_failed_def)
  next
    case (Inr l')
    then show ?thesis using rerouted_moves[OF assms(1,2), of l "Some err" l' rt'] assms(3) r n by (auto simp: attempt_failed_def)
  qed
qed

lemma attempt_moves:
  assumes "books sv" "i < length (sv_requests sv)" "phase_of sv i = Sending l n"
  shows "\<exists>p. moves i p sv (attempt i l n res sv)"
proof (cases res)
  case (Broken err)
  then show ?thesis using attempt_failed_moves[OF assms] by (simp add: attempt_def)
next
  case (Status s)
  have "moves i (Streaming l n s) sv (set_phase i (Streaming l n s) (count_total i (status_class s) sv))"
    using assms by (auto simp: moves_def set_phase_def books_def phase_simps dest!: spec[of _ i])
  then show ?thesis using attempt_failed_moves[OF assms] Status by (auto simp: attempt_def)
qed

lemma stream_moves:
  assumes "books sv" "i < length (sv_requests sv)" "phase_of sv i = Streaming l n s"
  shows "\<exists>p. moves i p sv (stream_end i l n s sv)" "\<exists>p. moves i p sv (stream_drop i l n s err sv)"
  using cleanup_moves[OF assms(1,2), of sv "Some l" n _ None] assms(3)
    cleanup_moves[OF assms(1,2), of "count_error i ''backend_disconnect'' sv" "Some l" n _ "Some err"]
  unfolding stream_end_def stream_drop_def by (auto simp: phase_simps)

lemma books_new: "new_router pol cap depth = Some rt \<Longrightarrow> books (new_serving rt)"
  by (auto simp: new_router_def install_semaphore_def new_serving_def books_def tally_def registry_ok_def split: if_splits)

text \<open>A request that has just been received.\<close>

definition received :: "string \<Rightarrow> serving \<Rightarrow> serving" where
  "received ep sv = sv\<lparr>sv_requests_inflight := sv_requests_inflight sv + 1,
     sv_requests := sv_requests sv @ [\<lparr>cr_endpoint = ep, cr_phase = Waiting (the_or (rt_semaphore (sv_router sv)) 0)\<rparr>]\<rparr>"

lemma received_simps [simp]:
  "sv_router (received ep sv) = sv_router sv" "length (sv_requests (received ep sv)) = Suc (length (sv_requests sv))"
  "phase_of (received ep sv) (length (sv_requests sv)) = Waiting (the_or (rt_semaphore (sv_router sv)) 0)"
  "i < length (sv_requests sv) \<Longrightarrow> phase_of (received ep sv) i = phase_of sv i"
  "sv_requests_total (received ep sv) = sv_requests_total sv"
  "sv_requests_inflight (received ep sv) = sv_requests_inflight sv + 1"
  by (simp_all add: received_def nth_append)

lemma tally_received: "tally f (received ep sv) = tally f sv + f (Waiting (the_or (rt_semaphore (sv_router sv)) 0))"
  by (simp add: tally_def received_def)

lemma arrive_received:
  "arrive ep sv = (let r = begin_acquire (length (sv_requests sv)) (sv_router sv); i = length (sv_requests sv);
       sv1 = (received ep sv)\<lparr>sv_router := snd r\<rparr>
     in case fst r of Inl e \<Rightarrow> refuse i e sv1 | Inr None \<Rightarrow> sv1 | Inr (Some l) \<Rightarrow> set_phase i (Sending l 0) sv1)"
  by (simp add: arrive_def received_def Let_def)

lemma books_received: "books sv \<Longrightarrow> books (received ep sv)"
  unfolding books_def by (auto simp: tally_received phase_simps less_Suc_eq)

text \<open>How the gate answers an arriving request.\<close>

lemma begin_acquire_cases:
  obtains (take) rt where "begin_acquire t rt0 = map_prod (map_sum id Some) id (take_replica rt)" "same_accounts rt0 rt"
      "rt_semaphore rt0 = None \<and> rt = rt0 \<or> (\<exists>k. rt_semaphore rt0 = Some k \<and> \<not> locked (rt_semaphores rt0 ! k)
         \<and> rt = rt0\<lparr>rt_semaphores := (rt_semaphores rt0)[k := (rt_semaphores rt0 ! k)\<lparr>sm_value := sm_value (rt_semaphores rt0 ! k) - 1\<rparr>]\<rparr>)"
    | (full) k where "rt_semaphore rt0 = Some k" "rt_max_queue_depth rt0 \<le> rt_waiting rt0"
      "begin_acquire t rt0 = (Inl (Overloaded (rt_waiting rt0)), rt0\<lparr>rt_rejected_overload := rt_rejected_overload rt0 + 1\<rparr>)"
    | (wait) k where "rt_semaphore rt0 = Some k" "locked (rt_semaphores rt0 ! k)" "rt_waiting rt0 < rt_max_queue_depth rt0"
      "begin_acquire t rt0 = (Inr None, rt0\<lparr>rt_waiting := rt_waiting rt0 + 1, rt_semaphores := (rt_semaphores rt0)
         [k := (rt_semaphores rt0 ! k)\<lparr>sm_waiters := sm_waiters (rt_semaphores rt0 ! k) @ [t]\<rparr>]\<rparr>)"
proof (cases "rt_semaphore rt0")
  case None
  then show ?thesis using take[of rt0] by (simp add: begin_acquire_def)
next
  case (Some k)
  show ?thesis
  proof (cases "locked (rt_semaphores rt0 ! k)")
    case True
    then show ?thesis using Some full[of k] wait[of k]
      by (cases "rt_max_queue_depth rt0 \<le> rt_waiting rt0") (simp_all add: begin_acquire_def Let_def not_le)
  next
    case False
    then show ?thesis using Some take[of "rt0\<lparr>rt_semaphores := (rt_semaphores rt0)[k := (rt_semaphores rt0 ! k)\<lparr>sm_value := sm_value (rt_semaphores rt0 ! k) - 1\<rparr>]\<rparr>"]
      by (simp add: begin_acquire_def Let_def same_accounts_def)
  qed
qed

lemma tally_router [simp]: "tally f (sv\<lparr>sv_router := rt\<rparr>) = tally f sv"
  by (simp add: tally_def)

lemma books_router:
  assumes "books sv" "registry_ok rt" "map rs_id (rt_objects rt) = map rs_id (objects sv)"
    "map rs_inflight_requests (rt_objects rt) = map rs_inflight_requests (objects sv)"
    "map rs_failures (rt_objects rt) = map rs_failures (objects sv)" "rt_total_errors rt = rt_total_errors (sv_router sv)"
  shows "books (sv\<lparr>sv_router := rt\<rparr>)"
proof -
  have len: "length (rt_objects rt) = length (objects sv)" using assms(3) by (rule map_eq_imp_length_eq)
  have "a < length (objects sv) \<Longrightarrow> rs_inflight_requests (object rt a) = rs_inflight_requests (objects sv ! a)" for a
    using arg_cong[OF assms(4), of "\<lambda>xs. xs ! a"] by (simp add: len)
  then show ?thesis using assms(1,2,5,6) len unfolding books_def by (simp add: phase_fine_ids[OF assms(3)])
qed

lemma books_arrive: assumes "books sv" shows "books (arrive ep sv)"
proof -
  let ?i = "length (sv_requests sv)" and ?sv = "received ep sv"
  note b = books_received[OF assms, of ep]
  have i: "?i < length (sv_requests ?sv)" "phase_of ?sv ?i = Waiting (the_or (rt_semaphore (sv_router sv)) 0)" by simp_all
  show ?thesis
  proof (cases rule: begin_acquire_cases[where t = ?i and ?rt0.0 = "sv_router sv"])
    case (take rt)
    then have acc: "same_accounts (sv_router ?sv) rt" by simp
    note m = admitted_moves[OF b i acc]
    show ?thesis
    proof (cases "fst (take_replica rt)")
      case (Inl e)
      then show ?thesis using m(1)[OF Inl] take(1) books_moves[OF b i(1)] by (auto simp: arrive_received Let_def)
    next
      case (Inr l)
      then show ?thesis using m(2)[OF Inr] take(1) books_moves[OF b i(1)] by (auto simp: arrive_received Let_def)
    qed
  next
    case full
    then show ?thesis using refuse_moves[OF b i, of "snd (begin_acquire ?i (sv_router sv))"] books_moves[OF b i(1)]
      by (auto simp: arrive_received Let_def same_accounts_def)
  next
    case wait
    then have "books (?sv\<lparr>sv_router := snd (begin_acquire ?i (sv_router sv))\<rparr>)"
      using b by (intro books_router[OF b]) (simp_all add: books_def registry_ok_def)
    then show ?thesis using wait by (simp add: arrive_received Let_def)
  qed
qed

lemma books_progress: assumes "progress sv sv'" "books sv" shows "books sv'"
  using assms
proof (induction rule: progress.induct)
  case (resumed i sv k)
  let ?rt = "(sv_router sv)\<lparr>rt_waiting := rt_waiting (sv_router sv) - 1, rt_semaphores := (rt_semaphores (sv_router sv))
       [k := sem_resume i (rt_semaphores (sv_router sv) ! k)]\<rparr>"
  have "same_accounts (sv_router sv) ?rt" by (simp add: same_accounts_def)
  note m = admitted_moves[OF resumed(4,1,2) this]
  show ?case
  proof (cases "fst (take_replica ?rt)")
    case (Inl e)
    then show ?thesis using m(1)[OF Inl] books_moves[OF resumed(4,1)] by (auto simp: resume_def resume_acquire_def Let_def)
  next
    case (Inr l)
    then show ?thesis using m(2)[OF Inr] books_moves[OF resumed(4,1)] by (auto simp: resume_def resume_acquire_def Let_def)
  qed
next
  case (attempted i sv l n res)
  then show ?case using attempt_moves books_moves by blast
next
  case (ended i sv l n s)
  then show ?case using stream_moves(1) books_moves by blast
next
  case (dropped i sv l n s err)
  then show ?case using stream_moves(2) books_moves by blast
qed

lemma phase_fine_append:
  "rt_objects rt' = rt_objects rt @ [r] \<Longrightarrow> phase_fine rt p \<Longrightarrow> phase_fine rt' p"
  by (cases p) (auto simp: lease_fine_def nth_append)

lemma tally_beyond: "books sv \<Longrightarrow> tally (holds (length (objects sv))) sv = 0"
proof -
  assume b: "books sv"
  have "holds (length (objects sv)) (cr_phase r) = 0" if "r \<in> set (sv_requests sv)" for r
    using that b unfolding books_def in_set_conv_nth by (cases "cr_phase r") (auto simp: phase_simps lease_fine_def)
  then show ?thesis by (auto simp: tally_def intro!: sum_list_0 cong: map_cong)
qed

lemma in_set_delete: "x \<in> set (AList.delete k d) \<Longrightarrow> x \<in> set d"
  by (auto simp: AList.delete_eq)

lemma books_outside: "outside sv sv' \<Longrightarrow> books sv \<Longrightarrow> books sv'"
proof (induction rule: outside.induct)
  case (health_changed sv rid st err)
  let ?rt = "set_status rid st err (sv_router sv)"
  have ids: "map rs_id (rt_objects ?rt) = map rs_id (objects sv)"
    "map rs_inflight_requests (rt_objects ?rt) = map rs_inflight_requests (objects sv)"
    "map rs_failures (rt_objects ?rt) = map rs_failures (objects sv)"
    "rt_total_errors ?rt = rt_total_errors (sv_router sv)" "rt_registry ?rt = rt_registry (sv_router sv)"
    by (simp_all add: set_status_def map_update_same split: option.split)
  have "registry_ok ?rt" by (rule registry_ok_update[OF _ ids(1,5)]) (use health_changed in \<open>simp add: books_def\<close>)
  then show ?case using books_router[OF health_changed] ids by blast
next
  case (replica_added sv rid url gpus pid)
  let ?sv = "sv\<lparr>sv_router := snd (add_replica rid url gpus pid (sv_router sv))\<rparr>"
  have objs: "objects ?sv = objects sv @ [new_replica_state rid url gpus pid]" by (simp add: add_replica_def Let_def)
  have "registry_ok (sv_router ?sv)"
    using replica_added unfolding books_def registry_ok_def
    by (auto simp: add_replica_def Let_def nth_append new_replica_state_def dest!: in_set_update)
  moreover have "phase_fine (sv_router ?sv) p" if "phase_fine (sv_router sv) p" for p
    by (rule phase_fine_append[OF _ that]) (simp add: add_replica_def Let_def)
  moreover have "rt_total_errors (sv_router ?sv) = rt_total_errors (sv_router sv)" by (simp add: add_replica_def Let_def)
  ultimately show ?case using replica_added tally_beyond[OF replica_added] unfolding books_def objs
    by (auto simp: nth_append new_replica_state_def less_Suc_eq)
next
  case (replica_removed sv rid)
  have "registry_ok (remove_replica rid (sv_router sv))"
    using replica_removed unfolding books_def registry_ok_def by (auto simp: remove_replica_def dest!: in_set_delete)
  then show ?case by (intro books_router[OF replica_removed]) (simp_all add: remove_replica_def)
qed

lemma books_reachable:
  assumes "new_router pol cap depth = Some rt" "serves_from rt sv" shows "books sv"
  using assms(2)[unfolded serves_from_def]
proof induction
  case base
  show ?case using books_new[OF assms(1)] .
next
  case (step sv sv')
  then show ?case by (auto elim!: serve_step.cases intro: books_arrive books_progress books_outside)
qed

end
