(* ===== verification/Gate.thy ===== *)
theory Gate
  imports Proxy
begin

text \<open>
  What the server of \<^verbatim>\<open>Proxy\<close> guarantees. The concurrency gate (the semaphore of \<^verbatim>\<open>ReplicaRouter\<close>) has an invariant
  that every step keeps; from it follow the limit on concurrent requests, the bound of the wait queue, the
  progress of every request and the refinement of a first-come-first-served queue. The last part shows what
  \<^verbatim>\<open>set_max_concurrency\<close> does to requests that wait.
\<close>

section \<open>The gate is a bounded queue\<close>

definition slots :: "semaphore \<Rightarrow> int" where
  "slots s = sm_value s + int (length (sm_granted s))"

definition pending :: "semaphore \<Rightarrow> nat list" where
  "pending s = sm_waiters s @ sm_granted s"

definition sem_ok :: "semaphore \<Rightarrow> bool" where
  "sem_ok s \<longleftrightarrow> 0 \<le> sm_value s \<and> (sm_waiters s \<noteq> [] \<longrightarrow> sm_value s = 0 \<or> sm_granted s \<noteq> []) \<and> distinct (pending s)"

lemma wake_next_counts: "slots (wake_next s) = slots s" "set (pending (wake_next s)) = set (pending s)"
    "length (pending (wake_next s)) = length (pending s)" "distinct (pending s) \<Longrightarrow> distinct (pending (wake_next s))"
  by (auto simp: wake_next_def slots_def pending_def split: list.split)

lemma sem_release_ok:
  assumes "sem_ok s"
  shows "sem_ok (sem_release s)" "slots (sem_release s) = slots s + 1" "set (pending (sem_release s)) = set (pending s)"
    "length (pending (sem_release s)) = length (pending s)"
  using assms wake_next_counts[of "s\<lparr>sm_value := sm_value s + 1\<rparr>"]
  by (auto simp: sem_release_def sem_ok_def slots_def pending_def wake_next_def split: list.split)

lemma sem_resume_ok:
  assumes "sem_ok s" "t \<in> set (sm_granted s)"
  shows "sem_ok (sem_resume t s)" "slots (sem_resume t s) = slots s - 1" "set (pending (sem_resume t s)) = set (pending s) - {t}"
    "length (pending (sem_resume t s)) = length (pending s) - 1"
proof -
  let ?s = "s\<lparr>sm_granted := remove1 t (sm_granted s)\<rparr>"
  have p: "slots ?s = slots s - 1" "set (pending ?s) = set (pending s) - {t}" "length (pending ?s) = length (pending s) - 1"
      "distinct (pending ?s)" "0 \<le> sm_value ?s"
    using assms length_pos_if_in_set[of t "sm_granted s"]
    by (cases "length (sm_granted s)"; auto simp: slots_def pending_def sem_ok_def length_remove1)+
  then show "slots (sem_resume t s) = slots s - 1" "set (pending (sem_resume t s)) = set (pending s) - {t}"
    "length (pending (sem_resume t s)) = length (pending s) - 1"
    by (auto simp: sem_resume_def Let_def wake_next_counts)
  have "sem_ok (wake_next ?s)" if "0 < sm_value ?s"
    using p that wake_next_counts(4)[of ?s] by (auto simp: sem_ok_def wake_next_def pending_def split: list.split)
  moreover have "sem_ok ?s" if "sm_value ?s = 0" using p that by (simp add: sem_ok_def)
  ultimately show "sem_ok (sem_resume t s)" using p(5) by (auto simp: sem_resume_def Let_def)
qed

abbreviation sem_at :: "serving \<Rightarrow> nat \<Rightarrow> semaphore" where
  "sem_at sv k \<equiv> rt_semaphores (sv_router sv) ! k"

text \<open>\<open>X\<close> holds the requests that are about to pass the gate.\<close>

definition gate :: "nat \<Rightarrow> int \<Rightarrow> nat set \<Rightarrow> serving \<Rightarrow> bool" where
  "gate k c X sv \<longleftrightarrow> rt_semaphore (sv_router sv) = Some k \<and> k < length (rt_semaphores (sv_router sv))
     \<and> sem_ok (sem_at sv k) \<and> slots (sem_at sv k) + tally active sv = c
     \<and> set (pending (sem_at sv k)) = {i. i < length (sv_requests sv) \<and> phase_of sv i = Waiting k} - X
     \<and> (\<forall>i < length (sv_requests sv). \<forall>k'. phase_of sv i = Waiting k' \<longrightarrow> k' = k)
     \<and> rt_waiting (sv_router sv) = int (length (pending (sem_at sv k)))
     \<and> rt_waiting (sv_router sv) \<le> max 0 (rt_max_queue_depth (sv_router sv))"

text \<open>The router changes its gate: semaphore \<open>k\<close> becomes \<open>s\<close>.\<close>

definition regate :: "nat \<Rightarrow> semaphore \<Rightarrow> int \<Rightarrow> router \<Rightarrow> router \<Rightarrow> bool" where
  "regate k s w rt rt' \<longleftrightarrow> rt_semaphore rt' = rt_semaphore rt \<and> rt_semaphores rt' = (rt_semaphores rt)[k := s]
     \<and> rt_waiting rt' = w \<and> rt_max_queue_depth rt' = rt_max_queue_depth rt"

lemma gate_set_phase:
  assumes g: "gate k c X sv" "X \<subseteq> {i}" and i: "i < length (sv_requests sv)" and p: "\<forall>k'. p \<noteq> Waiting k'"
    and r: "sv_requests sv' = sv_requests (set_phase i p sv)" "regate k s (int (length (pending s))) (sv_router sv) (sv_router sv')"
    and s: "sem_ok s" "slots s + active p = slots (sem_at sv k) + active (phase_of sv i)"
      "set (pending s) = set (pending (sem_at sv k)) - {i}" "length (pending s) \<le> length (pending (sem_at sv k))"
  shows "gate k c {} sv'"
proof -
  have t: "tally active sv' = tally active sv + (active p - active (phase_of sv i))"
    using tally_set_phase[OF i] tally_requests[OF r(1)] by simp
  have ph: "phase_of sv' j = (if j = i then p else phase_of sv j)" if "j < length (sv_requests sv)" for j
    using that i by (simp add: r(1) set_phase_def nth_list_update)
  have len: "length (sv_requests sv') = length (sv_requests sv)" by (simp add: r(1) set_phase_def)
  have w: "{j. j < length (sv_requests sv') \<and> phase_of sv' j = Waiting k} = {j. j < length (sv_requests sv) \<and> phase_of sv j = Waiting k} - {i}"
    using ph p by (auto simp: len split: if_splits)
  show ?thesis using g s r(2) t ph p unfolding gate_def regate_def w by (auto simp: len)
qed

lemma gate_waiting: "gate k c {} sv \<Longrightarrow> i \<in> set (pending (sem_at sv k)) \<longleftrightarrow> i < length (sv_requests sv) \<and> phase_of sv i = Waiting k"
  by (simp add: gate_def)

lemma gate_router:
  assumes "gate k c X sv" "same_gate (sv_router sv) rt" shows "gate k c X (sv\<lparr>sv_router := rt\<rparr>)"
  using assms by (simp add: gate_def same_gate_def)

lemma release_slot_regate: "rt_semaphore rt = Some k \<Longrightarrow> regate k (sem_release (rt_semaphores rt ! k)) (rt_waiting rt) rt (release_slot rt)"
  by (simp add: regate_def release_slot_def)

lemma release_regate: "rt_semaphore rt = Some k \<Longrightarrow> regate k (sem_release (rt_semaphores rt ! k)) (rt_waiting rt) rt (release l f err rt)"
  by (simp add: regate_def release_def release_slot_def Let_def)

lemma requests_cleanup [simp]: "sv_requests (cleanup i ans n l err sv) = sv_requests (set_phase i (Finished ans n (l \<noteq> None \<and> err \<noteq> None)) sv)"
  "sv_router (cleanup i ans n l err sv) = (case l of None \<Rightarrow> sv_router sv | Some l \<Rightarrow> release l (err \<noteq> None) err (sv_router sv))"
  by (simp_all add: cleanup_def set_phase_def)

lemma set_phase_requests: "sv_requests sv0 = sv_requests sv \<Longrightarrow> sv_requests (set_phase i p sv0) = sv_requests (set_phase i p sv)"
  by (simp add: set_phase_def)

text \<open>A request with a lease leaves.\<close>

lemma gate_leave:
  assumes g: "gate k c {} sv" and i: "i < length (sv_requests sv)" "active (phase_of sv i) = 1"
    and sv0: "sv_requests sv0 = sv_requests sv" "same_gate (sv_router sv) (sv_router sv0)"
  shows "gate k c {} (cleanup i ans n (Some l) err sv0)"
proof (rule gate_set_phase[OF g _ i(1), where s = "sem_release (sem_at sv k)" and p = "Finished ans n (err \<noteq> None)"])
  have ok: "sem_ok (sem_at sv k)" and k: "rt_semaphore (sv_router sv) = Some k"
    and w: "rt_waiting (sv_router sv) = int (length (pending (sem_at sv k)))" using g by (simp_all add: gate_def)
  note rel = sem_release_ok[OF ok]
  show "sem_ok (sem_release (sem_at sv k))" by (rule rel)
  show "slots (sem_release (sem_at sv k)) + active (Finished ans n (err \<noteq> None)) = slots (sem_at sv k) + active (phase_of sv i)"
    using rel i by (simp add: phase_simps)
  have "phase_of sv i \<noteq> Waiting k" using i(2) by (cases "phase_of sv i") (simp_all add: phase_simps)
  then have "i \<notin> set (pending (sem_at sv k))" using gate_waiting[OF g, of i] by blast
  then show "set (pending (sem_release (sem_at sv k))) = set (pending (sem_at sv k)) - {i}" using rel by simp
  show "length (pending (sem_release (sem_at sv k))) \<le> length (pending (sem_at sv k))" using rel by simp
  show "regate k (sem_release (sem_at sv k)) (int (length (pending (sem_release (sem_at sv k))))) (sv_router sv) (sv_router (cleanup i ans n (Some l) err sv0))"
    using release_regate[of "sv_router sv0" k l "err \<noteq> None" err] k sv0(2) rel(4) w
    unfolding regate_def same_gate_def by simp
next
  show "sv_requests (cleanup i ans n (Some l) err sv0) = sv_requests (set_phase i (Finished ans n (err \<noteq> None)) sv)"
    unfolding requests_cleanup using set_phase_requests[OF sv0(1)] by simp
qed simp_all

text \<open>A request passes the gate over the router state \<open>rt\<close>, in which its slot has been taken from \<open>s\<close>.\<close>

lemma gate_admit:
  assumes g: "gate k c X sv" "X \<subseteq> {i}" and i: "i < length (sv_requests sv)" "phase_of sv i = Waiting k'" and reg: "registry_ok rt"
    and rt: "regate k s (int (length (pending s))) (sv_router sv) rt"
    and s: "sem_ok s" "slots s + 1 = slots (sem_at sv k)" "set (pending s) = set (pending (sem_at sv k)) - {i}"
      "length (pending s) \<le> length (pending (sem_at sv k))"
  shows "fst (take_replica rt) = Inl e \<Longrightarrow> gate k c {} (refuse i e (sv\<lparr>sv_router := snd (take_replica rt)\<rparr>))"
    and "fst (take_replica rt) = Inr l \<Longrightarrow> gate k c {} (set_phase i (Sending l 0) (sv\<lparr>sv_router := snd (take_replica rt)\<rparr>))"
proof -
  have k: "rt_semaphore (sv_router sv) = Some k" "k < length (rt_semaphores (sv_router sv))" using g by (simp_all add: gate_def)
  note rel = sem_release_ok[OF s(1)]
  assume "fst (take_replica rt) = Inl e"
  then have t: "snd (take_replica rt) = release_slot rt" by (metis take_replica_Inl prod.collapse)
  have rg: "regate k (sem_release s) (int (length (pending (sem_release s)))) (sv_router sv) (release_slot rt)"
    using release_slot_regate[of rt k] rt k rel by (simp add: regate_def)
  have "gate k c {} (cleanup i ans 0 None None sv0)"
    if "sv_requests sv0 = sv_requests sv" "sv_router sv0 = release_slot rt" for ans sv0
    by (rule gate_set_phase[OF g i(1), where s = "sem_release s" and p = "Finished ans 0 False"])
      (use that rg s rel i set_phase_requests[OF that(1), of i "Finished ans 0 False"] in \<open>simp_all add: phase_simps\<close>)
  then show "gate k c {} (refuse i e (sv\<lparr>sv_router := snd (take_replica rt)\<rparr>))"
    unfolding refuse_def t by (cases e) simp_all
next
  assume "fst (take_replica rt) = Inr l"
  then obtain rt' where t: "take_replica rt = (Inr l, rt')" by (metis prod.collapse)
  have "regate k s (int (length (pending s))) (sv_router sv) rt'"
    using take_replica_Inr(6)[OF t reg] rt by (simp add: regate_def same_gate_def)
  then show "gate k c {} (set_phase i (Sending l 0) (sv\<lparr>sv_router := snd (take_replica rt)\<rparr>))"
    by (intro gate_set_phase[OF g i(1), where s = s and p = "Sending l 0"])
      (use t s i in \<open>simp_all add: phase_simps set_phase_def\<close>)
qed

lemma gate_received:
  assumes "gate k c {} sv" shows "gate k c {length (sv_requests sv)} (received ep sv)"
proof -
  let ?n = "length (sv_requests sv)"
  have "{i. i < length (sv_requests (received ep sv)) \<and> phase_of (received ep sv) i = Waiting k} - {?n}
      = {i. i < ?n \<and> phase_of sv i = Waiting k}"
  proof (rule set_eqI)
    fix i show "i \<in> {i. i < length (sv_requests (received ep sv)) \<and> phase_of (received ep sv) i = Waiting k} - {?n}
        \<longleftrightarrow> i \<in> {i. i < ?n \<and> phase_of sv i = Waiting k}"
      by (cases "i < ?n") (simp_all add: less_Suc_eq)
  qed
  moreover have "k' = k" if "i < Suc ?n" "phase_of (received ep sv) i = Waiting k'" for i k'
    using that assms unfolding gate_def by (cases "i < ?n") (auto simp: less_Suc_eq)
  ultimately show ?thesis using assms unfolding gate_def by (simp add: tally_received phase_simps)
qed

lemma gate_same_sem: "gate k c X sv \<Longrightarrow> same_gate (sv_router sv) rt \<Longrightarrow>
    regate k (sem_at sv k) (int (length (pending (sem_at sv k)))) (sv_router sv) rt"
  by (simp add: gate_def same_gate_def regate_def)

text \<open>A request that never got a slot is refused.\<close>

lemma gate_refused:
  assumes g: "gate k c X sv" "X \<subseteq> {i}" and i: "i < length (sv_requests sv)" "phase_of sv i = Waiting k'" "i \<in> X"
    and rt: "same_gate (sv_router sv) rt"
  shows "gate k c {} (refuse i e (sv\<lparr>sv_router := rt\<rparr>))"
proof -
  have out: "i \<notin> set (pending (sem_at sv k))" using g(1) i(3) by (simp add: gate_def)
  have s: "sem_ok (sem_at sv k)" "active (phase_of sv i) = 0" using g(1) i(2) by (simp_all add: gate_def phase_simps)
  have "gate k c {} (cleanup i ans 0 None None sv0)" if "sv_requests sv0 = sv_requests sv" "sv_router sv0 = rt" for ans sv0
    by (rule gate_set_phase[OF g i(1), where s = "sem_at sv k" and p = "Finished ans 0 False"])
      (use that g(2) gate_same_sem[OF g(1) rt] out s set_phase_requests[OF that(1), of i "Finished ans 0 False"]
        in \<open>simp_all add: phase_simps\<close>)
  then show ?thesis unfolding refuse_def by (cases e) simp_all
qed

lemma books_registry: "books sv \<Longrightarrow> registry_ok (sv_router sv)"
  by (simp add: books_def)

lemma registry_ok_gate: "registry_ok rt \<Longrightarrow> registry_ok (rt\<lparr>rt_semaphores := ss\<rparr>)"
    "registry_ok rt \<Longrightarrow> registry_ok (rt\<lparr>rt_waiting := w, rt_semaphores := ss\<rparr>)"
  by (simp_all add: registry_ok_def)

lemma gate_arrive:
  assumes b: "books sv" and g: "gate k c {} sv" shows "gate k c {} (arrive ep sv)"
proof -
  let ?i = "length (sv_requests sv)" and ?sv = "received ep sv" and ?s = "sem_at sv k"
  note gr = gate_received[OF g, of ep]
  have k: "rt_semaphore (sv_router sv) = Some k" "k < length (rt_semaphores (sv_router sv))" "sem_ok ?s"
    and w: "rt_waiting (sv_router sv) = int (length (pending ?s))" using g by (simp_all add: gate_def)
  have i: "?i < length (sv_requests ?sv)" "phase_of ?sv ?i = Waiting k" by (simp_all add: k)
  have out: "?i \<notin> set (pending ?s)" using g by (simp add: gate_def)
  show ?thesis
  proof (cases rule: begin_acquire_cases[where t = ?i and ?rt0.0 = "sv_router sv"])
    case (take rt)
    let ?t = "?s\<lparr>sm_value := sm_value ?s - 1\<rparr>"
    have free: "\<not> locked ?s" and rt: "rt = (sv_router sv)\<lparr>rt_semaphores := (rt_semaphores (sv_router sv))[k := ?t]\<rparr>"
      using take(3) k by auto
    have t: "sem_ok ?t" "slots ?t + 1 = slots ?s" "pending ?t = []" "pending ?s = []"
      using free k(3) by (auto simp: locked_def sem_ok_def slots_def pending_def)
    have "regate k ?t (int (length (pending ?t))) (sv_router ?sv) rt" using w t by (simp add: regate_def rt)
    moreover have "registry_ok rt" unfolding rt by (rule registry_ok_gate) (rule books_registry[OF b])
    ultimately have a: "fst (take_replica rt) = Inl e \<Longrightarrow> gate k c {} (refuse ?i e (?sv\<lparr>sv_router := snd (take_replica rt)\<rparr>))"
      "fst (take_replica rt) = Inr l \<Longrightarrow> gate k c {} (set_phase ?i (Sending l 0) (?sv\<lparr>sv_router := snd (take_replica rt)\<rparr>))" for e l
      using gate_admit[OF gr _ i, of rt ?t] t by simp_all
    show ?thesis using a take(1) by (cases "fst (take_replica rt)") (auto simp: arrive_received Let_def)
  next
    case (full k')
    have "same_gate (sv_router ?sv) (snd (begin_acquire ?i (sv_router sv)))" using full(3) by (simp add: same_gate_def)
    then show ?thesis using gate_refused[OF gr _ i, of "snd (begin_acquire ?i (sv_router sv))"] full(3)
      by (simp add: arrive_received Let_def)
  next
    case (wait k')
    then have "k' = k" using k by simp
    let ?t = "?s\<lparr>sm_waiters := sm_waiters ?s @ [?i]\<rparr>"
    have "sem_ok ?t" "slots ?t = slots ?s" "set (pending ?t) = insert ?i (set (pending ?s))" "length (pending ?t) = Suc (length (pending ?s))"
      using k(3) wait(2) out by (auto simp: sem_ok_def pending_def slots_def locked_def \<open>k' = k\<close>)
    then have "gate k c {} (?sv\<lparr>sv_router := snd (begin_acquire ?i (sv_router sv))\<rparr>)"
      using gr wait(3,4) k(2) unfolding gate_def by (auto simp: \<open>k' = k\<close>)
    then show ?thesis using wait(4) by (simp add: arrive_received Let_def)
  qed
qed

lemma gate_bad_gateway:
  assumes "gate k c {} sv" "i < length (sv_requests sv)" "phase_of sv i = Sending l n" "same_gate (sv_router sv) rt"
  shows "gate k c {} (bad_gateway i l' m err (sv\<lparr>sv_router := rt\<rparr>))"
  unfolding bad_gateway_def by (rule gate_leave[OF assms(1,2)]) (use assms in \<open>simp_all add: phase_simps\<close>)

lemma gate_keep:
  assumes g: "gate k c {} sv" and i: "i < length (sv_requests sv)" "active (phase_of sv i) = 1"
    and p: "active p = 1" and sv': "sv_requests sv' = sv_requests (set_phase i p sv)" "same_gate (sv_router sv) (sv_router sv')"
  shows "gate k c {} sv'"
proof (rule gate_set_phase[OF g _ i(1) _ sv'(1), where s = "sem_at sv k"])
  show "\<forall>k'. p \<noteq> Waiting k'" using p by (auto simp: phase_simps)
  have "phase_of sv i \<noteq> Waiting k" using i(2) by (cases "phase_of sv i") (simp_all add: phase_simps)
  then have "i \<notin> set (pending (sem_at sv k))" using gate_waiting[OF g, of i] by blast
  then show "set (pending (sem_at sv k)) = set (pending (sem_at sv k)) - {i}" by simp
qed (use g p i gate_same_sem[OF g sv'(2)] in \<open>simp_all add: gate_def\<close>)

lemma same_gate_refl [simp]: "same_gate rt rt"
  by (simp add: same_gate_def)

lemma gate_attempt_failed:
  assumes b: "books sv" and g: "gate k c {} sv" and i: "i < length (sv_requests sv)" "phase_of sv i = Sending l n"
  shows "gate k c {} (attempt_failed i l n err sv)"
proof -
  have bad: "gate k c {} (bad_gateway i l m err sv)" for m
    using gate_bad_gateway[OF g i, of "sv_router sv"] by simp
  obtain r rt' where r: "reroute l (Some err) (sv_router sv) = (r, rt')" by fastforce
  show ?thesis
  proof (cases r)
    case (Inl e)
    then have "rt' = sv_router sv" using r reroute_Inl by blast
    then show ?thesis using bad Inl r by (simp add: attempt_failed_def)
  next
    case (Inr l')
    have "lease_fine (sv_router sv) l n" using b i by (auto simp: books_def dest: spec[of _ i])
    then have "rs_id (object (sv_router sv) (ls_replica l)) \<in> set (ls_excluded l)"
      unfolding lease_fine_def by (metis add.commute nth_mem plus_1_eq_Suc zero_less_Suc)
    then have "same_gate (sv_router sv) rt'" using reroute_Inr(8)[of l "Some err" "sv_router sv" l' rt'] r Inr books_registry[OF b] by simp
    then have "gate k c {} (set_phase i (Sending l' (n + 1)) (sv\<lparr>sv_router := rt'\<rparr>))"
      by (intro gate_keep[OF g i(1)]) (use i in \<open>simp_all add: phase_simps set_phase_def\<close>)
    then show ?thesis using bad Inr r by (simp add: attempt_failed_def)
  qed
qed

lemma gate_progress: "progress sv sv' \<Longrightarrow> books sv \<Longrightarrow> gate k c {} sv \<Longrightarrow> gate k c {} sv'"
proof (induction rule: progress.induct)
  case (resumed i sv k')
  then have "k' = k" unfolding gate_def by blast
  let ?s = "sem_resume i (sem_at sv k)"
  let ?rt = "(sv_router sv)\<lparr>rt_waiting := rt_waiting (sv_router sv) - 1, rt_semaphores := (rt_semaphores (sv_router sv))[k := ?s]\<rparr>"
  have ok: "sem_ok (sem_at sv k)" and w: "rt_waiting (sv_router sv) = int (length (pending (sem_at sv k)))"
    using resumed(5) by (simp_all add: gate_def)
  have gr: "i \<in> set (sm_granted (sem_at sv k))" using resumed(3) by (simp add: \<open>k' = k\<close>)
  note s = sem_resume_ok[OF ok gr]
  have "0 < length (pending (sem_at sv k))" using gr by (auto simp: pending_def)
  then have "int (length (pending ?s)) = int (length (pending (sem_at sv k))) - 1" using s(4) by linarith
  then have "regate k ?s (int (length (pending ?s))) (sv_router sv) ?rt" using w by (simp add: regate_def)
  moreover have "registry_ok ?rt" by (rule registry_ok_gate) (rule books_registry[OF resumed(4)])
  ultimately have a: "fst (take_replica ?rt) = Inl e \<Longrightarrow> gate k c {} (refuse i e (sv\<lparr>sv_router := snd (take_replica ?rt)\<rparr>))"
      "fst (take_replica ?rt) = Inr l \<Longrightarrow> gate k c {} (set_phase i (Sending l 0) (sv\<lparr>sv_router := snd (take_replica ?rt)\<rparr>))" for e l
    using gate_admit[OF resumed(5) _ resumed(1,2), of ?rt ?s] s by simp_all
  show ?case using a by (cases "fst (take_replica ?rt)") (auto simp: resume_def resume_acquire_def Let_def \<open>k' = k\<close>)
next
  case (attempted i sv l n res)
  note f = gate_attempt_failed[OF attempted(3,4,1,2)]
  have "gate k c {} (set_phase i (Streaming l n s) (count_total i cls sv))" for s cls
    by (rule gate_keep[OF attempted(4,1)]) (use attempted(2) in \<open>simp_all add: phase_simps set_phase_def\<close>)
  then show ?case using f by (cases res) (auto simp: attempt_def)
next
  case (ended i sv l n s)
  then show ?case unfolding stream_end_def by (intro gate_leave[OF ended(4,1)]) (simp_all add: phase_simps)
next
  case (dropped i sv l n s err)
  then show ?case unfolding stream_drop_def by (intro gate_leave[OF dropped(4,1)]) (simp_all add: phase_simps)
qed

lemma same_gate_outside: "outside sv sv' \<Longrightarrow> \<exists>rt. sv' = sv\<lparr>sv_router := rt\<rparr> \<and> same_gate (sv_router sv) rt"
  by (induction rule: outside.induct; intro exI conjI, rule refl)
    (auto simp: same_gate_def set_status_def add_replica_def remove_replica_def Let_def split: option.split)

lemma gate_new:
  assumes "new_router pol (Some c) depth = Some rt" "0 < c" shows "gate 0 c {} (new_serving rt)"
  using assms by (auto simp: new_router_def install_semaphore_def new_serving_def gate_def tally_def truthy_def sem_ok_def
      slots_def pending_def)

lemma gate_reachable:
  assumes "new_router pol (Some c) depth = Some rt" "0 < c" "serves_from rt sv" shows "gate 0 c {} sv"
  using assms(3)[unfolded serves_from_def]
proof induction
  case base
  show ?case using gate_new[OF assms(1,2)] .
next
  case (step sv sv')
  have b: "books sv" using books_reachable[OF assms(1)] step(1) by (simp add: serves_from_def)
  from step(2) show ?case
  proof cases
    case (changed)
    then show ?thesis using same_gate_outside gate_router[OF step(3)] by blast
  qed (use gate_arrive gate_progress b step(3) in blast)+
qed

section \<open>Progress\<close>

fun work :: "phase \<Rightarrow> int" where
  "work (Waiting k) = 4" | "work (Sending l n) = (if 1 \<le> n then 2 else 3)" | "work (Streaming l n s) = 1"
| "work (Finished ans n failed) = 0"

lemma work_nonneg: "0 \<le> work p" "work p \<le> 4"
  by (cases p; simp)+

lemma work_positive: "(\<forall>ans n failed. p \<noteq> Finished ans n failed) \<Longrightarrow> 0 < work p"
  by (cases p) auto

definition settles :: "nat \<Rightarrow> serving \<Rightarrow> serving \<Rightarrow> bool" where
  "settles i sv sv' \<longleftrightarrow> (\<exists>p. sv_requests sv' = sv_requests (set_phase i p sv) \<and> work p < work (phase_of sv i))"

lemma settles_cleanup:
  "(\<forall>ans n failed. phase_of sv i \<noteq> Finished ans n failed) \<Longrightarrow> sv_requests sv0 = sv_requests sv \<Longrightarrow> settles i sv (cleanup i ans n l err sv0)"
  unfolding settles_def requests_cleanup using set_phase_requests[of sv0 sv i] work_positive[of "phase_of sv i"]
  by (intro exI[of _ "Finished ans n (l \<noteq> None \<and> err \<noteq> None)"]) simp

lemma settles_refuse: "phase_of sv i = Waiting k \<Longrightarrow> settles i sv (refuse i e (sv\<lparr>sv_router := rt\<rparr>))"
  unfolding refuse_def by (cases e) (auto intro!: settles_cleanup)

lemma settles_attempt_failed: "phase_of sv i = Sending l n \<Longrightarrow> settles i sv (attempt_failed i l n err sv)"
  unfolding attempt_failed_def bad_gateway_def Let_def
  by (auto intro!: settles_cleanup split: sum.split) (auto simp: settles_def set_phase_def intro!: exI)

lemma progress_settles: "progress sv sv' \<Longrightarrow> \<exists>i < length (sv_requests sv). settles i sv sv'"
proof (induction rule: progress.induct)
  case (resumed i sv k)
  have "settles i sv (set_phase i (Sending l 0) (sv\<lparr>sv_router := rt\<rparr>))" for l rt
    unfolding settles_def by (rule exI[of _ "Sending l 0"]) (simp add: set_phase_def resumed(2))
  then show ?case unfolding resume_def Let_def using resumed(1) settles_refuse[OF resumed(2)]
    by (intro exI[of _ i] conjI) (auto split: sum.split)
next
  case (attempted i sv l n res)
  have "settles i sv (set_phase i (Streaming l n s) (count_total i cls sv))" for s cls
    unfolding settles_def by (rule exI[of _ "Streaming l n s"]) (simp add: set_phase_def attempted(2))
  then show ?case unfolding attempt_def using attempted(1) settles_attempt_failed[OF attempted(2)]
    by (intro exI[of _ i] conjI) (auto split: attempt_result.split)
next
  case (ended i sv l n s)
  then show ?case unfolding stream_end_def by (intro exI[of _ i] conjI settles_cleanup) auto
next
  case (dropped i sv l n s err)
  then show ?case unfolding stream_drop_def by (intro exI[of _ i] conjI settles_cleanup) auto
qed

lemma progress_work:
  assumes "progress sv sv'" shows "tally work sv' < tally work sv" "length (sv_requests sv') = length (sv_requests sv)"
proof -
  obtain i p where i: "i < length (sv_requests sv)" "sv_requests sv' = sv_requests (set_phase i p sv)" "work p < work (phase_of sv i)"
    using progress_settles[OF assms] by (auto simp: settles_def)
  then show "tally work sv' < tally work sv"
    using tally_set_phase[OF i(1), of work p] tally_requests[OF i(2), of work] by simp
  show "length (sv_requests sv') = length (sv_requests sv)" by (simp add: i(2) set_phase_def)
qed

lemma outside_work: "outside\<^sup>*\<^sup>* sv sv' \<Longrightarrow> tally work sv' = tally work sv \<and> length (sv_requests sv') = length (sv_requests sv)"
  by (induction rule: rtranclp_induct) (auto dest!: same_gate_outside)

lemma work_bound: "((outside\<^sup>*\<^sup>* OO progress) ^^ n) sv sv' \<Longrightarrow> int n + tally work sv' \<le> tally work sv"
proof (induction n arbitrary: sv')
  case (Suc n)
  then obtain sv1 sv2 where "((outside\<^sup>*\<^sup>* OO progress) ^^ n) sv sv1" "outside\<^sup>*\<^sup>* sv1 sv2" "progress sv2 sv'" by auto
  then show ?case using Suc.IH[of sv1] outside_work[of sv1 sv2] progress_work(1)[of sv2 sv'] by simp
qed simp

lemma tally_work_bounds: "0 \<le> tally work sv" "tally work sv \<le> 4 * int (length (sv_requests sv))"
proof -
  have "0 \<le> sum_list (map (\<lambda>r. work (cr_phase r)) xs) \<and> sum_list (map (\<lambda>r. work (cr_phase r)) xs) \<le> 4 * int (length xs)" for xs
  proof (induction xs)
    case (Cons r xs)
    then show ?case using work_nonneg[of "cr_phase r"] by simp
  qed simp
  from this[of "sv_requests sv"] show "0 \<le> tally work sv" "tally work sv \<le> 4 * int (length (sv_requests sv))"
    by (simp_all add: tally_def)
qed

definition ungated :: "serving \<Rightarrow> bool" where
  "ungated sv \<longleftrightarrow> rt_semaphore (sv_router sv) = None \<and> (\<forall>i < length (sv_requests sv). \<forall>k. phase_of sv i \<noteq> Waiting k)"

lemma ungated_set_phase:
  assumes "rt_semaphore (sv_router sv') = None" "sv_requests sv' = sv_requests (set_phase i p sv)" "\<forall>k. p \<noteq> Waiting k"
    "\<forall>j < length (sv_requests sv). j \<noteq> i \<longrightarrow> (\<forall>k. phase_of sv j \<noteq> Waiting k)"
  shows "ungated sv'"
  unfolding ungated_def
proof (intro conjI allI impI)
  fix j k assume "j < length (sv_requests sv')"
  then show "phase_of sv' j \<noteq> Waiting k" using assms by (cases "j = i") (auto simp: set_phase_def)
qed (use assms in simp)

lemma semaphore_kept [simp]:
  "rt_semaphore (release l f err rt) = rt_semaphore rt"
  "rt_semaphore (snd (route_select ex rt)) = rt_semaphore rt" "rt_semaphore (snd (take_replica rt)) = rt_semaphore rt"
  "rt_semaphore (snd (reroute l err rt)) = rt_semaphore rt" "rt_semaphore (snd (begin_acquire t rt)) = rt_semaphore rt"
proof -
  show rs: "rt_semaphore (snd (route_select ex rt)) = rt_semaphore rt" for ex rt
    by (simp add: route_select_def split: option.split prod.split)
  show take: "rt_semaphore (snd (take_replica rt)) = rt_semaphore rt" for rt
    using rs[of "[]" rt] by (auto simp: take_replica_def split: prod.split sum.split)
  show "rt_semaphore (snd (reroute l err rt)) = rt_semaphore rt"
    using rs[of "ls_excluded l" rt] by (auto simp: reroute_def Let_def split: prod.split sum.split)
  show "rt_semaphore (snd (begin_acquire t rt)) = rt_semaphore rt"
    by (auto simp: begin_acquire_def Let_def take split: option.split)
  show "rt_semaphore (release l f err rt) = rt_semaphore rt" by (simp add: release_def Let_def)
qed

lemma semaphore_steps [simp]: "rt_semaphore (sv_router (cleanup i ans n l err sv)) = rt_semaphore (sv_router sv)"
  "rt_semaphore (sv_router (refuse i e sv)) = rt_semaphore (sv_router sv)"
  "rt_semaphore (sv_router (bad_gateway i l' n err' sv)) = rt_semaphore (sv_router sv)"
  "rt_semaphore (sv_router (set_phase i p sv)) = rt_semaphore (sv_router sv)"
  by (auto simp: refuse_def bad_gateway_def set_phase_def split: option.split route_error.split)

lemma ungated_progress: "progress sv sv' \<Longrightarrow> ungated sv \<Longrightarrow> ungated sv'"
proof -
  assume p: "progress sv sv'" and u: "ungated sv"
  have "rt_semaphore (sv_router sv') = None"
    using p u by cases (auto simp: ungated_def attempt_def attempt_failed_def stream_end_def stream_drop_def Let_def
        split: attempt_result.split sum.split)
  moreover obtain i p where "i < length (sv_requests sv)" "sv_requests sv' = sv_requests (set_phase i p sv)" "work p < work (phase_of sv i)"
    using progress_settles[OF p] by (auto simp: settles_def)
  moreover have "\<forall>k. p \<noteq> Waiting k" using calculation(4) work_nonneg(2)[of "phase_of sv i"] by auto
  ultimately show "ungated sv'" using u by (intro ungated_set_phase[of sv' i p sv]) (auto simp: ungated_def)
qed

lemma ungated_arrive: assumes "ungated sv" shows "ungated (arrive ep sv)"
proof -
  let ?i = "length (sv_requests sv)" and ?sv = "received ep sv" and ?r = "take_replica (sv_router sv)"
  have n: "rt_semaphore (sv_router sv) = None" and w: "\<forall>j < length (sv_requests ?sv). j \<noteq> ?i \<longrightarrow> (\<forall>k. phase_of ?sv j \<noteq> Waiting k)"
    using assms by (auto simp: ungated_def less_Suc_eq)
  have *: "begin_acquire ?i (sv_router sv) = map_prod (map_sum id Some) id ?r" using n by (simp add: begin_acquire_def)
  show ?thesis
  proof (cases "fst ?r")
    case (Inl e)
    obtain p where "sv_requests (refuse ?i e (?sv\<lparr>sv_router := snd ?r\<rparr>)) = sv_requests (set_phase ?i p ?sv)" "work p < 4"
      using settles_refuse[of ?sv ?i 0 e "snd ?r"] n by (auto simp: settles_def)
    then have "ungated (refuse ?i e (?sv\<lparr>sv_router := snd ?r\<rparr>))" using n w by (intro ungated_set_phase[of _ ?i p ?sv]) auto
    then show ?thesis using Inl * by (simp add: arrive_received Let_def)
  next
    case (Inr l)
    have "ungated (set_phase ?i (Sending l 0) (?sv\<lparr>sv_router := snd ?r\<rparr>))"
      by (rule ungated_set_phase[of _ ?i "Sending l 0" ?sv]) (use n w in \<open>simp_all add: set_phase_def\<close>)
    then show ?thesis using Inr * by (simp add: arrive_received Let_def)
  qed
qed

lemma ungated_reachable:
  assumes "new_router pol cap depth = Some rt" "\<not> truthy cap" "serves_from rt sv" shows "ungated sv"
  using assms(3)[unfolded serves_from_def]
proof induction
  case base
  show ?case using assms(1,2) by (auto simp: new_router_def install_semaphore_def new_serving_def ungated_def)
next
  case (step sv sv')
  from step(2) show ?case
  proof cases
    case changed
    then obtain rt' where "sv' = sv\<lparr>sv_router := rt'\<rparr>" "same_gate (sv_router sv) rt'" using same_gate_outside by blast
    then show ?thesis using step(3) by (simp add: ungated_def same_gate_def)
  qed (use ungated_progress ungated_arrive step(3) in blast)+
qed

lemma enabled_phase:
  assumes "i < length (sv_requests sv)" "lease_of (phase_of sv i) \<noteq> None" shows "\<exists>sv'. progress sv sv'"
  using assms by (cases "phase_of sv i") (auto intro: progress.attempted progress.ended)

lemma gate_enabled:
  assumes g: "gate k c {} sv" "0 < c" and i: "i < length (sv_requests sv)" "\<forall>ans n failed. phase_of sv i \<noteq> Finished ans n failed"
  shows "\<exists>sv'. progress sv sv'"
proof (cases "\<exists>j < length (sv_requests sv). lease_of (phase_of sv j) \<noteq> None")
  case True
  then show ?thesis using enabled_phase by blast
next
  case False
  then have "active (cr_phase r) = 0" if "r \<in> set (sv_requests sv)" for r using that by (auto simp: in_set_conv_nth active_def)
  then have t: "tally active sv = 0" by (auto simp: tally_def intro!: sum_list_0 cong: map_cong)
  have "phase_of sv i = Waiting k" using i False g(1) by (cases "phase_of sv i") (auto simp: gate_def)
  then have "i \<in> set (pending (sem_at sv k))" using gate_waiting[OF g(1)] i(1) by blast
  moreover have "sm_waiters (sem_at sv k) \<noteq> [] \<longrightarrow> sm_granted (sem_at sv k) \<noteq> []"
    using g t by (auto simp: gate_def sem_ok_def slots_def)
  ultimately obtain j where j: "j \<in> set (sm_granted (sem_at sv k))" by (auto simp: pending_def) (metis list.set_intros(1) neq_Nil_conv)
  then have "j \<in> set (pending (sem_at sv k))" by (simp add: pending_def)
  then have "j < length (sv_requests sv)" "phase_of sv j = Waiting k" using gate_waiting[OF g(1)] by blast+
  then show ?thesis using progress.resumed j by blast
qed

section \<open>The gate refines a first-come-first-served queue\<close>

text \<open>The abstract gate: who holds a slot, and who queues in the order of arrival.\<close>

record fifo =
  ff_running :: "nat set"
  ff_queue :: "nat list"

inductive fifo_step :: "int \<Rightarrow> int \<Rightarrow> fifo \<Rightarrow> fifo \<Rightarrow> bool" for c d where
  enter: "ff_queue g = [] \<Longrightarrow> i \<notin> ff_running g \<Longrightarrow> int (card (ff_running g)) < c \<Longrightarrow>
     fifo_step c d g (g\<lparr>ff_running := insert i (ff_running g)\<rparr>)"
| enqueue: "i \<notin> ff_running g \<union> set (ff_queue g) \<Longrightarrow> int (length (ff_queue g)) < d \<Longrightarrow>
     fifo_step c d g (g\<lparr>ff_queue := ff_queue g @ [i]\<rparr>)"
| promote: "ff_queue g = q # qs \<Longrightarrow> int (card (ff_running g)) < c \<Longrightarrow>
     fifo_step c d g (g\<lparr>ff_running := insert q (ff_running g), ff_queue := qs\<rparr>)"
| exit: "i \<in> ff_running g \<Longrightarrow> fifo_step c d g (g\<lparr>ff_running := ff_running g - {i}\<rparr>)"

definition leased :: "serving \<Rightarrow> nat set" where
  "leased sv = {i. i < length (sv_requests sv) \<and> lease_of (phase_of sv i) \<noteq> None}"

definition gate_of :: "nat set \<Rightarrow> semaphore \<Rightarrow> fifo" where
  "gate_of A s = \<lparr>ff_running = A \<union> set (sm_granted s), ff_queue = sm_waiters s\<rparr>"

definition abstract_gate :: "serving \<Rightarrow> fifo" where
  "abstract_gate sv = gate_of (leased sv) (sem_at sv (the (rt_semaphore (sv_router sv))))"

text \<open>What is known of the leased requests \<open>A\<close> beside a semaphore \<open>s\<close> of capacity \<open>c\<close>.\<close>

definition apart :: "int \<Rightarrow> nat set \<Rightarrow> semaphore \<Rightarrow> bool" where
  "apart c A s \<longleftrightarrow> finite A \<and> distinct (pending s) \<and> A \<inter> set (pending s) = {} \<and> slots s + int (card A) = c"

lemma card_running: "apart c A s \<Longrightarrow> int (card (A \<union> set (sm_granted s))) = c - sm_value s"
proof -
  assume a: "apart c A s"
  then have "card (A \<union> set (sm_granted s)) = card A + card (set (sm_granted s))"
    by (intro card_Un_disjoint) (auto simp: apart_def pending_def)
  moreover have "card (set (sm_granted s)) = length (sm_granted s)" using a by (simp add: apart_def pending_def distinct_card)
  ultimately show ?thesis using a by (simp add: apart_def slots_def)
qed

lemma wake_refines:
  assumes "apart c A s" "0 < sm_value s" shows "(fifo_step c d)\<^sup>*\<^sup>* (gate_of A s) (gate_of A (wake_next s))"
proof (cases "sm_waiters s")
  case (Cons q qs)
  have "fifo_step c d (gate_of A s) ((gate_of A s)\<lparr>ff_running := insert q (ff_running (gate_of A s)), ff_queue := qs\<rparr>)"
    by (rule promote) (use Cons assms card_running[OF assms(1)] in \<open>simp_all add: gate_of_def\<close>)
  then show ?thesis using Cons by (simp add: gate_of_def wake_next_def insert_commute)
qed (simp add: wake_next_def)

lemma apart_leave: "apart c A s \<Longrightarrow> i \<in> A \<Longrightarrow> apart c (A - {i}) (s\<lparr>sm_value := sm_value s + 1\<rparr>)"
proof -
  assume a: "apart c A s" and i: "i \<in> A"
  then have "finite A" by (simp add: apart_def)
  then have "Suc (card (A - {i})) = card A" using i by (rule card_Suc_Diff1)
  then have "int (card (A - {i})) = int (card A) - 1" by linarith
  then show ?thesis using a by (auto simp: apart_def pending_def slots_def)
qed

lemma leave_refines:
  assumes a: "apart c A s" and i: "i \<in> A" and s: "0 \<le> sm_value s"
  shows "(fifo_step c d)\<^sup>*\<^sup>* (gate_of A s) (gate_of (A - {i}) (sem_release s))"
proof -
  let ?s = "s\<lparr>sm_value := sm_value s + 1\<rparr>"
  have "fifo_step c d (gate_of A s) ((gate_of A s)\<lparr>ff_running := ff_running (gate_of A s) - {i}\<rparr>)"
    by (rule exit) (use i in \<open>simp add: gate_of_def\<close>)
  moreover have "i \<notin> set (sm_granted s)" using a i by (auto simp: apart_def pending_def)
  ultimately have "fifo_step c d (gate_of A s) (gate_of (A - {i}) ?s)" by (simp add: gate_of_def Un_Diff)
  then show ?thesis using wake_refines[OF apart_leave[OF a i], of d] s unfolding sem_release_def
    by (auto intro: converse_rtranclp_into_rtranclp)
qed

lemma tally_active: "tally active sv = int (card (leased sv))"
proof -
  have "tally active sv = int (length (filter (\<lambda>r. lease_of (cr_phase r) \<noteq> None) (sv_requests sv)))"
  proof -
    have "active = (\<lambda>p. if lease_of p \<noteq> None then 1 else 0)" by (rule ext) (simp add: active_def)
    then show ?thesis using tally_count[of "\<lambda>p. lease_of p \<noteq> None" sv] by simp
  qed
  also have "\<dots> = int (card (leased sv))" unfolding leased_def by (simp add: length_filter_conv_card)
  finally show ?thesis .
qed

lemma leased_set_phase:
  assumes "i < length (sv_requests sv)" "sv_requests sv' = sv_requests (set_phase i p sv)"
  shows "leased sv' = (if lease_of p = None then leased sv - {i} else insert i (leased sv))"
proof -
  have "phase_of sv' j = (if j = i then p else phase_of sv j)" if "j < length (sv_requests sv)" for j
    using assms that by (simp add: set_phase_def nth_list_update)
  moreover have "length (sv_requests sv') = length (sv_requests sv)" using assms by (simp add: set_phase_def)
  ultimately show ?thesis using assms(1) unfolding leased_def by (auto split: if_splits)
qed

lemma gate_apart:
  assumes "gate k c X sv" shows "apart c (leased sv) (sem_at sv k)"
proof -
  have "lease_of (phase_of sv x) = None" if "x \<in> set (pending (sem_at sv k))" for x
    using that assms unfolding gate_def by simp
  then have "leased sv \<inter> set (pending (sem_at sv k)) = {}" by (auto simp: leased_def)
  moreover have "finite (leased sv)" by (rule finite_subset[of _ "{..<length (sv_requests sv)}"]) (auto simp: leased_def)
  ultimately show ?thesis using assms by (simp add: apart_def gate_def sem_ok_def tally_active)
qed

lemma abstract_at: "rt_semaphore (sv_router sv) = Some k \<Longrightarrow> abstract_gate sv = gate_of (leased sv) (sem_at sv k)"
  by (simp add: abstract_gate_def)

lemma abstract_regate:
  assumes "gate k c X sv" "regate k s w (sv_router sv) (sv_router sv')"
  shows "abstract_gate sv' = gate_of (leased sv') s"
  using assms by (simp add: abstract_gate_def gate_def regate_def)

lemma refines_leave:
  assumes g: "gate k c {} sv" and i: "i < length (sv_requests sv)" "lease_of (phase_of sv i) = Some lz"
    and sv0: "sv_requests sv0 = sv_requests sv" "same_gate (sv_router sv) (sv_router sv0)"
  shows "(fifo_step c d)\<^sup>*\<^sup>* (abstract_gate sv) (abstract_gate (cleanup i ans n (Some l) err sv0))"
proof -
  let ?sv' = "cleanup i ans n (Some l) err sv0"
  have k: "rt_semaphore (sv_router sv) = Some k" "0 \<le> sm_value (sem_at sv k)" using g by (simp_all add: gate_def sem_ok_def)
  have "regate k (sem_release (sem_at sv k)) (rt_waiting (sv_router sv)) (sv_router sv) (sv_router ?sv')"
    using release_regate[of "sv_router sv0" k l "err \<noteq> None" err] k(1) sv0(2) by (simp add: regate_def same_gate_def)
  then have "abstract_gate ?sv' = gate_of (leased ?sv') (sem_release (sem_at sv k))" by (rule abstract_regate[OF g])
  moreover have "leased ?sv' = leased sv - {i}"
    using leased_set_phase[OF i(1), of ?sv' "Finished ans n (err \<noteq> None)"] set_phase_requests[OF sv0(1)] by simp
  ultimately show ?thesis using leave_refines[OF gate_apart[OF g] _ k(2)] i abstract_at[OF k(1)] by (simp add: leased_def)
qed

lemma refines_keep:
  assumes "gate k c {} sv" "i < length (sv_requests sv)" "lease_of (phase_of sv i) = Some l" "lease_of p \<noteq> None"
    "sv_requests sv' = sv_requests (set_phase i p sv)" "same_gate (sv_router sv) (sv_router sv')"
  shows "abstract_gate sv' = abstract_gate sv"
proof -
  have "i \<in> leased sv" using assms(2,3) by (simp add: leased_def)
  then have "leased sv' = leased sv" using leased_set_phase[OF assms(2,5)] assms(4) by auto
  then show ?thesis using assms(6) by (simp add: abstract_gate_def same_gate_def)
qed

lemma refines_attempt_failed:
  assumes b: "books sv" and g: "gate k c {} sv" and i: "i < length (sv_requests sv)" "phase_of sv i = Sending l n"
  shows "(fifo_step c d)\<^sup>*\<^sup>* (abstract_gate sv) (abstract_gate (attempt_failed i l n err sv))"
proof -
  have bad: "(fifo_step c d)\<^sup>*\<^sup>* (abstract_gate sv) (abstract_gate (bad_gateway i l m err sv))" for m
    unfolding bad_gateway_def by (rule refines_leave[OF g i(1), of l]) (simp_all add: i(2))
  obtain r rt' where r: "reroute l (Some err) (sv_router sv) = (r, rt')" by fastforce
  show ?thesis
  proof (cases r)
    case (Inl e)
    then have "rt' = sv_router sv" using r reroute_Inl by blast
    then show ?thesis using bad Inl r by (simp add: attempt_failed_def)
  next
    case (Inr l')
    have "lease_fine (sv_router sv) l n" using b i by (auto simp: books_def dest: spec[of _ i])
    then have "rs_id (object (sv_router sv) (ls_replica l)) \<in> set (ls_excluded l)"
      unfolding lease_fine_def by (metis add.commute nth_mem plus_1_eq_Suc zero_less_Suc)
    then have "same_gate (sv_router sv) rt'" using reroute_Inr(8)[of l "Some err" "sv_router sv" l' rt'] r Inr books_registry[OF b] by simp
    then have "abstract_gate (set_phase i (Sending l' (n + 1)) (sv\<lparr>sv_router := rt'\<rparr>)) = abstract_gate sv"
      by (intro refines_keep[OF g i(1), of l "Sending l' (n + 1)"]) (simp_all add: i(2) set_phase_def)
    then show ?thesis using bad Inr r by (simp add: attempt_failed_def)
  qed
qed

lemma refines_resume:
  assumes b: "books sv" and g: "gate k c {} sv" and i: "i < length (sv_requests sv)" "phase_of sv i = Waiting k"
    and gr: "i \<in> set (sm_granted (sem_at sv k))"
  shows "(fifo_step c d)\<^sup>*\<^sup>* (abstract_gate sv) (abstract_gate (resume i k sv))"
proof -
  let ?A = "leased sv" and ?s = "sem_at sv k" and ?r = "sem_resume i (sem_at sv k)"
  let ?s1 = "?s\<lparr>sm_granted := remove1 i (sm_granted ?s)\<rparr>"
  let ?rt = "(sv_router sv)\<lparr>rt_waiting := rt_waiting (sv_router sv) - 1, rt_semaphores := (rt_semaphores (sv_router sv))[k := ?r]\<rparr>"
  have k: "rt_semaphore (sv_router sv) = Some k" "k < length (rt_semaphores (sv_router sv))" "sem_ok ?s" using g by (simp_all add: gate_def)
  note a = gate_apart[OF g] and ok = sem_resume_ok[OF k(3) gr]
  have out: "i \<notin> ?A" by (simp add: leased_def i)
  have a1: "apart c (insert i ?A) ?s1"
    using a out gr length_pos_if_in_set[OF gr]
    by (auto simp: apart_def pending_def slots_def length_remove1 of_nat_diff Suc_le_eq distinct_remove1)
  have eq: "gate_of ?A ?s = gate_of (insert i ?A) ?s1" using a gr by (auto simp: gate_of_def apart_def pending_def)
  have r: "(fifo_step c d)\<^sup>*\<^sup>* (gate_of ?A ?s) (gate_of (insert i ?A) ?r)"
    using wake_refines[OF a1, of d] eq by (simp add: sem_resume_def Let_def)
  have a2: "apart c (insert i ?A) ?r"
    using a1 wake_next_counts[of ?s1] by (auto simp: sem_resume_def Let_def apart_def)
  have reg: "registry_ok ?rt" by (rule registry_ok_gate) (rule books_registry[OF b])
  have rg: "regate k ?r (rt_waiting (sv_router sv) - 1) (sv_router sv) ?rt" by (simp add: regate_def)
  show ?thesis
  proof (cases "fst (take_replica ?rt)")
    case (Inl e)
    then have t: "snd (take_replica ?rt) = release_slot ?rt" by (metis take_replica_Inl prod.collapse)
    let ?sv' = "refuse i e (sv\<lparr>sv_router := release_slot ?rt\<rparr>)"
    have sv': "sv_router ?sv' = release_slot ?rt" "\<exists>ans. sv_requests ?sv' = sv_requests (set_phase i (Finished ans 0 False) sv)"
      unfolding refuse_def by (cases e; auto simp: set_phase_def)+
    have "regate k (sem_release ?r) (rt_waiting (sv_router sv) - 1) (sv_router sv) (sv_router ?sv')"
      using release_slot_regate[of ?rt k] k by (simp add: sv' regate_def)
    then have "abstract_gate ?sv' = gate_of (leased ?sv') (sem_release ?r)" by (rule abstract_regate[OF g])
    moreover have "leased ?sv' = ?A" using sv'(2) leased_set_phase[OF i(1), of ?sv'] out by auto
    moreover have "0 \<le> sm_value ?r" using ok(1) by (simp add: sem_ok_def)
    ultimately have "(fifo_step c d)\<^sup>*\<^sup>* (gate_of ?A ?s) (abstract_gate ?sv')"
      using r leave_refines[OF a2, of i d] out by (simp add: rtranclp_trans insert_Diff_if)
    then show ?thesis using Inl t abstract_at[OF k(1)] by (simp add: resume_def resume_acquire_def Let_def)
  next
    case (Inr l)
    then obtain rt' where t: "take_replica ?rt = (Inr l, rt')" by (metis prod.collapse)
    let ?sv' = "set_phase i (Sending l 0) (sv\<lparr>sv_router := rt'\<rparr>)"
    have "regate k ?r (rt_waiting (sv_router sv) - 1) (sv_router sv) (sv_router ?sv')"
      using take_replica_Inr(6)[OF t reg] rg by (simp add: regate_def same_gate_def set_phase_def)
    then have "abstract_gate ?sv' = gate_of (leased ?sv') ?r" by (rule abstract_regate[OF g])
    moreover have "leased ?sv' = insert i ?A" using leased_set_phase[OF i(1), of ?sv' "Sending l 0"] by (simp add: set_phase_def)
    ultimately show ?thesis using r t abstract_at[OF k(1)] by (simp add: resume_def resume_acquire_def Let_def)
  qed
qed

lemma refines_arrive:
  assumes b: "books sv" and g: "gate k c {} sv"
  shows "(fifo_step c (max 0 (rt_max_queue_depth (sv_router sv))))\<^sup>*\<^sup>* (abstract_gate sv) (abstract_gate (arrive ep sv))"
proof -
  let ?i = "length (sv_requests sv)" and ?sv = "received ep sv" and ?s = "sem_at sv k" and ?A = "leased sv"
  let ?d = "max 0 (rt_max_queue_depth (sv_router sv))"
  have k: "rt_semaphore (sv_router sv) = Some k" "k < length (rt_semaphores (sv_router sv))" "sem_ok ?s"
    and w: "rt_waiting (sv_router sv) = int (length (pending ?s))" using g by (simp_all add: gate_def)
  note gr = gate_received[OF g, of ep]
  have i: "?i < length (sv_requests ?sv)" "phase_of ?sv ?i = Waiting k" by (simp_all add: k)
  have out: "?i \<notin> set (pending ?s)" "?i \<notin> ?A" using g by (simp_all add: gate_def leased_def)
  have A: "leased ?sv = ?A" unfolding leased_def by (auto simp: less_Suc_eq k)
  have stay: "leased (refuse ?i e (?sv\<lparr>sv_router := rt\<rparr>)) = ?A" for e rt
  proof -
    obtain ans where "sv_requests (refuse ?i e (?sv\<lparr>sv_router := rt\<rparr>)) = sv_requests (set_phase ?i (Finished ans 0 False) ?sv)"
      unfolding refuse_def by (cases e) (auto simp: set_phase_def)
    then show ?thesis using leased_set_phase[OF i(1)] A out(2) by auto
  qed
  show ?thesis
  proof (cases rule: begin_acquire_cases[where t = ?i and ?rt0.0 = "sv_router sv"])
    case (take rt)
    let ?t = "?s\<lparr>sm_value := sm_value ?s - 1\<rparr>"
    have free: "\<not> locked ?s" and rt: "rt = (sv_router sv)\<lparr>rt_semaphores := (rt_semaphores (sv_router sv))[k := ?t]\<rparr>"
      using take(3) k by auto
    have reg: "registry_ok rt" unfolding rt by (rule registry_ok_gate) (rule books_registry[OF b])
    have rg: "regate k ?t (rt_waiting (sv_router sv)) (sv_router ?sv) rt" by (simp add: regate_def rt)
    show ?thesis
    proof (cases "fst (take_replica rt)")
      case (Inl e)
      then have t: "snd (take_replica rt) = release_slot rt" by (metis take_replica_Inl prod.collapse)
      let ?sv' = "refuse ?i e (?sv\<lparr>sv_router := release_slot rt\<rparr>)"
      have "sem_release ?t = ?s" using free by (simp add: sem_release_def wake_next_def locked_def)
      then have "regate k ?s (rt_waiting (sv_router sv)) (sv_router ?sv) (release_slot rt)"
        using release_slot_regate[of rt k] k rt by (simp add: regate_def)
      moreover have "sv_router ?sv' = release_slot rt" unfolding refuse_def by (cases e) simp_all
      ultimately have "abstract_gate ?sv' = gate_of ?A ?s" using abstract_regate[OF gr, of ?s _ ?sv'] stay by simp
      then show ?thesis using Inl t take(1) abstract_at[OF k(1)] by (simp add: arrive_received Let_def)
    next
      case (Inr l)
      then obtain rt' where t: "take_replica rt = (Inr l, rt')" by (metis prod.collapse)
      let ?sv' = "set_phase ?i (Sending l 0) (?sv\<lparr>sv_router := rt'\<rparr>)"
      have "regate k ?t (rt_waiting (sv_router sv)) (sv_router ?sv) (sv_router ?sv')"
        using take_replica_Inr(6)[OF t reg] rg by (simp add: regate_def same_gate_def set_phase_def)
      then have "abstract_gate ?sv' = gate_of (leased ?sv') ?t" by (rule abstract_regate[OF gr])
      moreover have "leased ?sv' = insert ?i ?A" using leased_set_phase[OF i(1), of ?sv' "Sending l 0"] A by (simp add: set_phase_def)
      moreover have "fifo_step c ?d (gate_of ?A ?s) ((gate_of ?A ?s)\<lparr>ff_running := insert ?i (ff_running (gate_of ?A ?s))\<rparr>)"
        by (rule enter) (use free out k(3) card_running[OF gate_apart[OF g]] in \<open>simp_all add: gate_of_def locked_def pending_def sem_ok_def\<close>)
      ultimately show ?thesis using t take(1) abstract_at[OF k(1)] by (simp add: arrive_received Let_def gate_of_def r_into_rtranclp)
    qed
  next
    case (full k')
    have "regate k ?s (rt_waiting (sv_router sv)) (sv_router ?sv) (snd (begin_acquire ?i (sv_router sv)))"
      using full(3) by (simp add: regate_def)
    moreover have "sv_router (refuse ?i e (?sv\<lparr>sv_router := rt\<rparr>)) = rt" for e rt unfolding refuse_def by (cases e) simp_all
    ultimately have "abstract_gate (refuse ?i e (?sv\<lparr>sv_router := snd (begin_acquire ?i (sv_router sv))\<rparr>)) = gate_of ?A ?s" for e
      using abstract_regate[OF gr, of ?s _ "refuse ?i e (?sv\<lparr>sv_router := snd (begin_acquire ?i (sv_router sv))\<rparr>)"] stay by simp
    then show ?thesis using full(3) abstract_at[OF k(1)] by (simp add: arrive_received Let_def)
  next
    case (wait k')
    then have "k' = k" using k by simp
    let ?t = "?s\<lparr>sm_waiters := sm_waiters ?s @ [?i]\<rparr>" and ?sv' = "?sv\<lparr>sv_router := snd (begin_acquire ?i (sv_router sv))\<rparr>"
    have "regate k ?t (rt_waiting (sv_router sv) + 1) (sv_router ?sv) (sv_router ?sv')"
      using wait(4) by (simp add: regate_def \<open>k' = k\<close>)
    then have "abstract_gate ?sv' = gate_of (leased ?sv') ?t" by (rule abstract_regate[OF gr])
    moreover have "leased ?sv' = ?A" using A by (simp add: leased_def)
    moreover have "fifo_step c ?d (gate_of ?A ?s) ((gate_of ?A ?s)\<lparr>ff_queue := ff_queue (gate_of ?A ?s) @ [?i]\<rparr>)"
      by (rule enqueue) (use out wait(3) w in \<open>simp_all add: gate_of_def pending_def\<close>)
    ultimately show ?thesis using wait(4) abstract_at[OF k(1)] by (simp add: arrive_received Let_def gate_of_def r_into_rtranclp)
  qed
qed

lemma refines_progress:
  "progress sv sv' \<Longrightarrow> books sv \<Longrightarrow> gate k c {} sv \<Longrightarrow> (fifo_step c d)\<^sup>*\<^sup>* (abstract_gate sv) (abstract_gate sv')"
proof (induction rule: progress.induct)
  case (resumed i sv k')
  then have "k' = k" unfolding gate_def by blast
  then show ?case using refines_resume[OF resumed(4,5,1)] resumed(2,3) by simp
next
  case (attempted i sv l n res)
  note f = refines_attempt_failed[OF attempted(3,4,1,2)]
  have "abstract_gate (set_phase i (Streaming l n s) (count_total i cls sv)) = abstract_gate sv" for s cls
    by (rule refines_keep[OF attempted(4,1), of l "Streaming l n s"]) (use attempted(2) in \<open>simp_all add: set_phase_def\<close>)
  then show ?case using f by (cases res) (auto simp: attempt_def)
next
  case (ended i sv l n s)
  then show ?case unfolding stream_end_def by (intro refines_leave[OF ended(4,1)]) simp_all
next
  case (dropped i sv l n s err)
  then show ?case unfolding stream_drop_def by (intro refines_leave[OF dropped(4,1)]) simp_all
qed

lemma depth_reachable:
  assumes "new_router pol cap depth = Some rt" "serves_from rt sv" shows "rt_max_queue_depth (sv_router sv) = depth"
proof -
  have depth_kept: "rt_max_queue_depth (snd (route_select ex r)) = rt_max_queue_depth r" for ex r
    by (simp add: route_select_def split: option.split prod.split)
  have take [simp]: "rt_max_queue_depth (snd (take_replica r)) = rt_max_queue_depth r" for r
    using depth_kept[of "[]" r] by (auto simp: take_replica_def split: prod.split sum.split)
  have re [simp]: "rt_max_queue_depth (snd (reroute l err r)) = rt_max_queue_depth r" for l err r
    using depth_kept[of "ls_excluded l" r] by (auto simp: reroute_def Let_def split: prod.split sum.split)
  have beg [simp]: "rt_max_queue_depth (snd (begin_acquire t r)) = rt_max_queue_depth r" for t r
    by (auto simp: begin_acquire_def Let_def split: option.split)
  have clean [simp]: "rt_max_queue_depth (sv_router (cleanup i ans n l err s)) = rt_max_queue_depth (sv_router s)" for i ans n l err s
    by (simp add: release_def Let_def split: option.split)
  have ref [simp]: "rt_max_queue_depth (sv_router (refuse i e s)) = rt_max_queue_depth (sv_router s)" for i e s
    by (simp add: refuse_def split: route_error.split)
  have set [simp]: "rt_max_queue_depth (sv_router (set_phase i p s)) = rt_max_queue_depth (sv_router s)" for i p s
    by (simp add: set_phase_def)
  have bad [simp]: "rt_max_queue_depth (sv_router (bad_gateway i l n err s)) = rt_max_queue_depth (sv_router s)" for i l n err s
    by (simp add: bad_gateway_def del: requests_cleanup)
  have fail [simp]: "rt_max_queue_depth (sv_router (attempt_failed i l n err s)) = rt_max_queue_depth (sv_router s)" for i l n err s
    by (auto simp: attempt_failed_def Let_def split: sum.split)
  have step: "rt_max_queue_depth (sv_router s') = rt_max_queue_depth (sv_router s)" if "serve_step s s'" for s s'
    using that
  proof cases
    case (arrived ep)
    then show ?thesis by (auto simp: arrive_received Let_def split: sum.split option.split)
  next
    case progressed
    then show ?thesis
      by cases (auto simp: resume_def resume_acquire_def attempt_def stream_end_def stream_drop_def Let_def
          simp del: requests_cleanup split: sum.split attempt_result.split)
  next
    case changed
    then show ?thesis using same_gate_outside by (fastforce simp: same_gate_def)
  qed
  have "rt_max_queue_depth rt = depth" using assms(1) by (auto simp: new_router_def install_semaphore_def split: if_splits)
  moreover have "serve_step\<^sup>*\<^sup>* s s' \<Longrightarrow> rt_max_queue_depth (sv_router s') = rt_max_queue_depth (sv_router s)" for s s'
    by (induction rule: rtranclp_induct) (auto simp: step)
  ultimately show ?thesis using assms(2) by (fastforce simp: serves_from_def new_serving_def)
qed

section \<open>What the server guarantees\<close>

definition on_replica :: "nat \<Rightarrow> phase \<Rightarrow> bool" where
  "on_replica a p \<longleftrightarrow> (case lease_of p of None \<Rightarrow> False | Some l \<Rightarrow> ls_replica l = a)"

fun is_finished :: "phase \<Rightarrow> bool" where
  "is_finished (Finished ans n failed) = True" | "is_finished p = False"

fun ended_badly :: "phase \<Rightarrow> bool" where
  "ended_badly (Finished ans n failed) = failed" | "ended_badly p = False"

fun is_waiting :: "phase \<Rightarrow> bool" where
  "is_waiting (Waiting k) = True" | "is_waiting p = False"

text \<open>Attempts given up so far: those that were re-routed, and the last one when it failed.\<close>

fun failed_attempts :: "phase \<Rightarrow> nat" where
  "failed_attempts (Waiting k) = 0" | "failed_attempts (Sending l n) = n" | "failed_attempts (Streaming l n s) = n"
| "failed_attempts (Finished ans n failed) = n + (if failed then 1 else 0)"

definition number :: "(phase \<Rightarrow> bool) \<Rightarrow> serving \<Rightarrow> int" where
  "number P sv = int (length (filter (\<lambda>r. P (cr_phase r)) (sv_requests sv)))"

lemma tally_number:
  "tally (holds a) sv = number (on_replica a) sv" "tally failed_end sv = number ended_badly sv"
  "tally unfinished sv = number (\<lambda>p. \<not> is_finished p) sv" "tally active sv = number (\<lambda>p. lease_of p \<noteq> None) sv"
proof -
  have *: "f = (\<lambda>p. if P p then 1 else 0) \<Longrightarrow> tally f sv = number P sv" for f P
    using tally_count[of P sv] by (simp add: number_def)
  show "tally (holds a) sv = number (on_replica a) sv" by (rule *, rule ext) (simp add: holds_def on_replica_def split: option.split)
  have "failed_end p = (if ended_badly p then 1 else 0)" "unfinished p = (if \<not> is_finished p then 1 else 0)" for p
    by (cases p; simp)+
  then show "tally failed_end sv = number ended_badly sv" "tally unfinished sv = number (\<lambda>p. \<not> is_finished p) sv"
    by (auto intro!: * ext)
  show "tally active sv = number (\<lambda>p. lease_of p \<noteq> None) sv" by (rule *, rule ext) (simp add: active_def)
qed

lemma tally_charges: "tally charges sv = int (sum_list (map (\<lambda>r. failed_attempts (cr_phase r)) (sv_requests sv)))"
proof -
  have "charges p = int (failed_attempts p)" for p by (cases p) auto
  moreover have "sum_list (map (\<lambda>r. int (failed_attempts (cr_phase r))) xs) = int (sum_list (map (\<lambda>r. failed_attempts (cr_phase r)) xs))" for xs
    by (induction xs) auto
  ultimately show ?thesis by (simp add: tally_def)
qed

lemma number_none: "(\<forall>r \<in> set (sv_requests sv). \<not> P (cr_phase r)) \<Longrightarrow> number P sv = 0"
  by (simp add: number_def filter_False)

text \<open>
  C7: The accounts balance in every reachable state, however requests, retries, health checks and replica changes
  interleave: each replica's in-flight count is the number of requests that hold a lease on it, the gauge counts
  the unfinished requests, every failed attempt is charged to a replica exactly once, and a router whose
  requests are all finished has nothing in flight.
\<close>

theorem serving_accounts_balance:
  assumes "new_router pol cap depth = Some rt" "serves_from rt sv"
  shows "(\<forall>a < length (objects sv). rs_inflight_requests (objects sv ! a) = number (on_replica a) sv)
    \<and> sv_requests_inflight sv = number (\<lambda>p. \<not> is_finished p) sv
    \<and> rt_total_errors (sv_router sv) = number ended_badly sv
    \<and> sum_list (map rs_failures (objects sv)) = int (sum_list (map (\<lambda>r. failed_attempts (cr_phase r)) (sv_requests sv)))
    \<and> ((\<forall>r \<in> set (sv_requests sv). is_finished (cr_phase r)) \<longrightarrow>
         sv_requests_inflight sv = 0 \<and> (\<forall>r \<in> set (objects sv). rs_inflight_requests r = 0))"
proof -
  have b: "\<forall>a < length (objects sv). rs_inflight_requests (objects sv ! a) = number (on_replica a) sv"
    "sv_requests_inflight sv = number (\<lambda>p. \<not> is_finished p) sv" "rt_total_errors (sv_router sv) = number ended_badly sv"
    "sum_list (map rs_failures (objects sv)) = int (sum_list (map (\<lambda>r. failed_attempts (cr_phase r)) (sv_requests sv)))"
    using books_reachable[OF assms] by (simp_all add: books_def tally_number tally_charges)
  have "number (on_replica a) sv = 0" if "\<forall>r \<in> set (sv_requests sv). is_finished (cr_phase r)" for a
  proof (rule number_none, rule ballI)
    fix r assume "r \<in> set (sv_requests sv)"
    then have "is_finished (cr_phase r)" using that by blast
    then show "\<not> on_replica a (cr_phase r)" by (cases "cr_phase r") (simp_all add: on_replica_def)
  qed
  then have "\<forall>r \<in> set (objects sv). rs_inflight_requests r = 0" if "\<forall>r \<in> set (sv_requests sv). is_finished (cr_phase r)"
    using b(1) that by (auto simp: in_set_conv_nth)
  moreover have "number (\<lambda>p. \<not> is_finished p) sv = 0" if "\<forall>r \<in> set (sv_requests sv). is_finished (cr_phase r)"
    using that by (intro number_none) simp
  ultimately show ?thesis using b by simp
qed

text \<open>
  C20: The concurrency limit holds: at most \<open>c\<close> requests hold a lease at any time, and the requests waiting for a
  slot are counted exactly and never exceed the queue depth.
\<close>

theorem serving_capacity:
  assumes "new_router pol (Some c) depth = Some rt" "0 < c" "serves_from rt sv"
  shows "number (\<lambda>p. lease_of p \<noteq> None) sv \<le> c \<and> rt_waiting (sv_router sv) = number is_waiting sv
    \<and> rt_waiting (sv_router sv) \<le> max 0 depth"
proof -
  note g = gate_reachable[OF assms]
  let ?p = "pending (sem_at sv 0)"
  have "is_waiting p \<longleftrightarrow> (\<exists>k. p = Waiting k)" for p by (cases p) auto
  then have "{i. i < length (sv_requests sv) \<and> is_waiting (phase_of sv i)} = set ?p" using g by (auto simp: gate_def)
  moreover have "distinct ?p" using g by (simp add: gate_def sem_ok_def)
  ultimately have "number is_waiting sv = int (length ?p)"
    unfolding number_def by (simp add: length_filter_conv_card distinct_card)
  moreover have "0 \<le> slots (sem_at sv 0)" using g by (simp add: gate_def sem_ok_def slots_def)
  ultimately show ?thesis using g depth_reachable[OF assms(1,3)] by (simp add: gate_def tally_number(4))
qed

text \<open>
  C23: A request is sent to at most two replicas, and never twice to a replica of the same name: a lease in use has
  been re-routed at most once and names each tried replica once, and a finished request was re-routed at most once.
\<close>

theorem retry_at_most_once:
  assumes "new_router pol cap depth = Some rt" "serves_from rt sv" "r \<in> set (sv_requests sv)"
  shows "failed_attempts (cr_phase r) \<le> 2
    \<and> (\<forall>l. lease_of (cr_phase r) = Some l \<longrightarrow> length (ls_excluded l) = Suc (failed_attempts (cr_phase r)) \<and> length (ls_excluded l) \<le> 2
         \<and> distinct (ls_excluded l) \<and> ls_replica l < length (objects sv) \<and> hd (ls_excluded l) = rs_id (objects sv ! ls_replica l))"
proof -
  obtain i where "i < length (sv_requests sv)" "r = sv_requests sv ! i" using assms(3) by (auto simp: in_set_conv_nth)
  then have "phase_fine (sv_router sv) (cr_phase r)" using books_reachable[OF assms(1,2)] by (auto simp: books_def)
  moreover have "hd (ls_excluded l) = ls_excluded l ! 0" if "lease_fine (sv_router sv) l n" for l n
    using that by (intro hd_conv_nth) (auto simp: lease_fine_def)
  ultimately show ?thesis by (cases "cr_phase r") (auto simp: lease_fine_def)
qed



section \<open>Replacing the semaphore\<close>

text \<open>The operations of the router leave every semaphore but the current one (and the resumed one) alone.\<close>

definition keeps_sem :: "nat \<Rightarrow> router \<Rightarrow> router \<Rightarrow> bool" where
  "keeps_sem j rt rt' \<longleftrightarrow> rt_semaphore rt' = rt_semaphore rt \<and> length (rt_semaphores rt') = length (rt_semaphores rt)
     \<and> rt_semaphores rt' ! j = rt_semaphores rt ! j"

lemma keeps_sem_slot: "rt_semaphore rt \<noteq> Some j \<Longrightarrow> keeps_sem j rt (release_slot rt)"
  by (auto simp: keeps_sem_def release_slot_def split: option.split)

lemma keeps_sem_gate: "same_gate rt rt' \<Longrightarrow> keeps_sem j rt rt'"
  by (simp add: keeps_sem_def same_gate_def)

lemma keeps_sem_select: "keeps_sem j rt (snd (route_select ex rt))"
  by (simp add: route_select_def keeps_sem_def split: option.split prod.split)

lemma keeps_sem_trans: "keeps_sem j rt rt1 \<Longrightarrow> keeps_sem j rt1 rt2 \<Longrightarrow> keeps_sem j rt rt2"
  by (simp add: keeps_sem_def)

lemma keeps_sem_take: "rt_semaphore rt \<noteq> Some j \<Longrightarrow> keeps_sem j rt (snd (take_replica rt))"
  using keeps_sem_select[of j rt "[]"] keeps_sem_slot[of "snd (route_select [] rt)" j]
  by (auto simp: take_replica_def keeps_sem_def simp del: semaphore_kept split: prod.split sum.split)

lemma keeps_sem_reroute: "keeps_sem j rt (snd (reroute l err rt))"
  using keeps_sem_select[of j rt "ls_excluded l"] 
  by (auto simp: reroute_def Let_def keeps_sem_def simp del: semaphore_kept split: prod.split sum.split)

lemma keeps_sem_release: "rt_semaphore rt \<noteq> Some j \<Longrightarrow> keeps_sem j rt (release l f err rt)"
  by (auto simp: keeps_sem_def release_def Let_def release_slot_def split: option.split)

lemma keeps_sem_begin: assumes "rt_semaphore rt \<noteq> Some j" shows "keeps_sem j rt (snd (begin_acquire t rt))"
proof -
  have "keeps_sem j rt (snd (take_replica rt1))" if "keeps_sem j rt rt1" for rt1
    using keeps_sem_trans[OF that keeps_sem_take] that assms by (simp add: keeps_sem_def)
  then show ?thesis using assms by (cases rule: begin_acquire_cases[where t = t and ?rt0.0 = rt]) (auto simp: keeps_sem_def)
qed

lemma keeps_sem_resume: "rt_semaphore rt \<noteq> Some j \<Longrightarrow> k \<noteq> j \<Longrightarrow> keeps_sem j rt (snd (resume_acquire t k rt))"
  unfolding resume_acquire_def by (rule keeps_sem_trans[OF _ keeps_sem_take]) (simp_all add: keeps_sem_def)

lemma keeps_sem_steps:
  "keeps_sem j rt (sv_router sv) \<Longrightarrow> keeps_sem j rt (sv_router (count_total i c sv))"
  "keeps_sem j rt (sv_router sv) \<Longrightarrow> keeps_sem j rt (sv_router (count_error i c sv))"
  "keeps_sem j rt (sv_router sv) \<Longrightarrow> keeps_sem j rt (sv_router (set_phase i p sv))"
  "keeps_sem j rt (sv_router sv) \<Longrightarrow> rt_semaphore rt \<noteq> Some j \<Longrightarrow> keeps_sem j rt (sv_router (cleanup i ans n l err sv))"
  "keeps_sem j rt (sv_router sv) \<Longrightarrow> rt_semaphore rt \<noteq> Some j \<Longrightarrow> keeps_sem j rt (sv_router (refuse i e sv))"
  "keeps_sem j rt (sv_router sv) \<Longrightarrow> rt_semaphore rt \<noteq> Some j \<Longrightarrow> keeps_sem j rt (sv_router (bad_gateway i lz n err' sv))"
proof -
  show 1: "keeps_sem j rt (sv_router sv) \<Longrightarrow> rt_semaphore rt \<noteq> Some j \<Longrightarrow> keeps_sem j rt (sv_router (cleanup i ans n l err sv))"
    for sv i ans n l err
    unfolding requests_cleanup using keeps_sem_release[of "sv_router sv" j] by (auto simp: keeps_sem_def split: option.split)
  show "keeps_sem j rt (sv_router sv) \<Longrightarrow> rt_semaphore rt \<noteq> Some j \<Longrightarrow> keeps_sem j rt (sv_router (refuse i e sv))"
    unfolding refuse_def by (cases e; simp del: requests_cleanup; rule 1; simp)
  show "keeps_sem j rt (sv_router sv) \<Longrightarrow> rt_semaphore rt \<noteq> Some j \<Longrightarrow> keeps_sem j rt (sv_router (bad_gateway i lz n err' sv))"
    unfolding bad_gateway_def by (rule 1; simp)
qed (simp_all add: set_phase_def)

lemma settles_others: "settles i' sv sv' \<Longrightarrow> i \<noteq> i' \<Longrightarrow> phase_of sv' i = phase_of sv i \<and> length (sv_requests sv') = length (sv_requests sv)"
  by (auto simp: settles_def set_phase_def)

definition stranded :: "nat \<Rightarrow> nat \<Rightarrow> serving \<Rightarrow> bool" where
  "stranded j i sv \<longleftrightarrow> i < length (sv_requests sv) \<and> phase_of sv i = Waiting j \<and> rt_semaphore (sv_router sv) \<noteq> Some j
     \<and> sm_granted (sem_at sv j) = []"

lemma stranded_progress: assumes "progress sv sv'" "stranded j i sv" shows "stranded j i sv'"
proof -
  have st: "rt_semaphore (sv_router sv) \<noteq> Some j" "phase_of sv i = Waiting j" "i < length (sv_requests sv)" "sm_granted (sem_at sv j) = []"
    using assms(2) by (simp_all add: stranded_def)
  have "\<exists>i'. i' \<noteq> i \<and> settles i' sv sv' \<and> keeps_sem j (sv_router sv) (sv_router sv')"
    using assms(1)
  proof cases
    case (resumed i' k)
    then have k: "k \<noteq> j" "i' \<noteq> i" using st by auto
    have "settles i' sv (set_phase i' (Sending l 0) (sv\<lparr>sv_router := rt\<rparr>))" for l rt
      unfolding settles_def by (rule exI[of _ "Sending l 0"]) (simp add: set_phase_def resumed)
    then have "settles i' sv sv'" unfolding resumed(1) resume_def Let_def
      using settles_refuse[OF resumed(3)] by (auto split: sum.split)
    moreover have "keeps_sem j (sv_router sv) (sv_router sv')" unfolding resumed(1) resume_def Let_def
      using keeps_sem_resume[OF st(1) k(1), of i'] st(1) by (auto split: sum.split intro: keeps_sem_steps)
    ultimately show ?thesis using k by blast
  next
    case (attempted i' l n res)
    have "settles i' sv (set_phase i' (Streaming l n s) (count_total i' cls sv))" for s cls
      unfolding settles_def by (rule exI[of _ "Streaming l n s"]) (simp add: set_phase_def attempted)
    then have "settles i' sv sv'" unfolding attempted(1) attempt_def
      using settles_attempt_failed[OF attempted(3)] by (auto split: attempt_result.split)
    moreover have "keeps_sem j (sv_router sv) (sv_router (attempt_failed i' l n err sv))" for err
      unfolding attempt_failed_def Let_def using st(1) keeps_sem_reroute[of j "sv_router sv" l "Some err"]
      by (auto intro!: keeps_sem_steps split: sum.split simp: keeps_sem_gate)
    then have "keeps_sem j (sv_router sv) (sv_router sv')" unfolding attempted(1) attempt_def
      by (auto intro!: keeps_sem_steps split: attempt_result.split simp: keeps_sem_gate)
    ultimately show ?thesis using attempted(3) st(2) by (intro exI[of _ i']) auto
  next
    case (ended i' l n s)
    then have "settles i' sv sv'" unfolding ended(1) stream_end_def by (intro settles_cleanup) auto
    moreover have "keeps_sem j (sv_router sv) (sv_router sv')" unfolding ended(1) stream_end_def
      by (intro keeps_sem_steps st(1)) (simp add: keeps_sem_gate)
    ultimately show ?thesis using ended(3) st(2) by (intro exI[of _ i']) auto
  next
    case (dropped i' l n s err)
    then have "settles i' sv sv'" unfolding dropped(1) stream_drop_def by (intro settles_cleanup) auto
    moreover have "keeps_sem j (sv_router sv) (sv_router sv')" unfolding dropped(1) stream_drop_def
      by (intro keeps_sem_steps st(1)) (simp add: keeps_sem_gate)
    ultimately show ?thesis using dropped(3) st(2) by (intro exI[of _ i']) auto
  qed
  then obtain i' where "i' \<noteq> i" "settles i' sv sv'" "keeps_sem j (sv_router sv) (sv_router sv')" by blast
  then show ?thesis using st settles_others[of i' sv sv' i] by (simp add: stranded_def keeps_sem_def)
qed

lemma stranded_arrive: assumes "stranded j i sv" shows "stranded j i (arrive ep sv)"
proof -
  let ?n = "length (sv_requests sv)" and ?sv = "received ep sv"
  have st: "rt_semaphore (sv_router sv) \<noteq> Some j" "phase_of sv i = Waiting j" "i < ?n" "sm_granted (sem_at sv j) = []"
    using assms by (simp_all add: stranded_def)
  note kb = keeps_sem_begin[OF st(1), of ?n]
  let ?r = "begin_acquire ?n (sv_router sv)"
  have 1: "stranded j i (?sv\<lparr>sv_router := snd ?r\<rparr>)" using st kb by (simp add: stranded_def keeps_sem_def)
  have 2: "stranded j i (set_phase ?n (Sending l 0) (?sv\<lparr>sv_router := snd ?r\<rparr>))" for l
    using st kb by (simp add: stranded_def keeps_sem_def set_phase_def)
  have "settles ?n ?sv (refuse ?n e (?sv\<lparr>sv_router := snd ?r\<rparr>))" for e by (rule settles_refuse) simp
  from settles_others[OF this, of i] have 3: "stranded j i (refuse ?n e (?sv\<lparr>sv_router := snd ?r\<rparr>))" for e
    using st kb keeps_sem_steps(5)[of j "sv_router sv" "?sv\<lparr>sv_router := snd ?r\<rparr>" ?n e]
    by (simp add: stranded_def keeps_sem_def)
  show ?thesis using 1 2 3 by (auto simp: arrive_received Let_def split: sum.split option.split)
qed

text \<open>
  C24: \<^verbatim>\<open>set_max_concurrency\<close> strands the requests that wait: it replaces the semaphore, later releases go to the
  new one, and a request waiting for the old one waits for ever, whatever the server does afterwards, even if
  the limit is raised or lifted.
\<close>

theorem replaced_semaphore_strands:
  assumes "rt_semaphore (sv_router sv) = Some k" "i < length (sv_requests sv)" "phase_of sv i = Waiting k"
    "k < length (rt_semaphores (sv_router sv))" "sm_granted (sem_at sv k) = []"
    "set_max_concurrency v (sv_router sv) = Some rt'" "serve_step\<^sup>*\<^sup>* (sv\<lparr>sv_router := rt'\<rparr>) sv'"
  shows "i < length (sv_requests sv') \<and> phase_of sv' i = Waiting k"
proof -
  have "stranded k i (sv\<lparr>sv_router := rt'\<rparr>)"
    using assms by (auto simp: stranded_def set_max_concurrency_def install_semaphore_def nth_append split: if_splits)
  with assms(7) have "stranded k i sv'"
  proof (induction rule: rtranclp_induct)
    case (step sv1 sv2)
    from step(2) show ?case
    proof cases
      case changed
      then obtain rt2 where "sv2 = sv1\<lparr>sv_router := rt2\<rparr>" "same_gate (sv_router sv1) rt2" using same_gate_outside by blast
      then show ?thesis using step(3,4) by (simp add: stranded_def same_gate_def)
    qed (use stranded_arrive stranded_progress step(3,4) in blast)+
  qed
  then show ?thesis by (simp add: stranded_def)
qed

section \<open>A server at work\<close>

definition demo_router :: router where
  "demo_router = the (new_router None (Some 1) 4)"

definition demo_up :: serving where
  "demo_up = (let s1 = (new_serving demo_router)\<lparr>sv_router := snd (add_replica ''a'' ''u'' [0] None demo_router)\<rparr>
     in s1\<lparr>sv_router := set_status ''a'' Healthy None (sv_router s1)\<rparr>)"

definition demo_busy :: serving where
  "demo_busy = arrive ''c'' (arrive ''c'' demo_up)"

lemma demo_new: "new_router None (Some 1) 4 = Some demo_router"
  by (simp add: demo_router_def new_router_def install_semaphore_def truthy_def)

lemma demo_serves: "serves_from demo_router demo_busy"
proof -
  let ?s1 = "(new_serving demo_router)\<lparr>sv_router := snd (add_replica ''a'' ''u'' [0] None demo_router)\<rparr>"
  have "serve_step (new_serving demo_router) ?s1"
    using changed[OF replica_added[of "new_serving demo_router" "''a''" "''u''" "[0]" None]] by (simp add: new_serving_def)
  moreover have "serve_step ?s1 demo_up" unfolding demo_up_def Let_def by (rule changed[OF health_changed])
  ultimately show ?thesis unfolding serves_from_def demo_busy_def
    by (meson arrived rtranclp.rtrancl_into_rtrancl rtranclp.rtrancl_refl)
qed

lemma demo_phases: "map cr_phase (sv_requests demo_busy) = [Sending \<lparr>ls_replica = 0, ls_excluded = [''a'']\<rparr> 0, Waiting 0]"
  by code_simp

lemma demo_lengths: "length (sv_requests demo_busy) = 2" "phase_of demo_busy 0 = Sending \<lparr>ls_replica = 0, ls_excluded = [''a'']\<rparr> 0"
    "phase_of demo_busy 1 = Waiting 0"
proof -
  show l: "length (sv_requests demo_busy) = 2" using arg_cong[OF demo_phases, of length] by simp
  show "phase_of demo_busy 0 = Sending \<lparr>ls_replica = 0, ls_excluded = [''a'']\<rparr> 0" "phase_of demo_busy 1 = Waiting 0"
    using arg_cong[OF demo_phases, of "\<lambda>xs. xs ! 0"] arg_cong[OF demo_phases, of "\<lambda>xs. xs ! 1"] by (simp_all add: l)
qed

theorem serving_accounts_balance_witness:
  "rs_inflight_requests (objects demo_busy ! 0) = number (on_replica 0) demo_busy \<and> length (objects demo_busy) = 1
   \<and> sv_requests_inflight demo_busy = number (\<lambda>p. \<not> is_finished p) demo_busy"
proof -
  have "length (objects demo_busy) = 1" by code_simp
  then show ?thesis using serving_accounts_balance[OF demo_new demo_serves] by simp
qed

theorem serving_capacity_witness:
  "number (\<lambda>p. lease_of p \<noteq> None) demo_busy \<le> 1 \<and> rt_waiting (sv_router demo_busy) = number is_waiting demo_busy"
  using serving_capacity[OF demo_new _ demo_serves] by simp

theorem retry_at_most_once_witness:
  "sv_requests demo_busy ! 0 \<in> set (sv_requests demo_busy) \<and> failed_attempts (phase_of demo_busy 0) \<le> 2"
  using retry_at_most_once[OF demo_new demo_serves, of "sv_requests demo_busy ! 0"] by (simp add: demo_lengths)



theorem replaced_semaphore_strands_witness:
  "\<exists>rt'. set_max_concurrency None (sv_router demo_busy) = Some rt'
     \<and> phase_of (arrive ''c'' (demo_busy\<lparr>sv_router := rt'\<rparr>)) 1 = Waiting 0"
proof -
  obtain rt' where rt': "set_max_concurrency None (sv_router demo_busy) = Some rt'"
    by (simp add: set_max_concurrency_def install_semaphore_def truthy_def)
  have "rt_semaphore (sv_router demo_busy) = Some 0" "length (rt_semaphores (sv_router demo_busy)) = 1" "sm_granted (sem_at demo_busy 0) = []"
    by code_simp+
  moreover have "serve_step\<^sup>*\<^sup>* (demo_busy\<lparr>sv_router := rt'\<rparr>) (arrive ''c'' (demo_busy\<lparr>sv_router := rt'\<rparr>))"
    by (rule r_into_rtranclp) (rule arrived)
  ultimately show ?thesis using replaced_semaphore_strands[OF _ _ demo_lengths(3) _ _ rt'] demo_lengths(1) rt' by simp
qed

end
