(* ===== verification/PyRegex.thy ===== *)
theory PyRegex
  imports PyText
begin

text \<open>
  The part of Python's \<^verbatim>\<open>re\<close> the program uses: character classes, sequence, alternation, greedy
  repetition, word boundaries and line ends, with the priorities of a backtracking matcher, and \<^verbatim>\<open>search\<close>,
  \<^verbatim>\<open>finditer\<close> and \<^verbatim>\<open>sub\<close> over it. A position is the text before it, reversed, and the text after it.
  Texts are byte strings: the classes are those of ASCII text.
\<close>

section \<open>Expressions and their matches\<close>

datatype rx = Cls "char \<Rightarrow> bool" | Eps | Seq rx rx | Alt rx rx | Star rx | Word_boundary | Line_end

type_synonym pos = "string \<times> string"

definition is_upper :: "char \<Rightarrow> bool" where "is_upper c \<longleftrightarrow> (of_char c :: nat) \<in> {65..90}"
definition is_lower :: "char \<Rightarrow> bool" where "is_lower c \<longleftrightarrow> (of_char c :: nat) \<in> {97..122}"
definition is_numeral :: "char \<Rightarrow> bool" where "is_numeral c \<longleftrightarrow> (of_char c :: nat) \<in> {48..57}"
definition is_alnum :: "char \<Rightarrow> bool" where "is_alnum c \<longleftrightarrow> is_upper c \<or> is_lower c \<or> is_numeral c"
definition is_word :: "char \<Rightarrow> bool" where "is_word c \<longleftrightarrow> is_alnum c \<or> c = CHR ''_''"
definition is_blank :: "char \<Rightarrow> bool" where "is_blank c \<longleftrightarrow> (of_char c :: nat) \<in> {9..13} \<union> {28..32}"

definition at_boundary :: "pos \<Rightarrow> bool" where
  "at_boundary p \<longleftrightarrow> (fst p \<noteq> [] \<and> is_word (hd (fst p))) \<noteq> (snd p \<noteq> [] \<and> is_word (hd (snd p)))"

definition at_line_end :: "pos \<Rightarrow> bool" where
  "at_line_end p \<longleftrightarrow> snd p = [] \<or> hd (snd p) = CHR 0x0A"

definition step_class :: "(char \<Rightarrow> bool) \<Rightarrow> pos \<Rightarrow> pos list" where
  "step_class P p = (case snd p of [] \<Rightarrow> [] | c # cs \<Rightarrow> if P c then [(c # fst p, cs)] else [])"

text \<open>The ends of the matches that start at a position, the preferred one first.\<close>

function runs :: "rx \<Rightarrow> pos \<Rightarrow> pos list" where
  "runs (Cls P) p = step_class P p"
| "runs Eps p = [p]"
| "runs (Seq r t) p = concat (map (runs t) (runs r p))"
| "runs (Alt r t) p = runs r p @ runs t p"
| "runs (Star r) p = concat (map (\<lambda>q. if length (snd q) < length (snd p) then runs (Star r) q else []) (runs r p)) @ [p]"
| "runs Word_boundary p = (if at_boundary p then [p] else [])"
| "runs Line_end p = (if at_line_end p then [p] else [])"
  by pat_completeness auto
termination by (relation "measures [\<lambda>(r, p). size r, \<lambda>(r, p). length (snd p)]") auto

lemmas runs_star = runs.simps(5)
declare runs.simps(5) [simp del]

fun lit :: "string \<Rightarrow> rx" where
  "lit [] = Eps" | "lit (c # cs) = Seq (Cls (\<lambda>x. x = c)) (lit cs)"

text \<open>A literal under \<^verbatim>\<open>re.IGNORECASE\<close>.\<close>

fun ilit :: "string \<Rightarrow> rx" where
  "ilit [] = Eps" | "ilit (c # cs) = Seq (Cls (\<lambda>x. lower_char x = lower_char c)) (ilit cs)"

fun times :: "nat \<Rightarrow> rx \<Rightarrow> rx" where
  "times 0 r = Eps" | "times (Suc n) r = Seq r (times n r)"

definition any :: rx where "any = Cls (\<lambda>c. c \<noteq> CHR 0x0A)"
definition option_of :: "rx \<Rightarrow> rx" where "option_of r = Alt r Eps"
definition plus :: "rx \<Rightarrow> rx" where "plus r = Seq r (Star r)"

section \<open>Searching\<close>

definition match_at :: "rx \<Rightarrow> pos \<Rightarrow> pos option" where
  "match_at r p = (case runs r p of [] \<Rightarrow> None | q # qs \<Rightarrow> Some q)"

text \<open>The text between two positions.\<close>

definition between :: "pos \<Rightarrow> pos \<Rightarrow> string" where
  "between p q = take (length (snd p) - length (snd q)) (snd p)"

fun search_from :: "rx \<Rightarrow> string \<Rightarrow> string \<Rightarrow> string option" where
  "search_from r b [] = map_option (between (b, [])) (match_at r (b, []))"
| "search_from r b (c # cs) =
     (case match_at r (b, c # cs) of Some q \<Rightarrow> Some (between (b, c # cs) q) | None \<Rightarrow> search_from r (c # b) cs)"

definition search :: "rx \<Rightarrow> string \<Rightarrow> string option" where
  "search r s = search_from r [] s"

text \<open>\<^verbatim>\<open>sub\<close> and \<^verbatim>\<open>findall\<close> for expressions that never match the empty text; the replacement is computed from
  the position and the rest of the text.\<close>

function sub_from :: "(pos \<Rightarrow> (string \<times> pos) option) \<Rightarrow> string \<Rightarrow> string \<Rightarrow> string" where
  "sub_from f b s =
     (case s of [] \<Rightarrow> []
      | c # cs \<Rightarrow>
          (case f (b, s) of
             Some (out, q) \<Rightarrow> if length (snd q) < length s then out @ sub_from f (fst q) (snd q) else c # sub_from f (c # b) cs
           | None \<Rightarrow> c # sub_from f (c # b) cs))"
  by pat_completeness auto
termination by (relation "measure (\<lambda>(f, b, s). length s)") auto

declare sub_from.simps [simp del]

function find_all :: "rx \<Rightarrow> string \<Rightarrow> string \<Rightarrow> string list" where
  "find_all r b s =
     (case s of [] \<Rightarrow> []
      | c # cs \<Rightarrow>
          (case match_at r (b, s) of
             Some q \<Rightarrow> if length (snd q) < length s then between (b, s) q # find_all r (fst q) (snd q) else find_all r (c # b) cs
           | None \<Rightarrow> find_all r (c # b) cs))"
  by pat_completeness auto
termination by (relation "measure (\<lambda>(f, b, s). length s)") auto

declare find_all.simps [simp del]

section \<open>Facts\<close>

text \<open>A match consumes a prefix of the text.\<close>

definition reaches :: "pos \<Rightarrow> pos \<Rightarrow> bool" where
  "reaches p q \<longleftrightarrow> (\<exists>w. snd p = w @ snd q \<and> fst q = rev w @ fst p)"

lemma reaches_refl [simp]: "reaches p p"
  by (simp add: reaches_def)

lemma reaches_trans: "reaches p q \<Longrightarrow> reaches q r \<Longrightarrow> reaches p r"
  unfolding reaches_def by (metis append.assoc rev_append)

lemma runs_reaches: "q \<in> set (runs r p) \<Longrightarrow> reaches p q"
proof (induction r p arbitrary: q rule: runs.induct)
  case (1 P p)
  then show ?case by (auto simp: step_class_def reaches_def split: list.splits if_splits)
next
  case (3 r t p)
  then obtain q1 where q1: "q1 \<in> set (runs r p)" "q \<in> set (runs t q1)" by auto
  then show ?case using 3 reaches_trans by blast
next
  case (4 r t p)
  from 4(3) have "q \<in> set (runs r p) \<or> q \<in> set (runs t p)" by simp
  then show ?case using 4(1,2) by blast
next
  case (5 r p)
  show ?case
  proof (cases "q = p")
    case False
    then obtain q1 where "q1 \<in> set (runs r p)" "length (snd q1) < length (snd p)" "q \<in> set (runs (Star r) q1)"
      using 5(3) by (subst (asm) runs_star) (auto split: if_splits)
    then show ?thesis using 5(1,2) reaches_trans by blast
  qed simp
qed (auto split: if_splits)

lemma match_reaches: "match_at r p = Some q \<Longrightarrow> reaches p q"
  by (rule runs_reaches[of _ r]) (auto simp: match_at_def split: list.splits)

lemma between_reaches: "reaches p q \<Longrightarrow> snd p = between p q @ snd q \<and> fst q = rev (between p q) @ fst p"
  by (auto simp: reaches_def between_def)

lemma runs_lit: "runs (lit w) p = (if starts_with w (snd p) then [(rev w @ fst p, drop (length w) (snd p))] else [])"
proof (induction w arbitrary: p)
  case (Cons c w)
  then show ?case by (cases "snd p") (auto simp: step_class_def starts_with_def)
qed (simp add: starts_with_def)

lemma runs_ilit: "runs (ilit w) p = (if starts_with (str_lower w) (str_lower (snd p))
    then [(rev (take (length w) (snd p)) @ fst p, drop (length w) (snd p))] else [])"
proof (induction w arbitrary: p)
  case (Cons c w)
  then show ?case by (cases "snd p") (auto simp: step_class_def starts_with_def str_lower_def)
qed (simp add: starts_with_def str_lower_def)

text \<open>Searching for a case-insensitive literal is a substring test on the lower-cased texts.\<close>

lemma search_ilit: "search_from (ilit w) b s \<noteq> None \<longleftrightarrow> contains (str_lower w) (str_lower s)"
proof (induction s arbitrary: b)
  case Nil
  show ?case by (auto simp: match_at_def runs_ilit starts_with_def str_lower_def simp del: ilit.simps runs.simps)
next
  case (Cons c s)
  then show ?case by (auto simp: match_at_def runs_ilit str_lower_def split: option.split)
qed

lemma search_from_some:
  "search_from r b s \<noteq> None \<longleftrightarrow> (\<exists>u v. s = u @ v \<and> runs r (rev u @ b, v) \<noteq> [])"
proof (induction s arbitrary: b)
  case Nil
  then show ?case by (auto simp: match_at_def split: list.splits)
next
  case (Cons c s)
  have "(\<exists>u v. c # s = u @ v \<and> runs r (rev u @ b, v) \<noteq> []) \<longleftrightarrow> runs r (b, c # s) \<noteq> [] \<or> (\<exists>u v. s = u @ v \<and> runs r (rev u @ c # b, v) \<noteq> [])"
  proof
    assume "\<exists>u v. c # s = u @ v \<and> runs r (rev u @ b, v) \<noteq> []"
    then obtain u v where "c # s = u @ v" "runs r (rev u @ b, v) \<noteq> []" by blast
    then show "runs r (b, c # s) \<noteq> [] \<or> (\<exists>u v. s = u @ v \<and> runs r (rev u @ c # b, v) \<noteq> [])"
      by (cases u) auto
  next
    assume "runs r (b, c # s) \<noteq> [] \<or> (\<exists>u v. s = u @ v \<and> runs r (rev u @ c # b, v) \<noteq> [])"
    then show "\<exists>u v. c # s = u @ v \<and> runs r (rev u @ b, v) \<noteq> []"
    proof
      assume "runs r (b, c # s) \<noteq> []"
      then show ?thesis by (intro exI[of _ "[]"] exI[of _ "c # s"]) simp
    next
      assume "\<exists>u v. s = u @ v \<and> runs r (rev u @ c # b, v) \<noteq> []"
      then obtain u v where "s = u @ v" "runs r (rev u @ c # b, v) \<noteq> []" by blast
      then show ?thesis by (intro exI[of _ "c # u"] exI[of _ v]) simp
    qed
  qed
  then show ?case using Cons.IH[of "c # b"] by (auto simp: match_at_def split: list.splits option.splits)
qed

lemma runs_times_class: "runs (times n (Cls P)) p =
    (if n \<le> length (snd p) \<and> (\<forall>c \<in> set (take n (snd p)). P c) then [(rev (take n (snd p)) @ fst p, drop n (snd p))] else [])"
proof (induction n arbitrary: p)
  case (Suc n)
  then show ?case by (cases "snd p") (auto simp: step_class_def)
qed simp

text \<open>The preferred match of a repeated class takes all it can.\<close>

lemma runs_star_class: "\<exists>qs. runs (Star (Cls P)) p = (rev (takeWhile P (snd p)) @ fst p, dropWhile P (snd p)) # qs"
proof (induction "snd p" arbitrary: p)
  case Nil
  then show ?case by (subst runs_star, cases p) (auto simp: step_class_def)
next
  case (Cons c cs)
  then have s: "snd p = c # cs" by simp
  show ?case
  proof (cases "P c")
    case True
    obtain qs where "runs (Star (Cls P)) (c # fst p, cs) = (rev (takeWhile P cs) @ c # fst p, dropWhile P cs) # qs"
      using Cons.hyps(1)[of "(c # fst p, cs)"] by auto
    then show ?thesis using True s by (subst runs_star) (simp add: step_class_def)
  next
    case False
    then show ?thesis using s by (subst runs_star) (cases p; simp add: step_class_def)
  qed
qed

end
