(* ===== verification/Redaction.thy ===== *)
theory Redaction
  imports PyRegex
begin

text \<open>
  Secret redaction of \<^verbatim>\<open>logging.py\<close>: the three patterns and \<^verbatim>\<open>redact_secrets\<close>, which every log line, every engine
  output line and every displayed command passes through. The lemmas show that no Hugging Face token
  survives it.
\<close>

section \<open>The patterns\<close>

definition REDACTED :: string where "REDACTED = ''***REDACTED***''"

definition HF_PATTERN :: rx where
  "HF_PATTERN = Seq (lit ''hf_'') (Seq (times 8 (Cls is_alnum)) (Star (Cls is_alnum)))"

definition SECRET_KEYS :: rx where
  "SECRET_KEYS = Alt (lit ''HF_TOKEN'') (Alt (lit ''HUGGING_FACE_HUB_TOKEN'') (Alt (lit ''HUGGINGFACEHUB_API_TOKEN'')
     (Alt (lit ''OPENAI_API_KEY'') (lit ''SERVEPILOT_API_KEY''))))"

definition KEY_HEAD :: rx where
  "KEY_HEAD = Seq SECRET_KEYS (Seq (Star (Cls is_blank)) (Seq (Cls (\<lambda>c. c = CHR ''='' \<or> c = CHR '':'')) (Star (Cls is_blank))))"

definition KEY_VALUE :: rx where "KEY_VALUE = plus (Cls (\<lambda>c. \<not> is_blank c))"

definition BEARER_HEAD :: rx where "BEARER_HEAD = Seq (lit ''Bearer'') (plus (Cls is_blank))"

definition bearer_char :: "char \<Rightarrow> bool" where
  "bearer_char c \<longleftrightarrow> is_alnum c \<or> c = CHR ''.'' \<or> c = CHR ''_'' \<or> c = CHR ''-''"

definition BEARER_TOKEN :: rx where
  "BEARER_TOKEN = Seq (times 8 (Cls bearer_char)) (Star (Cls bearer_char))"

text \<open>The whole match is replaced, or the second group of two, the first being kept.\<close>

definition redact_match :: "rx \<Rightarrow> pos \<Rightarrow> (string \<times> pos) option" where
  "redact_match r p = map_option (\<lambda>q. (REDACTED, q)) (match_at r p)"

definition redact_group :: "rx \<Rightarrow> rx \<Rightarrow> pos \<Rightarrow> (string \<times> pos) option" where
  "redact_group h v p =
     (case filter (\<lambda>q. runs v q \<noteq> []) (runs h p) of
        [] \<Rightarrow> None
      | q # qs \<Rightarrow> Some (between p q @ REDACTED, hd (runs v q)))"

definition redact_secrets :: "string \<Rightarrow> string" where
  "redact_secrets text =
     (let t1 = sub_from (redact_match HF_PATTERN) [] text;
          t2 = sub_from (redact_group KEY_HEAD KEY_VALUE) [] t1
      in sub_from (redact_group BEARER_HEAD BEARER_TOKEN) [] t2)"

definition verbosity_to_level :: "int \<Rightarrow> string" where
  "verbosity_to_level v = (if v \<le> 0 then ''WARNING'' else if v = 1 then ''INFO'' else ''DEBUG'')"

section \<open>No token survives\<close>

definition starts_token :: "string \<Rightarrow> bool" where
  "starts_token v \<longleftrightarrow> (\<exists>w r. v = ''hf_'' @ w @ r \<and> length w = 8 \<and> (\<forall>c \<in> set w. is_alnum c))"

definition clean :: "string \<Rightarrow> bool" where
  "clean s \<longleftrightarrow> (\<forall>u v. s = u @ v \<longrightarrow> \<not> starts_token v)"

lemma runs_hf: "runs HF_PATTERN p \<noteq> [] \<longleftrightarrow> starts_token (snd p)"
proof -
  have *: "runs (Star (Cls is_alnum)) q \<noteq> []" for q using runs_star_class[of is_alnum q] by auto
  have "(3 + 8 \<le> length s \<and> starts_with ''hf_'' s \<and> (\<forall>c \<in> set (take 8 (drop 3 s)). is_alnum c)) \<longleftrightarrow> starts_token s" for s
  proof
    assume a: "3 + 8 \<le> length s \<and> starts_with ''hf_'' s \<and> (\<forall>c \<in> set (take 8 (drop 3 s)). is_alnum c)"
    then have "s = ''hf_'' @ take 8 (drop 3 s) @ drop 8 (drop 3 s)"
      by (metis append_take_drop_id starts_with_iff append_eq_conv_conj length_Cons list.size(3) numeral_3_eq_3 One_nat_def)
    then show "starts_token s" using a unfolding starts_token_def
      by (intro exI[of _ "take 8 (drop 3 s)"] exI[of _ "drop 8 (drop 3 s)"]) auto
  next
    assume "starts_token s"
    then obtain w r where "s = ''hf_'' @ w @ r" "length w = 8" "\<forall>c \<in> set w. is_alnum c" unfolding starts_token_def by blast
    then show "3 + 8 \<le> length s \<and> starts_with ''hf_'' s \<and> (\<forall>c \<in> set (take 8 (drop 3 s)). is_alnum c)"
      by (simp add: starts_with_def)
  qed
  from this[of "snd p"] show ?thesis unfolding HF_PATTERN_def
    using * by (auto simp: runs_lit runs_times_class numeral_3_eq_3 simp del: lit.simps times.simps)
qed

lemma sub_step_none: "f (b, c # cs) = None \<Longrightarrow> sub_from f b (c # cs) = c # sub_from f (c # b) cs"
  by (subst sub_from.simps) simp

lemma sub_step_some: "f (b, c # cs) = Some (out, q) \<Longrightarrow> length (snd q) < length (c # cs) \<Longrightarrow>
    sub_from f b (c # cs) = out @ sub_from f (fst q) (snd q)"
  by (subst sub_from.simps) simp

lemma sub_nil [simp]: "sub_from f b [] = []"
  by (subst sub_from.simps) simp

text \<open>A token has no asterisk, so it lies on one side of a redaction marker.\<close>

lemma starts_token_cut: "starts_token (y @ CHR ''*'' # z) \<Longrightarrow> y \<noteq> [] \<Longrightarrow> starts_token (y @ x)"
proof -
  assume "starts_token (y @ CHR ''*'' # z)" "y \<noteq> []"
  then obtain w r where w: "y @ CHR ''*'' # z = (''hf_'' @ w) @ r" "length w = 8" "\<forall>c \<in> set w. is_alnum c"
    unfolding starts_token_def by auto
  have star: "CHR ''*'' \<notin> set (''hf_'' @ w)" using w(3) by (auto simp: is_alnum_def is_upper_def is_lower_def is_numeral_def)
  have "\<exists>us. y = (''hf_'' @ w) @ us"
  proof -
    consider us where "y @ us = ''hf_'' @ w" "CHR ''*'' # z = us @ r" | us where "y = (''hf_'' @ w) @ us"
      using w(1) unfolding append_eq_append_conv2 by blast
    then show ?thesis
    proof cases
      case 1
      show ?thesis
      proof (cases us)
        case Nil
        then show ?thesis using 1(1) by (intro exI[of _ "[]"]) (simp only: append_Nil2)
      next
        case (Cons a us')
        then have "CHR ''*'' \<in> set (y @ us)" using 1(2) by simp
        then show ?thesis using star unfolding 1(1) by blast
      qed
    qed blast
  qed
  then obtain us where "y @ x = ''hf_'' @ w @ (us @ x)" by auto
  then show ?thesis using w(2,3) unfolding starts_token_def by blast
qed

lemma no_token_in_marker: "REDACTED = u @ v \<Longrightarrow> v \<noteq> [] \<Longrightarrow> \<not> starts_token (v @ z)"
proof -
  assume "REDACTED = u @ v" "v \<noteq> []"
  then have "hd v \<in> set REDACTED" by (metis Un_iff list.set_sel(1) set_append)
  then have "hd v \<noteq> CHR ''h''" by (auto simp: REDACTED_def)
  then show "\<not> starts_token (v @ z)" using \<open>v \<noteq> []\<close> by (cases v) (auto simp: starts_token_def)
qed

lemma clean_marker:
  assumes u: "\<And>x y. u = x @ y \<Longrightarrow> y \<noteq> [] \<Longrightarrow> \<not> starts_token (y @ s)" and z: "clean z"
  shows "clean (u @ REDACTED @ z)"
  unfolding clean_def
proof (intro allI impI)
  fix a v assume e: "u @ REDACTED @ z = a @ v"
  then consider (left) y where "u = a @ y" "v = y @ REDACTED @ z" "y \<noteq> []"
    | (mid) y y' where "REDACTED = y @ y'" "v = y' @ z" "y' \<noteq> []" | (right) y where "z = y @ v"
    by (auto simp: append_eq_append_conv2) (metis append_self_conv2 append_Nil)+
  then show "\<not> starts_token v"
  proof cases
    case left
    then show ?thesis using starts_token_cut[of y _ s] u by (auto simp: REDACTED_def)
  next
    case mid
    then show ?thesis using no_token_in_marker by blast
  next
    case right
    then show ?thesis using z by (simp add: clean_def)
  qed
qed

lemma hf_progress: "match_at HF_PATTERN p = Some q \<Longrightarrow> length (snd q) < length (snd p)"
proof -
  assume m: "match_at HF_PATTERN p = Some q"
  then have "q \<in> set (runs HF_PATTERN p)" by (auto simp: match_at_def split: list.splits)
  then obtain q1 where q1: "q1 \<in> set (runs (lit ''hf_'') p)" "q \<in> set (runs (Seq (times 8 (Cls is_alnum)) (Star (Cls is_alnum))) q1)"
    unfolding HF_PATTERN_def by (subst (asm) runs.simps(3)) (auto simp del: lit.simps times.simps runs.simps)
  then have "reaches q1 q" by (intro runs_reaches)
  with q1(1) show ?thesis by (auto simp: runs_lit reaches_def starts_with_iff split: if_splits simp del: lit.simps)
qed

lemma sub_hf_clean:
  "(\<And>x y. u = x @ y \<Longrightarrow> y \<noteq> [] \<Longrightarrow> \<not> starts_token (y @ s)) \<Longrightarrow> clean (u @ sub_from (redact_match HF_PATTERN) b s)"
proof (induction "length s" arbitrary: u b s rule: less_induct)
  case less
  show ?case
  proof (cases s)
    case Nil
    have "\<not> starts_token v" if "u = a @ v" for a v
      using less.prems[OF that] Nil by (cases "v = []") (auto simp: starts_token_def)
    then show ?thesis using Nil by (simp add: clean_def)
  next
    case (Cons c cs)
    show ?thesis
    proof (cases "match_at HF_PATTERN (b, s)")
      case None
      then have no: "\<not> starts_token s" using runs_hf[of "(b, s)"] by (auto simp: match_at_def split: list.splits)
      have "clean ((u @ [c]) @ sub_from (redact_match HF_PATTERN) (c # b) cs)"
      proof (rule less.hyps)
        fix x y assume xy: "u @ [c] = x @ y" "y \<noteq> []"
        then obtain y' where "y = y' @ [c]" "u = x @ y'" by (metis append_butlast_last_id butlast_append last_appendR last_snoc butlast_snoc)
        then show "\<not> starts_token (y @ cs)" using less.prems[of x y'] no Cons by (cases "y' = []") auto
      qed (use Cons in simp)
      then show ?thesis using None Cons by (simp add: sub_step_none redact_match_def)
    next
      case (Some q)
      then have q: "length (snd q) < length s" using hf_progress by fastforce
      have "clean ([] @ sub_from (redact_match HF_PATTERN) (fst q) (snd q))" by (rule less.hyps[OF q]) simp
      then have "clean (u @ REDACTED @ sub_from (redact_match HF_PATTERN) (fst q) (snd q))"
        by (intro clean_marker[where s = s] less.prems) simp_all
      then show ?thesis using Some q Cons by (simp add: sub_step_some redact_match_def)
    qed
  qed
qed

text \<open>The later substitutions copy stretches of the text and put markers between them.\<close>

lemma clean_factor: "clean (x @ y) \<Longrightarrow> clean y"
  unfolding clean_def by (metis append.assoc)

lemma clean_prefix: assumes "clean (x @ y)" shows "clean x"
  unfolding clean_def
proof (intro allI impI notI)
  fix u v assume "x = u @ v" "starts_token v"
  then have "starts_token (v @ y)" unfolding starts_token_def by (metis append.assoc)
  then show False using assms \<open>x = u @ v\<close> by (auto simp: clean_def)
qed

lemma sub_group_clean:
  "clean (u @ s) \<Longrightarrow> clean (u @ sub_from (redact_group h v) b s)"
proof (induction "length s" arbitrary: u b s rule: less_induct)
  case less
  show ?case
  proof (cases s)
    case Nil
    then show ?thesis using less.prems by simp
  next
    case (Cons c cs)
    show ?thesis
    proof (cases "\<exists>out q. redact_group h v (b, s) = Some (out, q) \<and> length (snd q) < length s")
      case False
      then have "sub_from (redact_group h v) b s = c # sub_from (redact_group h v) (c # b) cs"
        unfolding Cons by (subst sub_from.simps) (auto split: option.splits)
      moreover have "clean ((u @ [c]) @ sub_from (redact_group h v) (c # b) cs)"
        using less.prems Cons by (intro less.hyps) auto
      ultimately show ?thesis by simp
    next
      case True
      then obtain out q where f: "redact_group h v (b, s) = Some (out, q)" "length (snd q) < length s" by blast
      then obtain q1 where q1: "q1 \<in> set (runs h (b, s))" "runs v q1 \<noteq> []" "out = between (b, s) q1 @ REDACTED" "q = hd (runs v q1)"
        by (auto simp: redact_group_def split: list.splits dest!: filter_eq_ConsD) (metis filter_eq_Cons_iff in_set_conv_decomp)+
      have s: "s = between (b, s) q1 @ snd q1" using between_reaches[OF runs_reaches[OF q1(1)]] by simp
      obtain w where w: "snd q1 = w @ snd q" using runs_reaches[of q v q1] q1(2,4) by (auto simp: reaches_def)
      have 1: "clean (u @ between (b, s) q1)" using less.prems s by (metis append.assoc clean_prefix)
      have "clean (snd q)" using less.prems s w by (metis append.assoc clean_factor)
      then have "clean ([] @ sub_from (redact_group h v) (fst q) (snd q))" using f(2) by (intro less.hyps) auto
      then have "clean ((u @ between (b, s) q1) @ REDACTED @ sub_from (redact_group h v) (fst q) (snd q))"
      proof (intro clean_marker[where s = "[]"])
        fix x y assume "u @ between (b, s) q1 = x @ y"
        then show "\<not> starts_token (y @ [])" using 1 by (auto simp: clean_def)
      qed simp
      then show ?thesis using f q1(3) Cons by (simp add: sub_step_some)
    qed
  qed
qed

lemma redacted_clean: "search HF_PATTERN (redact_secrets text) = None"
proof -
  have "clean ([] @ sub_from (redact_match HF_PATTERN) [] text)" by (rule sub_hf_clean) simp
  then have "clean (redact_secrets text)" unfolding redact_secrets_def Let_def
    using sub_group_clean[of "[]"] by simp
  then have "\<not> (\<exists>u v. redact_secrets text = u @ v \<and> runs HF_PATTERN (rev u @ [], v) \<noteq> [])"
    unfolding runs_hf by (simp add: clean_def)
  then show ?thesis using search_from_some[of HF_PATTERN "[]" "redact_secrets text"] unfolding search_def by blast
qed

text \<open>
  No Hugging Face token survives redaction: whatever the text, the token pattern finds nothing in the redacted
  text.
\<close>

theorem redact_secrets_clean: "search HF_PATTERN (redact_secrets text) = None"
  by (rule redacted_clean)

section \<open>The logging filter\<close>

text \<open>A record as the filter sees it: its message and arguments, of which only text is rewritten.\<close>

datatype log_value = Text string | Opaque

datatype log_args = No_args | Tuple_args "log_value list" | Dict_args "(string \<times> log_value) list" | Other_args

record log_record =
  lr_msg :: log_value
  lr_args :: log_args

definition redact_value :: "log_value \<Rightarrow> log_value" where
  "redact_value v = (case v of Text s \<Rightarrow> Text (redact_secrets s) | Opaque \<Rightarrow> Opaque)"

definition redact_record :: "log_record \<Rightarrow> log_record" where
  "redact_record r = \<lparr>lr_msg = redact_value (lr_msg r),
     lr_args = (case lr_args r of Tuple_args vs \<Rightarrow> Tuple_args (map redact_value vs)
       | Dict_args kvs \<Rightarrow> Dict_args (map (map_prod id redact_value) kvs) | a \<Rightarrow> a)\<rparr>"

lemma redact_example: "redact_secrets ''x hf_abcdefgh1 HF_TOKEN = s3'' = ''x ***REDACTED*** HF_TOKEN = ***REDACTED***''"
  by code_simp

end
