(* ===== verification/Failures.thy ===== *)
theory Failures
  imports PyRegex Plan
begin

text \<open>
  Classification of engine launch failures, \<^verbatim>\<open>engines/failures.py\<close>: the ordered table of patterns, the tail of
  a log, the exception line that summarises it, and \<^verbatim>\<open>classify_failure\<close>. The lemmas show that the first
  category with a match wins, that an out-of-memory report is never classified as anything else, and that
  the kept tails are bounded.
\<close>

section \<open>The patterns\<close>

fun seq :: "rx list \<Rightarrow> rx" where
  "seq [] = Eps" | "seq [r] = r" | "seq (r # rs) = Seq r (seq rs)"

definition OOM_PATTERNS :: "rx list" where
  "OOM_PATTERNS =
     [ilit ''CUDA out of memory'',
      ilit ''OutOfMemoryError'',
      ilit ''torch.OutOfMemoryError'',
      ilit ''out of memory'',
      ilit ''No available memory for the cache blocks'',
      ilit ''not enough memory'',
      seq [ilit ''Not enough memory'', option_of (ilit ''.''), ilit '' Please try to increase --mem-fraction-static''],
      ilit ''insufficient memory'',
      seq [ilit ''free memory on device '', Star any, ilit '' is less than desired GPU memory utilization''],
      seq [ilit ''memory profiling '', Star any, ilit '' exceeds''],
      ilit ''cudaErrorMemoryAllocation'',
      ilit ''CUBLAS_STATUS_ALLOC_FAILED'',
      seq [ilit (''The model'' @ [CHR 0x27] @ ''s max seq len ''), Star any, ilit '' is larger than the maximum number of tokens that can be stored in KV cache''],
      ilit ''KV cache is too small'',
      ilit ''CUDA_ERROR_OUT_OF_MEMORY'']"

definition AUTH_ERROR_PATTERNS :: "rx list" where
  "AUTH_ERROR_PATTERNS =
     [ilit ''401 Client Error'',
      ilit ''403 Client Error'',
      ilit ''GatedRepoError'',
      ilit ''RepositoryNotFoundError'',
      seq [ilit ''Access to model '', Star any, ilit '' is restricted''],
      ilit ''You must be authenticated'',
      ilit ''Invalid user token'',
      ilit ''gated repo'']"

definition MODEL_DOWNLOAD_ERROR_PATTERNS :: "rx list" where
  "MODEL_DOWNLOAD_ERROR_PATTERNS =
     [ilit ''HfHubHTTPError'',
      ilit ''ConnectionError'',
      ilit ''Failed to connect to huggingface.co'',
      ilit ''Max retries exceeded'',
      ilit ''Read timed out'',
      ilit ''No space left on device'',
      ilit ''LocalEntryNotFoundError'',
      ilit ''RevisionNotFoundError'',
      ilit ''EntryNotFoundError'',
      ilit ''Cannot find the requested files in the disk cache'']"

definition PORT_CONFLICT_PATTERNS :: "rx list" where
  "PORT_CONFLICT_PATTERNS =
     [ilit ''address already in use'',
      ilit ''[Errno 98]'',
      ilit ''EADDRINUSE'',
      seq [ilit ''port '', Star any, ilit '' is already in use''],
      ilit ''Only one usage of each socket address'']"

definition NCCL_ERROR_PATTERNS :: "rx list" where
  "NCCL_ERROR_PATTERNS =
     [ilit ''NCCL error'',
      ilit ''ncclSystemError'',
      ilit ''ncclInternalError'',
      ilit ''ncclUnhandledCudaError'',
      ilit ''ncclInvalidUsage'',
      ilit ''NCCL WARN'',
      ilit ''torch.distributed.DistBackendError'',
      seq [ilit ''Connection reset by peer'', Star any, ilit ''NCCL''],
      ilit ''Gloo connectFullMesh failed'',
      ilit ''Timed out initializing process group'']"

definition MODEL_UNSUPPORTED_PATTERNS :: "rx list" where
  "MODEL_UNSUPPORTED_PATTERNS =
     [seq [ilit ''Model architecture'', option_of (ilit ''s''), ilit '' ['', Star any, ilit ''] '', Alt (ilit ''are'') (ilit ''is''), ilit '' not supported''],
      ilit ''is not supported for now'',
      ilit ''Unsupported model type'',
      seq [ilit ''not supported by '', Alt (ilit ''vLLM'') (ilit ''SGLang'')],
      ilit ''Cannot find model module'',
      ilit ''Unrecognized configuration class'',
      ilit ''does not recognize this architecture'',
      seq [ilit ''Quantization method '', Star any, ilit '' is not supported''],
      ilit ''unsupported quantization'',
      ilit ''requires trust_remote_code'',
      ilit ''trust_remote_code=True'',
      seq [ilit ''The checkpoint you are trying to load has model type '', Star any, ilit '' but Transformers does not recognize''],
      seq [ilit ''Total number of attention heads '', Star any, ilit '' must be divisible by tensor parallel size''],
      ilit ''is not divisible by tensor parallel size'',
      seq [ilit ''Number of experts '', Star any, ilit '' must be divisible''],
      ilit ''Bfloat16 is only supported on GPUs with compute capability'',
      ilit ''is not supported on this GPU'']"

definition ENGINE_CRASH_PATTERNS :: "rx list" where
  "ENGINE_CRASH_PATTERNS =
     [ilit (''No such file or directory: '' @ [CHR 0x27] @ ''ninja'' @ [CHR 0x27]),
      ilit ''ModuleNotFoundError: No module named'',
      seq [ilit ''ImportError: '', Alt (ilit ''cannot import name'') (seq [Star any, ilit ''.so''])],
      ilit ''undefined symbol'']"

definition INVALID_ARGUMENT_PATTERNS :: "rx list" where
  "INVALID_ARGUMENT_PATTERNS =
     [ilit ''error: unrecognized arguments'',
      seq [ilit ''error: argument '', Star any, ilit '': invalid''],
      ilit ''error: the following arguments are required'',
      seq [ilit ''usage: '', Star any, ilit [CHR 0x0A], Star any, ilit ''error''],
      seq [ilit ''ValueError: '', Star any, Alt (ilit ''argument'') (Alt (ilit ''must be'') (Alt (ilit ''should be'') (ilit ''invalid'')))],
      ilit ''invalid choice'',
      ilit ''No such option'',
      ilit ''Unknown option'']"

definition CUDA_ERROR_PATTERNS :: "rx list" where
  "CUDA_ERROR_PATTERNS =
     [ilit ''CUDA error'',
      ilit ''CUDA driver version is insufficient'',
      ilit ''no CUDA-capable device is detected'',
      ilit ''CUDA_ERROR_'',
      ilit ''cudaError'',
      ilit ''device-side assert'',
      ilit ''an illegal memory access'',
      ilit ''RuntimeError: Found no NVIDIA driver'',
      ilit ''Torch not compiled with CUDA enabled'',
      ilit ''NVML Shared Library Not Found'',
      ilit ''Failed to initialize NVML'',
      ilit ''cuda runtime error'',
      ilit ''cuDNN error'',
      ilit ''CUBLAS_STATUS_'']"

definition FAILURE_PATTERNS :: "(failure_type \<times> rx list) list" where
  "FAILURE_PATTERNS =
     [(OOM, OOM_PATTERNS), (AUTH_ERROR, AUTH_ERROR_PATTERNS), (MODEL_DOWNLOAD_ERROR, MODEL_DOWNLOAD_ERROR_PATTERNS),
      (PORT_CONFLICT, PORT_CONFLICT_PATTERNS), (NCCL_ERROR, NCCL_ERROR_PATTERNS), (MODEL_UNSUPPORTED, MODEL_UNSUPPORTED_PATTERNS),
      (ENGINE_CRASH, ENGINE_CRASH_PATTERNS), (INVALID_ARGUMENT, INVALID_ARGUMENT_PATTERNS), (CUDA_ERROR, CUDA_ERROR_PATTERNS)]"

definition EXCEPTION_LINE :: rx where
  "EXCEPTION_LINE = seq [Word_boundary, Cls (\<lambda>c. is_upper c \<or> is_lower c \<or> c = CHR ''_''), Star (Cls (\<lambda>c. is_word c \<or> c = CHR ''.'')),
     Alt (lit ''Error'') (Alt (lit ''Exception'') (lit ''Interrupt'')), Word_boundary, lit '':'', Star any, Line_end]"

definition GENERIC_SUMMARIES :: "string list" where
  "GENERIC_SUMMARIES = [''See root cause above'', ''Engine core initialization failed'', ''failed to start'', ''exited unexpectedly'']"

section \<open>Tails and summaries\<close>

definition FAILURE_TAIL_LINES :: nat where "FAILURE_TAIL_LINES = 60"

text \<open>\<^verbatim>\<open>parts[-lines:]\<close> is the whole list when \<^verbatim>\<open>lines\<close> is 0.\<close>

definition last_items :: "nat \<Rightarrow> 'a list \<Rightarrow> 'a list" where
  "last_items n xs = (if n = 0 then xs else drop (length xs - n) xs)"

definition tail :: "string \<Rightarrow> nat \<Rightarrow> string" where
  "tail text lines = str_join [CHR 0x0A] (last_items lines (split_lines text))"

definition is_generic :: "string \<Rightarrow> bool" where
  "is_generic m \<longleftrightarrow> list_ex (\<lambda>g. contains g m) GENERIC_SUMMARIES"

definition summarize_error :: "string \<Rightarrow> string option" where
  "summarize_error text =
     (let matches = map py_strip (find_all EXCEPTION_LINE [] text);
          specific = filter (\<lambda>m. \<not> is_generic m) matches
      in if matches = [] then None else Some (take 400 (if specific \<noteq> [] then last specific else last matches)))"

section \<open>Classification\<close>

fun first_found :: "rx list \<Rightarrow> string \<Rightarrow> string option" where
  "first_found [] s = None"
| "first_found (r # rs) s = (case search r s of Some m \<Rightarrow> Some m | None \<Rightarrow> first_found rs s)"

fun find_category :: "(failure_type \<times> rx list) list \<Rightarrow> string \<Rightarrow> (failure_type \<times> string) option" where
  "find_category [] s = None"
| "find_category ((t, ps) # cats) s = (case first_found ps s of Some m \<Rightarrow> Some (t, m) | None \<Rightarrow> find_category cats s)"

text \<open>The type and the matched text, with the fallbacks on a timeout or an exit code.\<close>

definition sigkill_note :: string where
  "sigkill_note = ''process killed with SIGKILL (host OOM killer or external signal)''"

definition failure_kind :: "int option \<Rightarrow> string \<Rightarrow> bool \<Rightarrow> failure_type \<times> string option" where
  "failure_kind exit_code combined timed_out =
     (case find_category FAILURE_PATTERNS combined of
        Some (t, m) \<Rightarrow> (t, Some m)
      | None \<Rightarrow>
          if timed_out then (STARTUP_TIMEOUT, None)
          else (case exit_code of
                  None \<Rightarrow> (UNKNOWN_FAILURE, None)
                | Some c \<Rightarrow> if c = 0 then (UNKNOWN_FAILURE, None)
                            else (ENGINE_CRASH, if c \<in> {-9, 137} then Some sigkill_note else None)))"

fun failure_headline :: "string \<Rightarrow> int option \<Rightarrow> failure_type \<Rightarrow> string" where
  "failure_headline engine code OOM = engine @ '' ran out of GPU memory''"
| "failure_headline engine code STARTUP_TIMEOUT = engine @ '' did not become ready in time''"
| "failure_headline engine code MODEL_UNSUPPORTED = engine @ '' does not support this model/configuration''"
| "failure_headline engine code INVALID_ARGUMENT = engine @ '' rejected its launch arguments''"
| "failure_headline engine code PORT_CONFLICT = engine @ '' could not bind its port''"
| "failure_headline engine code NCCL_ERROR = engine @ '' hit an NCCL/distributed communication error''"
| "failure_headline engine code CUDA_ERROR = engine @ '' hit a CUDA error''"
| "failure_headline engine code MODEL_DOWNLOAD_ERROR = engine @ '' could not download the model''"
| "failure_headline engine code AUTH_ERROR = engine @ '' was denied access to the model repository''"
| "failure_headline engine code ENGINE_CRASH = engine @ '' exited unexpectedly (exit code '' @ str_opt str_int code @ '')''"
| "failure_headline engine code UNKNOWN_FAILURE = engine @ '' failed''"

definition combined_log :: "string \<Rightarrow> string \<Rightarrow> string" where
  "combined_log out err = out @ [CHR 0x0A] @ err"

text \<open>\<^verbatim>\<open>summarize_error(combined) or matched\<close>: an empty summary is no summary.\<close>

definition failure_summary :: "string \<Rightarrow> string option \<Rightarrow> string option" where
  "failure_summary combined matched =
     (case summarize_error combined of Some s \<Rightarrow> if s = [] then matched else Some s | None \<Rightarrow> matched)"

definition classify_failure :: "int option \<Rightarrow> string \<Rightarrow> string \<Rightarrow> string \<Rightarrow> bool \<Rightarrow> candidate_failure" where
  "classify_failure exit_code stdout_tail stderr_tail engine timed_out =
     (let combined = combined_log stdout_tail stderr_tail;
          (t, matched) = failure_kind exit_code combined timed_out;
          headline = failure_headline engine exit_code t
      in \<lparr>cf_type = t,
          cf_message = (case failure_summary combined matched of None \<Rightarrow> headline
                        | Some s \<Rightarrow> if s = [] then headline else headline @ '': '' @ s),
          cf_stderr_tail = tail stderr_tail FAILURE_TAIL_LINES, cf_stdout_tail = tail stdout_tail FAILURE_TAIL_LINES,
          cf_exit_code = exit_code, cf_stage = None\<rparr>)"

section \<open>The first category with a match wins\<close>

lemma first_found_iff: "first_found rs s \<noteq> None \<longleftrightarrow> (\<exists>r \<in> set rs. search r s \<noteq> None)"
  by (induction rs) (auto split: option.splits)

definition found :: "rx list \<Rightarrow> string \<Rightarrow> bool" where
  "found rs s \<longleftrightarrow> list_ex (\<lambda>r. search r s \<noteq> None) rs"

lemma first_found_found [simp]: "first_found rs s = None \<longleftrightarrow> \<not> found rs s"
  using first_found_iff[of rs s] by (auto simp: found_def list_ex_iff)

definition unmatched :: "(failure_type \<times> rx list) list \<Rightarrow> string \<Rightarrow> bool" where
  "unmatched cats s \<longleftrightarrow> list_all (\<lambda>c. \<not> found (snd c) s) cats"

definition wins :: "(failure_type \<times> rx list) list \<Rightarrow> failure_type \<Rightarrow> string \<Rightarrow> bool" where
  "wins cats t s \<longleftrightarrow> (\<exists>pre ps post. cats = pre @ (t, ps) # post \<and> found ps s \<and> unmatched pre s)"

lemma find_category_none: "find_category cats s = None \<longleftrightarrow> unmatched cats s"
proof (induction cats s rule: find_category.induct)
  case (2 t ps cats s)
  then show ?case using first_found_found[of ps s] by (cases "first_found ps s") (auto simp: unmatched_def simp del: first_found_found)
qed (simp add: unmatched_def)

lemma wins_Cons: "wins ((u, qs) # cats) t s \<longleftrightarrow> (if found qs s then t = u else wins cats t s)"
proof (cases "found qs s")
  case True
  have "wins ((u, qs) # cats) u s" unfolding wins_def
    using True by (intro exI[of _ "[]"] exI[of _ qs] exI[of _ cats]) (simp add: unmatched_def)
  moreover have "wins ((u, qs) # cats) t s \<Longrightarrow> t = u" using True by (auto simp: wins_def unmatched_def Cons_eq_append_conv)
  ultimately show ?thesis using True by auto
next
  case False
  have "wins cats t s \<Longrightarrow> wins ((u, qs) # cats) t s"
  proof -
    assume "wins cats t s"
    then obtain pre ps post where "cats = pre @ (t, ps) # post" "found ps s" "unmatched pre s" unfolding wins_def by blast
    then show ?thesis using False unfolding wins_def
      by (intro exI[of _ "(u, qs) # pre"] exI[of _ ps] exI[of _ post]) (simp add: unmatched_def)
  qed
  moreover have "wins ((u, qs) # cats) t s \<Longrightarrow> wins cats t s"
  proof -
    assume "wins ((u, qs) # cats) t s"
    then obtain pre ps post where w: "(u, qs) # cats = pre @ (t, ps) # post" "found ps s" "unmatched pre s" unfolding wins_def by blast
    then obtain pre' where "pre = (u, qs) # pre'" "cats = pre' @ (t, ps) # post" using False by (cases pre) auto
    then show ?thesis using w(2,3) unfolding wins_def unmatched_def by auto
  qed
  ultimately show ?thesis using False by auto
qed

lemma find_category_some: "(\<exists>m. find_category cats s = Some (t, m)) \<longleftrightarrow> wins cats t s"
proof (induction cats)
  case Nil
  show ?case by (simp add: wins_def)
next
  case (Cons c cats)
  obtain u qs where c: "c = (u, qs)" by force
  show ?case using Cons first_found_found[of qs s]
    by (cases "first_found qs s") (auto simp: c wins_Cons simp del: first_found_found)
qed

lemma cf_type_classify: "cf_type (classify_failure code out err engine timed) = fst (failure_kind code (combined_log out err) timed)"
  by (simp add: classify_failure_def Let_def split: prod.split)

text \<open>The type when no pattern occurs: the timeout flag decides, then the exit code.\<close>

definition fallback_type :: "int option \<Rightarrow> bool \<Rightarrow> failure_type" where
  "fallback_type code timed =
     (if timed then STARTUP_TIMEOUT else if code = None \<or> code = Some 0 then UNKNOWN_FAILURE else ENGINE_CRASH)"

lemma failure_kind_none: "find_category FAILURE_PATTERNS s = None \<Longrightarrow> fst (failure_kind code s timed) = fallback_type code timed"
  by (simp add: failure_kind_def fallback_type_def split: option.split)

lemma failure_kind_some: "find_category FAILURE_PATTERNS s = Some (t, m) \<Longrightarrow> failure_kind code s timed = (t, Some m)"
  by (simp add: failure_kind_def)

text \<open>A failure has the type of the first category one of whose patterns occurs in the combined log; when no
  pattern of the table occurs, the timeout flag and then the exit code decide.\<close>

theorem classify_first_category:
  "cf_type (classify_failure code out err engine timed) = t \<longleftrightarrow>
     wins FAILURE_PATTERNS t (combined_log out err) \<or>
     unmatched FAILURE_PATTERNS (combined_log out err) \<and> t = fallback_type code timed"
proof (cases "find_category FAILURE_PATTERNS (combined_log out err)")
  case None
  then have "\<not> wins FAILURE_PATTERNS t (combined_log out err)"
    using find_category_some[of FAILURE_PATTERNS "combined_log out err" t] by simp
  then show ?thesis unfolding cf_type_classify failure_kind_none[OF None] using None[unfolded find_category_none] by auto
next
  case (Some tm)
  obtain u m where tm: "tm = (u, m)" by force
  have "\<not> unmatched FAILURE_PATTERNS (combined_log out err)"
    using Some find_category_none[of FAILURE_PATTERNS "combined_log out err"] by simp
  moreover have "wins FAILURE_PATTERNS t (combined_log out err) \<longleftrightarrow> u = t"
    using find_category_some[of FAILURE_PATTERNS "combined_log out err" t] Some tm by simp
  ultimately show ?thesis unfolding cf_type_classify using failure_kind_some[OF Some[unfolded tm]] by simp
qed

section \<open>Out of memory\<close>

lemma str_lower_append [simp]: "str_lower (s @ t) = str_lower s @ str_lower t"
  by (simp add: str_lower_def)

lemma contains_append: "contains p s \<or> contains p t \<Longrightarrow> contains p (s @ t)"
  unfolding contains_iff by (metis append.assoc)

definition oom_marker :: string where "oom_marker = ''out of memory''"

lemma oom_marker_pattern: "ilit oom_marker \<in> set OOM_PATTERNS"
  by (simp add: OOM_PATTERNS_def oom_marker_def)

lemma oom_marker_lower: "str_lower oom_marker = oom_marker"
  by code_simp

text \<open>C39: a log that reports \<^verbatim>\<open>out of memory\<close>, in any letter case and in either stream, is classified as an
  out-of-memory failure whatever else it contains, whatever the exit code and whether or not the launch timed out.\<close>

theorem oom_report_wins:
  assumes "contains oom_marker (str_lower out) \<or> contains oom_marker (str_lower err)"
  shows "cf_type (classify_failure code out err engine timed) = OOM"
proof -
  have "contains oom_marker (str_lower (combined_log out err))"
    unfolding combined_log_def str_lower_append using assms contains_append by blast
  then have "search (ilit oom_marker) (combined_log out err) \<noteq> None"
    using search_ilit[of oom_marker "[]"] oom_marker_lower unfolding search_def by simp
  then have "found OOM_PATTERNS (combined_log out err)"
    using oom_marker_pattern by (auto simp: found_def list_ex_iff)
  then have "wins FAILURE_PATTERNS OOM (combined_log out err)"
    unfolding FAILURE_PATTERNS_def wins_Cons by simp
  then obtain m where "find_category FAILURE_PATTERNS (combined_log out err) = Some (OOM, m)"
    using find_category_some by blast
  then show ?thesis unfolding cf_type_classify by (simp add: failure_kind_some)
qed

definition sample_log :: string where "sample_log = ''torch.OutOfMemory: CUDA Out Of Memory''"

lemma sample_log_marker: "contains oom_marker (str_lower sample_log)"
  by code_simp

theorem oom_report_wins_witness: "cf_type (classify_failure (Some 1) ''NCCL error'' sample_log ''vllm'' True) = OOM"
  by (rule oom_report_wins) (simp add: sample_log_marker)

section \<open>The kept tails\<close>

lemma lines_from_line:
  "\<forall>c \<in> set l. \<not> line_break c \<Longrightarrow> lines_from cur (l @ CHR 0x0A # s) = (rev cur @ l) # lines_from [] s"
  by (induction l arbitrary: cur) (auto simp: line_break_def)

lemma lines_from_last:
  "\<forall>c \<in> set l. \<not> line_break c \<Longrightarrow> lines_from cur l = (if cur = [] \<and> l = [] then [] else [rev cur @ l])"
  by (induction l arbitrary: cur) auto

lemma lines_from_unbroken: "\<forall>c \<in> set cur. \<not> line_break c \<Longrightarrow> l \<in> set (lines_from cur s) \<Longrightarrow> \<forall>c \<in> set l. \<not> line_break c"
proof (induction cur s rule: lines_from.induct)
  case (2 cur c s)
  show ?case
  proof (cases "line_break c")
    case True
    then have "l = rev cur \<or> l \<in> set (lines_from [] (if c = CHR 0x0D \<and> starts_with [CHR 0x0A] s then tl s else s))"
      using 2(4) by simp
    then show ?thesis
    proof
      assume "l = rev cur" then show ?thesis using 2(3) by simp
    next
      assume "l \<in> set (lines_from [] (if c = CHR 0x0D \<and> starts_with [CHR 0x0A] s then tl s else s))"
      then show ?thesis by (rule 2(1)[OF True, rotated]) simp
    qed
  next
    case False
    then have "\<forall>d \<in> set (c # cur). \<not> line_break d" "l \<in> set (lines_from (c # cur) s)" using 2(3,4) by simp_all
    then show ?thesis by (rule 2(2)[OF False])
  qed
next
  case (1 cur)
  then show ?case by (cases "cur = []") simp_all
qed

lemma split_lines_unbroken: "l \<in> set (split_lines s) \<Longrightarrow> c \<in> set l \<Longrightarrow> \<not> line_break c"
  using lines_from_unbroken[of "[]"] by (auto simp: split_lines_def)

text \<open>Joining lines and splitting again drops an empty last line and nothing else.\<close>

lemma split_join_lines:
  "\<forall>l \<in> set ls. \<forall>c \<in> set l. \<not> line_break c \<Longrightarrow>
     lines_from [] (str_join [CHR 0x0A] ls) = (if ls \<noteq> [] \<and> last ls = [] then butlast ls else ls)"
proof (induction ls)
  case (Cons l ls)
  then show ?case by (cases ls) (simp_all add: lines_from_line lines_from_last)
qed simp

lemma last_items_subset: "set (last_items n xs) \<subseteq> set xs"
  by (simp add: last_items_def set_drop_subset)

lemma last_items_length: "0 < n \<Longrightarrow> length (last_items n xs) \<le> n"
  by (simp add: last_items_def)

text \<open>The tail kept of a log has at most the asked number of lines, and they are the log's last lines, in order
  (an empty last line is lost).\<close>

theorem tail_last_lines:
  assumes "0 < n"
  shows "length (split_lines (tail text n)) \<le> n \<and>
    split_lines (tail text n) =
      (let ls = last_items n (split_lines text) in if ls \<noteq> [] \<and> last ls = [] then butlast ls else ls)"
proof -
  let ?ls = "last_items n (split_lines text)"
  have "\<forall>l \<in> set ?ls. \<forall>c \<in> set l. \<not> line_break c"
    using split_lines_unbroken last_items_subset[of n "split_lines text"] by blast
  then have "split_lines (tail text n) = (if ?ls \<noteq> [] \<and> last ?ls = [] then butlast ?ls else ?ls)"
    unfolding tail_def split_lines_def by (rule split_join_lines)
  then show ?thesis using last_items_length[OF assms, of "split_lines text"] by (auto simp: Let_def)
qed

theorem tail_last_lines_witness:
  "length (split_lines (tail ''a b'' 1)) \<le> 1"
  using conjunct1[OF tail_last_lines[of 1 "''a b''"]] by simp

section \<open>Summaries\<close>

lemma summarize_error_bounded: "summarize_error text = Some s \<Longrightarrow> length s \<le> 400"
  by (auto simp: summarize_error_def Let_def split: if_splits)

lemma contains_take: "contains p (take n s) \<Longrightarrow> contains p s"
  unfolding contains_iff by (metis append.assoc append_take_drop_id)

lemma generic_take: "is_generic (take n m) \<Longrightarrow> is_generic m"
  unfolding is_generic_def list_ex_iff using contains_take by blast

text \<open>A wrapper line is reported only when every exception line of the log is one.\<close>

lemma summary_specific:
  assumes "summarize_error text = Some s" and "m \<in> set (find_all EXCEPTION_LINE [] text)" and "\<not> is_generic (py_strip m)"
  shows "\<not> is_generic s"
proof -
  let ?spec = "filter (\<lambda>m. \<not> is_generic m) (map py_strip (find_all EXCEPTION_LINE [] text))"
  have ne: "?spec \<noteq> []" using assms(2,3) by (auto simp: filter_empty_conv)
  then have s: "s = take 400 (last ?spec)" using assms(1) by (auto simp: summarize_error_def Let_def split: if_splits)
  have "\<not> is_generic (last ?spec)" using last_in_set[OF ne] by auto
  then show ?thesis unfolding s using generic_take by blast
qed

end
