(* ===== verification/Launch.thy ===== *)
theory Launch
  imports Candidates Redaction Failures "HOL-Library.AList"
begin

text \<open>
  Launching an engine server: the environment, the displayed command and the readiness loop of
  \<^verbatim>\<open>engines/base.py\<close>, and the command lines the adapters of \<^verbatim>\<open>engines/vllm.py\<close> and \<^verbatim>\<open>engines/sglang.py\<close>
  build from a plan. The process environment and the working directory are arguments.
\<close>

section \<open>Shell words and paths\<close>

text \<open>\<^verbatim>\<open>shlex.quote\<close>.\<close>

definition shell_safe :: "char \<Rightarrow> bool" where
  "shell_safe c \<longleftrightarrow> is_word c \<or> c \<in> set ''@%+=:,./-''"

fun quote_body :: "string \<Rightarrow> string" where
  "quote_body [] = []"
| "quote_body (c # s) = (if c = CHR 0x27 then [CHR 0x27, CHR 0x22, CHR 0x27, CHR 0x22, CHR 0x27] else [c]) @ quote_body s"

definition shell_quote :: "string \<Rightarrow> string" where
  "shell_quote s =
     (if s = [] then [CHR 0x27, CHR 0x27] else if list_all shell_safe s then s
      else CHR 0x27 # quote_body s @ [CHR 0x27])"

text \<open>\<^verbatim>\<open>str(Path(p).absolute().parent)\<close> on a POSIX system; exactly two leading slashes are kept.\<close>

definition path_parts :: "string \<Rightarrow> string list" where
  "path_parts p = filter (\<lambda>x. x \<noteq> [] \<and> x \<noteq> ''.'') (split_on (CHR ''/'') p)"

definition path_root :: "string \<Rightarrow> string" where
  "path_root p = (if starts_with ''//'' p \<and> \<not> starts_with ''///'' p then ''//'' else ''/'')"

definition parent_dir :: "string \<Rightarrow> string \<Rightarrow> string" where
  "parent_dir cwd p =
     (if starts_with ''/'' p then path_root p @ str_join ''/'' (butlast (path_parts p))
      else path_root cwd @ str_join ''/'' (butlast (path_parts cwd @ path_parts p)))"

section \<open>The launch specification and the environment (engines/base.py)\<close>

definition SENSITIVE_ENV_KEYS :: "string list" where
  "SENSITIVE_ENV_KEYS = [''HF_TOKEN'', ''HUGGING_FACE_HUB_TOKEN'', ''HUGGINGFACEHUB_API_TOKEN'', ''OPENAI_API_KEY'',
     ''SERVEPILOT_API_KEY'', ''VLLM_API_KEY'']"

definition FORWARDED_ENV_KEYS :: "string list" where
  "FORWARDED_ENV_KEYS = [''HF_TOKEN'', ''HUGGING_FACE_HUB_TOKEN'', ''HF_HOME'', ''HF_HUB_CACHE'', ''HF_HUB_OFFLINE'', ''HF_ENDPOINT'',
     ''TRANSFORMERS_CACHE'', ''PATH'', ''HOME'', ''USER'', ''LANG'', ''LC_ALL'', ''TMPDIR'', ''LD_LIBRARY_PATH'', ''VIRTUAL_ENV'',
     ''NCCL_DEBUG'', ''NCCL_SOCKET_IFNAME'', ''NCCL_IB_DISABLE'', ''NCCL_P2P_DISABLE'', ''GLOO_SOCKET_IFNAME'', ''RAY_ADDRESS'',
     ''PYTHONUNBUFFERED'']"

type_synonym environ = "(string \<times> string) list"

record launch_spec =
  lp_executable :: string
  lp_args :: "string list"
  lp_env :: environ
  lp_cwd :: "string option"
  lp_host :: string
  lp_port :: int
  lp_gpu_ids :: "int list"
  lp_redacted_display_command :: string
  lp_replica_id :: string
  lp_node_id :: "string option"
  lp_node_ip :: "string option"
  lp_readiness_path :: string
  lp_health_path :: string

definition base_url :: "launch_spec \<Rightarrow> string" where
  "base_url s =
     (let host = (case lp_node_ip s of None \<Rightarrow> lp_host s | Some ip \<Rightarrow> if ip = [] then lp_host s else ip);
          host1 = (if host = ''0.0.0.0'' \<or> host = ''::'' then ''127.0.0.1'' else host)
      in ''http://'' @ host1 @ '':'' @ str_int (lp_port s))"

definition launch_command :: "launch_spec \<Rightarrow> string list" where
  "launch_command s = lp_executable s # lp_args s"

text \<open>The part of the environment an engine inherits, and what is set on top of it.\<close>

definition CUDA_VISIBLE_DEVICES :: string where "CUDA_VISIBLE_DEVICES = ''CUDA_VISIBLE_DEVICES''"

definition device_list :: "int list \<Rightarrow> string" where
  "device_list ids = str_join '','' (map str_int ids)"

definition add_bin_dir :: "string \<Rightarrow> environ \<Rightarrow> environ" where
  "add_bin_dir bin env =
     (let path = (case map_of env ''PATH'' of None \<Rightarrow> [] | Some p \<Rightarrow> p)
      in if bin \<in> set (split_on (CHR '':'') path) then env
         else AList.update ''PATH'' (if path \<noteq> [] then bin @ '':'' @ path else bin) env)"

definition engine_environment :: "environ \<Rightarrow> string \<Rightarrow> string \<Rightarrow> int list option \<Rightarrow> environ" where
  "engine_environment os_environ cwd python devices =
     (let env0 = filter (\<lambda>(k, v). k \<in> set FORWARDED_ENV_KEYS) os_environ;
          env1 = add_bin_dir (parent_dir cwd python) env0;
          env2 = AList.update ''CUDA_DEVICE_ORDER'' ''PCI_BUS_ID'' (AList.update ''PYTHONUNBUFFERED'' ''1'' env1)
      in case devices of None \<Rightarrow> env2 | Some ids \<Rightarrow> AList.update CUDA_VISIBLE_DEVICES (device_list ids) env2)"

definition displayed_key :: "string \<Rightarrow> bool" where
  "displayed_key k \<longleftrightarrow> k = CUDA_VISIBLE_DEVICES \<or> k = ''CUDA_DEVICE_ORDER'' \<or> starts_with ''VLLM_'' k \<or> starts_with ''SGLANG_'' k"

text \<open>The environment part of the displayed command, one entry per key in order.\<close>

definition display_entry :: "environ \<Rightarrow> string \<Rightarrow> string list" where
  "display_entry env k =
     (if k \<in> set SENSITIVE_ENV_KEYS then [k @ ''=***'']
      else if displayed_key k then [k @ ''='' @ shell_quote (the (map_of env k))] else [])"

definition redacted_command :: "string list \<Rightarrow> environ \<Rightarrow> string" where
  "redacted_command command env =
     redact_secrets (str_join '' '' (concat (map (display_entry env) (sort (map fst env))) @ map shell_quote command))"

section \<open>Arguments both adapters build alike\<close>

text \<open>Extra engine arguments, by key; \<^verbatim>\<open>True\<close> is a bare flag, \<^verbatim>\<open>False\<close> and \<^verbatim>\<open>None\<close> are left out.\<close>

definition engine_flag :: "string \<Rightarrow> string" where
  "engine_flag key = (if starts_with ''--'' key then key else ''--'' @ replace_char (CHR ''_'') (CHR ''-'') key)"

definition engine_arg :: "string \<times> json \<Rightarrow> string list" where
  "engine_arg kv =
     (case snd kv of JBool True \<Rightarrow> [engine_flag (fst kv)] | JBool False \<Rightarrow> [] | JNull \<Rightarrow> []
      | v \<Rightarrow> [engine_flag (fst kv), json_str v])"

definition engine_arg_list :: "(string \<times> json) list \<Rightarrow> string list" where
  "engine_arg_list args = concat (map engine_arg (sort_key fst args))"

definition model_ref :: "model_profile \<Rightarrow> string" where
  "model_ref m = (if has_text (mp_local_path m) then the (mp_local_path m) else mp_model_id m)"

definition optional_arg :: "string \<Rightarrow> string option \<Rightarrow> string list" where
  "optional_arg flag v = (if has_text v then [flag, the v] else [])"

text \<open>Data type, quantization, revision, served name and trust.\<close>

definition model_args :: "model_profile \<Rightarrow> string option \<Rightarrow> bool \<Rightarrow> string list" where
  "model_args m served trust =
       (if mp_configured_dtype m \<in> {Some ''bfloat16'', Some ''float16''} \<and> \<not> is_quantized m
        then [''--dtype'', the (mp_configured_dtype m)] else [])
     @ (if has_text (quantization_method m) \<and> str_lower (the (quantization_method m)) \<in> {''gguf'', ''bitsandbytes''}
        then [''--quantization'', str_lower (the (quantization_method m))] else [])
     @ (if has_text (mp_revision m) \<and> \<not> has_text (mp_local_path m) then [''--revision'', the (mp_revision m)] else [])
     @ optional_arg ''--served-model-name'' served
     @ (if trust then [''--trust-remote-code''] else [])"

text \<open>What a launch needs besides the plan: where the interpreter is, the surroundings, and where the replica goes.\<close>

record launch_site =
  lt_python :: string
  lt_os_environ :: environ
  lt_working_dir :: string
  lt_bind_host :: string
  lt_bind_port :: int
  lt_served_model_name :: "string option"
  lt_trust_remote_code :: bool
  lt_node :: "(string \<times> string) option"
  lt_local_gpu_ids :: "int list option"

datatype launch_error = Engine_not_found string | No_gpu_group nat

definition replica_gpus :: "candidate_plan \<Rightarrow> nat \<Rightarrow> launch_error + int list" where
  "replica_gpus p i = (if i < length (cp_gpu_groups p) then Inr (cp_gpu_groups p ! i) else Inl (No_gpu_group i))"

definition finish_spec ::
    "launch_site \<Rightarrow> candidate_plan \<Rightarrow> nat \<Rightarrow> int list \<Rightarrow> string list \<Rightarrow> environ \<Rightarrow> launch_spec" where
  "finish_spec s p i gpus args env =
     \<lparr>lp_executable = lt_python s, lp_args = args, lp_env = env, lp_cwd = None, lp_host = lt_bind_host s, lp_port = lt_bind_port s,
      lp_gpu_ids = gpus, lp_redacted_display_command = redacted_command (lt_python s # args) env,
      lp_replica_id = cp_id p @ ''-r'' @ str_nat i, lp_node_id = map_option fst (lt_node s), lp_node_ip = map_option snd (lt_node s),
      lp_readiness_path = ''/v1/models'', lp_health_path = ''/health''\<rparr>"

section \<open>vLLM (engines/vllm.py)\<close>

definition chunked_prefill_off :: "int list \<Rightarrow> string" where
  "chunked_prefill_off version =
     (if [0, 6, 4] \<le> version then ''--no-enable-chunked-prefill'' else ''--enable-chunked-prefill=False'')"

definition vllm_flags_access_log :: "int list \<Rightarrow> bool" where "vllm_flags_access_log version \<longleftrightarrow> [0, 7, 0] \<le> version"
definition vllm_flags_data_parallel :: "int list \<Rightarrow> bool" where "vllm_flags_data_parallel version \<longleftrightarrow> [0, 8, 0] \<le> version"
definition vllm_flags_performance_mode :: "int list \<Rightarrow> bool" where "vllm_flags_performance_mode version \<longleftrightarrow> [0, 17, 0] \<le> version"

fun VLLM_PERFORMANCE_MODE :: "objective \<Rightarrow> string option" where
  "VLLM_PERFORMANCE_MODE Throughput = Some ''throughput''"
| "VLLM_PERFORMANCE_MODE Latency = Some ''interactivity''"
| "VLLM_PERFORMANCE_MODE Balanced = None"

definition vllm_dp_ranks :: "candidate_plan \<Rightarrow> bool" where
  "vllm_dp_ranks p \<longleftrightarrow> cp_dp_attention_enabled p \<and> 1 < cp_data_parallel_size p"

definition vllm_parallel_args :: "int list \<Rightarrow> candidate_plan \<Rightarrow> string list" where
  "vllm_parallel_args version p =
       [''--tensor-parallel-size'', if vllm_dp_ranks p then ''1'' else str_nat (cp_tensor_parallel_size p)]
     @ (if 1 < cp_pipeline_parallel_size p then [''--pipeline-parallel-size'', str_nat (cp_pipeline_parallel_size p)] else [])
     @ (if 1 < cp_data_parallel_size p \<and> vllm_flags_data_parallel version
        then [''--data-parallel-size'', str_nat (cp_data_parallel_size p)] else [])
     @ optional_arg ''--distributed-executor-backend'' (cp_distributed_backend p)"

text \<open>\<^verbatim>\<open>--max-num-seqs\<close> is per data-parallel rank, the plan's value is the replica's.\<close>

definition vllm_max_num_seqs :: "candidate_plan \<Rightarrow> int \<Rightarrow> int" where
  "vllm_max_num_seqs p n =
     max 1 (if vllm_dp_ranks p then \<lceil>int_div n (int (cp_data_parallel_size p))\<rceil> else n)"

definition vllm_limit_args :: "candidate_plan \<Rightarrow> string list" where
  "vllm_limit_args p =
       (case cp_memory_fraction p of None \<Rightarrow> [] | Some f \<Rightarrow> [''--gpu-memory-utilization'', fmt_f 2 f])
     @ [''--max-model-len'', str_int (cp_context_length p)]
     @ (case cp_max_num_seqs p of None \<Rightarrow> [] | Some n \<Rightarrow> [''--max-num-seqs'', str_int (vllm_max_num_seqs p n)])"

definition vllm_mode_args :: "int list \<Rightarrow> candidate_plan \<Rightarrow> string list" where
  "vllm_mode_args version p =
       (if cp_expert_parallel_enabled p \<and> vllm_flags_expert_parallel version then [''--enable-expert-parallel''] else [])
     @ (case Option.bind (cp_objective p) VLLM_PERFORMANCE_MODE of None \<Rightarrow> []
        | Some mode \<Rightarrow> if vllm_flags_performance_mode version then [''--performance-mode'', mode] else [])
     @ (if cp_chunked_prefill_enabled p = Some False then [chunked_prefill_off version]
        else if cp_chunked_prefill_enabled p = Some True \<and> truthy (cp_chunked_prefill_size p)
        then [''--enable-chunked-prefill'', ''--max-num-batched-tokens'', str_opt str_int (cp_chunked_prefill_size p)] else [])
     @ optional_arg ''--kv-cache-dtype'' (cp_kv_cache_dtype p)"

definition vllm_args :: "int list \<Rightarrow> launch_site \<Rightarrow> model_profile \<Rightarrow> candidate_plan \<Rightarrow> string list" where
  "vllm_args version s m p =
       [''-m'', ''vllm.entrypoints.openai.api_server'', ''--model'', model_ref m, ''--host'', lt_bind_host s,
        ''--port'', str_int (lt_bind_port s)]
     @ vllm_parallel_args version p @ vllm_limit_args p @ vllm_mode_args version p
     @ model_args m (lt_served_model_name s) (lt_trust_remote_code s)
     @ (if vllm_flags_access_log version then [''--disable-uvicorn-access-log''] else [])
     @ engine_arg_list (cp_engine_args p)"

definition vllm_env :: "launch_site \<Rightarrow> model_profile \<Rightarrow> candidate_plan \<Rightarrow> int list \<Rightarrow> environ" where
  "vllm_env s m p devices =
     (let env = engine_environment (lt_os_environ s) (lt_working_dir s) (lt_python s) (if spans_nodes p then None else Some devices)
      in if cp_context_length p \<noteq> 0 \<and> truthy (mp_max_position_embeddings m) \<and> the (mp_max_position_embeddings m) < cp_context_length p
         then AList.update ''VLLM_ALLOW_LONG_MAX_MODEL_LEN'' ''1'' env else env)"

definition vllm_launch_spec ::
    "string option \<Rightarrow> launch_site \<Rightarrow> model_profile \<Rightarrow> candidate_plan \<Rightarrow> nat \<Rightarrow> launch_error + launch_spec" where
  "vllm_launch_spec runtime_version s m p i =
     (case runtime_version of None \<Rightarrow> Inl (Engine_not_found ''vLLM'')
      | Some v \<Rightarrow> (case replica_gpus p i of Inl e \<Rightarrow> Inl e
        | Inr gpus \<Rightarrow>
            let devices = (case lt_local_gpu_ids s of None \<Rightarrow> gpus | Some ids \<Rightarrow> ids)
            in Inr (finish_spec s p i gpus (vllm_args (parse_version (Some v)) s m p) (vllm_env s m p devices))))"

section \<open>SGLang (engines/sglang.py)\<close>

definition sglang_graph_flag :: "int list \<Rightarrow> string" where
  "sglang_graph_flag version = (if [0, 5, 18] \<le> version then ''--cuda-graph-max-bs-decode'' else ''--cuda-graph-max-bs'')"

definition sglang_parallel_args :: "candidate_plan \<Rightarrow> string list" where
  "sglang_parallel_args p =
       [''--tp-size'', str_nat (cp_tensor_parallel_size p)]
     @ (if 1 < cp_pipeline_parallel_size p then [''--pp-size'', str_nat (cp_pipeline_parallel_size p)] else [])
     @ (if 1 < cp_data_parallel_size p then [''--dp-size'', str_nat (cp_data_parallel_size p)] else [])
     @ (if cp_expert_parallel_enabled p \<and> truthy (cp_expert_parallel_size p)
        then [''--ep-size'', str_opt str_int (cp_expert_parallel_size p)] else [])
     @ (if cp_dp_attention_enabled p then [''--enable-dp-attention''] else [])"

definition sglang_limit_args :: "int list \<Rightarrow> candidate_plan \<Rightarrow> string list" where
  "sglang_limit_args version p =
       (case static_memory_fraction p of None \<Rightarrow> [] | Some f \<Rightarrow> [''--mem-fraction-static'', fmt_f 2 f])
     @ [''--context-length'', str_int (cp_context_length p)]
     @ (case (if truthy (cp_max_running_requests p) then cp_max_running_requests p else cp_max_num_seqs p) of None \<Rightarrow> []
        | Some limit \<Rightarrow> [''--max-running-requests'', str_int limit]
            @ (case decode_cuda_graph_max_bs p limit of None \<Rightarrow> [] | Some bs \<Rightarrow> [sglang_graph_flag version, str_int bs]))
     @ (if cp_chunked_prefill_enabled p = Some False then [''--chunked-prefill-size'', ''-1'']
        else if truthy (cp_chunked_prefill_size p) then [''--chunked-prefill-size'', str_opt str_int (cp_chunked_prefill_size p)] else [])
     @ optional_arg ''--kv-cache-dtype'' (cp_kv_cache_dtype p)"

definition sglang_args :: "int list \<Rightarrow> launch_site \<Rightarrow> model_profile \<Rightarrow> candidate_plan \<Rightarrow> string list" where
  "sglang_args version s m p =
       [''-m'', ''sglang.launch_server'', ''--model-path'', model_ref m, ''--host'', lt_bind_host s, ''--port'', str_int (lt_bind_port s)]
     @ sglang_parallel_args p @ sglang_limit_args version p
     @ model_args m (lt_served_model_name s) (lt_trust_remote_code s)
     @ [''--log-level'', ''warning''] @ engine_arg_list (cp_engine_args p)"

definition sglang_launch_spec ::
    "string option \<Rightarrow> launch_site \<Rightarrow> model_profile \<Rightarrow> candidate_plan \<Rightarrow> nat \<Rightarrow> launch_error + launch_spec" where
  "sglang_launch_spec runtime_version s m p i =
     (case runtime_version of None \<Rightarrow> Inl (Engine_not_found ''SGLang'')
      | Some v \<Rightarrow> (case replica_gpus p i of Inl e \<Rightarrow> Inl e
        | Inr gpus \<Rightarrow>
            let devices = (case lt_local_gpu_ids s of None \<Rightarrow> gpus | Some ids \<Rightarrow> ids)
            in Inr (finish_spec s p i gpus (sglang_args (parse_version (Some v)) s m p)
                 (engine_environment (lt_os_environ s) (lt_working_dir s) (lt_python s) (Some devices)))))"

section \<open>Waiting for the server\<close>

text \<open>What one pass of the polling loop observes: the process (absent for a server without a handle), the reply of
  the readiness endpoint, and the time since the start. A reply whose body is not JSON has no payload.\<close>

record process_view =
  pv_running :: bool
  pv_returncode :: "int option"
  pv_stdout_tail :: string
  pv_stderr_tail :: string

datatype http_reply = No_reply | Reply int "json option"

record poll =
  po_process :: "process_view option"
  po_reply :: http_reply
  po_elapsed :: float64

record readiness_result =
  rr_ready :: bool
  rr_elapsed_seconds :: float64
  rr_failure :: "candidate_failure option"
  rr_metadata :: "(string \<times> json) list"

definition extract_runtime_metadata :: "json option \<Rightarrow> (string \<times> json) list" where
  "extract_runtime_metadata payload =
     (case payload of
        Some (JObj kvs) \<Rightarrow>
          (case map_of kvs ''data'' of
             Some (JArr (JObj first # rest)) \<Rightarrow>
               (case map_of first ''id'' of None \<Rightarrow> [] | Some v \<Rightarrow> [(''served_model_id'', v)])
               @ (case map_of first ''max_model_len'' of None \<Rightarrow> [] | Some v \<Rightarrow> [(''max_model_len'', v)])
           | _ \<Rightarrow> [])
      | _ \<Rightarrow> [])"

definition not_ready :: "float64 \<Rightarrow> candidate_failure \<Rightarrow> readiness_result" where
  "not_ready elapsed f = \<lparr>rr_ready = False, rr_elapsed_seconds = elapsed, rr_failure = Some f, rr_metadata = []\<rparr>"

definition startup_timeout :: "string \<Rightarrow> float64 \<Rightarrow> process_view option \<Rightarrow> candidate_failure" where
  "startup_timeout name timeout pr =
     \<lparr>cf_type = STARTUP_TIMEOUT, cf_message = name @ '' did not become ready within '' @ fmt_f 0 timeout @ ''s'',
      cf_stderr_tail = (case pr of None \<Rightarrow> [] | Some v \<Rightarrow> pv_stderr_tail v),
      cf_stdout_tail = (case pr of None \<Rightarrow> [] | Some v \<Rightarrow> pv_stdout_tail v), cf_exit_code = None, cf_stage = Some ''startup''\<rparr>"

definition engine_classify_failure :: "string \<Rightarrow> int option \<Rightarrow> string \<Rightarrow> string \<Rightarrow> candidate_failure" where
  "engine_classify_failure name code out err = classify_failure code out err name False"

definition startup_crash :: "string \<Rightarrow> process_view \<Rightarrow> candidate_failure" where
  "startup_crash name v =
     (engine_classify_failure name (pv_returncode v) (pv_stdout_tail v) (pv_stderr_tail v))\<lparr>cf_stage := Some ''startup''\<rparr>"

definition exited :: "process_view option \<Rightarrow> bool" where
  "exited pr \<longleftrightarrow> (case pr of None \<Rightarrow> False | Some v \<Rightarrow> \<not> pv_running v)"

definition answered :: "http_reply \<Rightarrow> bool" where
  "answered r \<longleftrightarrow> (case r of No_reply \<Rightarrow> False | Reply status body \<Rightarrow> status < 500)"

definition reply_body :: "http_reply \<Rightarrow> json option" where
  "reply_body r = (case r of No_reply \<Rightarrow> None | Reply status body \<Rightarrow> body)"

text \<open>One pass: \<open>None\<close> means that the loop sleeps and polls again.\<close>

definition poll_once :: "string \<Rightarrow> float64 \<Rightarrow> poll \<Rightarrow> readiness_result option" where
  "poll_once name timeout p =
     (if exited (po_process p) then Some (not_ready (po_elapsed p) (startup_crash name (the (po_process p))))
      else if answered (po_reply p)
      then Some \<lparr>rr_ready = True, rr_elapsed_seconds = po_elapsed p, rr_failure = None,
                 rr_metadata = extract_runtime_metadata (reply_body (po_reply p))\<rparr>
      else if timeout < po_elapsed p then Some (not_ready (po_elapsed p) (startup_timeout name timeout (po_process p)))
      else None)"

text \<open>The loop over the passes observed so far; \<open>None\<close>: it still waits.\<close>

fun wait_until_ready :: "string \<Rightarrow> float64 \<Rightarrow> poll list \<Rightarrow> readiness_result option" where
  "wait_until_ready name timeout [] = None"
| "wait_until_ready name timeout (p # ps) =
     (case poll_once name timeout p of Some r \<Rightarrow> Some r | None \<Rightarrow> wait_until_ready name timeout ps)"

section \<open>Facts: the displayed command\<close>

lemma display_entry_cong:
  assumes "\<And>k. k \<notin> set SENSITIVE_ENV_KEYS \<Longrightarrow> map_of e1 k = map_of e2 k"
  shows "display_entry e1 k = display_entry e2 k"
  using assms[of k] by (simp add: display_entry_def)

text \<open>C36: the displayed command does not depend on the value of any sensitive variable: two environments with the
  same keys that differ only there give the same text. And no Hugging Face token is left in it, wherever it came from.\<close>

theorem redacted_command_hides:
  assumes "map fst e1 = map fst e2"
    and "\<And>k. k \<notin> set SENSITIVE_ENV_KEYS \<Longrightarrow> map_of e1 k = map_of e2 k"
  shows "redacted_command c e1 = redacted_command c e2 \<and> search HF_PATTERN (redacted_command c e1) = None"
proof -
  have "display_entry e1 = display_entry e2" using display_entry_cong[of e1 e2] assms(2) by blast
  then show ?thesis unfolding redacted_command_def assms(1) using redacted_clean by simp
qed

theorem redacted_command_hides_witness:
  "redacted_command [''vllm''] [(''HF_TOKEN'', ''a'')] = redacted_command [''vllm''] [(''HF_TOKEN'', ''b'')]"
proof -
  have "''HF_TOKEN'' \<in> set SENSITIVE_ENV_KEYS" by (simp add: SENSITIVE_ENV_KEYS_def)
  then have "map_of [(''HF_TOKEN'', ''a'')] k = map_of [(''HF_TOKEN'', ''b'')] k" if "k \<notin> set SENSITIVE_ENV_KEYS" for k :: string
    using that by (cases "k = ''HF_TOKEN''") auto
  from conjunct1[OF redacted_command_hides[OF _ this, of "[''vllm'']"]] show ?thesis by simp
qed

section \<open>Facts: devices and ranks\<close>

lemma map_of_update: "map_of (AList.update k v al) = (map_of al)(k \<mapsto> v)"
  by (simp add: AList.update_conv')

lemma forwarded_no_devices: "map_of (filter (\<lambda>(k, v). k \<in> set FORWARDED_ENV_KEYS) e) CUDA_VISIBLE_DEVICES = None"
  by (induction e) (auto simp: FORWARDED_ENV_KEYS_def CUDA_VISIBLE_DEVICES_def)

lemma environment_devices:
  "map_of (engine_environment e cwd py ids) CUDA_VISIBLE_DEVICES = map_option device_list ids"
proof -
  have k: "CUDA_VISIBLE_DEVICES \<noteq> ''PATH''" "CUDA_VISIBLE_DEVICES \<noteq> ''PYTHONUNBUFFERED''" "CUDA_VISIBLE_DEVICES \<noteq> ''CUDA_DEVICE_ORDER''"
    by (simp_all add: CUDA_VISIBLE_DEVICES_def)
  have "map_of (add_bin_dir b (filter (\<lambda>(k, v). k \<in> set FORWARDED_ENV_KEYS) e)) CUDA_VISIBLE_DEVICES = None" for b
    using forwarded_no_devices[of e] k(1) by (simp add: add_bin_dir_def Let_def map_of_update)
  then show ?thesis using k(2,3) by (cases ids) (simp_all add: engine_environment_def Let_def map_of_update)
qed

lemma vllm_env_devices:
  "map_of (vllm_env s m p ids) CUDA_VISIBLE_DEVICES = (if spans_nodes p then None else Some (device_list ids))"
proof -
  have "CUDA_VISIBLE_DEVICES \<noteq> ''VLLM_ALLOW_LONG_MAX_MODEL_LEN''" by (simp add: CUDA_VISIBLE_DEVICES_def)
  then show ?thesis by (simp add: vllm_env_def Let_def map_of_update environment_devices)
qed

text \<open>A launched replica sees the devices of its group, under their numbers on the machine it runs on.\<close>

definition local_devices :: "launch_site \<Rightarrow> candidate_plan \<Rightarrow> nat \<Rightarrow> int list" where
  "local_devices s p i = (case lt_local_gpu_ids s of None \<Rightarrow> cp_gpu_groups p ! i | Some ids \<Rightarrow> ids)"

lemma vllm_launch_devices:
  assumes "vllm_launch_spec rv s m p i = Inr spec"
  shows "lp_gpu_ids spec = cp_gpu_groups p ! i"
    "map_of (lp_env spec) CUDA_VISIBLE_DEVICES = (if spans_nodes p then None else Some (device_list (local_devices s p i)))"
  using assms vllm_env_devices[of s m p]
  by (auto simp: vllm_launch_spec_def replica_gpus_def finish_spec_def local_devices_def Let_def split: option.splits if_splits)

lemma sglang_launch_devices:
  assumes "sglang_launch_spec rv s m p i = Inr spec"
  shows "lp_gpu_ids spec = cp_gpu_groups p ! i"
    "map_of (lp_env spec) CUDA_VISIBLE_DEVICES = Some (device_list (local_devices s p i))"
  using assms environment_devices
  by (auto simp: sglang_launch_spec_def replica_gpus_def finish_spec_def local_devices_def Let_def split: option.splits if_splits)

text \<open>The number of ranks a vLLM server starts, read off its arguments: a missing one counts as 1.\<close>

fun arg_value :: "string \<Rightarrow> string list \<Rightarrow> string option" where
  "arg_value flag (a # b # rest) = (if a = flag then Some b else arg_value flag (b # rest))"
| "arg_value flag rest = None"

definition arg_int :: "string \<Rightarrow> string list \<Rightarrow> int" where
  "arg_int flag args = (case arg_value flag args of None \<Rightarrow> 1 | Some v \<Rightarrow> val_int v)"

definition server_ranks :: "string list \<Rightarrow> int" where
  "server_ranks args = arg_int ''--tensor-parallel-size'' args * arg_int ''--pipeline-parallel-size'' args
     * arg_int ''--data-parallel-size'' args"

lemma val_str_nat [simp]: "val_int (str_nat n) = int n"
  by (simp add: str_nat_def str_int_def val_str_pos)

lemma val_one [simp]: "val_int ''1'' = 1"
  by code_simp

definition local_shape :: "candidate_plan \<Rightarrow> bool" where
  "local_shape p \<longleftrightarrow> cp_pipeline_parallel_size p = 1 \<and> cp_distributed_backend p = None \<and>
     (if cp_dp_attention_enabled p then cp_data_parallel_size p = cp_tensor_parallel_size p \<and> 1 < cp_tensor_parallel_size p
      else cp_data_parallel_size p = 1)"

lemma variant_shape:
  assumes "v \<in> set (snd (engine_variants env eng tp))"
    and p: "p = variant_plan env eng tp replicas groups est nodes v"
  shows "local_shape p" "cp_tensor_parallel_size p = tp"
    "cp_dp_attention_enabled p \<Longrightarrow> eo_supports_dp_attention eng (pe_model env)"
  using assms(1) unfolding p
  by (auto simp: engine_variants_def Let_def plain_variant_def ep_variant_def dpa_variant_def variant_plan_def base_plan_def
      local_shape_def split: if_splits)

lemma shape_ranks:
  assumes "local_shape p" and "cp_dp_attention_enabled p \<Longrightarrow> vllm_flags_data_parallel version"
  shows "server_ranks (vllm_parallel_args version p) = int (cp_tensor_parallel_size p)"
  using assms unfolding local_shape_def
  by (cases "cp_dp_attention_enabled p")
     (auto simp: server_ranks_def arg_int_def vllm_parallel_args_def vllm_dp_ranks_def optional_arg_def has_text_def)

lemma vllm_dp_attention_flag: "vllm_dp_attention rv m \<Longrightarrow> vllm_flags_data_parallel (parse_version rv)"
proof -
  assume "vllm_dp_attention rv m"
  then have "[0, 9, 0] \<le> parse_version rv" by (simp add: vllm_dp_attention_def vllm_flags_dp_attention_def)
  moreover have "[0, 8, 0] \<le> [0, 9, 0::int]" by simp
  ultimately show ?thesis unfolding vllm_flags_data_parallel_def by (rule order_trans[rotated])
qed


definition demo_env :: plan_env where
  "demo_env = \<lparr>pe_snapshot = demo_host, pe_ids = [0], pe_node_sizes = [1], pe_gpus_per_node = 1,
     pe_model = demo_model\<lparr>mp_is_moe := True, mp_model_type := Some ''deepseek_v3''\<rparr>, pe_workload = demo_workload,
     pe_engines = [], pe_constraints = no_constraints, pe_cfg = default_memory_config, pe_context = 8192\<rparr>"

definition demo_estimate :: memory_estimate where
  "demo_estimate = the (estimate_memory demo_model [demo_gpu 0] 1 (estimate_kv demo_model 1 None) 8192 demo_workload
     default_memory_config 1 None)"


section \<open>Facts: the memory fraction argument\<close>

text \<open>What \<^verbatim>\<open>float\<close> reads in a text of digits with a point.\<close>

definition read_fixed :: "string \<Rightarrow> float64" where
  "read_fixed s =
     (let whole = takeWhile (\<lambda>c. c \<noteq> CHR ''.'') s; frac = tl (dropWhile (\<lambda>c. c \<noteq> CHR ''.'') s)
      in fl (of_int (val_int (whole @ frac)) / 10 ^ length frac))"

lemma str_pos_small: "0 \<le> i \<Longrightarrow> i < 100 \<Longrightarrow> length (str_pos i) \<le> 2"
  by (subst str_pos.simps, subst str_pos.simps) auto

lemma read_fixed_fmt:
  assumes "0 \<le> x"
  shows "read_fixed (fmt_f 2 x) = fl (of_int (rhe (x * 100)) / 100)"
proof -
  define n where "n = rhe (x * 100)"
  have n: "0 \<le> n" using rhe_mono[of 0 "x * 100"] assms rhe_of_int[of 0] by (simp add: n_def)
  let ?w = "str_pos (n div 100)" and ?f = "pad0 2 (str_pos (n mod 100))"
  have fmt: "fmt_f 2 x = ?w @ CHR ''.'' # ?f" using assms by (simp add: fmt_f_def Let_def n_def)
  have "0 \<le> n div 100" using n by simp
  from str_pos_digits[OF this] have nodot: "\<forall>c \<in> set ?w. c \<noteq> CHR ''.''" by (auto simp: is_digit_def)
  have len: "length ?f = 2" using str_pos_small[of "n mod 100"] by (simp add: pad0_def)
  have f: "val_int ?f = n mod 100" by (simp add: pad0_def val_int_append val_int_zeros val_str_pos)
  have "val_int (?w @ ?f) = n" unfolding val_int_append len f using n val_str_pos[of "n div 100"] by simp
  moreover have "takeWhile (\<lambda>c. c \<noteq> CHR ''.'') (fmt_f 2 x) = ?w" "tl (dropWhile (\<lambda>c. c \<noteq> CHR ''.'') (fmt_f 2 x)) = ?f"
    unfolding fmt using nodot by (simp_all add: takeWhile_append2 dropWhile_append2)
  ultimately show ?thesis unfolding read_fixed_def Let_def using len by (simp add: n_def)
qed

text \<open>Every memory fraction a plan carries was rounded to two decimals, and the adapters print two decimals;
  the printed text reads back as exactly the plan's fraction, so the engine budgets what the planner checked.\<close>

theorem printed_fraction_roundtrip:
  assumes "0 \<le> f" and "f \<le> 1"
  shows "read_fixed (fmt_f 2 (py_round2 f)) = py_round2 f"
proof -
  define k where "k = rhe (f * 100)"
  have r: "py_round2 f = int_div k 100" by (simp add: py_round2_def int_div_def k_def)
  have k: "0 \<le> k" "k \<le> 100"
    using rhe_mono[of 0 "f * 100"] rhe_mono[of "f * 100" 100] assms rhe_of_int[of 0] rhe_of_int[of 100] by (simp_all add: k_def)
  have "0 \<le> py_round2 f" unfolding r using int_div_100_mono[OF k(1)] by (simp add: int_div_def)
  then have "read_fixed (fmt_f 2 (py_round2 f)) = py_round2 (py_round2 f)"
    unfolding py_round2_def[of "py_round2 f"] by (rule read_fixed_fmt)
  then show ?thesis unfolding r using percent_round_trip[OF k] by simp
qed

theorem printed_fraction_roundtrip_witness: "read_fixed (fmt_f 2 (py_round2 (7 / 8))) = py_round2 (7 / 8)"
  by (rule printed_fraction_roundtrip) simp_all

section \<open>Facts: readiness\<close>

lemma poll_once_ready:
  assumes "poll_once name timeout p = Some r"
  shows "rr_ready r \<longleftrightarrow> \<not> exited (po_process p) \<and> answered (po_reply p)" "rr_failure r = None \<longleftrightarrow> rr_ready r"
proof -
  have "r = the (poll_once name timeout p)" "poll_once name timeout p \<noteq> None" using assms by simp_all
  then show "rr_ready r \<longleftrightarrow> \<not> exited (po_process p) \<and> answered (po_reply p)" "rr_failure r = None \<longleftrightarrow> rr_ready r"
    unfolding poll_once_def not_ready_def by (simp_all split: if_splits)
qed

lemma poll_once_none:
  "poll_once name timeout p = None \<longleftrightarrow> \<not> exited (po_process p) \<and> \<not> answered (po_reply p) \<and> po_elapsed p \<le> timeout"
  by (simp add: poll_once_def not_less)

lemma wait_none: "wait_until_ready name timeout ps = None \<longleftrightarrow> (\<forall>p \<in> set ps. poll_once name timeout p = None)"
  by (induction ps) (auto split: option.splits)

lemma wait_some:
  "wait_until_ready name timeout ps = Some r \<longleftrightarrow>
     (\<exists>before p after. ps = before @ p # after \<and> poll_once name timeout p = Some r \<and> (\<forall>q \<in> set before. poll_once name timeout q = None))"
proof (induction ps)
  case (Cons q ps)
  show ?case
  proof (cases "poll_once name timeout q")
    case None
    have "(\<exists>before p after. q # ps = before @ p # after \<and> poll_once name timeout p = Some r \<and> (\<forall>q \<in> set before. poll_once name timeout q = None)) \<longleftrightarrow>
        (\<exists>before p after. ps = before @ p # after \<and> poll_once name timeout p = Some r \<and> (\<forall>q \<in> set before. poll_once name timeout q = None))"
      (is "?l \<longleftrightarrow> ?r")
    proof
      assume ?l
      then obtain b p a where "q # ps = b @ p # a" "poll_once name timeout p = Some r" "\<forall>q \<in> set b. poll_once name timeout q = None" by blast
      then show ?r using None by (cases b) auto
    next
      assume ?r
      then obtain b p a where "ps = b @ p # a" "poll_once name timeout p = Some r" "\<forall>q \<in> set b. poll_once name timeout q = None" by blast
      then show ?l using None by (intro exI[of _ "q # b"] exI[of _ p] exI[of _ a]) simp
    qed
    then show ?thesis using Cons None by simp
  next
    case (Some s)
    show ?thesis
    proof
      assume "wait_until_ready name timeout (q # ps) = Some r"
      then show "\<exists>before p after. q # ps = before @ p # after \<and> poll_once name timeout p = Some r \<and> (\<forall>q \<in> set before. poll_once name timeout q = None)"
        using Some by (intro exI[of _ "[]"] exI[of _ q] exI[of _ ps]) simp
    next
      assume "\<exists>before p after. q # ps = before @ p # after \<and> poll_once name timeout p = Some r \<and> (\<forall>q \<in> set before. poll_once name timeout q = None)"
      then obtain b p a where "q # ps = b @ p # a" "poll_once name timeout p = Some r" "\<forall>q \<in> set b. poll_once name timeout q = None" by blast
      then show "wait_until_ready name timeout (q # ps) = Some r" using Some by (cases b) auto
    qed
  qed
qed simp


definition sample_polls :: "poll list" where
  "sample_polls = [\<lparr>po_process = None, po_reply = No_reply, po_elapsed = 1\<rparr>, \<lparr>po_process = None, po_reply = No_reply, po_elapsed = 9\<rparr>]"


end
