(* ===== verification/Ports.thy ===== *)
theory Ports
  imports PyText
begin

text \<open>
  Port allocation, \<^verbatim>\<open>runtime/ports.py\<close>: a cursor over a range, the reserved ports, and the check with the operating
  system, which is an argument (\<open>bindable\<close>). The locale \<open>port_pool\<close> is what the replica set relies on; it is
  interpreted on the allocator.
\<close>

section \<open>The allocator\<close>

text \<open>A port is free when a socket can be bound on the host and on the wildcard address.\<close>

definition port_is_free :: "(string \<Rightarrow> int \<Rightarrow> bool) \<Rightarrow> string \<Rightarrow> int \<Rightarrow> bool" where
  "port_is_free bindable host port \<longleftrightarrow> (\<forall>h \<in> {host, ''0.0.0.0''}. bindable h port)"

record port_allocator =
  pa_start :: int
  pa_end :: int
  pa_host :: string
  pa_reserved :: "int set"
  pa_cursor :: int

datatype port_error = Bad_port_range | No_free_port int int

definition new_allocator :: "int \<Rightarrow> int \<Rightarrow> string \<Rightarrow> port_error + port_allocator" where
  "new_allocator start stop host =
     (if stop < start then Inl Bad_port_range
      else Inr \<lparr>pa_start = start, pa_end = stop, pa_host = host, pa_reserved = {}, pa_cursor = start\<rparr>)"

definition DEFAULT_BACKEND_PORT_START :: int where "DEFAULT_BACKEND_PORT_START = 30000"
definition DEFAULT_BACKEND_PORT_END :: int where "DEFAULT_BACKEND_PORT_END = 30999"

definition next_cursor :: "port_allocator \<Rightarrow> int" where
  "next_cursor a = (if pa_end a \<le> pa_cursor a then pa_start a else pa_cursor a + 1)"

text \<open>The \<^verbatim>\<open>for\<close> loop: one port per turn, the cursor moves on whether or not the port is taken.\<close>

fun try_ports :: "(int \<Rightarrow> bool) \<Rightarrow> nat \<Rightarrow> port_allocator \<Rightarrow> int option \<times> port_allocator" where
  "try_ports free 0 a = (None, a)"
| "try_ports free (Suc n) a =
     (let port = pa_cursor a; a1 = a\<lparr>pa_cursor := next_cursor a\<rparr>
      in if port \<notin> pa_reserved a \<and> free port then (Some port, a1\<lparr>pa_reserved := insert port (pa_reserved a)\<rparr>)
         else try_ports free n a1)"

definition span :: "port_allocator \<Rightarrow> nat" where
  "span a = nat (pa_end a - pa_start a + 1)"

definition allocate :: "(string \<Rightarrow> int \<Rightarrow> bool) \<Rightarrow> port_allocator \<Rightarrow> (port_error + int) \<times> port_allocator" where
  "allocate bindable a =
     (case try_ports (port_is_free bindable (pa_host a)) (span a) a of
        (None, a1) \<Rightarrow> (Inl (No_free_port (pa_start a) (pa_end a)), a1)
      | (Some p, a1) \<Rightarrow> (Inr p, a1))"

text \<open>The ports taken before a failure stay reserved.\<close>

fun allocate_many :: "(string \<Rightarrow> int \<Rightarrow> bool) \<Rightarrow> nat \<Rightarrow> port_allocator \<Rightarrow> (port_error + int list) \<times> port_allocator" where
  "allocate_many bindable 0 a = (Inr [], a)"
| "allocate_many bindable (Suc n) a =
     (case allocate bindable a of
        (Inl e, a1) \<Rightarrow> (Inl e, a1)
      | (Inr p, a1) \<Rightarrow> (case allocate_many bindable n a1 of (Inl e, a2) \<Rightarrow> (Inl e, a2) | (Inr ps, a2) \<Rightarrow> (Inr (p # ps), a2)))"

definition release_port :: "int \<Rightarrow> port_allocator \<Rightarrow> port_allocator" where
  "release_port p a = a\<lparr>pa_reserved := pa_reserved a - {p}\<rparr>"

definition release_all :: "port_allocator \<Rightarrow> port_allocator" where
  "release_all a = a\<lparr>pa_reserved := {}\<rparr>"

section \<open>What a client relies on\<close>

text \<open>A pool hands out resources that were not held, whatever the surroundings answer, holds them until they are released, and keeps its invariant.\<close>

locale port_pool =
  fixes take :: "'o \<Rightarrow> 's \<Rightarrow> ('e + int) \<times> 's" and give_back :: "int \<Rightarrow> 's \<Rightarrow> 's" and held :: "'s \<Rightarrow> int set" and inv :: "'s \<Rightarrow> bool"
  assumes take_some: "inv s \<Longrightarrow> take w s = (Inr p, s') \<Longrightarrow> p \<notin> held s \<and> held s' = insert p (held s) \<and> inv s'"
    and take_none: "inv s \<Longrightarrow> take w s = (Inl e, s') \<Longrightarrow> held s' = held s \<and> inv s'"
    and give_back_held: "inv s \<Longrightarrow> held (give_back p s) = held s - {p} \<and> inv (give_back p s)"
begin

text \<open>A client's run: it takes and gives back; \<open>mine\<close> is what it owns, newest first.\<close>

inductive owns :: "'s \<Rightarrow> 's \<Rightarrow> int list \<Rightarrow> bool" for s0 where
  start: "owns s0 s0 []"
| took: "owns s0 s mine \<Longrightarrow> take w s = (Inr p, s') \<Longrightarrow> owns s0 s' (p # mine)"
| failed: "owns s0 s mine \<Longrightarrow> take w s = (Inl e, s') \<Longrightarrow> owns s0 s' mine"
| gave: "owns s0 s mine \<Longrightarrow> p \<in> set mine \<Longrightarrow> owns s0 (give_back p s) (remove1 p mine)"

lemma owns_held:
  assumes "owns s0 s mine" and "inv s0"
  shows "inv s \<and> distinct mine \<and> set mine \<inter> held s0 = {} \<and> held s = held s0 \<union> set mine"
  using assms
proof (induction rule: owns.induct)
  case (took s mine w p s')
  then show ?case using take_some[of s w p s'] by auto
next
  case (failed s mine w e s')
  then show ?case using take_none[of s w e s'] by auto
next
  case (gave s mine p)
  then show ?case using give_back_held[of s p] by (auto simp: set_remove1_eq)
qed simp

lemma give_back_all: "inv s \<Longrightarrow> held (foldl (\<lambda>s p. give_back p s) s ps) = held s - set ps \<and> inv (foldl (\<lambda>s p. give_back p s) s ps)"
proof (induction ps arbitrary: s)
  case (Cons p ps)
  then show ?case using give_back_held[of s p] by auto
qed simp

lemma owns_released:
  assumes "owns s0 s mine" and "inv s0"
  shows "held (foldl (\<lambda>s p. give_back p s) s mine) = held s0"
  using owns_held[OF assms] give_back_all[of s mine] by auto

end

section \<open>The allocator keeps the contract\<close>

definition allocator_ok :: "port_allocator \<Rightarrow> bool" where
  "allocator_ok a \<longleftrightarrow> pa_start a \<le> pa_cursor a \<and> pa_cursor a \<le> pa_end a \<and> pa_reserved a \<subseteq> {pa_start a..pa_end a}"

lemma new_allocator_ok: "new_allocator lo up host = Inr a \<Longrightarrow> allocator_ok a"
  by (auto simp: new_allocator_def allocator_ok_def split: if_splits)

lemma release_port_ok: "allocator_ok a \<Longrightarrow> allocator_ok (release_port p a)"
  by (auto simp: allocator_ok_def release_port_def)

text \<open>The ports the loop looks at in \<open>n\<close> turns.\<close>

fun visited :: "nat \<Rightarrow> int \<Rightarrow> int \<Rightarrow> int \<Rightarrow> int set" where
  "visited 0 lo up c = {}"
| "visited (Suc n) lo up c = insert c (visited n lo up (if up \<le> c then lo else c + 1))"

lemma visited_up: "c + int n \<le> up + 1 \<Longrightarrow> {c..<c + int n} \<subseteq> visited n lo up c"
proof (induction n arbitrary: c)
  case (Suc n)
  show ?case
  proof (cases "up \<le> c")
    case True
    then have "n = 0" using Suc.prems by linarith
    then show ?thesis by auto
  next
    case False
    have "{c + 1..<c + 1 + int n} \<subseteq> visited n lo up (c + 1)" using Suc by simp
    moreover have "{c..<c + int (Suc n)} \<subseteq> insert c {c + 1..<c + 1 + int n}" by auto
    ultimately show ?thesis using False by auto
  qed
qed simp

fun turns :: "nat \<Rightarrow> int \<Rightarrow> int \<Rightarrow> int \<Rightarrow> int" where
  "turns 0 lo up c = c"
| "turns (Suc n) lo up c = turns n lo up (if up \<le> c then lo else c + 1)"

lemma visited_add: "visited (m + n) lo up c = visited m lo up c \<union> visited n lo up (turns m lo up c)"
  by (induction m arbitrary: c) simp_all

lemma wrap_up: "lo \<le> c \<Longrightarrow> c \<le> up \<Longrightarrow> turns (nat (up - c + 1)) lo up c = lo"
proof (induction "nat (up - c)" arbitrary: c)
  case 0
  then have "c = up" by simp
  then show ?case by simp
next
  case (Suc k)
  then have c: "c < up" by linarith
  have n: "nat (up - c + 1) = Suc (nat (up - (c + 1) + 1))" using c by simp
  have "turns (nat (up - (c + 1) + 1)) lo up (c + 1) = lo" using Suc.hyps(1)[of "c + 1"] Suc.hyps(2) Suc.prems c by simp
  then show ?case unfolding n using c by simp
qed

text \<open>One full turn of the cursor looks at every port of the range.\<close>

lemma visited_span:
  assumes "lo \<le> c" "c \<le> up"
  shows "{lo..up} \<subseteq> visited (nat (up - lo + 1)) lo up c"
proof -
  have n: "nat (up - lo + 1) = nat (up - c + 1) + nat (c - lo)" using assms by simp
  have a: "{c..<c + int (nat (up - c + 1))} \<subseteq> visited (nat (up - c + 1)) lo up c" using visited_up[of c "nat (up - c + 1)" up lo] assms by simp
  have b: "{lo..<lo + int (nat (c - lo))} \<subseteq> visited (nat (c - lo)) lo up lo" using visited_up[of lo "nat (c - lo)" up lo] assms by simp
  have "{lo..up} = {lo..<c} \<union> {c..<up + 1}" using assms by auto
  then show ?thesis using a b assms unfolding n visited_add wrap_up[OF assms] by auto
qed

lemma try_ports_some:
  "try_ports free n a = (Some p, a') \<Longrightarrow> allocator_ok a \<Longrightarrow>
     p \<in> {pa_start a..pa_end a} \<and> p \<notin> pa_reserved a \<and> free p \<and> pa_reserved a' = insert p (pa_reserved a) \<and> allocator_ok a'
     \<and> pa_start a' = pa_start a \<and> pa_end a' = pa_end a \<and> pa_host a' = pa_host a"
proof (induction n arbitrary: a)
  case (Suc n)
  have ok: "allocator_ok (a\<lparr>pa_cursor := next_cursor a\<rparr>)" using Suc.prems(2) by (auto simp: allocator_ok_def next_cursor_def)
  show ?case
  proof (cases "pa_cursor a \<notin> pa_reserved a \<and> free (pa_cursor a)")
    case True
    then have "p = pa_cursor a" "a' = a\<lparr>pa_cursor := next_cursor a, pa_reserved := insert (pa_cursor a) (pa_reserved a)\<rparr>"
      using Suc.prems(1) by (auto simp: Let_def)
    then show ?thesis using True Suc.prems(2) ok by (simp add: allocator_ok_def)
  next
    case False
    then have "try_ports free n (a\<lparr>pa_cursor := next_cursor a\<rparr>) = (Some p, a')" using Suc.prems(1) by (auto simp: Let_def split: if_splits)
    from Suc.IH[OF this ok] show ?thesis by simp
  qed
qed simp

lemma try_ports_none:
  "try_ports free n a = (None, a') \<Longrightarrow> allocator_ok a \<Longrightarrow>
     (\<forall>p \<in> visited n (pa_start a) (pa_end a) (pa_cursor a). p \<in> pa_reserved a \<or> \<not> free p) \<and> pa_reserved a' = pa_reserved a
     \<and> allocator_ok a' \<and> pa_start a' = pa_start a \<and> pa_end a' = pa_end a \<and> pa_host a' = pa_host a"
proof (induction n arbitrary: a)
  case (Suc n)
  have ok: "allocator_ok (a\<lparr>pa_cursor := next_cursor a\<rparr>)" using Suc.prems(2) by (auto simp: allocator_ok_def next_cursor_def)
  have f: "pa_cursor a \<in> pa_reserved a \<or> \<not> free (pa_cursor a)" "try_ports free n (a\<lparr>pa_cursor := next_cursor a\<rparr>) = (None, a')"
    using Suc.prems(1) by (auto simp: Let_def split: if_splits)
  from Suc.IH[OF f(2) ok] f(1) show ?case by (auto simp: next_cursor_def)
qed simp

text \<open>While its invariant holds, the allocator returns a free port of its range that was not reserved and reserves
  exactly that one; it fails exactly when every port of the range is reserved or taken, and then reserves nothing.\<close>

theorem allocate_spec:
  assumes "allocator_ok a" and "allocate bindable a = (r, a')"
  shows "allocator_ok a' \<and>
    (case r of
       Inr p \<Rightarrow> p \<in> {pa_start a..pa_end a} \<and> p \<notin> pa_reserved a \<and> port_is_free bindable (pa_host a) p \<and> pa_reserved a' = insert p (pa_reserved a)
     | Inl e \<Rightarrow> e = No_free_port (pa_start a) (pa_end a) \<and> pa_reserved a' = pa_reserved a
         \<and> {p \<in> {pa_start a..pa_end a}. port_is_free bindable (pa_host a) p} \<subseteq> pa_reserved a)"
proof (cases "try_ports (port_is_free bindable (pa_host a)) (span a) a")
  case (Pair q b)
  show ?thesis
  proof (cases q)
    case None
    then have r: "r = Inl (No_free_port (pa_start a) (pa_end a))" "a' = b" using assms(2) Pair by (auto simp: allocate_def)
    have c: "pa_start a \<le> pa_cursor a" "pa_cursor a \<le> pa_end a" using assms(1) by (simp_all add: allocator_ok_def)
    note t = try_ports_none[OF Pair[unfolded None] assms(1)]
    have "{pa_start a..pa_end a} \<subseteq> visited (span a) (pa_start a) (pa_end a) (pa_cursor a)"
      unfolding span_def by (rule visited_span[OF c])
    then show ?thesis using t r by auto
  next
    case (Some p)
    then have r: "r = Inr p" "a' = b" using assms(2) Pair by (auto simp: allocate_def)
    show ?thesis using try_ports_some[OF Pair[unfolded Some] assms(1)] r by simp
  qed
qed

definition small_pool :: port_allocator where
  "small_pool = \<lparr>pa_start = 5, pa_end = 6, pa_host = ''127.0.0.1'', pa_reserved = {6}, pa_cursor = 6\<rparr>"

theorem allocate_spec_witness:
  "case fst (allocate (\<lambda>h p. p \<noteq> 6) small_pool) of Inr p \<Rightarrow> p \<in> {5..6} | Inl e \<Rightarrow> False"
proof -
  have ok: "allocator_ok small_pool" by (simp add: allocator_ok_def small_pool_def)
  have "fst (allocate (\<lambda>h p. p \<noteq> 6) small_pool) = Inr 5" by code_simp
  moreover obtain a' where "allocate (\<lambda>h p. p \<noteq> 6) small_pool = (fst (allocate (\<lambda>h p. p \<noteq> 6) small_pool), a')"
    by (cases "allocate (\<lambda>h p. p \<noteq> 6) small_pool") simp
  ultimately show ?thesis using allocate_spec[OF ok, of "\<lambda>h p. p \<noteq> 6" "Inr 5" a'] by (simp add: small_pool_def)
qed

lemma allocate_keeps:
  assumes "allocator_ok a" and "allocate b a = (r, a')"
  shows "allocator_ok a'" "r = Inr p \<Longrightarrow> p \<notin> pa_reserved a \<and> pa_reserved a' = insert p (pa_reserved a)"
    "r = Inl e \<Longrightarrow> pa_reserved a' = pa_reserved a"
proof -
  obtain q a1 where q: "try_ports (port_is_free b (pa_host a)) (span a) a = (q, a1)" by force
  then have "a' = a1" "r = (case q of None \<Rightarrow> Inl (No_free_port (pa_start a) (pa_end a)) | Some p \<Rightarrow> Inr p)"
    using assms(2) by (auto simp: allocate_def split: option.splits)
  then show "allocator_ok a'" "r = Inr p \<Longrightarrow> p \<notin> pa_reserved a \<and> pa_reserved a' = insert p (pa_reserved a)"
    "r = Inl e \<Longrightarrow> pa_reserved a' = pa_reserved a"
    using q assms(1) try_ports_some[of "port_is_free b (pa_host a)" "span a" a _ a1] try_ports_none[of "port_is_free b (pa_host a)" "span a" a a1]
    by (cases q; simp)+
qed

interpretation pool: port_pool allocate release_port pa_reserved allocator_ok
proof
  fix a bindable p a' assume "allocator_ok a" "allocate bindable a = (Inr p, a')"
  then show "p \<notin> pa_reserved a \<and> pa_reserved a' = insert p (pa_reserved a) \<and> allocator_ok a'" using allocate_keeps(1,2) by blast
next
  fix a bindable e a' assume "allocator_ok a" "allocate bindable a = (Inl e, a')"
  then show "pa_reserved a' = pa_reserved a \<and> allocator_ok a'" using allocate_keeps(1,3) by blast
next
  fix a p assume "allocator_ok a"
  then show "pa_reserved (release_port p a) = pa_reserved a - {p} \<and> allocator_ok (release_port p a)"
    using release_port_ok by (auto simp: release_port_def)
qed

end
