(* ===== verification/Replicas.thy ===== *)
theory Replicas
  imports Ports Launch Router
begin

text \<open>
  The replica set, \<^verbatim>\<open>runtime/replicas.py\<close>: launch specifications of a plan's replicas, the start of all of them as
  interleaved tasks, the teardown, and the restart of one replica. A state holds the process table (a process
  handle is a position in it), the port allocator, the router and the tasks; an event is one step of a task, of
  the starting coroutine or of a process. What the launcher, the engine server and the clock answer is part of the event.
\<close>

section \<open>Replicas and their specifications\<close>

record replica =
  rl_index :: nat
  rl_spec :: launch_spec
  rl_process :: "nat option"
  rl_ready :: bool
  rl_launch_seconds :: "float64 option"
  rl_metadata :: "(string \<times> json) list"

datatype replica_error = Gpu_missing int | No_gpus | Spec_error launch_error | Port_failed port_error | Not_started string
  | Not_ready candidate_failure string | Interrupted

definition replica_id :: "replica \<Rightarrow> string" where "replica_id r = lp_replica_id (rl_spec r)"

text \<open>The machine of a group (that of its first GPU) and the device numbers on it.\<close>

definition node_for :: "hardware_snapshot \<Rightarrow> int list \<Rightarrow> replica_error + (string \<times> string) option \<times> int list" where
  "node_for hw ids =
     (case those (map (snap_gpu hw) ids) of
        None \<Rightarrow> Inl (Gpu_missing (the (find (\<lambda>i. snap_gpu hw i = None) ids)))
      | Some [] \<Rightarrow> Inl No_gpus
      | Some (g # gs) \<Rightarrow>
          Inr (case (gd_node_id g, gd_node_ip g) of (Some n, Some ip) \<Rightarrow> Some (n, ip) | _ \<Rightarrow> None, map device_index_on_node (g # gs)))"

record replica_env =
  rn_plan :: candidate_plan
  rn_model :: model_profile
  rn_hardware :: hardware_snapshot
  rn_host :: string
  rn_served_model_name :: "string option"
  rn_trust_remote_code :: bool
  rn_python :: string
  rn_os_environ :: environ
  rn_working_dir :: string
  rn_build_launch_spec :: "launch_site \<Rightarrow> model_profile \<Rightarrow> candidate_plan \<Rightarrow> nat \<Rightarrow> launch_error + launch_spec"

text \<open>A replica on another machine listens on every address.\<close>

definition bind_host :: "replica_env \<Rightarrow> (string \<times> string) option \<Rightarrow> string" where
  "bind_host rn node =
     (case node of None \<Rightarrow> rn_host rn
      | Some (n, ip) \<Rightarrow> if ip \<notin> {''127.0.0.1'', ''localhost''} then ''0.0.0.0'' else rn_host rn)"

definition build_spec :: "replica_env \<Rightarrow> nat \<Rightarrow> int \<Rightarrow> replica_error + launch_spec" where
  "build_spec rn i port =
     (case replica_gpus (rn_plan rn) i of Inl e \<Rightarrow> Inl (Spec_error e)
      | Inr ids \<Rightarrow> (case node_for (rn_hardware rn) ids of Inl e \<Rightarrow> Inl e
        | Inr (node, local_ids) \<Rightarrow>
            (case rn_build_launch_spec rn
                \<lparr>lt_python = rn_python rn, lt_os_environ = rn_os_environ rn, lt_working_dir = rn_working_dir rn,
                 lt_bind_host = bind_host rn node, lt_bind_port = port, lt_served_model_name = rn_served_model_name rn,
                 lt_trust_remote_code = rn_trust_remote_code rn, lt_node = node, lt_local_gpu_ids = Some local_ids\<rparr>
                (rn_model rn) (rn_plan rn) i of
               Inl e \<Rightarrow> Inl (Spec_error e) | Inr s \<Rightarrow> Inr s)))"

text \<open>The specifications of a dry run: the ports follow the one the allocator would give first.\<close>

fun collect_specs :: "(replica_error + launch_spec) list \<Rightarrow> replica_error + launch_spec list" where
  "collect_specs [] = Inr []"
| "collect_specs (Inl e # rest) = Inl e"
| "collect_specs (Inr s # rest) = (case collect_specs rest of Inl e \<Rightarrow> Inl e | Inr ss \<Rightarrow> Inr (s # ss))"

definition dry_run_specs ::
    "replica_env \<Rightarrow> (string \<Rightarrow> int \<Rightarrow> bool) \<Rightarrow> port_allocator \<Rightarrow> (replica_error + launch_spec list) \<times> port_allocator" where
  "dry_run_specs rn bindable a =
     (case allocate bindable a of (Inl e, a1) \<Rightarrow> (Inl (Port_failed e), a1)
      | (Inr base, a1) \<Rightarrow> (collect_specs (map (\<lambda>i. build_spec rn i (base + int i)) [0..<cp_replica_count (rn_plan rn)]),
                          release_port base a1))"

section \<open>The state of a starting set\<close>

datatype launch_task = Created | Starting_process launch_spec | Polling launch_spec nat | Ending launch_spec nat candidate_failure
  | Launched replica | Raised replica_error

datatype start_phase = Starting_first | Spawning | Gathering | Cleaning replica_error | Started | Start_failed replica_error bool

record fleet =
  fl_alloc :: port_allocator
  fl_router :: "router option"
  fl_procs :: "bool list"
  fl_tasks :: "launch_task list"
  fl_replicas :: "replica list"
  fl_ports :: "int list"
  fl_phase :: start_phase

text \<open>A set with its task for the first replica.\<close>

definition new_fleet :: "port_allocator \<Rightarrow> router option \<Rightarrow> fleet" where
  "new_fleet a rt = \<lparr>fl_alloc = a, fl_router = rt, fl_procs = [], fl_tasks = [Created], fl_replicas = [], fl_ports = [],
     fl_phase = Starting_first\<rparr>"

datatype fleet_event =
    Begin nat "string \<Rightarrow> int \<Rightarrow> bool"
  | Process_result nat "string + int"
  | Ready nat float64 "(string \<times> json) list"
  | Gave_up nat "candidate_failure option"
  | Terminated nat bool
  | Interrupt nat
  | Exit nat
  | Spawn
  | Proceed
  | Cancel
  | Stop "nat list"

definition set_task :: "nat \<Rightarrow> launch_task \<Rightarrow> fleet \<Rightarrow> fleet" where
  "set_task i t s = s\<lparr>fl_tasks := (fl_tasks s)[i := t]\<rparr>"

definition with_router :: "(router \<Rightarrow> router) \<Rightarrow> fleet \<Rightarrow> fleet" where
  "with_router f s = s\<lparr>fl_router := map_option f (fl_router s)\<rparr>"

definition kill :: "nat list \<Rightarrow> fleet \<Rightarrow> fleet" where
  "kill ks s = s\<lparr>fl_procs := map (\<lambda>k. fl_procs s ! k \<and> k \<notin> set ks) [0..<length (fl_procs s)]\<rparr>"

section \<open>One replica\<close>

text \<open>Up to the launcher: a port, then the specification.\<close>

definition begin_launch :: "(nat \<Rightarrow> int \<Rightarrow> replica_error + launch_spec) \<Rightarrow> nat \<Rightarrow> (string \<Rightarrow> int \<Rightarrow> bool) \<Rightarrow> fleet \<Rightarrow> fleet" where
  "begin_launch build i bindable s =
     (case allocate bindable (fl_alloc s) of
        (Inl e, a) \<Rightarrow> set_task i (Raised (Port_failed e)) (s\<lparr>fl_alloc := a\<rparr>)
      | (Inr port, a) \<Rightarrow>
          let s1 = s\<lparr>fl_alloc := a, fl_ports := fl_ports s @ [port]\<rparr>
          in (case build i port of Inl e \<Rightarrow> set_task i (Raised e) s1 | Inr spec \<Rightarrow> set_task i (Starting_process spec) s1))"

definition register :: "launch_spec \<Rightarrow> int option \<Rightarrow> int \<Rightarrow> router \<Rightarrow> router" where
  "register spec pid restarts rt =
     (let (a, rt1) = add_replica (lp_replica_id spec) (base_url spec) (lp_gpu_ids spec) pid rt
      in update_object a (\<lambda>r. r\<lparr>rs_status := Starting, rs_restarts := restarts\<rparr>) rt1)"

definition process_started :: "nat \<Rightarrow> launch_spec \<Rightarrow> int \<Rightarrow> fleet \<Rightarrow> fleet" where
  "process_started i spec pid s =
     set_task i (Polling spec (length (fl_procs s)))
       (with_router (register spec (Some pid) 0) (s\<lparr>fl_procs := fl_procs s @ [True]\<rparr>))"

definition unknown_failure :: candidate_failure where
  "unknown_failure = \<lparr>cf_type = UNKNOWN_FAILURE, cf_message = ''not ready'', cf_stderr_tail = [], cf_stdout_tail = [],
     cf_exit_code = None, cf_stage = None\<rparr>"

definition replica_ready :: "nat \<Rightarrow> launch_spec \<Rightarrow> nat \<Rightarrow> float64 \<Rightarrow> (string \<times> json) list \<Rightarrow> fleet \<Rightarrow> fleet" where
  "replica_ready i spec k seconds meta s =
     set_task i (Launched \<lparr>rl_index = i, rl_spec = spec, rl_process = Some k, rl_ready = True, rl_launch_seconds = Some seconds, rl_metadata = meta\<rparr>)
       (with_router (set_status (lp_replica_id spec) Healthy None) s)"

definition replica_gone :: "nat \<Rightarrow> launch_spec \<Rightarrow> nat \<Rightarrow> candidate_failure \<Rightarrow> bool \<Rightarrow> fleet \<Rightarrow> fleet" where
  "replica_gone i spec k f killed s =
     set_task i (Raised (Not_ready f (lp_replica_id spec)))
       (with_router (set_status (lp_replica_id spec) Stopped (Some (cf_message f))) (kill (if killed then [k] else []) s))"

section \<open>The set\<close>

definition replica_processes :: "replica list \<Rightarrow> nat list" where
  "replica_processes rs = List.map_filter rl_process rs"

definition forget_replica :: "router \<Rightarrow> replica \<Rightarrow> router" where
  "forget_replica rt r = remove_replica (replica_id r) (set_status (replica_id r) Stopped None rt)"

text \<open>\<^verbatim>\<open>stop\<close>: \<open>dead\<close> lists the processes that could be killed; the result tells whether all of the set's are gone.\<close>

definition stop_set :: "nat list \<Rightarrow> fleet \<Rightarrow> bool \<times> fleet" where
  "stop_set dead s =
     (let handles = replica_processes (fl_replicas s); s1 = kill (filter (\<lambda>k. k \<in> set dead) handles) s;
          s2 = with_router (\<lambda>rt. foldl forget_replica rt (fl_replicas s)) s1
      in (list_all (\<lambda>k. \<not> fl_procs s2 ! k) handles,
          s2\<lparr>fl_alloc := foldl (\<lambda>a p. release_port p a) (fl_alloc s) (fl_ports s), fl_ports := []\<rparr>))"

fun task_replica :: "launch_task \<Rightarrow> replica option" where
  "task_replica (Launched r) = Some r" | "task_replica t = None"

fun task_error :: "launch_task \<Rightarrow> replica_error option" where
  "task_error (Raised e) = Some e" | "task_error t = None"

definition task_done :: "launch_task \<Rightarrow> bool" where
  "task_done t \<longleftrightarrow> task_replica t \<noteq> None \<or> task_error t \<noteq> None"

text \<open>Where the starting coroutine goes when what it awaits is there.\<close>

definition proceed :: "nat \<Rightarrow> fleet \<Rightarrow> fleet option" where
  "proceed n s =
     (case fl_phase s of
        Starting_first \<Rightarrow>
          (case fl_tasks s of
             [Launched r] \<Rightarrow> Some (s\<lparr>fl_replicas := [r], fl_phase := (if 1 < n then Spawning else Started)\<rparr>)
           | [Raised e] \<Rightarrow> Some (s\<lparr>fl_phase := Cleaning e\<rparr>)
           | _ \<Rightarrow> None)
      | Spawning \<Rightarrow> if n \<le> length (fl_tasks s) then Some (s\<lparr>fl_phase := Gathering\<rparr>) else None
      | Gathering \<Rightarrow>
          if list_all task_done (fl_tasks s)
          then (let rest = tl (fl_tasks s); errors = List.map_filter task_error rest;
                    s1 = s\<lparr>fl_replicas := fl_replicas s @ List.map_filter task_replica rest\<rparr>
                in Some (s1\<lparr>fl_phase := (if errors = [] then Started else Cleaning (hd errors))\<rparr>))
          else None
      | _ \<Rightarrow> None)"

definition interrupted :: "launch_task \<Rightarrow> launch_task" where
  "interrupted t = (if task_done t then t else Raised Interrupted)"

text \<open>One step; \<open>None\<close>: the event cannot happen in this state. The process of an interrupted task keeps running.\<close>

definition fleet_step :: "nat \<Rightarrow> (nat \<Rightarrow> int \<Rightarrow> replica_error + launch_spec) \<Rightarrow> fleet_event \<Rightarrow> fleet \<Rightarrow> fleet option" where
  "fleet_step n build ev s =
     (let task = (\<lambda>i. if i < length (fl_tasks s) then Some (fl_tasks s ! i) else None)
      in case ev of
        Begin i bindable \<Rightarrow> (case task i of Some Created \<Rightarrow> Some (begin_launch build i bindable s) | _ \<Rightarrow> None)
      | Process_result i r \<Rightarrow>
          (case task i of
             Some (Starting_process spec) \<Rightarrow>
               Some (case r of Inl message \<Rightarrow> set_task i (Raised (Not_started message)) s | Inr pid \<Rightarrow> process_started i spec pid s)
           | _ \<Rightarrow> None)
      | Ready i seconds meta \<Rightarrow>
          (case task i of Some (Polling spec k) \<Rightarrow> Some (replica_ready i spec k seconds meta s) | _ \<Rightarrow> None)
      | Gave_up i f \<Rightarrow>
          (case task i of Some (Polling spec k) \<Rightarrow> Some (set_task i (Ending spec k (the_or f unknown_failure)) s) | _ \<Rightarrow> None)
      | Terminated i killed \<Rightarrow>
          (case task i of Some (Ending spec k f) \<Rightarrow> Some (replica_gone i spec k f killed s) | _ \<Rightarrow> None)
      | Interrupt i \<Rightarrow> (case task i of Some t \<Rightarrow> if task_done t then None else Some (set_task i (Raised Interrupted) s) | None \<Rightarrow> None)
      | Exit k \<Rightarrow> if k < length (fl_procs s) then Some (kill [k] s) else None
      | Spawn \<Rightarrow> if fl_phase s = Spawning \<and> length (fl_tasks s) < n then Some (s\<lparr>fl_tasks := fl_tasks s @ [Created]\<rparr>) else None
      | Proceed \<Rightarrow> proceed n s
      | Cancel \<Rightarrow>
          (case fl_phase s of
             Spawning \<Rightarrow> Some (s\<lparr>fl_phase := Cleaning Interrupted\<rparr>)
           | Gathering \<Rightarrow> Some (s\<lparr>fl_tasks := map interrupted (fl_tasks s), fl_phase := Cleaning Interrupted\<rparr>)
           | _ \<Rightarrow> None)
      | Stop dead \<Rightarrow>
          (case fl_phase s of
             Cleaning e \<Rightarrow> (let (ok, s1) = stop_set dead s in Some (s1\<lparr>fl_phase := Start_failed e ok\<rparr>))
           | _ \<Rightarrow> None))"

fun fleet_run :: "nat \<Rightarrow> (nat \<Rightarrow> int \<Rightarrow> replica_error + launch_spec) \<Rightarrow> fleet_event list \<Rightarrow> fleet \<Rightarrow> fleet option" where
  "fleet_run n build [] s = Some s"
| "fleet_run n build (ev # evs) s = Option.bind (fleet_step n build ev s) (fleet_run n build evs)"

end
