(* ===== verification/Replica_Start.thy ===== *)
theory Replica_Start
  imports Replicas Proxy
begin

text \<open>
  What starting a replica set guarantees: while no task is interrupted from outside, a failed start leaves no engine
  process and no reserved port behind, and a successful one has every replica of the plan running on its own port and
  marked healthy in the router. An interruption during a launch leaves the engine process running.
\<close>

section \<open>Status of a replica in the router\<close>

definition status_of :: "string \<Rightarrow> router \<Rightarrow> replica_status option" where
  "status_of rid rt = map_option rs_status (find_replica rid rt)"

lemma registry_entry: "registry_ok rt \<Longrightarrow> map_of (rt_registry rt) x = Some a \<Longrightarrow> a < length (rt_objects rt) \<and> rs_id (object rt a) = x"
  by (auto simp: registry_ok_def dest!: map_of_SomeD)

lemma status_set_status:
  "registry_ok rt \<Longrightarrow> status_of x (set_status y st err rt) = (if x = y \<and> status_of x rt \<noteq> None then Some st else status_of x rt)"
  using registry_entry[of rt x] registry_entry[of rt y]
  by (cases "map_of (rt_registry rt) x"; cases "map_of (rt_registry rt) y")
     (auto simp: status_of_def find_replica_def set_status_def update_object_def nth_list_update)

lemma registry_set_status: "registry_ok rt \<Longrightarrow> registry_ok (set_status y st err rt)"
  by (rule registry_ok_update[of rt])
     (auto simp: set_status_def update_object_def intro!: map_update_same split: option.splits)

lemma status_remove: "status_of x (remove_replica y rt) = (if x = y then None else status_of x rt)"
  by (simp add: status_of_def find_replica_def remove_replica_def AList.delete_conv')

lemma registry_remove: "registry_ok rt \<Longrightarrow> registry_ok (remove_replica y rt)"
  by (auto simp: registry_ok_def remove_replica_def AList.delete_eq)

lemma status_register:
  "registry_ok rt \<Longrightarrow> status_of x (register spec pid n rt) = (if x = lp_replica_id spec then Some Starting else status_of x rt)"
  using registry_entry[of rt x]
  by (cases "map_of (rt_registry rt) x")
     (auto simp: status_of_def find_replica_def register_def add_replica_def update_object_def Let_def AList.update_conv' nth_append nth_list_update)

lemma in_update: "(k, v) \<in> set (AList.update x y al) \<Longrightarrow> (k = x \<and> v = y) \<or> (k, v) \<in> set al"
  by (induction al) (auto split: if_splits)

lemma registry_register: "registry_ok rt \<Longrightarrow> registry_ok (register spec pid n rt)"
  by (auto simp: registry_ok_def register_def add_replica_def update_object_def Let_def nth_append nth_list_update new_replica_state_def
      dest!: in_update)

lemmas status_rules = status_set_status status_remove status_register registry_set_status registry_remove registry_register

section \<open>Launch specifications carry the port and the replica's name\<close>

locale spec_builder =
  fixes build :: "nat \<Rightarrow> int \<Rightarrow> replica_error + launch_spec" and name :: "nat \<Rightarrow> string"
  assumes built_port: "build i p = Inr spec \<Longrightarrow> lp_port spec = p"
    and built_id: "build i p = Inr spec \<Longrightarrow> lp_replica_id spec = name i"
    and name_inject: "name i = name j \<Longrightarrow> i = j"

definition adapter_launch_spec ::
    "engine_name \<Rightarrow> string option \<Rightarrow> launch_site \<Rightarrow> model_profile \<Rightarrow> candidate_plan \<Rightarrow> nat \<Rightarrow> launch_error + launch_spec" where
  "adapter_launch_spec e rv = (case e of VLLM \<Rightarrow> vllm_launch_spec rv | SGLANG \<Rightarrow> sglang_launch_spec rv
     | FAKE \<Rightarrow> (\<lambda>s m p i. Inl (Engine_not_found ''fake'')))"

definition adapter_build :: "engine_name \<Rightarrow> string option \<Rightarrow> replica_env \<Rightarrow> nat \<Rightarrow> int \<Rightarrow> replica_error + launch_spec" where
  "adapter_build e rv rn = build_spec (rn\<lparr>rn_build_launch_spec := adapter_launch_spec e rv\<rparr>)"

lemma adapter_spec: "adapter_launch_spec e rv s m p i = Inr spec \<Longrightarrow> lp_port spec = lt_bind_port s \<and> lp_replica_id spec = cp_id p @ ''-r'' @ str_nat i"
  by (cases e) (auto simp: adapter_launch_spec_def vllm_launch_spec_def sglang_launch_spec_def finish_spec_def Let_def
      split: option.splits sum.splits)

interpretation adapters: spec_builder "adapter_build e rv rn" "\<lambda>i. cp_id (rn_plan rn) @ ''-r'' @ str_nat i"
proof
  fix i p spec assume "adapter_build e rv rn i p = Inr spec"
  then show "lp_port spec = p" "lp_replica_id spec = cp_id (rn_plan rn) @ ''-r'' @ str_nat i"
    using adapter_spec[of e rv] by (fastforce simp: adapter_build_def build_spec_def split: sum.splits prod.splits)+
qed simp

section \<open>The invariant of a start without interruptions\<close>

fun task_process :: "launch_task \<Rightarrow> nat option" where
  "task_process (Polling spec k) = Some k" | "task_process (Ending spec k f) = Some k"
| "task_process (Launched r) = rl_process r" | "task_process t = None"

text \<open>Every running process belongs to a task.\<close>

definition owned :: "fleet \<Rightarrow> bool" where
  "owned s \<longleftrightarrow> (\<forall>k < length (fl_procs s). fl_procs s ! k \<longrightarrow> (\<exists>t \<in> set (fl_tasks s). task_process t = Some k))"

definition all_done :: "fleet \<Rightarrow> bool" where
  "all_done s \<longleftrightarrow> list_all task_done (fl_tasks s) \<and> fl_replicas s = List.map_filter task_replica (fl_tasks s)"

definition phase_ok :: "nat \<Rightarrow> fleet \<Rightarrow> bool" where
  "phase_ok n s \<longleftrightarrow>
     (case fl_phase s of
        Starting_first \<Rightarrow> length (fl_tasks s) = 1 \<and> fl_replicas s = []
      | Spawning \<Rightarrow> fl_tasks s \<noteq> [] \<and> length (fl_tasks s) \<le> n \<and> (\<exists>r. fl_tasks s ! 0 = Launched r \<and> fl_replicas s = [r])
      | Gathering \<Rightarrow> length (fl_tasks s) = n \<and> n \<noteq> 0 \<and> (\<exists>r. fl_tasks s ! 0 = Launched r \<and> fl_replicas s = [r])
      | Cleaning e \<Rightarrow> all_done s \<and> Raised e \<in> set (fl_tasks s)
      | Started \<Rightarrow> all_done s \<and> length (fl_tasks s) = max 1 n \<and> list_all (\<lambda>t. task_replica t \<noteq> None) (fl_tasks s)
      | Start_failed e ok \<Rightarrow> all_done s \<and> Raised e \<in> set (fl_tasks s) \<and> (ok \<longrightarrow> list_all Not (fl_procs s)) \<and> fl_ports s = [])"

definition ports_ok :: "port_allocator \<Rightarrow> fleet \<Rightarrow> bool" where
  "ports_ok a0 s \<longleftrightarrow> allocator_ok (fl_alloc s) \<and> distinct (fl_ports s) \<and> set (fl_ports s) \<inter> pa_reserved a0 = {}
     \<and> pa_reserved (fl_alloc s) = pa_reserved a0 \<union> set (fl_ports s)"

definition clean_event :: "fleet_event \<Rightarrow> bool" where
  "clean_event ev \<longleftrightarrow> (case ev of Interrupt i \<Rightarrow> False | Cancel \<Rightarrow> False | Terminated i killed \<Rightarrow> killed | _ \<Rightarrow> True)"

text \<open>The cases of a step.\<close>

lemma step_cases:
  assumes "fleet_step n build ev s = Some s'" and "clean_event ev"
  obtains
    (begin_it) i w where "i < length (fl_tasks s)" "fl_tasks s ! i = Created" "s' = begin_launch build i w s"
  | (no_process) i spec m where "i < length (fl_tasks s)" "fl_tasks s ! i = Starting_process spec" "s' = set_task i (Raised (Not_started m)) s"
  | (process) i spec pid where "i < length (fl_tasks s)" "fl_tasks s ! i = Starting_process spec" "s' = process_started i spec pid s"
  | (ready) i spec k sec meta where "i < length (fl_tasks s)" "fl_tasks s ! i = Polling spec k" "s' = replica_ready i spec k sec meta s"
  | (gave_up) i spec k f where "i < length (fl_tasks s)" "fl_tasks s ! i = Polling spec k" "s' = set_task i (Ending spec k f) s"
  | (gone) i spec k f where "i < length (fl_tasks s)" "fl_tasks s ! i = Ending spec k f" "s' = replica_gone i spec k f True s"
  | (exits) k where "k < length (fl_procs s)" "s' = kill [k] s"
  | (spawn) "fl_phase s = Spawning" "length (fl_tasks s) < n" "s' = s\<lparr>fl_tasks := fl_tasks s @ [Created]\<rparr>"
  | (main) "proceed n s = Some s'"
  | (stop) e dead where "fl_phase s = Cleaning e" "s' = (snd (stop_set dead s))\<lparr>fl_phase := Start_failed e (fst (stop_set dead s))\<rparr>"
proof (cases ev)
  case (Begin i w)
  then show thesis using assms begin_it by (auto simp: fleet_step_def split: if_splits option.splits launch_task.splits)
next
  case (Process_result i r)
  then show thesis using assms no_process process by (auto simp: fleet_step_def split: if_splits option.splits launch_task.splits sum.splits)
next
  case (Ready i sec meta)
  then show thesis using assms ready by (auto simp: fleet_step_def split: if_splits option.splits launch_task.splits)
next
  case (Gave_up i f)
  then show thesis using assms gave_up by (auto simp: fleet_step_def split: if_splits option.splits launch_task.splits)
next
  case (Terminated i k)
  then show thesis using assms gone by (auto simp: fleet_step_def clean_event_def split: if_splits option.splits launch_task.splits)
next
  case (Exit k)
  then show thesis using assms exits by (auto simp: fleet_step_def split: if_splits)
next
  case Spawn
  then show thesis using assms spawn by (auto simp: fleet_step_def split: if_splits)
next
  case Proceed
  then show thesis using assms main by (auto simp: fleet_step_def)
next
  case (Stop dead)
  obtain e where e: "fl_phase s = Cleaning e" using Stop assms(1) by (auto simp: fleet_step_def split: start_phase.splits)
  moreover have "s' = (snd (stop_set dead s))\<lparr>fl_phase := Start_failed e (fst (stop_set dead s))\<rparr>"
    using Stop assms(1) e by (simp add: fleet_step_def Let_def case_prod_unfold)
  ultimately show thesis by (rule stop)
qed (use assms in \<open>auto simp: clean_event_def\<close>)

section \<open>Frame conditions\<close>

lemma set_task_simps [simp]:
  "fl_alloc (set_task i t s) = fl_alloc s" "fl_router (set_task i t s) = fl_router s" "fl_procs (set_task i t s) = fl_procs s"
  "fl_tasks (set_task i t s) = (fl_tasks s)[i := t]" "fl_replicas (set_task i t s) = fl_replicas s"
  "fl_ports (set_task i t s) = fl_ports s" "fl_phase (set_task i t s) = fl_phase s"
  by (simp_all add: set_task_def)

lemma with_router_simps [simp]:
  "fl_alloc (with_router f s) = fl_alloc s" "fl_router (with_router f s) = map_option f (fl_router s)" "fl_procs (with_router f s) = fl_procs s"
  "fl_tasks (with_router f s) = fl_tasks s" "fl_replicas (with_router f s) = fl_replicas s"
  "fl_ports (with_router f s) = fl_ports s" "fl_phase (with_router f s) = fl_phase s"
  by (simp_all add: with_router_def)

lemma kill_simps [simp]:
  "fl_alloc (kill ks s) = fl_alloc s" "fl_router (kill ks s) = fl_router s" "length (fl_procs (kill ks s)) = length (fl_procs s)"
  "k < length (fl_procs s) \<Longrightarrow> fl_procs (kill ks s) ! k \<longleftrightarrow> fl_procs s ! k \<and> k \<notin> set ks"
  "fl_tasks (kill ks s) = fl_tasks s" "fl_replicas (kill ks s) = fl_replicas s"
  "fl_ports (kill ks s) = fl_ports s" "fl_phase (kill ks s) = fl_phase s"
  by (simp_all add: kill_def)

lemma task_process_done: "task_process t = Some k \<Longrightarrow> task_done t \<Longrightarrow> \<exists>r. t = Launched r \<and> rl_process r = Some k"
  by (cases t) (auto simp: task_done_def)

section \<open>Ports\<close>

lemma begin_ports: "ports_ok a0 s \<Longrightarrow> ports_ok a0 (begin_launch build i w s)"
proof -
  assume ok: "ports_ok a0 s"
  obtain r a where a: "allocate w (fl_alloc s) = (r, a)" by force
  have al: "allocator_ok (fl_alloc s)" using ok by (simp add: ports_ok_def)
  note k = allocate_keeps[OF al a]
  show ?thesis
  proof (cases r)
    case (Inl e)
    then show ?thesis using ok k a by (auto simp: begin_launch_def ports_ok_def)
  next
    case (Inr p)
    have "begin_launch build i w s = set_task i (case build i p of Inl e \<Rightarrow> Raised e | Inr spec \<Rightarrow> Starting_process spec)
        (s\<lparr>fl_alloc := a, fl_ports := fl_ports s @ [p]\<rparr>)"
      using a Inr by (simp add: begin_launch_def Let_def split: sum.split)
    then show ?thesis using ok k(1) k(2)[OF Inr] by (auto simp: ports_ok_def)
  qed
qed

lemma stop_set_simps [simp]:
  "fl_tasks (snd (stop_set dead s)) = fl_tasks s" "fl_replicas (snd (stop_set dead s)) = fl_replicas s"
  "length (fl_procs (snd (stop_set dead s))) = length (fl_procs s)" "fl_ports (snd (stop_set dead s)) = []"
  "fl_phase (snd (stop_set dead s)) = fl_phase s"
  by (simp_all add: stop_set_def Let_def)

lemma release_list: "allocator_ok a \<Longrightarrow> pa_reserved (foldl (\<lambda>a p. release_port p a) a ps) = pa_reserved a - set ps
    \<and> allocator_ok (foldl (\<lambda>a p. release_port p a) a ps)"
  by (rule pool.give_back_all)

lemma stop_ports: "ports_ok a0 s \<Longrightarrow> ports_ok a0 (snd (stop_set dead s))"
  using release_list[of "fl_alloc s" "fl_ports s"] by (auto simp: ports_ok_def stop_set_def Let_def)

lemma proceed_keeps:
  assumes "proceed n s = Some s'"
  shows "fl_alloc s' = fl_alloc s" "fl_ports s' = fl_ports s" "fl_procs s' = fl_procs s" "fl_tasks s' = fl_tasks s" "fl_router s' = fl_router s"
  using assms by (auto simp: proceed_def Let_def split: start_phase.splits list.splits launch_task.splits if_splits)

lemma step_ports:
  assumes "fleet_step n build ev s = Some s'" "clean_event ev" "ports_ok a0 s"
  shows "ports_ok a0 s'"
  using assms(1,2)
proof (cases rule: step_cases)
  case (begin_it i w)
  then show ?thesis using begin_ports assms(3) by blast
next
  case main
  then show ?thesis using assms(3) proceed_keeps[OF main] by (simp add: ports_ok_def)
next
  case (stop e dead)
  then show ?thesis using stop_ports[OF assms(3), of dead] by (simp add: ports_ok_def)
qed (use assms(3) in \<open>simp_all add: ports_ok_def process_started_def replica_ready_def replica_gone_def\<close>)

section \<open>Processes\<close>

lemma owned_task:
  assumes "owned s" "i < length (fl_tasks s)" "task_process t = task_process (fl_tasks s ! i)"
  shows "owned (set_task i t s)"
  unfolding owned_def set_task_simps
proof (intro allI impI)
  fix k assume "k < length (fl_procs s)" "fl_procs s ! k"
  then obtain u where u: "u \<in> set (fl_tasks s)" "task_process u = Some k" using assms(1) unfolding owned_def by blast
  then obtain j where j: "j < length (fl_tasks s)" "fl_tasks s ! j = u" by (metis in_set_conv_nth)
  show "\<exists>t' \<in> set ((fl_tasks s)[i := t]). task_process t' = Some k"
  proof (cases "j = i")
    case True
    then show ?thesis using assms(2,3) j(2) u(2) set_update_memI[OF assms(2), of t] by auto
  next
    case False
    then have "(fl_tasks s)[i := t] ! j = u" using j by simp
    then show ?thesis using j u by (metis length_list_update nth_mem)
  qed
qed

lemma owned_cong: "owned s \<Longrightarrow> fl_procs s' = fl_procs s \<Longrightarrow> fl_tasks s' = fl_tasks s \<Longrightarrow> owned s'"
  by (simp add: owned_def)

lemma begin_launch_cases:
  obtains e a ps where "begin_launch build i w s = set_task i (Raised e) (s\<lparr>fl_alloc := a, fl_ports := ps\<rparr>)"
  | spec port a where "build i port = Inr spec" "allocate w (fl_alloc s) = (Inr port, a)"
      "begin_launch build i w s = set_task i (Starting_process spec) (s\<lparr>fl_alloc := a, fl_ports := fl_ports s @ [port]\<rparr>)"
proof -
  obtain r a where a: "allocate w (fl_alloc s) = (r, a)" by force
  show thesis
  proof (cases r)
    case (Inl e)
    then show thesis using a by (intro that(1)[of "Port_failed e" "fl_ports s" a]) (simp add: begin_launch_def)
  next
    case (Inr p)
    show thesis
    proof (cases "build i p")
      case (Inl e)
      then show thesis using a Inr by (intro that(1)[of e "fl_ports s @ [p]" a]) (simp add: begin_launch_def Let_def)
    next
      case b: (Inr spec)
      then show thesis using a Inr by (intro that(2)[OF b]) (simp_all add: begin_launch_def Let_def)
    qed
  qed
qed

lemma owned_kill: "owned s \<Longrightarrow> owned (kill ks s)"
  by (auto simp: owned_def)

lemma owned_gone:
  assumes "owned s" "i < length (fl_tasks s)" "task_process (fl_tasks s ! i) = Some k" "task_process t = None"
  shows "owned (set_task i t (kill [k] s))"
  unfolding owned_def
proof (intro allI impI)
  fix j assume j: "j < length (fl_procs (set_task i t (kill [k] s)))" "fl_procs (set_task i t (kill [k] s)) ! j"
  then have "j < length (fl_procs s)" "fl_procs s ! j" "j \<noteq> k" by auto
  then obtain u where u: "u \<in> set (fl_tasks s)" "task_process u = Some j" using assms(1) unfolding owned_def by blast
  then obtain l where l: "l < length (fl_tasks s)" "fl_tasks s ! l = u" by (metis in_set_conv_nth)
  have "l \<noteq> i" using l u(2) assms(3) \<open>j \<noteq> k\<close> by auto
  then have "(fl_tasks s)[i := t] ! l = u" using l by simp
  then show "\<exists>t' \<in> set (fl_tasks (set_task i t (kill [k] s))). task_process t' = Some j"
    using l u(2) by (metis length_list_update nth_mem set_task_simps(4) kill_simps(5))
qed

lemma owned_process:
  assumes "owned s" "i < length (fl_tasks s)" "task_process (fl_tasks s ! i) = None"
  shows "owned (process_started i spec pid s)"
  unfolding owned_def
proof (intro allI impI)
  let ?s = "process_started i spec pid s"
  fix j assume j: "j < length (fl_procs ?s)" "fl_procs ?s ! j"
  show "\<exists>t' \<in> set (fl_tasks ?s). task_process t' = Some j"
  proof (cases "j = length (fl_procs s)")
    case True
    have "Polling spec j \<in> set (fl_tasks ?s)" using assms(2) True by (simp add: process_started_def set_update_memI)
    then show ?thesis by force
  next
    case False
    then have "j < length (fl_procs s)" "fl_procs s ! j" using j by (auto simp: process_started_def nth_append split: if_splits)
    then obtain u where u: "u \<in> set (fl_tasks s)" "task_process u = Some j" using assms(1) unfolding owned_def by blast
    then obtain l where l: "l < length (fl_tasks s)" "fl_tasks s ! l = u" by (metis in_set_conv_nth)
    then have "l \<noteq> i" using u(2) assms(3) by auto
    then have "fl_tasks ?s ! l = u" "l < length (fl_tasks ?s)" using l by (simp_all add: process_started_def)
    then show ?thesis using u(2) by (metis nth_mem)
  qed
qed

lemma step_owned:
  assumes "fleet_step n build ev s = Some s'" "clean_event ev" "owned s"
  shows "owned s'"
  using assms(1,2)
proof (cases rule: step_cases)
  case (begin_it i w)
  show ?thesis
  proof (cases rule: begin_launch_cases[of build i w s])
    case (1 e a ps)
    have "owned (s\<lparr>fl_alloc := a, fl_ports := ps\<rparr>)" using assms(3) by (rule owned_cong) simp_all
    then show ?thesis unfolding begin_it(3) 1 using begin_it(1,2) by (intro owned_task) simp_all
  next
    case (2 spec port a)
    have "owned (s\<lparr>fl_alloc := a, fl_ports := fl_ports s @ [port]\<rparr>)" using assms(3) by (rule owned_cong) simp_all
    then show ?thesis unfolding begin_it(3) 2(3) using begin_it(1,2) by (intro owned_task) simp_all
  qed
next
  case (no_process i spec m)
  then show ?thesis using assms(3) by (simp add: owned_task)
next
  case (process i spec pid)
  then show ?thesis using assms(3) by (simp add: owned_process)
next
  case (ready i spec k sec meta)
  have "owned (with_router (set_status (lp_replica_id spec) Healthy None) s)" using assms(3) by (rule owned_cong) simp_all
  then show ?thesis unfolding ready(3) replica_ready_def using ready(1,2) by (intro owned_task) simp_all
next
  case (gave_up i spec k f)
  then show ?thesis using assms(3) by (simp add: owned_task)
next
  case (gone i spec k f)
  have "owned (set_task i (Raised (Not_ready f (lp_replica_id spec))) (kill [k] s))"
    using assms(3) gone(1,2) by (intro owned_gone) simp_all
  then show ?thesis unfolding gone(3) replica_gone_def by (rule owned_cong) simp_all
next
  case (exits k)
  then show ?thesis using assms(3) owned_kill by blast
next
  case spawn
  then show ?thesis using assms(3) by (auto simp: owned_def)
next
  case main
  then show ?thesis using assms(3) proceed_keeps[OF main] by (simp add: owned_def)
next
  case (stop e dead)
  have "owned (snd (stop_set dead s))"
  proof -
    have "owned (kill (filter (\<lambda>k. k \<in> set dead) (replica_processes (fl_replicas s))) s)" using assms(3) by (rule owned_kill)
    then show ?thesis by (rule owned_cong) (simp_all add: stop_set_def Let_def)
  qed
  then show ?thesis unfolding stop(2) by (rule owned_cong) simp_all
qed

section \<open>Phases\<close>

lemma all_done_not: "all_done s \<Longrightarrow> i < length (fl_tasks s) \<Longrightarrow> task_done (fl_tasks s ! i)"
  by (auto simp: all_done_def list_all_length)

lemma phase_task:
  assumes "phase_ok n s" "i < length (fl_tasks s)" "\<not> task_done (fl_tasks s ! i)"
    and "fl_tasks s' = (fl_tasks s)[i := t]" "fl_phase s' = fl_phase s" "fl_replicas s' = fl_replicas s"
  shows "phase_ok n s'"
proof -
  have nd: "\<not> all_done s" using assms(2,3) all_done_not by blast
  have "fl_tasks s ! 0 = Launched r \<Longrightarrow> i \<noteq> 0" for r using assms(3) by (auto simp: task_done_def intro: ccontr)
  then show ?thesis using assms nd by (auto simp: phase_ok_def split: start_phase.splits)
qed

lemma map_filter_all: "list_all task_done ts \<Longrightarrow> List.map_filter task_error ts = [] \<Longrightarrow> list_all (\<lambda>t. task_replica t \<noteq> None) ts"
  by (induction ts) (auto simp: map_filter_simps task_done_def split: option.splits)

lemma task_error_Some: "task_error t = Some e \<longleftrightarrow> t = Raised e"
  by (cases t) auto

lemma task_error_mem: "List.map_filter task_error ts = e # es \<Longrightarrow> Raised e \<in> set ts"
proof -
  assume "List.map_filter task_error ts = e # es"
  then have "e \<in> set (List.map_filter task_error ts)" by simp
  then obtain t where "t \<in> set ts" "task_error t = Some e" by (auto simp: map_filter_def)
  then show ?thesis using task_error_Some by simp
qed

lemma phase_proceed:
  assumes "proceed n s = Some s'" "phase_ok n s"
  shows "phase_ok n s'"
proof (cases "fl_phase s")
  case Starting_first
  then obtain t where t: "fl_tasks s = [t]" using assms(2) by (auto simp: phase_ok_def length_Suc_conv)
  then show ?thesis using assms Starting_first
    by (cases t) (auto simp: proceed_def phase_ok_def all_done_def task_done_def map_filter_simps)
next
  case Spawning
  then show ?thesis using assms by (auto simp: proceed_def phase_ok_def split: if_splits)
next
  case Gathering
  let ?errors = "List.map_filter task_error (tl (fl_tasks s))"
  have fin: "list_all task_done (fl_tasks s)"
    and s': "s' = s\<lparr>fl_replicas := fl_replicas s @ List.map_filter task_replica (tl (fl_tasks s)),
        fl_phase := (if ?errors = [] then Started else Cleaning (hd ?errors))\<rparr>"
    using assms(1) Gathering by (auto simp: proceed_def Let_def split: if_splits)
  obtain r ts where ts: "fl_tasks s = Launched r # ts" "fl_replicas s = [r]" "length (fl_tasks s) = n"
    using assms(2) Gathering by (auto simp: phase_ok_def neq_Nil_conv)
  have d: "all_done s'" using fin ts by (simp add: all_done_def s' map_filter_simps)
  show ?thesis
  proof (cases ?errors)
    case Nil
    then have "list_all (\<lambda>t. task_replica t \<noteq> None) (fl_tasks s)" using map_filter_all[of ts] fin ts(1) by simp
    then show ?thesis using d Nil ts by (simp add: phase_ok_def s')
  next
    case (Cons e es)
    then have "Raised e \<in> set ts" using task_error_mem ts(1) by simp
    then show ?thesis using d Cons ts(1) by (simp add: phase_ok_def s')
  qed
qed (use assms in \<open>simp_all add: proceed_def\<close>)

lemma stop_kills:
  assumes "owned s" "all_done s" "fst (stop_set dead s)"
  shows "list_all Not (fl_procs (snd (stop_set dead s)))"
proof -
  let ?s = "snd (stop_set dead s)"
  have "\<not> fl_procs ?s ! k" if k: "k < length (fl_procs ?s)" for k
  proof
    assume r: "fl_procs ?s ! k"
    have "fl_procs s ! k" using r k by (simp add: stop_set_def Let_def)
    moreover have len: "k < length (fl_procs s)" using k by simp
    ultimately obtain t where t: "t \<in> set (fl_tasks s)" "task_process t = Some k" using assms(1) by (auto simp: owned_def)
    moreover have "task_done t" using t(1) assms(2) by (auto simp: all_done_def list_all_iff)
    ultimately obtain rep where rep: "t = Launched rep" "rl_process rep = Some k" using task_process_done by blast
    then have "rep \<in> set (fl_replicas s)" using assms(2) t(1) by (force simp: all_done_def map_filter_def)
    then have "k \<in> set (replica_processes (fl_replicas s))" using rep(2) by (force simp: replica_processes_def map_filter_def)
    then have "\<not> fl_procs ?s ! k" using assms(3) by (simp add: stop_set_def Let_def list_all_iff)
    then show False using r by blast
  qed
  then show ?thesis by (simp add: list_all_length)
qed

lemma step_phase:
  assumes "fleet_step n build ev s = Some s'" "clean_event ev" "phase_ok n s" "owned s"
  shows "phase_ok n s'"
  using assms(1,2)
proof (cases rule: step_cases)
  case (begin_it i w)
  have "\<exists>t. fl_tasks s' = (fl_tasks s)[i := t] \<and> fl_phase s' = fl_phase s \<and> fl_replicas s' = fl_replicas s"
    by (cases rule: begin_launch_cases[of build i w s]) (auto simp: begin_it(3))
  then show ?thesis using phase_task[OF assms(3) begin_it(1)] begin_it(2) by (auto simp: task_done_def)
next
  case (no_process i spec m)
  then show ?thesis by (intro phase_task[OF assms(3) no_process(1)]) (simp_all add: task_done_def)
next
  case (process i spec pid)
  then show ?thesis by (intro phase_task[OF assms(3) process(1)]) (simp_all add: task_done_def process_started_def)
next
  case (ready i spec k sec meta)
  then show ?thesis by (intro phase_task[OF assms(3) ready(1)]) (simp_all add: task_done_def replica_ready_def)
next
  case (gave_up i spec k f)
  then show ?thesis by (intro phase_task[OF assms(3) gave_up(1)]) (simp_all add: task_done_def)
next
  case (gone i spec k f)
  then show ?thesis by (intro phase_task[OF assms(3) gone(1)]) (simp_all add: task_done_def replica_gone_def)
next
  case (exits k)
  have "list_all Not (fl_procs s) \<Longrightarrow> list_all Not (fl_procs (kill [k] s))" by (auto simp: list_all_length)
  then show ?thesis using assms(3) exits(2) by (auto simp: phase_ok_def all_done_def split: start_phase.splits)
next
  case spawn
  then show ?thesis using assms(3) by (auto simp: phase_ok_def nth_append)
next
  case main
  then show ?thesis using phase_proceed assms(3) by blast
next
  case (stop e dead)
  have d: "all_done s" "Raised e \<in> set (fl_tasks s)" using assms(3) stop(1) by (simp_all add: phase_ok_def)
  then show ?thesis using stop_kills[OF assms(4) d(1), of dead] by (auto simp: stop(2) phase_ok_def all_done_def)
qed

lemma failed_stays:
  assumes "fleet_step n build ev s = Some s'" "clean_event ev" "phase_ok n s" "fl_phase s = Start_failed e ok"
  shows "fl_phase s' = Start_failed e ok"
proof -
  have d: "all_done s" using assms(3,4) by (simp add: phase_ok_def)
  show ?thesis using assms(1,2)
  proof (cases rule: step_cases)
    case main
    then show ?thesis using assms(4) by (simp add: proceed_def)
  next
    case (begin_it i w)
    then show ?thesis using all_done_not[OF d begin_it(1)] by (simp add: task_done_def)
  qed (use assms(4) in \<open>simp_all add: process_started_def replica_ready_def replica_gone_def\<close>)
qed

lemma teardown_run:
  "fleet_run n build evs s = Some s' \<Longrightarrow> list_all clean_event evs \<Longrightarrow> ports_ok a0 s \<and> owned s \<and> phase_ok n s \<Longrightarrow>
     ports_ok a0 s' \<and> owned s' \<and> phase_ok n s'"
proof (induction evs arbitrary: s)
  case (Cons ev evs)
  then obtain s1 where s1: "fleet_step n build ev s = Some s1" "fleet_run n build evs s1 = Some s'" by (auto simp: bind_eq_Some_conv)
  have c: "clean_event ev" using Cons.prems(2) by simp
  have "ports_ok a0 s1 \<and> owned s1 \<and> phase_ok n s1"
    using step_ports[OF s1(1) c] step_owned[OF s1(1) c] step_phase[OF s1(1) c] Cons.prems(3) by blast
  then show ?case using Cons.IH[OF s1(2)] Cons.prems(2) by simp
qed simp

section \<open>What the tasks hold\<close>

fun task_spec :: "launch_task \<Rightarrow> launch_spec option" where
  "task_spec (Starting_process spec) = Some spec" | "task_spec (Polling spec k) = Some spec" | "task_spec (Ending spec k f) = Some spec"
| "task_spec (Launched r) = Some (rl_spec r)" | "task_spec t = None"

abbreviation task_at :: "fleet \<Rightarrow> nat \<Rightarrow> launch_task" where
  "task_at s i \<equiv> fl_tasks s ! i"

definition spec_ok :: "(nat \<Rightarrow> int \<Rightarrow> replica_error + launch_spec) \<Rightarrow> fleet \<Rightarrow> bool" where
  "spec_ok build s \<longleftrightarrow> (\<forall>i < length (fl_tasks s). \<forall>spec. task_spec (task_at s i) = Some spec \<longrightarrow>
     build i (lp_port spec) = Inr spec \<and> lp_port spec \<in> set (fl_ports s))"

definition ports_apart :: "fleet \<Rightarrow> bool" where
  "ports_apart s \<longleftrightarrow> (\<forall>i < length (fl_tasks s). \<forall>j < length (fl_tasks s). \<forall>p q. i \<noteq> j \<longrightarrow>
     task_spec (task_at s i) = Some p \<longrightarrow> task_spec (task_at s j) = Some q \<longrightarrow> lp_port p \<noteq> lp_port q)"

definition launched_ok :: "fleet \<Rightarrow> bool" where
  "launched_ok s \<longleftrightarrow> (\<forall>i < length (fl_tasks s). \<forall>r. task_at s i = Launched r \<longrightarrow>
     rl_index r = i \<and> rl_ready r \<and> rl_process r \<noteq> None)"

definition task_status :: "launch_task \<Rightarrow> (string \<times> replica_status) option" where
  "task_status t = (case t of Polling spec k \<Rightarrow> Some (lp_replica_id spec, Starting)
     | Launched r \<Rightarrow> Some (replica_id r, Healthy) | _ \<Rightarrow> None)"

definition routed :: "fleet \<Rightarrow> bool" where
  "routed s \<longleftrightarrow> (\<forall>rt. fl_router s = Some rt \<longrightarrow> registry_ok rt \<and>
     (\<forall>i < length (fl_tasks s). \<forall>x st. task_status (task_at s i) = Some (x, st) \<longrightarrow> status_of x rt = Some st))"

lemma spec_ok_task:
  "spec_ok build s \<Longrightarrow> i < length (fl_tasks s) \<Longrightarrow> fl_tasks s' = (fl_tasks s)[i := t] \<Longrightarrow> set (fl_ports s) \<subseteq> set (fl_ports s') \<Longrightarrow>
     (\<And>spec. task_spec t = Some spec \<Longrightarrow> build i (lp_port spec) = Inr spec \<and> lp_port spec \<in> set (fl_ports s')) \<Longrightarrow> spec_ok build s'"
  by (auto simp: spec_ok_def nth_list_update)

lemma ports_apart_task:
  "ports_apart s \<Longrightarrow> i < length (fl_tasks s) \<Longrightarrow> fl_tasks s' = (fl_tasks s)[i := t] \<Longrightarrow>
     (\<And>spec j q. task_spec t = Some spec \<Longrightarrow> j < length (fl_tasks s) \<Longrightarrow> j \<noteq> i \<Longrightarrow> task_spec (task_at s j) = Some q \<Longrightarrow> lp_port q \<noteq> lp_port spec)
     \<Longrightarrow> ports_apart s'"
  unfolding ports_apart_def by (simp add: nth_list_update) metis

lemma launched_ok_task:
  "launched_ok s \<Longrightarrow> i < length (fl_tasks s) \<Longrightarrow> fl_tasks s' = (fl_tasks s)[i := t] \<Longrightarrow>
     (\<And>r. t = Launched r \<Longrightarrow> rl_index r = i \<and> rl_ready r \<and> rl_process r \<noteq> None) \<Longrightarrow> launched_ok s'"
  by (auto simp: launched_ok_def nth_list_update)

lemma routed_task:
  assumes "routed s" "i < length (fl_tasks s)" "fl_tasks s' = (fl_tasks s)[i := t]" "fl_router s' = map_option f (fl_router s)"
    and "\<And>rt. registry_ok rt \<Longrightarrow> registry_ok (f rt)"
    and "\<And>rt x st. registry_ok rt \<Longrightarrow> task_status t = Some (x, st) \<Longrightarrow>
          (\<And>y sy. task_status (task_at s i) = Some (y, sy) \<Longrightarrow> status_of y rt = Some sy) \<Longrightarrow> status_of x (f rt) = Some st"
    and "\<And>rt j x st. registry_ok rt \<Longrightarrow> j < length (fl_tasks s) \<Longrightarrow> j \<noteq> i \<Longrightarrow> task_status (task_at s j) = Some (x, st) \<Longrightarrow>
          status_of x (f rt) = status_of x rt"
  shows "routed s'"
  unfolding routed_def
proof (intro allI impI conjI)
  fix rt' assume "fl_router s' = Some rt'"
  then obtain rt where rt: "fl_router s = Some rt" "rt' = f rt" using assms(4) by (cases "fl_router s") auto
  have ok: "registry_ok rt" using assms(1) rt(1) by (simp add: routed_def)
  then show "registry_ok rt'" using assms(5) rt(2) by simp
  fix j x st assume j: "j < length (fl_tasks s')" "task_status (task_at s' j) = Some (x, st)"
  show "status_of x rt' = Some st"
  proof (cases "j = i")
    case True
    then have "task_status t = Some (x, st)" using j(2) assms(2,3) by simp
    then show ?thesis unfolding rt(2) using assms(6)[OF ok] assms(1,2) rt(1) by (auto simp: routed_def)
  next
    case False
    then have "task_status (task_at s j) = Some (x, st)" "j < length (fl_tasks s)" using j assms(3) by simp_all
    moreover from this have "status_of x rt = Some st" using assms(1) rt(1) by (auto simp: routed_def)
    ultimately show ?thesis unfolding rt(2) using assms(7)[OF ok] False by simp
  qed
qed

context spec_builder begin

definition filed :: "fleet \<Rightarrow> bool" where
  "filed s \<longleftrightarrow> spec_ok build s \<and> ports_apart s \<and> launched_ok s \<and> routed s"

lemma spec_name:
  assumes "spec_ok build s" "i < length (fl_tasks s)" "task_spec (task_at s i) = Some spec"
  shows "lp_replica_id spec = name i"
proof -
  have "build i (lp_port spec) = Inr spec" using assms by (simp add: spec_ok_def)
  then show ?thesis by (rule built_id)
qed

lemma status_spec: "task_status t = Some (x, st) \<Longrightarrow> \<exists>spec. task_spec t = Some spec \<and> x = lp_replica_id spec"
  by (cases t) (auto simp: task_status_def replica_id_def)

lemma status_name: "spec_ok build s \<Longrightarrow> i < length (fl_tasks s) \<Longrightarrow> task_status (task_at s i) = Some (x, st) \<Longrightarrow> x = name i"
  using status_spec spec_name by blast

text \<open>A step that replaces one task by one with the same specification or none.\<close>

lemma filed_task:
  assumes f: "filed s" and i: "i < length (fl_tasks s)" "fl_tasks s' = (fl_tasks s)[i := t]" "fl_ports s' = fl_ports s"
    and spec: "task_spec t = None \<or> task_spec t = task_spec (task_at s i)"
    and launched: "\<And>r. t = Launched r \<Longrightarrow> rl_index r = i \<and> rl_ready r \<and> rl_process r \<noteq> None"
    and router: "fl_router s' = map_option g (fl_router s)" "\<And>rt. registry_ok rt \<Longrightarrow> registry_ok (g rt)"
      "\<And>rt x. registry_ok rt \<Longrightarrow> x \<noteq> name i \<Longrightarrow> status_of x (g rt) = status_of x rt"
      "\<And>rt x st. registry_ok rt \<Longrightarrow> task_status t = Some (x, st) \<Longrightarrow>
          (\<And>y sy. task_status (task_at s i) = Some (y, sy) \<Longrightarrow> status_of y rt = Some sy) \<Longrightarrow> status_of x (g rt) = Some st"
  shows "filed s'"
proof -
  have s: "spec_ok build s" "ports_apart s" "launched_ok s" "routed s" using f by (simp_all add: filed_def)
  have "spec_ok build s'"
    by (rule spec_ok_task[OF s(1) i(1,2)]) (use spec s(1) i in \<open>auto simp: spec_ok_def\<close>)
  moreover have "ports_apart s'"
    by (rule ports_apart_task[OF s(2) i(1,2)]) (use spec s(2) i(1) in \<open>auto simp: ports_apart_def\<close>)
  moreover have "launched_ok s'" by (rule launched_ok_task[OF s(3) i(1,2) launched])
  moreover have "routed s'"
  proof (rule routed_task[OF s(4) i(1,2) router(1,2)])
    fix rt j x st assume "registry_ok rt" "j < length (fl_tasks s)" "j \<noteq> i" "task_status (task_at s j) = Some (x, st)"
    moreover from this have "x \<noteq> name i" using status_name[OF s(1)] name_inject by metis
    ultimately show "status_of x (g rt) = status_of x rt" using router(3) by blast
  qed (use router(4) in blast)+
  ultimately show ?thesis by (simp add: filed_def)
qed

lemma filed_cong:
  "filed s \<Longrightarrow> fl_tasks s' = fl_tasks s \<Longrightarrow> fl_ports s' = fl_ports s \<Longrightarrow> fl_router s' = fl_router s \<Longrightarrow> filed s'"
  by (simp add: filed_def spec_ok_def ports_apart_def launched_ok_def routed_def)

lemma filed_plain:
  assumes "filed s" "i < length (fl_tasks s)" "task_spec t = None \<or> task_spec t = task_spec (task_at s i)" "task_status t = None" "\<nexists>r. t = Launched r"
  shows "filed (set_task i t s)"
  by (rule filed_task[OF assms(1,2), where g = "\<lambda>rt. rt" and t = t]) (use assms in \<open>auto simp: option.map_ident\<close>)

lemma filed_begin:
  assumes f: "filed s" and p: "ports_ok a0 s" and i: "i < length (fl_tasks s)" "task_at s i = Created"
  shows "filed (begin_launch build i w s)"
proof (cases rule: begin_launch_cases[of build i w s])
  case (1 e a ps)
  obtain r a1 where a1: "allocate w (fl_alloc s) = (r, a1)" by force
  have sub: "set (fl_ports s) \<subseteq> set (fl_ports (begin_launch build i w s))" using a1
    by (cases r; cases "build i (projr r)") (auto simp: begin_launch_def Let_def)
  have "filed (begin_launch build i w s) \<longleftrightarrow> filed (set_task i (Raised e) (s\<lparr>fl_ports := fl_ports (begin_launch build i w s)\<rparr>))"
    unfolding filed_def spec_ok_def ports_apart_def launched_ok_def routed_def by (simp add: 1)
  moreover have "filed (s\<lparr>fl_ports := fl_ports (begin_launch build i w s)\<rparr>)"
    using f sub by (auto simp: filed_def spec_ok_def ports_apart_def launched_ok_def routed_def)
  ultimately show ?thesis using filed_plain[of "s\<lparr>fl_ports := fl_ports (begin_launch build i w s)\<rparr>" i "Raised e"] i
    by (simp add: task_status_def)
next
  case (2 spec port a)
  let ?s = "begin_launch build i w s"
  have al: "allocator_ok (fl_alloc s)" using p by (simp add: ports_ok_def)
  have fresh: "port \<notin> set (fl_ports s)" using allocate_keeps(2)[OF al 2(2) refl] p by (auto simp: ports_ok_def)
  have port: "lp_port spec = port" using built_port[OF 2(1)] .
  have s: "spec_ok build s" "ports_apart s" "launched_ok s" "routed s" using f by (simp_all add: filed_def)
  have tasks: "fl_tasks ?s = (fl_tasks s)[i := Starting_process spec]" "fl_ports ?s = fl_ports s @ [port]" "fl_router ?s = map_option (\<lambda>rt. rt) (fl_router s)"
    by (simp_all add: 2 option.map_ident)
  have "spec_ok build ?s" by (rule spec_ok_task[OF s(1) i(1) tasks(1)]) (use 2(1) port tasks(2) in auto)
  moreover have "ports_apart ?s"
  proof (rule ports_apart_task[OF s(2) i(1) tasks(1)])
    fix sp j q assume "task_spec (Starting_process spec) = Some sp" "j < length (fl_tasks s)" "task_spec (task_at s j) = Some q"
    then have "lp_port q \<in> set (fl_ports s)" "sp = spec" using s(1) by (auto simp: spec_ok_def)
    then show "lp_port q \<noteq> lp_port sp" using fresh port by auto
  qed
  moreover have "launched_ok ?s" by (rule launched_ok_task[OF s(3) i(1) tasks(1)]) auto
  moreover have "routed ?s" by (rule routed_task[OF s(4) i(1) tasks(1,3)]) (auto simp: task_status_def)
  ultimately show ?thesis by (simp add: filed_def)
qed

lemma step_filed:
  assumes "fleet_step n build ev s = Some s'" "clean_event ev" "ports_ok a0 s" "filed s" "\<forall>e ok. fl_phase s' \<noteq> Start_failed e ok"
  shows "filed s'"
  using assms(1,2)
proof (cases rule: step_cases)
  case (begin_it i w)
  then show ?thesis using filed_begin[OF assms(4,3)] by blast
next
  case (no_process i spec m)
  show ?thesis unfolding no_process(3) by (rule filed_plain[OF assms(4) no_process(1)]) (simp_all add: task_status_def)
next
  case (process i spec pid)
  have name_i: "lp_replica_id spec = name i" using spec_name[of s i spec] assms(4) process by (simp add: filed_def)
  show ?thesis unfolding process(3)
    by (rule filed_task[OF assms(4) process(1), where g = "register spec (Some pid) 0" and t = "Polling spec (length (fl_procs s))"])
       (use process(2) name_i in \<open>auto simp: process_started_def task_status_def status_rules\<close>)
next
  case (ready i spec k sec meta)
  have name_i: "lp_replica_id spec = name i" using spec_name[of s i spec] assms(4) ready by (simp add: filed_def)
  show ?thesis unfolding ready(3) replica_ready_def
    by (rule filed_task[OF assms(4) ready(1), where g = "set_status (lp_replica_id spec) Healthy None"])
       (use ready(2) name_i in \<open>auto simp: task_status_def replica_id_def status_rules\<close>)
next
  case (gave_up i spec k f)
  show ?thesis unfolding gave_up(3) by (rule filed_plain[OF assms(4) gave_up(1)]) (simp_all add: gave_up(2) task_status_def)
next
  case (gone i spec k f)
  have name_i: "lp_replica_id spec = name i" using spec_name[of s i spec] assms(4) gone by (simp add: filed_def)
  show ?thesis unfolding gone(3) replica_gone_def
    by (rule filed_task[OF assms(4) gone(1), where g = "set_status (lp_replica_id spec) Stopped (Some (cf_message f))" and t = "Raised (Not_ready f (lp_replica_id spec))"])
       (use gone(2) name_i in \<open>auto simp: task_status_def status_rules\<close>)
next
  case (exits k)
  then show ?thesis using assms(4) filed_cong by simp
next
  case spawn
  then show ?thesis using assms(4)
    by (auto simp: filed_def spec_ok_def ports_apart_def launched_ok_def routed_def nth_append task_status_def less_Suc_eq)
next
  case main
  then show ?thesis using assms(4) filed_cong proceed_keeps[OF main] by blast
next
  case (stop e dead)
  then have "fl_phase s' = Start_failed e (fst (stop_set dead s))" by simp
  then show ?thesis using assms(5) by blast
qed

definition start_inv :: "port_allocator \<Rightarrow> nat \<Rightarrow> fleet \<Rightarrow> bool" where
  "start_inv a0 n s \<longleftrightarrow> ports_ok a0 s \<and> owned s \<and> phase_ok n s \<and> ((\<forall>e ok. fl_phase s \<noteq> Start_failed e ok) \<longrightarrow> filed s)"

lemma start_inv_step:
  assumes "start_inv a0 n s" "fleet_step n build ev s = Some s'" "clean_event ev"
  shows "start_inv a0 n s'"
proof -
  have "filed s'" if "\<forall>e ok. fl_phase s' \<noteq> Start_failed e ok"
  proof -
    have "\<forall>e ok. fl_phase s \<noteq> Start_failed e ok" using failed_stays[OF assms(2,3)] that assms(1) by (auto simp: start_inv_def)
    then show ?thesis using step_filed[OF assms(2,3) _ _ that] assms(1) unfolding start_inv_def by blast
  qed
  then show ?thesis
    using step_ports[OF assms(2,3)] step_owned[OF assms(2,3)] step_phase[OF assms(2,3)] assms(1) unfolding start_inv_def by blast
qed

lemma start_inv_run:
  "fleet_run n build evs s = Some s' \<Longrightarrow> list_all clean_event evs \<Longrightarrow> start_inv a0 n s \<Longrightarrow> start_inv a0 n s'"
proof (induction evs arbitrary: s)
  case (Cons ev evs)
  then obtain s1 where "fleet_step n build ev s = Some s1" "fleet_run n build evs s1 = Some s'" by (auto simp: bind_eq_Some_conv)
  then show ?case using Cons start_inv_step by auto
qed simp

lemma start_inv_new:
  assumes "allocator_ok a0" and "\<forall>rt. rt0 = Some rt \<longrightarrow> registry_ok rt"
  shows "start_inv a0 n (new_fleet a0 rt0)"
  using assms by (simp add: start_inv_def ports_ok_def owned_def phase_ok_def filed_def spec_ok_def ports_apart_def launched_ok_def
      routed_def task_status_def new_fleet_def)

lemma started_tasks:
  assumes "start_inv a0 n s" "fl_phase s = Started"
  shows "fl_tasks s = map Launched (fl_replicas s)" "length (fl_replicas s) = max 1 n" "filed s"
proof -
  have "list_all (\<lambda>t. task_replica t \<noteq> None) ts \<Longrightarrow> ts = map Launched (List.map_filter task_replica ts)" for ts
  proof (induction ts)
    case (Cons t ts)
    then show ?case by (cases t) (simp_all add: map_filter_simps)
  qed (simp add: map_filter_simps)
  then show t: "fl_tasks s = map Launched (fl_replicas s)" using assms by (simp add: start_inv_def phase_ok_def all_done_def)
  show "length (fl_replicas s) = max 1 n" using assms arg_cong[OF t, of length] by (simp add: start_inv_def phase_ok_def)
  show "filed s" using assms by (simp add: start_inv_def)
qed

lemma started_replicas:
  assumes "start_inv a0 n s" "fl_phase s = Started"
  shows "map rl_index (fl_replicas s) = [0..<max 1 n]" "distinct (map (\<lambda>r. lp_port (rl_spec r)) (fl_replicas s))"
    "list_all (\<lambda>r. rl_ready r \<and> rl_process r \<noteq> None \<and> lp_port (rl_spec r) \<in> pa_reserved (fl_alloc s) - pa_reserved a0
        \<and> (\<forall>rt. fl_router s = Some rt \<longrightarrow> status_of (replica_id r) rt = Some Healthy)) (fl_replicas s)"
proof -
  note t = started_tasks[OF assms]
  have at: "i < length (fl_replicas s) \<Longrightarrow> task_at s i = Launched (fl_replicas s ! i)" for i using t(1) by simp
  have len: "length (fl_tasks s) = length (fl_replicas s)" using t(1) by simp
  have f: "spec_ok build s" "ports_apart s" "launched_ok s" "routed s" using t(3) by (simp_all add: filed_def)
  show "map rl_index (fl_replicas s) = [0..<max 1 n]"
    by (rule nth_equalityI) (use t(2) f(3) at len in \<open>auto simp: launched_ok_def\<close>)
  show "distinct (map (\<lambda>r. lp_port (rl_spec r)) (fl_replicas s))"
    unfolding distinct_conv_nth using f(2) at len by (auto simp: ports_apart_def)
  have p: "set (fl_ports s) \<subseteq> pa_reserved (fl_alloc s) - pa_reserved a0" using assms(1) by (auto simp: start_inv_def ports_ok_def)
  show "list_all (\<lambda>r. rl_ready r \<and> rl_process r \<noteq> None \<and> lp_port (rl_spec r) \<in> pa_reserved (fl_alloc s) - pa_reserved a0
        \<and> (\<forall>rt. fl_router s = Some rt \<longrightarrow> status_of (replica_id r) rt = Some Healthy)) (fl_replicas s)"
    unfolding list_all_length
  proof (intro allI impI conjI)
    fix i assume i: "i < length (fl_replicas s)"
    then have ti: "i < length (fl_tasks s)" "task_at s i = Launched (fl_replicas s ! i)" using at len by simp_all
    show "rl_ready (fl_replicas s ! i)" "rl_process (fl_replicas s ! i) \<noteq> None" using f(3) ti by (auto simp: launched_ok_def)
    have "task_spec (task_at s i) = Some (rl_spec (fl_replicas s ! i))" using ti by simp
    then show "lp_port (rl_spec (fl_replicas s ! i)) \<in> pa_reserved (fl_alloc s) - pa_reserved a0"
      using f(1) ti(1) p by (auto simp: spec_ok_def)
    fix rt assume "fl_router s = Some rt"
    moreover have "task_status (task_at s i) = Some (replica_id (fl_replicas s ! i), Healthy)" using ti by (simp add: task_status_def)
    ultimately show "status_of (replica_id (fl_replicas s ! i)) rt = Some Healthy" using f(4) ti(1) by (auto simp: routed_def)
  qed
qed

end

section \<open>The start of a replica set\<close>


text \<open>
  C27: A successful start is complete: the replicas of the set are those of the plan, numbered in order, each reported ready
  with a process and a port of its own that was reserved for it during the start, and each is healthy in the router.
\<close>

theorem started_set_complete:
  assumes "allocator_ok a0" and "rt_registry rt0 = []" and "list_all clean_event evs"
    and "fleet_run n (adapter_build engine version rn) evs (new_fleet a0 (Some rt0)) = Some s" and "fl_phase s = Started"
  shows "map rl_index (fl_replicas s) = [0..<max 1 n] \<and> distinct (map (\<lambda>r. lp_port (rl_spec r)) (fl_replicas s))
    \<and> list_all (\<lambda>r. rl_ready r \<and> rl_process r \<noteq> None \<and> lp_port (rl_spec r) \<in> pa_reserved (fl_alloc s) - pa_reserved a0
        \<and> (\<forall>rt. fl_router s = Some rt \<longrightarrow> status_of (replica_id r) rt = Some Healthy)) (fl_replicas s)"
proof -
  have "adapters.start_inv engine version rn a0 n (new_fleet a0 (Some rt0))"
    using assms(1,2) by (intro adapters.start_inv_new) (auto simp: registry_ok_def)
  then have "adapters.start_inv engine version rn a0 n s" using adapters.start_inv_run[OF assms(4,3)] by blast
  from adapters.started_replicas[OF this assms(5)] show ?thesis by blast
qed

section \<open>Sample runs\<close>

definition sample_pool :: port_allocator where
  "sample_pool = \<lparr>pa_start = 5, pa_end = 6, pa_host = ''127.0.0.1'', pa_reserved = {6}, pa_cursor = 5\<rparr>"

lemma sample_pool_ok: "allocator_ok sample_pool"
  by (simp add: allocator_ok_def sample_pool_def)

lemma sample_allocate: "\<exists>a. allocate (\<lambda>h p. True) sample_pool = (Inr 5, a)"
  by (simp add: allocate_def span_def sample_pool_def port_is_free_def numeral_2_eq_2)

definition sample_spec :: "int \<Rightarrow> launch_spec" where
  "sample_spec p = \<lparr>lp_executable = ''python'', lp_args = [], lp_env = [], lp_cwd = None, lp_host = ''127.0.0.1'', lp_port = p,
     lp_gpu_ids = [0], lp_redacted_display_command = [], lp_replica_id = ''r0'', lp_node_id = None, lp_node_ip = None,
     lp_readiness_path = ''/v1/models'', lp_health_path = ''/health''\<rparr>"

definition sample_failure_run :: "fleet_event list" where
  "sample_failure_run = [Begin 0 (\<lambda>h p. True), Process_result 0 (Inr 7), Gave_up 0 None, Terminated 0 True, Proceed, Stop []]"

lemmas run_simps = fleet_step_def begin_launch_def process_started_def replica_ready_def replica_gone_def proceed_def
  stop_set_def Let_def task_done_def replica_processes_def map_filter_simps set_task_def with_router_def kill_def new_fleet_def


text \<open>
  An interruption while a replica is starting leaks its engine: the starting coroutine fails, tears the set down and
  reports that every process is gone, but the process of the interrupted replica, which is not yet among the set's
  replicas, still runs.
\<close>

theorem interrupted_start_leaks:
  "\<exists>s. fleet_run 1 (\<lambda>i p. Inr (sample_spec p)) [Begin 0 (\<lambda>h p. True), Process_result 0 (Inr 7), Interrupt 0, Proceed, Stop [0]]
      (new_fleet sample_pool None) = Some s \<and> fl_phase s = Start_failed Interrupted True \<and> fl_procs s = [True]"
proof -
  obtain a where a: "allocate (\<lambda>h p. True) sample_pool = (Inr 5, a)" using sample_allocate by blast
  show ?thesis by (simp add: run_simps a)
qed

definition sample_env :: replica_env where
  "sample_env = \<lparr>rn_plan = base_plan ''p'' VLLM [[0]] 1 1 8192, rn_model = demo_model, rn_hardware = demo_host, rn_host = ''127.0.0.1'',
     rn_served_model_name = None, rn_trust_remote_code = False, rn_python = ''/venv/bin/python'', rn_os_environ = [],
     rn_working_dir = ''/'', rn_build_launch_spec = (\<lambda>s m p i. Inl (No_gpu_group i))\<rparr>"

lemma sample_build: "\<exists>spec. adapter_build VLLM (Some ''0.9.1'') sample_env 0 5 = Inr spec"
  by (simp add: adapter_build_def build_spec_def sample_env_def replica_gpus_def base_plan_def node_for_def demo_host_def snap_gpu_def
      demo_gpu_def adapter_launch_spec_def vllm_launch_spec_def Let_def)

definition sample_start_run :: "fleet_event list" where
  "sample_start_run = [Begin 0 (\<lambda>h p. True), Process_result 0 (Inr 7), Ready 0 1 [], Proceed]"

definition sample_router :: router where
  "sample_router = the (new_router None None 8)"

theorem started_set_complete_witness:
  "\<exists>s r. fleet_run 1 (adapter_build VLLM (Some ''0.9.1'') sample_env) sample_start_run (new_fleet sample_pool (Some sample_router)) = Some s
     \<and> fl_replicas s = [r] \<and> rl_index r = 0 \<and> rl_ready r"
proof -
  obtain a where a: "allocate (\<lambda>h p. True) sample_pool = (Inr 5, a)" using sample_allocate by blast
  obtain spec where spec: "adapter_build VLLM (Some ''0.9.1'') sample_env 0 5 = Inr spec" using sample_build by blast
  let ?r = "fleet_run 1 (adapter_build VLLM (Some ''0.9.1'') sample_env) sample_start_run (new_fleet sample_pool (Some sample_router))"
  have "\<exists>s. ?r = Some s \<and> fl_phase s = Started"
    by (simp add: sample_start_run_def run_simps a spec)
  then obtain s where s: "?r = Some s" "fl_phase s = Started" by blast
  have c: "list_all clean_event sample_start_run" by (simp add: sample_start_run_def clean_event_def)
  have "rt_registry sample_router = []" by (simp add: sample_router_def new_router_def install_semaphore_def)
  from started_set_complete[OF sample_pool_ok this c s] show ?thesis using s(1) by (cases "fl_replicas s") auto
qed

end
