(* ===== verification/Health.thy ===== *)
theory Health
  imports Replica_Start
begin

text \<open>
  Health checking, \<^verbatim>\<open>runtime/health.py\<close>, and the restart of one replica, \<^verbatim>\<open>ReplicaSet.restart_replica\<close> of
  \<^verbatim>\<open>runtime/replicas.py\<close>: a pass over the replicas (dead ones are restarted within a budget, live ones are probed),
  the settling of the probes, and the restart tasks, interleaved step by step. Events are kept without their wall-clock
  prefix. \<open>he_scheduled\<close> is a history variable: the restarts ever scheduled with the clock readings they were scheduled at.
\<close>

section \<open>Restarting one replica\<close>

text \<open>The task of a restart: created, in its backoff, waiting for the launcher, waiting for readiness.\<close>

datatype restart_phase = Queued | Asleep | Relaunching launch_spec int | Reprobing launch_spec nat

record restart_task =
  rk_replica :: replica
  rk_attempt :: nat
  rk_phase :: restart_phase

text \<open>The old process is told to end; the router forgets the replica but its restart count is carried over.\<close>

definition next_restarts :: "string \<Rightarrow> router option \<Rightarrow> int" where
  "next_restarts rid rt = (case Option.bind rt (find_replica rid) of None \<Rightarrow> 1 | Some st \<Rightarrow> rs_restarts st + 1)"

definition begin_restart ::
    "(nat \<Rightarrow> int \<Rightarrow> replica_error + launch_spec) \<Rightarrow> replica \<Rightarrow> bool \<Rightarrow> fleet \<Rightarrow> (replica_error + restart_phase) \<times> fleet" where
  "begin_restart build r killed s =
     (let s1 = kill (if killed then (case rl_process r of None \<Rightarrow> [] | Some k \<Rightarrow> [k]) else []) s;
          restarts = next_restarts (replica_id r) (fl_router s);
          s2 = with_router (remove_replica (replica_id r)) s1
      in (case build (rl_index r) (lp_port (rl_spec r)) of Inl e \<Rightarrow> Inl e | Inr spec \<Rightarrow> Inr (Relaunching spec restarts), s2))"

definition crash_failure :: "string \<Rightarrow> candidate_failure" where
  "crash_failure message = \<lparr>cf_type = ENGINE_CRASH, cf_message = message, cf_stderr_tail = [], cf_stdout_tail = [],
     cf_exit_code = None, cf_stage = Some ''restart''\<rparr>"

definition restart_failed :: "launch_spec \<Rightarrow> candidate_failure \<Rightarrow> fleet \<Rightarrow> fleet" where
  "restart_failed spec f s = with_router (set_status (lp_replica_id spec) Unhealthy (Some (cf_message f))) s"

text \<open>After the launcher: registered in any case, under the carried count.\<close>

definition relaunched :: "launch_spec \<Rightarrow> int \<Rightarrow> string + int \<Rightarrow> fleet \<Rightarrow> (replica_error + restart_phase) \<times> fleet" where
  "relaunched spec restarts result s =
     (case result of
        Inl message \<Rightarrow>
          (Inl (Not_ready (crash_failure message) (lp_replica_id spec)),
           restart_failed spec (crash_failure message) (with_router (register spec None restarts) s))
      | Inr pid \<Rightarrow>
          (Inr (Reprobing spec (length (fl_procs s))),
           with_router (register spec (Some pid) restarts) (s\<lparr>fl_procs := fl_procs s @ [True]\<rparr>)))"

fun replace_first :: "('a \<Rightarrow> bool) \<Rightarrow> 'a \<Rightarrow> 'a list \<Rightarrow> 'a list" where
  "replace_first P y [] = []"
| "replace_first P y (x # xs) = (if P x then y # xs else x # replace_first P y xs)"

definition came_up :: "replica \<Rightarrow> launch_spec \<Rightarrow> nat \<Rightarrow> float64 \<Rightarrow> (string \<times> json) list \<Rightarrow> fleet \<Rightarrow> fleet" where
  "came_up r spec k seconds meta s =
     (let fresh = \<lparr>rl_index = rl_index r, rl_spec = spec, rl_process = Some k, rl_ready = True,
                   rl_launch_seconds = Some seconds, rl_metadata = meta\<rparr>
      in (with_router (set_status (lp_replica_id spec) Healthy None) s)\<lparr>fl_replicas := replace_first (\<lambda>x. x = r) fresh (fl_replicas s)\<rparr>)"

definition stayed_down :: "launch_spec \<Rightarrow> nat \<Rightarrow> candidate_failure option \<Rightarrow> bool \<Rightarrow> fleet \<Rightarrow> replica_error \<times> fleet" where
  "stayed_down spec k failure killed s =
     (let f = the_or failure unknown_failure
      in (Not_ready f (lp_replica_id spec), restart_failed spec f (kill (if killed then [k] else []) s)))"

section \<open>The health checker\<close>

record health_config =
  hc_unhealthy_after :: int
  hc_max_restarts :: int
  hc_restart_window :: float64
  hc_restart_backoff :: float64
  hc_restart_enabled :: bool

definition DEFAULT_UNHEALTHY_AFTER_FAILURES :: int where "DEFAULT_UNHEALTHY_AFTER_FAILURES = 3"
definition DEFAULT_REPLICA_MAX_RESTARTS :: int where "DEFAULT_REPLICA_MAX_RESTARTS = 3"
definition DEFAULT_REPLICA_RESTART_WINDOW_SECONDS :: float64 where "DEFAULT_REPLICA_RESTART_WINDOW_SECONDS = 600"
definition DEFAULT_REPLICA_RESTART_BACKOFF_SECONDS :: float64 where "DEFAULT_REPLICA_RESTART_BACKOFF_SECONDS = 10"

definition default_health_config :: health_config where
  "default_health_config = \<lparr>hc_unhealthy_after = DEFAULT_UNHEALTHY_AFTER_FAILURES, hc_max_restarts = DEFAULT_REPLICA_MAX_RESTARTS,
     hc_restart_window = DEFAULT_REPLICA_RESTART_WINDOW_SECONDS, hc_restart_backoff = DEFAULT_REPLICA_RESTART_BACKOFF_SECONDS,
     hc_restart_enabled = True\<rparr>"

record health =
  he_fleet :: fleet
  he_restart_times :: "(nat \<times> float64 list) list"
  he_restarting :: "nat set"
  he_tasks :: "restart_task list"
  he_live :: "replica list"
  he_events :: "string list"
  he_clock :: float64
  he_scheduled :: "(nat \<times> float64) list"

definition new_health :: "fleet \<Rightarrow> float64 \<Rightarrow> health" where
  "new_health s now = \<lparr>he_fleet = s, he_restart_times = [], he_restarting = {}, he_tasks = [], he_live = [], he_events = [],
     he_clock = now, he_scheduled = []\<rparr>"

text \<open>At most the last 200 events are kept.\<close>

definition record_event :: "string \<Rightarrow> health \<Rightarrow> health" where
  "record_event e h = h\<lparr>he_events := (let es = he_events h @ [e] in drop (length es - 200) es)\<rparr>"

definition on_fleet :: "(fleet \<Rightarrow> fleet) \<Rightarrow> health \<Rightarrow> health" where
  "on_fleet f h = h\<lparr>he_fleet := f (he_fleet h)\<rparr>"

definition mark :: "string \<Rightarrow> replica_status \<Rightarrow> string option \<Rightarrow> health \<Rightarrow> health" where
  "mark rid st err = on_fleet (with_router (set_status rid st err))"

text \<open>The restarts of a replica still inside the window.\<close>

definition recent_restarts :: "float64 \<Rightarrow> float64 \<Rightarrow> float64 list \<Rightarrow> float64 list" where
  "recent_restarts window now ts = dropWhile (\<lambda>t. window < fl_sub now t) ts"

definition restart_times :: "nat \<Rightarrow> health \<Rightarrow> float64 list" where
  "restart_times i h = (case map_of (he_restart_times h) i of None \<Rightarrow> [] | Some ts \<Rightarrow> ts)"

definition handle_dead :: "health_config \<Rightarrow> replica \<Rightarrow> string \<Rightarrow> float64 \<Rightarrow> health \<Rightarrow> health" where
  "handle_dead cfg r reason now h =
     (let rid = replica_id r; i = rl_index r;
          h1 = record_event (rid @ '' died: '' @ reason) (mark rid Unhealthy (Some reason) h)
      in if \<not> hc_restart_enabled cfg then mark rid Stopped (Some reason) h1
         else
           (let recent = recent_restarts (hc_restart_window cfg) now (restart_times i h1);
                h2 = h1\<lparr>he_restart_times := AList.update i recent (he_restart_times h1)\<rparr>
            in if hc_max_restarts cfg \<le> int (length recent)
               then record_event (rid @ '' exceeded '' @ str_int (hc_max_restarts cfg) @ '' restarts in ''
                      @ fmt_f 0 (hc_restart_window cfg) @ ''s; giving up'')
                      (mark rid Stopped (Some ''restart budget exhausted'') h2)
               else h2\<lparr>he_restart_times := AList.update i (recent @ [now]) (he_restart_times h2),
                       he_restarting := insert i (he_restarting h2),
                       he_tasks := he_tasks h2 @ [\<lparr>rk_replica = r, rk_attempt = length recent + 1, rk_phase = Queued\<rparr>],
                       he_scheduled := he_scheduled h2 @ [(i, now)]\<rparr>))"

text \<open>The process of a replica as the checker sees it: gone when it has one that does not run.\<close>

definition process_gone :: "fleet \<Rightarrow> replica \<Rightarrow> bool" where
  "process_gone s r \<longleftrightarrow> (case rl_process r of None \<Rightarrow> False | Some k \<Rightarrow> \<not> (k < length (fl_procs s) \<and> fl_procs s ! k))"

definition state_of :: "replica \<Rightarrow> health \<Rightarrow> replica_state option" where
  "state_of r h = Option.bind (fl_router (he_fleet h)) (find_replica (replica_id r))"

definition exit_reason :: "int option \<Rightarrow> string" where
  "exit_reason code = ''process exited with code '' @ str_opt str_int code"

text \<open>The first half of a pass; \<open>readings\<close> are what the monotonic clock and the exit codes give for the dead replicas.\<close>

fun scan :: "health_config \<Rightarrow> replica list \<Rightarrow> (float64 \<times> int option) list \<Rightarrow> health \<Rightarrow> health option" where
  "scan cfg [] readings h = Some h"
| "scan cfg (r # rs) readings h =
     (if rl_index r \<in> he_restarting h then scan cfg rs readings h
      else (case state_of r h of
              None \<Rightarrow> scan cfg rs readings h
            | Some st \<Rightarrow>
                if rs_status st = Stopped then scan cfg rs readings h
                else if process_gone (he_fleet h) r
                then (case readings of
                        [] \<Rightarrow> None
                      | (now, code) # rds \<Rightarrow>
                          if now < he_clock h then None
                          else scan cfg rs rds (handle_dead cfg r (exit_reason code) now (h\<lparr>he_clock := now\<rparr>)))
                else scan cfg rs readings (h\<lparr>he_live := he_live h @ [r]\<rparr>)))"

text \<open>A probe asks two endpoints; any answer below 500 is a sign of life.\<close>

definition probe_ok :: "http_reply \<Rightarrow> http_reply \<Rightarrow> bool" where
  "probe_ok health_reply readiness_reply \<longleftrightarrow> answered health_reply \<or> answered readiness_reply"

definition update_state :: "string \<Rightarrow> (replica_state \<Rightarrow> replica_state) \<Rightarrow> router \<Rightarrow> router" where
  "update_state rid f rt = (case map_of (rt_registry rt) rid of None \<Rightarrow> rt | Some a \<Rightarrow> update_object a f rt)"

definition settle_probe :: "health_config \<Rightarrow> replica \<times> bool \<Rightarrow> health \<Rightarrow> health" where
  "settle_probe cfg rp h =
     (let r = fst rp; rid = replica_id r
      in case state_of r h of
           None \<Rightarrow> h
         | Some st \<Rightarrow>
             if snd rp then
               (let h1 = (if rs_status st = Unhealthy then record_event (rid @ '' recovered'') h else h);
                    h2 = (if rs_status st \<noteq> Healthy then mark rid Healthy None h1 else h1)
                in on_fleet (with_router (update_state rid (\<lambda>x. x\<lparr>rs_consecutive_health_failures := 0\<rparr>))) h2)
             else
               (let n = rs_consecutive_health_failures st + 1;
                    h1 = on_fleet (with_router (update_state rid (\<lambda>x. x\<lparr>rs_consecutive_health_failures := n\<rparr>))) h
                in if hc_unhealthy_after cfg \<le> n \<and> rs_status st = Healthy
                   then record_event (rid @ '' marked unhealthy after '' @ str_int n @ '' failed probes'')
                          (mark rid Unhealthy (Some ''health probe failing'') h1)
                   else h1))"

definition settle :: "health_config \<Rightarrow> bool list \<Rightarrow> health \<Rightarrow> health" where
  "settle cfg results h = (foldl (\<lambda>h rp. settle_probe cfg rp h) h (zip (he_live h) results))\<lparr>he_live := []\<rparr>"

section \<open>The restart tasks\<close>

definition restart_delay :: "health_config \<Rightarrow> nat \<Rightarrow> float64" where
  "restart_delay cfg n = fl_mul (hc_restart_backoff cfg) (2 ^ (n - 1))"

definition end_restart :: "nat \<Rightarrow> string \<Rightarrow> health \<Rightarrow> health" where
  "end_restart j message h =
     (let t = he_tasks h ! j
      in (record_event message h)\<lparr>he_restarting := he_restarting h - {rl_index (rk_replica t)},
            he_tasks := take j (he_tasks h) @ drop (Suc j) (he_tasks h)\<rparr>)"

definition set_restart :: "nat \<Rightarrow> restart_phase \<Rightarrow> health \<Rightarrow> health" where
  "set_restart j p h = h\<lparr>he_tasks := (he_tasks h)[j := (he_tasks h ! j)\<lparr>rk_phase := p\<rparr>]\<rparr>"

definition error_text :: "replica_error \<Rightarrow> string" where
  "error_text e = (case e of Not_ready f rid \<Rightarrow> rid @ '': '' @ cf_message f | _ \<Rightarrow> [])"

definition failed_message :: "replica \<Rightarrow> replica_error \<Rightarrow> string" where
  "failed_message r e = replica_id r @ '' restart failed: '' @ error_text e"

text \<open>One step of restart task \<open>j\<close>; the answers of the outside world are those its phase waits for.\<close>

datatype restart_input = Run | Wake bool | Relaunch_result "string + int" | Probe_ready float64 "(string \<times> json) list"
  | Probe_failed "candidate_failure option" bool

definition restart_step ::
    "health_config \<Rightarrow> (nat \<Rightarrow> int \<Rightarrow> replica_error + launch_spec) \<Rightarrow> nat \<Rightarrow> restart_input \<Rightarrow> health \<Rightarrow> health option" where
  "restart_step cfg build j inp h =
     (if length (he_tasks h) \<le> j then None
      else
        (let t = he_tasks h ! j; r = rk_replica t
         in case (rk_phase t, inp) of
              (Queued, Run) \<Rightarrow>
                Some (set_restart j Asleep (record_event (''restarting '' @ replica_id r @ '' in ''
                   @ fmt_f 0 (restart_delay cfg (rk_attempt t)) @ ''s (attempt '' @ str_nat (rk_attempt t) @ ''/''
                   @ str_int (hc_max_restarts cfg) @ '')'') h))
            | (Asleep, Wake killed) \<Rightarrow>
                (case begin_restart build r killed (he_fleet h) of
                   (Inl e, s) \<Rightarrow> Some (end_restart j (failed_message r e) (h\<lparr>he_fleet := s\<rparr>))
                 | (Inr p, s) \<Rightarrow> Some (set_restart j p (h\<lparr>he_fleet := s\<rparr>)))
            | (Relaunching spec n, Relaunch_result res) \<Rightarrow>
                (case relaunched spec n res (he_fleet h) of
                   (Inl e, s) \<Rightarrow> Some (end_restart j (failed_message r e) (h\<lparr>he_fleet := s\<rparr>))
                 | (Inr p, s) \<Rightarrow> Some (set_restart j p (h\<lparr>he_fleet := s\<rparr>)))
            | (Reprobing spec k, Probe_ready seconds meta) \<Rightarrow>
                Some (end_restart j (lp_replica_id spec @ '' restarted successfully'') (on_fleet (came_up r spec k seconds meta) h))
            | (Reprobing spec k, Probe_failed failure killed) \<Rightarrow>
                (case stayed_down spec k failure killed (he_fleet h) of
                   (e, s) \<Rightarrow> Some (end_restart j (failed_message r e) (h\<lparr>he_fleet := s\<rparr>)))
            | _ \<Rightarrow> None))"

section \<open>Steps of the checker\<close>

datatype health_event =
    Scan "(float64 \<times> int option) list"
  | Settle "bool list"
  | Restart nat restart_input
  | Process_exit nat

definition health_step ::
    "health_config \<Rightarrow> (nat \<Rightarrow> int \<Rightarrow> replica_error + launch_spec) \<Rightarrow> health_event \<Rightarrow> health \<Rightarrow> health option" where
  "health_step cfg build ev h =
     (case ev of
        Scan readings \<Rightarrow> if he_live h = [] then scan cfg (fl_replicas (he_fleet h)) readings h else None
      | Settle results \<Rightarrow> if length results = length (he_live h) then Some (settle cfg results h) else None
      | Restart j inp \<Rightarrow> restart_step cfg build j inp h
      | Process_exit k \<Rightarrow> if k < length (fl_procs (he_fleet h)) then Some (on_fleet (kill [k]) h) else None)"

inductive checks :: "health_config \<Rightarrow> (nat \<Rightarrow> int \<Rightarrow> replica_error + launch_spec) \<Rightarrow> health \<Rightarrow> health \<Rightarrow> bool"
  for cfg build where
  start: "checks cfg build h h"
| step: "checks cfg build h0 h \<Longrightarrow> health_step cfg build ev h = Some h' \<Longrightarrow> checks cfg build h0 h'"

text \<open>\<^verbatim>\<open>HealthChecker.stop\<close>: the restart tasks are cancelled wherever they are.\<close>

definition stop_health :: "health \<Rightarrow> health" where
  "stop_health h = h\<lparr>he_restarting := {}, he_tasks := [], he_live := []\<rparr>"

section \<open>At most one restart per replica at a time\<close>

definition task_indices :: "health \<Rightarrow> nat list" where
  "task_indices h = map (\<lambda>t. rl_index (rk_replica t)) (he_tasks h)"

definition exclusive :: "health \<Rightarrow> bool" where
  "exclusive h \<longleftrightarrow> distinct (task_indices h) \<and> he_restarting h = set (task_indices h)"

lemma record_event_simps [simp]:
  "he_fleet (record_event e h) = he_fleet h" "he_restart_times (record_event e h) = he_restart_times h"
  "he_restarting (record_event e h) = he_restarting h" "he_tasks (record_event e h) = he_tasks h" "he_live (record_event e h) = he_live h"
  "he_clock (record_event e h) = he_clock h" "he_scheduled (record_event e h) = he_scheduled h"
  by (simp_all add: record_event_def)

lemma on_fleet_simps [simp]:
  "he_fleet (on_fleet f h) = f (he_fleet h)" "he_restart_times (on_fleet f h) = he_restart_times h"
  "he_restarting (on_fleet f h) = he_restarting h" "he_tasks (on_fleet f h) = he_tasks h" "he_live (on_fleet f h) = he_live h"
  "he_clock (on_fleet f h) = he_clock h" "he_scheduled (on_fleet f h) = he_scheduled h"
  by (simp_all add: on_fleet_def)

lemma mark_simps [simp]:
  "he_restart_times (mark x st e h) = he_restart_times h"
  "he_restarting (mark x st e h) = he_restarting h" "he_tasks (mark x st e h) = he_tasks h" "he_live (mark x st e h) = he_live h"
  "he_clock (mark x st e h) = he_clock h" "he_scheduled (mark x st e h) = he_scheduled h"
  by (simp_all add: mark_def)

text \<open>What a pass does to a dead replica: nothing new, or one more restart inside the budget.\<close>

lemma handle_dead_cases:
  fixes cfg r reason now h
  defines "i \<equiv> rl_index r" and "recent \<equiv> recent_restarts (hc_restart_window cfg) now (restart_times (rl_index r) h)"
    and "h' \<equiv> handle_dead cfg r reason now h"
  obtains
    (unchanged) "he_restart_times h' = he_restart_times h" "he_restarting h' = he_restarting h" "he_tasks h' = he_tasks h"
      "he_clock h' = he_clock h" "he_scheduled h' = he_scheduled h"
  | (given_up) "hc_max_restarts cfg \<le> int (length recent)" "he_restart_times h' = AList.update i recent (he_restart_times h)"
      "he_restarting h' = he_restarting h" "he_tasks h' = he_tasks h" "he_clock h' = he_clock h" "he_scheduled h' = he_scheduled h"
  | (restart) "int (length recent) < hc_max_restarts cfg" "he_restart_times h' = AList.update i (recent @ [now]) (AList.update i recent (he_restart_times h))"
      "he_restarting h' = insert i (he_restarting h)" "he_tasks h' = he_tasks h @ [\<lparr>rk_replica = r, rk_attempt = length recent + 1, rk_phase = Queued\<rparr>]"
      "he_clock h' = he_clock h" "he_scheduled h' = he_scheduled h @ [(i, now)]"
proof (cases "hc_restart_enabled cfg")
  case False
  then show thesis by (intro unchanged) (simp_all add: h'_def handle_dead_def Let_def)
next
  case True
  have rt: "restart_times i (record_event e (mark x st err h)) = restart_times i h" for e x st err by (simp add: restart_times_def)
  show thesis
  proof (cases "hc_max_restarts cfg \<le> int (length recent)")
    case b: True
    show thesis by (rule given_up) (use True b rt in \<open>simp_all add: h'_def handle_dead_def Let_def recent_def i_def\<close>)
  next
    case b: False
    show thesis by (rule restart) (use True b rt in \<open>simp_all add: h'_def handle_dead_def Let_def recent_def i_def\<close>)
  qed
qed

text \<open>An invariant of the passes.\<close>

lemma scan_invariant:
  assumes "scan cfg rs readings h = Some h'" "P cfg h"
    and dead: "\<And>cfg r reason now h. P cfg h \<Longrightarrow> he_clock h \<le> now \<Longrightarrow> rl_index r \<notin> he_restarting h \<Longrightarrow> P cfg (handle_dead cfg r reason now (h\<lparr>he_clock := now\<rparr>))"
    and live: "\<And>cfg r h. P cfg h \<Longrightarrow> P cfg (h\<lparr>he_live := he_live h @ [r]\<rparr>)"
  shows "P cfg h'"
  using assms(1,2)
proof (induction cfg rs readings h rule: scan.induct)
  case (2 cfg r rs readings h)
  show ?case
  proof (cases "rl_index r \<in> he_restarting h")
    case True
    then show ?thesis using 2 by simp
  next
    case free: False
    show ?thesis
    proof (cases "state_of r h")
      case None
      then show ?thesis using 2 free by simp
    next
      case (Some st)
      show ?thesis
      proof (cases "rs_status st = Stopped")
        case True
        then show ?thesis using 2 free Some by simp
      next
        case up: False
        show ?thesis
        proof (cases "process_gone (he_fleet h) r")
          case gone: True
          obtain now code rds where rd: "readings = (now, code) # rds" "\<not> now < he_clock h"
            using 2(6) free Some up gone by (auto split: list.splits if_splits)
          note ih = 2(4)[OF free Some up gone rd(1) refl rd(2)]
          have "scan cfg rs rds (handle_dead cfg r (exit_reason code) now (h\<lparr>he_clock := now\<rparr>)) = Some h'"
            using 2(6) free Some up gone rd by simp
          moreover have "P cfg (handle_dead cfg r (exit_reason code) now (h\<lparr>he_clock := now\<rparr>))"
            using dead[OF 2(7), of now r] free rd(2) by simp
          ultimately show ?thesis by (rule ih)
        next
          case False
          then show ?thesis using 2(5)[OF free Some up False] 2(6,7) free Some up live by simp
        qed
      qed
    qed
  qed
qed simp

lemma settle_probe_simps [simp]:
  "he_restart_times (settle_probe cfg rp h) = he_restart_times h" "he_restarting (settle_probe cfg rp h) = he_restarting h"
  "he_tasks (settle_probe cfg rp h) = he_tasks h" "he_clock (settle_probe cfg rp h) = he_clock h"
  "he_scheduled (settle_probe cfg rp h) = he_scheduled h"
  by (simp_all add: settle_probe_def Let_def split: option.split)

lemma settle_simps [simp]:
  "he_restart_times (settle cfg bs h) = he_restart_times h" "he_restarting (settle cfg bs h) = he_restarting h"
  "he_tasks (settle cfg bs h) = he_tasks h" "he_clock (settle cfg bs h) = he_clock h" "he_scheduled (settle cfg bs h) = he_scheduled h"
proof -
  have "he_restart_times (foldl (\<lambda>h rp. settle_probe cfg rp h) h rps) = he_restart_times h
      \<and> he_restarting (foldl (\<lambda>h rp. settle_probe cfg rp h) h rps) = he_restarting h
      \<and> he_tasks (foldl (\<lambda>h rp. settle_probe cfg rp h) h rps) = he_tasks h
      \<and> he_clock (foldl (\<lambda>h rp. settle_probe cfg rp h) h rps) = he_clock h
      \<and> he_scheduled (foldl (\<lambda>h rp. settle_probe cfg rp h) h rps) = he_scheduled h" for rps
    by (induction rps arbitrary: h) simp_all
  then show "he_restart_times (settle cfg bs h) = he_restart_times h" "he_restarting (settle cfg bs h) = he_restarting h"
    "he_tasks (settle cfg bs h) = he_tasks h" "he_clock (settle cfg bs h) = he_clock h" "he_scheduled (settle cfg bs h) = he_scheduled h"
    by (simp_all add: settle_def)
qed

definition same_books :: "health \<Rightarrow> health \<Rightarrow> bool" where
  "same_books h0 h \<longleftrightarrow> he_tasks h0 = he_tasks h \<and> he_restarting h0 = he_restarting h \<and> he_restart_times h0 = he_restart_times h
     \<and> he_clock h0 = he_clock h \<and> he_scheduled h0 = he_scheduled h"

lemma same_books_intros: "same_books h h" "same_books (record_event m h) h" "same_books (h\<lparr>he_fleet := s\<rparr>) h" "same_books (on_fleet f h) h"
  by (simp_all add: same_books_def)

lemma restart_step_cases:
  assumes "restart_step cfg build j inp h = Some h'"
  obtains p h0 where "j < length (he_tasks h)" "h' = set_restart j p h0" "same_books h0 h"
  | m h0 where "j < length (he_tasks h)" "h' = end_restart j m h0" "same_books h0 h"
proof -
  have j: "j < length (he_tasks h)" using assms by (simp add: restart_step_def split: if_splits)
  let ?t = "he_tasks h ! j"
  have "(\<exists>p h0. h' = set_restart j p h0 \<and> same_books h0 h) \<or> (\<exists>m h0. h' = end_restart j m h0 \<and> same_books h0 h)"
  proof (cases "rk_phase ?t")
    case Queued
    then have "\<exists>m. h' = set_restart j Asleep (record_event m h)"
      using assms j by (cases inp) (auto simp: restart_step_def Let_def)
    then show ?thesis using same_books_intros(2) by blast
  next
    case Asleep
    then obtain killed where inp: "inp = Wake killed" using assms j by (cases inp) (auto simp: restart_step_def Let_def)
    obtain x s where "begin_restart build (rk_replica ?t) killed (he_fleet h) = (x, s)" by force
    then show ?thesis using assms j Asleep inp same_books_intros(3)[where h = h and s = s]
      by (cases x) (auto simp: restart_step_def Let_def)
  next
    case (Relaunching spec n)
    then obtain res where inp: "inp = Relaunch_result res" using assms j by (cases inp) (auto simp: restart_step_def Let_def)
    obtain x s where "relaunched spec n res (he_fleet h) = (x, s)" by force
    then show ?thesis using assms j Relaunching inp same_books_intros(3)[where h = h and s = s]
      by (cases x) (auto simp: restart_step_def Let_def)
  next
    case (Reprobing spec k)
    then have "\<exists>m h0. h' = end_restart j m h0 \<and> ((\<exists>s. h0 = h\<lparr>he_fleet := s\<rparr>) \<or> (\<exists>f. h0 = on_fleet f h))"
      using assms j by (cases inp) (auto simp: restart_step_def Let_def case_prod_unfold)
    then show ?thesis using same_books_intros(3,4) by blast
  qed
  then show thesis using that j by blast
qed

lemma set_restart_simps [simp]:
  "he_restart_times (set_restart j p h) = he_restart_times h" "he_restarting (set_restart j p h) = he_restarting h"
  "he_clock (set_restart j p h) = he_clock h" "he_scheduled (set_restart j p h) = he_scheduled h"
  "task_indices (set_restart j p h) = task_indices h"
  by (simp_all add: set_restart_def task_indices_def map_update_same)

lemma end_restart_simps [simp]:
  "he_restart_times (end_restart j m h) = he_restart_times h" "he_clock (end_restart j m h) = he_clock h"
  "he_scheduled (end_restart j m h) = he_scheduled h"
  "he_restarting (end_restart j m h) = he_restarting h - {rl_index (rk_replica (he_tasks h ! j))}"
  "he_tasks (end_restart j m h) = take j (he_tasks h) @ drop (Suc j) (he_tasks h)"
  by (simp_all add: end_restart_def Let_def)

lemma distinct_delete:
  assumes "distinct xs" "j < length xs"
  shows "distinct (take j xs @ drop (Suc j) xs) \<and> set (take j xs @ drop (Suc j) xs) = set xs - {xs ! j}"
proof -
  have "xs = take j xs @ xs ! j # drop (Suc j) xs" using assms(2) by (rule id_take_nth_drop)
  then have "distinct (take j xs @ xs ! j # drop (Suc j) xs)" "set xs = set (take j xs @ xs ! j # drop (Suc j) xs)" using assms(1) by simp_all
  then show ?thesis by auto
qed

lemma exclusive_step:
  assumes "health_step cfg build ev h = Some h'" "exclusive h"
  shows "exclusive h'"
proof (cases ev)
  case (Scan readings)
  then have "scan cfg (fl_replicas (he_fleet h)) readings h = Some h'" using assms(1) by (simp add: health_step_def split: if_splits)
  then show ?thesis
  proof (rule scan_invariant[where P = "\<lambda>cfg. exclusive"])
    fix cfg and r :: replica and reason now h assume e: "exclusive h" "rl_index r \<notin> he_restarting h"
    show "exclusive (handle_dead cfg r reason now (h\<lparr>he_clock := now\<rparr>))"
      using e by (cases rule: handle_dead_cases[of cfg r reason now "h\<lparr>he_clock := now\<rparr>"]) (auto simp: exclusive_def task_indices_def)
  qed (use assms(2) in \<open>auto simp: exclusive_def task_indices_def\<close>)
next
  case (Settle bs)
  then show ?thesis using assms by (auto simp: health_step_def exclusive_def task_indices_def split: if_splits)
next
  case (Restart j inp)
  then have "restart_step cfg build j inp h = Some h'" using assms(1) by (simp add: health_step_def)
  then show ?thesis
  proof (cases rule: restart_step_cases)
    case (1 p h0)
    then have "task_indices h' = task_indices h" "he_restarting h' = he_restarting h" by (simp_all add: same_books_def) (simp add: task_indices_def)
    then show ?thesis using assms(2) by (simp add: exclusive_def)
  next
    case (2 m h0)
    have d: "distinct (task_indices h)" "he_restarting h = set (task_indices h)" using assms(2) by (simp_all add: exclusive_def)
    have "task_indices h' = take j (task_indices h) @ drop (Suc j) (task_indices h)" using 2 by (simp add: task_indices_def same_books_def take_map drop_map)
    moreover have "he_restarting h' = he_restarting h - {task_indices h ! j}" using 2 by (simp add: task_indices_def same_books_def)
    ultimately show ?thesis using distinct_delete[OF d(1), of j] 2(1) d(2) by (simp add: exclusive_def task_indices_def)
  qed
next
  case (Process_exit k)
  then show ?thesis using assms by (auto simp: health_step_def exclusive_def task_indices_def split: if_splits)
qed

section \<open>The restart budget\<close>

definition scheduled_times :: "nat \<Rightarrow> health \<Rightarrow> float64 list" where
  "scheduled_times i h = map snd (filter (\<lambda>x. fst x = i) (he_scheduled h))"

text \<open>No more than \<open>n\<close> restarts lie inside one window: the one \<open>n\<close> places later is outside it.\<close>

definition spread :: "float64 \<Rightarrow> nat \<Rightarrow> float64 list \<Rightarrow> bool" where
  "spread window n ts \<longleftrightarrow> (\<forall>j. j + n < length ts \<longrightarrow> window < fl_sub (ts ! (j + n)) (ts ! j))"

definition budget :: "float64 \<Rightarrow> nat \<Rightarrow> float64 \<Rightarrow> float64 list \<Rightarrow> float64 list \<Rightarrow> bool" where
  "budget window n now ts recent \<longleftrightarrow> spread window n ts \<and> length recent \<le> n \<and>
     (\<exists>old. ts = old @ recent \<and> (\<forall>t \<in> set old. window < fl_sub now t))"

definition within_budget :: "health_config \<Rightarrow> health \<Rightarrow> bool" where
  "within_budget cfg h \<longleftrightarrow> (\<forall>i. budget (hc_restart_window cfg) (nat (hc_max_restarts cfg)) (he_clock h) (scheduled_times i h) (restart_times i h))"

lemma fl_sub_mono: "a \<le> b \<Longrightarrow> fl_sub a t \<le> fl_sub b t"
  unfolding fl_sub_def by (rule fl_mono) simp

lemma budget_later: "budget w n now ts recent \<Longrightarrow> now \<le> now2 \<Longrightarrow> budget w n now2 ts recent"
  unfolding budget_def using fl_sub_mono[of now now2] by (metis order_less_le_trans)

lemma budget_prune:
  assumes "budget w n now ts recent"
  shows "budget w n now ts (recent_restarts w now recent)"
proof -
  obtain old where old: "ts = old @ recent" "\<forall>t \<in> set old. w < fl_sub now t" using assms by (auto simp: budget_def)
  let ?d = "takeWhile (\<lambda>t. w < fl_sub now t) recent"
  have "ts = (old @ ?d) @ recent_restarts w now recent" by (simp add: old(1) recent_restarts_def)
  moreover have "\<forall>t \<in> set (old @ ?d). w < fl_sub now t" using old(2) by (auto dest: set_takeWhileD)
  moreover have "length (recent_restarts w now recent) \<le> length recent" unfolding recent_restarts_def by (rule length_dropWhile_le)
  moreover have "spread w n ts" "length recent \<le> n" using assms by (simp_all add: budget_def)
  ultimately show ?thesis unfolding budget_def by (intro conjI exI[of _ "old @ ?d"]) simp_all
qed

lemma budget_add:
  assumes "budget w n now ts recent" "length recent < n"
  shows "budget w n now (ts @ [now]) (recent @ [now])"
proof -
  obtain old where old: "ts = old @ recent" "\<forall>t \<in> set old. w < fl_sub now t" using assms(1) by (auto simp: budget_def)
  have "spread w n (ts @ [now])" unfolding spread_def
  proof (intro allI impI)
    fix j assume j: "j + n < length (ts @ [now])"
    show "w < fl_sub ((ts @ [now]) ! (j + n)) ((ts @ [now]) ! j)"
    proof (cases "j + n < length ts")
      case True
      then show ?thesis using assms(1) by (simp add: budget_def spread_def nth_append)
    next
      case False
      then have e: "j + n = length ts" using j by simp
      then have "j < length old" using old(1) assms(2) by simp
      then have "ts ! j \<in> set old" "j < length ts" using old(1) by (simp_all add: nth_append)
      then show ?thesis using old(2) e by (simp add: nth_append)
    qed
  qed
  moreover have "ts @ [now] = old @ (recent @ [now])" by (simp add: old(1))
  ultimately show ?thesis using assms(2) old(2) unfolding budget_def by (intro conjI exI[of _ old]) simp_all
qed

lemma restart_times_update: "he_restart_times h' = AList.update i ts (he_restart_times h) \<Longrightarrow>
    restart_times k h' = (if k = i then ts else restart_times k h)"
  by (simp add: restart_times_def AList.update_conv')

lemma within_budget_dead:
  assumes "within_budget cfg h" "he_clock h \<le> now"
  shows "within_budget cfg (handle_dead cfg r reason now (h\<lparr>he_clock := now\<rparr>))"
proof -
  let ?h = "h\<lparr>he_clock := now\<rparr>" and ?i = "rl_index r" and ?w = "hc_restart_window cfg" and ?n = "nat (hc_max_restarts cfg)"
  have b: "budget ?w ?n now (scheduled_times k h) (restart_times k h)" for k
    using assms budget_later unfolding within_budget_def by blast
  have rt: "restart_times k ?h = restart_times k h" for k by (simp add: restart_times_def)
  show ?thesis
  proof (cases rule: handle_dead_cases[of cfg r reason now ?h])
    case unchanged
    then show ?thesis using b by (simp add: within_budget_def scheduled_times_def restart_times_def)
  next
    case given_up
    show ?thesis unfolding within_budget_def
    proof
      fix k
      let ?h' = "handle_dead cfg r reason now ?h"
      have t: "restart_times k ?h' = (if k = ?i then recent_restarts ?w now (restart_times ?i h) else restart_times k h)"
        using restart_times_update[of ?h' ?i _ ?h k] given_up(2) rt by simp
      have s: "scheduled_times k ?h' = scheduled_times k h" "he_clock ?h' = now" using given_up(5,6) by (simp_all add: scheduled_times_def)
      show "budget ?w ?n (he_clock ?h') (scheduled_times k ?h') (restart_times k ?h')"
        unfolding t s using b[of k] budget_prune[OF b[of ?i]] by (cases "k = ?i") simp_all
    qed
  next
    case restart
    let ?recent = "recent_restarts ?w now (restart_times ?i h)"
    show ?thesis unfolding within_budget_def
    proof
      fix k
      let ?h' = "handle_dead cfg r reason now ?h"
      have len: "length ?recent < ?n" using restart(1) rt by simp
      have t: "restart_times k ?h' = (if k = ?i then ?recent @ [now] else restart_times k h)"
        using restart(2) rt by (simp add: restart_times_def AList.update_conv')
      have s: "scheduled_times k ?h' = (if k = ?i then scheduled_times k h @ [now] else scheduled_times k h)" "he_clock ?h' = now"
        using restart(5,6) by (simp_all add: scheduled_times_def)
      show "budget ?w ?n (he_clock ?h') (scheduled_times k ?h') (restart_times k ?h')"
        unfolding t s using b[of k] budget_add[OF budget_prune[OF b[of ?i]] len] by (cases "k = ?i") simp_all
    qed
  qed
qed

lemma within_budget_cong:
  "within_budget cfg h \<Longrightarrow> he_restart_times h' = he_restart_times h \<Longrightarrow> he_clock h' = he_clock h \<Longrightarrow> he_scheduled h' = he_scheduled h
     \<Longrightarrow> within_budget cfg h'"
  by (simp add: within_budget_def scheduled_times_def restart_times_def)

lemma within_budget_step:
  assumes "health_step cfg build ev h = Some h'" "within_budget cfg h"
  shows "within_budget cfg h'"
proof (cases ev)
  case (Scan readings)
  then have "scan cfg (fl_replicas (he_fleet h)) readings h = Some h'" using assms(1) by (simp add: health_step_def split: if_splits)
  then show ?thesis
    by (rule scan_invariant[where P = within_budget]) (use assms(2) within_budget_dead in \<open>auto intro: within_budget_cong\<close>)
next
  case (Settle bs)
  then show ?thesis using assms by (auto simp: health_step_def intro: within_budget_cong split: if_splits)
next
  case (Restart j inp)
  then have "restart_step cfg build j inp h = Some h'" using assms(1) by (simp add: health_step_def)
  then show ?thesis
    by (cases rule: restart_step_cases) (auto intro!: within_budget_cong[OF assms(2)] simp: same_books_def)
next
  case (Process_exit k)
  then show ?thesis using assms by (auto simp: health_step_def intro: within_budget_cong split: if_splits)
qed

lemma checks_invariant:
  assumes "checks cfg build h0 h" "P h0" "\<And>ev h h'. health_step cfg build ev h = Some h' \<Longrightarrow> P h \<Longrightarrow> P h'"
  shows "P h"
  using assms by (induction rule: checks.induct) auto

lemma new_health_ok: "within_budget cfg (new_health s now)" "exclusive (new_health s now)"
  by (auto simp: within_budget_def budget_def spread_def scheduled_times_def restart_times_def new_health_def exclusive_def task_indices_def)

text \<open>
  C10: Restarts are bounded: whatever processes die, whatever the probes and the restarts answer and in whatever order, a
  replica is never restarted more than \<^verbatim>\<open>max_restarts\<close> times within one window; the restart that comes \<^verbatim>\<open>max_restarts\<close>
  after another is more than the window later.
\<close>

theorem restart_budget:
  assumes "checks cfg build (new_health s now) h"
  shows "spread (hc_restart_window cfg) (nat (hc_max_restarts cfg)) (scheduled_times i h)"
  using checks_invariant[OF assms, of "within_budget cfg"] new_health_ok within_budget_step
  unfolding within_budget_def budget_def by blast

text \<open>
  A replica never has two restarts under way: the pending restart tasks are those of different replicas, and they are
  exactly the replicas the checker leaves alone, so a dead replica is not restarted again before its restart has ended.
\<close>

theorem restarts_exclusive:
  assumes "checks cfg build (new_health s now) h"
  shows "distinct (map (\<lambda>t. rl_index (rk_replica t)) (he_tasks h))
    \<and> he_restarting h = set (map (\<lambda>t. rl_index (rk_replica t)) (he_tasks h))"
  using checks_invariant[OF assms, of exclusive] new_health_ok exclusive_step unfolding exclusive_def task_indices_def by blast

section \<open>A sample pass\<close>

definition sample_replica :: replica where
  "sample_replica = \<lparr>rl_index = 0, rl_spec = sample_spec 5, rl_process = Some 0, rl_ready = True, rl_launch_seconds = None, rl_metadata = []\<rparr>"

definition sample_fleet :: fleet where
  "sample_fleet = (new_fleet sample_pool (Some (register (sample_spec 5) None 0 sample_router)))
     \<lparr>fl_procs := [False], fl_replicas := [sample_replica], fl_phase := Started\<rparr>"

definition sample_checked :: health where
  "sample_checked = handle_dead default_health_config sample_replica (exit_reason (Some 1)) 1 (new_health sample_fleet 0\<lparr>he_clock := 1\<rparr>)"

lemma sample_state: "\<exists>st. state_of sample_replica (new_health sample_fleet 0) = Some st \<and> rs_status st = Starting"
  by (simp add: state_of_def new_health_def sample_fleet_def new_fleet_def sample_replica_def replica_id_def find_replica_def
      register_def add_replica_def sample_spec_def sample_router_def new_router_def install_semaphore_def update_object_def Let_def)

lemma sample_scan:
  "health_step default_health_config build (Scan [(1, Some 1)]) (new_health sample_fleet 0) = Some sample_checked"
proof -
  obtain st where "state_of sample_replica (new_health sample_fleet 0) = Some st" "rs_status st = Starting" using sample_state by blast
  moreover have "process_gone (he_fleet (new_health sample_fleet 0)) sample_replica"
    by (simp add: process_gone_def new_health_def sample_fleet_def sample_replica_def)
  moreover have "fl_replicas (he_fleet (new_health sample_fleet 0)) = [sample_replica]" "he_live (new_health sample_fleet 0) = []"
    "he_restarting (new_health sample_fleet 0) = {}" "he_clock (new_health sample_fleet 0) = 0"
    by (simp_all add: new_health_def sample_fleet_def)
  ultimately show ?thesis by (simp add: health_step_def sample_checked_def)
qed

lemma sample_checks: "checks default_health_config build (new_health sample_fleet 0) sample_checked"
  by (rule checks.step[OF checks.start sample_scan])

lemma sample_checked_books: "he_scheduled sample_checked = [(0, 1)]" "length (he_tasks sample_checked) = 1"
  by (simp_all add: sample_checked_def handle_dead_def Let_def default_health_config_def DEFAULT_REPLICA_MAX_RESTARTS_def
      restart_times_def new_health_def recent_restarts_def sample_replica_def)

theorem restart_budget_witness:
  "scheduled_times 0 sample_checked = [1] \<and> spread 600 3 (scheduled_times 0 sample_checked)"
  using restart_budget[OF sample_checks[of "\<lambda>i p. Inr (sample_spec p)"], of 0] sample_checked_books(1)
  by (simp add: scheduled_times_def default_health_config_def DEFAULT_REPLICA_MAX_RESTARTS_def DEFAULT_REPLICA_RESTART_WINDOW_SECONDS_def)

theorem restarts_exclusive_witness:
  "length (he_tasks sample_checked) = 1 \<and> he_restarting sample_checked = set (map (\<lambda>t. rl_index (rk_replica t)) (he_tasks sample_checked))"
  using restarts_exclusive[OF sample_checks[of "\<lambda>i p. Inr (sample_spec p)"]] sample_checked_books(2) by blast

end
