(* ===== verification/Capture.thy ===== *)
theory Capture
  imports Failures Redaction
begin

text \<open>
  Captured engine output, the first half of \<^verbatim>\<open>engines/process.py\<close>: the bounded line buffer of each output stream and
  the reader that fills it. A chunk of output is a list of bytes; a decoded text is the list of its UTF-8 bytes,
  so the length Python sees is the number of bytes that begin a character. The lemmas show that the buffer always holds the longest fitting end
  of everything that was written, that decoding only ever gives well-formed text and leaves well-formed text alone, and that no token
  can get from an engine's output into a failure report.
\<close>

section \<open>Decoding\<close>

definition byte :: "char \<Rightarrow> nat" where "byte c = of_char c"

definition continues :: "char \<Rightarrow> bool" where
  "continues c \<longleftrightarrow> 0x80 \<le> byte c \<and> byte c \<le> 0xBF"

text \<open>The number of bytes after a leading byte, and the range of the first of them.\<close>

definition lead :: "char \<Rightarrow> (nat \<times> nat \<times> nat) option" where
  "lead c =
     (let b = byte c
      in if 0xC2 \<le> b \<and> b \<le> 0xDF then Some (1, 0x80, 0xBF)
         else if b = 0xE0 then Some (2, 0xA0, 0xBF)
         else if b = 0xED then Some (2, 0x80, 0x9F)
         else if 0xE1 \<le> b \<and> b \<le> 0xEF then Some (2, 0x80, 0xBF)
         else if b = 0xF0 then Some (3, 0x90, 0xBF)
         else if b = 0xF4 then Some (3, 0x80, 0x8F)
         else if 0xF1 \<le> b \<and> b \<le> 0xF3 then Some (3, 0x80, 0xBF)
         else None)"

fun take_conts :: "nat \<Rightarrow> nat \<Rightarrow> nat \<Rightarrow> string \<Rightarrow> string" where
  "take_conts (Suc n) lo hi (c # s) = (if lo \<le> byte c \<and> byte c \<le> hi then c # take_conts n 0x80 0xBF s else [])"
| "take_conts _ lo hi s = []"

definition REPLACEMENT :: string where "REPLACEMENT = [CHR 0xEF, CHR 0xBF, CHR 0xBD]"

text \<open>\<^verbatim>\<open>bytes.decode("utf-8", errors="replace")\<close>: the longest beginning of a character that is cut off or goes wrong becomes one replacement character.\<close>

function decode_replace :: "string \<Rightarrow> string" where
  "decode_replace [] = []"
| "decode_replace (c # s) =
     (if byte c < 0x80 then c # decode_replace s
      else case lead c of
        None \<Rightarrow> REPLACEMENT @ decode_replace s
      | Some (n, lo, hi) \<Rightarrow>
          let t = take_conts n lo hi s
          in (if length t = n then c # t else REPLACEMENT) @ decode_replace (drop (length t) s))"
  by pat_completeness auto
termination by (relation "measure length") auto

text \<open>The number of characters of a text.\<close>

definition char_count :: "string \<Rightarrow> nat" where
  "char_count s = length (filter (\<lambda>c. \<not> continues c) s)"

inductive well_formed :: "string \<Rightarrow> bool" where
  wf_empty: "well_formed []"
| wf_ascii: "byte c < 0x80 \<Longrightarrow> well_formed s \<Longrightarrow> well_formed (c # s)"
| wf_multi: "lead c = Some (length t, lo, hi) \<Longrightarrow> take_conts (length t) lo hi t = t \<Longrightarrow> well_formed s \<Longrightarrow> well_formed (c # t @ s)"

lemma lead_high: "lead c = Some x \<Longrightarrow> \<not> byte c < 0x80"
  by (auto simp: lead_def Let_def split: if_splits)

lemma lead_bounds: "lead c = Some (n, lo, hi) \<Longrightarrow> 0x80 \<le> lo \<and> hi \<le> 0xBF"
  by (auto simp: lead_def Let_def split: if_splits)

lemma take_conts_prefix: "take_conts n lo hi s @ drop (length (take_conts n lo hi s)) s = s"
  by (induction n lo hi s rule: take_conts.induct) auto

lemma take_conts_take: "length (take_conts n lo hi s) = m \<Longrightarrow> take_conts n lo hi s = take m s"
  by (metis append_eq_conv_conj take_conts_prefix)

lemma take_conts_again: "length (take_conts n lo hi s) = n \<Longrightarrow> take_conts n lo hi (take_conts n lo hi s) = take_conts n lo hi s"
  by (induction n lo hi s rule: take_conts.induct) auto

lemma take_conts_append: "take_conts (length t) lo hi t = t \<Longrightarrow> take_conts (length t) lo hi (t @ s) = t"
proof (induction t arbitrary: lo hi)
  case (Cons a t) then show ?case by (auto split: if_splits)
qed (cases s; simp)

lemma decode_well_formed: "well_formed (decode_replace s)"
proof (induction s rule: decode_replace.induct)
  case (2 c s)
  have r: "well_formed x \<Longrightarrow> well_formed (REPLACEMENT @ x)" for x
    using wf_multi[of "CHR 0xEF" "[CHR 0xBF, CHR 0xBD]" "0x80" "0xBF" x]
    by (simp add: REPLACEMENT_def lead_def byte_def Let_def numeral_2_eq_2)
  show ?case
  proof (cases "byte c < 0x80")
    case True then show ?thesis using 2(1) by (simp add: wf_ascii)
  next
    case False
    show ?thesis
    proof (cases "lead c")
      case None then show ?thesis using 2(2) False r by simp
    next
      case (Some x)
      obtain n lo hi where x: "x = (n, lo, hi)" by (cases x)
      let ?t = "take_conts n lo hi s"
      have ih: "well_formed (decode_replace (drop (length ?t) s))" using 2(3)[OF False Some] x by simp
      have "length ?t = n \<Longrightarrow> well_formed (c # ?t @ decode_replace (drop (length ?t) s))"
        using wf_multi[of c ?t lo hi] Some x ih take_conts_again[of n lo hi s] by simp
      then show ?thesis using False Some x r[OF ih] by (simp add: Let_def)
    qed
  qed
qed (simp add: wf_empty)

lemma decode_keeps: "well_formed s \<Longrightarrow> decode_replace s = s"
proof (induction s rule: well_formed.induct)
  case (wf_multi c t lo hi s)
  then show ?case using lead_high[OF wf_multi(1)] take_conts_append[OF wf_multi(2), of s] by (simp add: Let_def)
qed auto

section \<open>The bounded buffer\<close>

definition PROCESS_LOG_TAIL_LINES :: nat where "PROCESS_LOG_TAIL_LINES = 400"
definition PROCESS_LOG_TAIL_BYTES :: int where "PROCESS_LOG_TAIL_BYTES = 256 * 1024"

text \<open>The line limit is not negative, so the queue is not popped when it is empty.\<close>

record ring_buffer =
  rb_lines :: "string list"
  rb_bytes :: int
  rb_max_lines :: nat
  rb_max_bytes :: int

definition new_ring :: "nat \<Rightarrow> int \<Rightarrow> ring_buffer" where
  "new_ring max_lines max_bytes = \<lparr>rb_lines = [], rb_bytes = 0, rb_max_lines = max_lines, rb_max_bytes = max_bytes\<rparr>"

fun drop_old :: "nat \<Rightarrow> int \<Rightarrow> string list \<Rightarrow> int \<Rightarrow> string list \<times> int" where
  "drop_old max_lines max_bytes [] b = ([], b)"
| "drop_old max_lines max_bytes (l # ls) b =
     (if max_lines < length (l # ls) \<or> (max_bytes < b \<and> 1 < length (l # ls))
      then drop_old max_lines max_bytes ls (b - int (char_count l)) else (l # ls, b))"

definition ring_append :: "string \<Rightarrow> ring_buffer \<Rightarrow> ring_buffer" where
  "ring_append line r =
     (let (ls, b) = drop_old (rb_max_lines r) (rb_max_bytes r) (rb_lines r @ [line]) (rb_bytes r + int (char_count line))
      in r\<lparr>rb_lines := ls, rb_bytes := b\<rparr>)"

definition ring_text :: "ring_buffer \<Rightarrow> string" where
  "ring_text r = str_join [CHR 0x0A] (rb_lines r)"

definition ring_length :: "ring_buffer \<Rightarrow> nat" where "ring_length r = length (rb_lines r)"

text \<open>The reference: of a complete log, drop lines from its front until the rest fits.\<close>

definition chars :: "string list \<Rightarrow> int" where "chars ls = (\<Sum>l\<leftarrow>ls. int (char_count l))"

definition fits :: "nat \<Rightarrow> int \<Rightarrow> string list \<Rightarrow> bool" where
  "fits max_lines max_bytes ls \<longleftrightarrow> length ls \<le> max_lines \<and> (chars ls \<le> max_bytes \<or> length ls \<le> 1)"

fun longest_fit :: "nat \<Rightarrow> int \<Rightarrow> string list \<Rightarrow> string list" where
  "longest_fit max_lines max_bytes [] = []"
| "longest_fit max_lines max_bytes (l # ls) =
     (if fits max_lines max_bytes (l # ls) then l # ls else longest_fit max_lines max_bytes ls)"

lemma chars_Cons [simp]: "chars (l # ls) = int (char_count l) + chars ls" and chars_Nil [simp]: "chars [] = 0"
  and chars_snoc [simp]: "chars (ls @ [l]) = chars ls + int (char_count l)"
  by (simp_all add: chars_def)

lemma chars_nonneg: "0 \<le> chars ls" by (induction ls) auto

lemma drop_old_longest: "drop_old m b ls (chars ls) = (longest_fit m b ls, chars (longest_fit m b ls))"
proof (induction ls)
  case (Cons l ls)
  have "chars (l # ls) - int (char_count l) = chars ls" by simp
  then show ?case using Cons by (auto simp: fits_def simp del: chars_Cons)
qed simp

lemma fits_init: "fits m b (ls @ [l]) \<Longrightarrow> fits m b ls"
  by (auto simp: fits_def)

lemma longest_fit_snoc: "longest_fit m b (longest_fit m b ls @ [l]) = longest_fit m b (ls @ [l])"
proof (induction ls)
  case (Cons x ls)
  show ?case
  proof (cases "fits m b (x # ls)")
    case False
    then have "\<not> fits m b ((x # ls) @ [l])" using fits_init[of m b "x # ls" l] by blast
    then show ?thesis using False Cons by simp
  qed simp
qed simp

definition ring_of :: "nat \<Rightarrow> int \<Rightarrow> string list \<Rightarrow> ring_buffer" where
  "ring_of m b ls = fold ring_append ls (new_ring m b)"

lemma ring_append_longest:
  assumes "rb_lines r = longest_fit m b ls" "rb_bytes r = chars (rb_lines r)" "rb_max_lines r = m" "rb_max_bytes r = b"
  shows "ring_append l r = r\<lparr>rb_lines := longest_fit m b (ls @ [l]), rb_bytes := chars (longest_fit m b (ls @ [l]))\<rparr>"
  using drop_old_longest[of m b "rb_lines r @ [l]"] assms longest_fit_snoc[of m b ls l] by (simp add: ring_append_def)

lemma ring_of_longest: "ring_of m b ls = \<lparr>rb_lines = longest_fit m b ls, rb_bytes = chars (longest_fit m b ls), rb_max_lines = m, rb_max_bytes = b\<rparr>"
proof (induction ls rule: rev_induct)
  case (snoc l ls)
  have "ring_of m b (ls @ [l]) = ring_append l (ring_of m b ls)" by (simp add: ring_of_def)
  then show ?case using ring_append_longest[of "ring_of m b ls" m b ls l] snoc by simp
qed (simp add: ring_of_def new_ring_def)

lemma longest_fit_drop: "\<exists>k. longest_fit m b ls = drop k ls \<and> (\<forall>j < k. \<not> fits m b (drop j ls))"
proof (induction ls)
  case Nil then show ?case by (intro exI[of _ 0]) simp
next
  case (Cons l ls)
  then obtain k where k: "longest_fit m b ls = drop k ls" "\<forall>j < k. \<not> fits m b (drop j ls)" by blast
  show ?case
  proof (cases "fits m b (l # ls)")
    case True then show ?thesis by (intro exI[of _ 0]) simp
  next
    case False
    then show ?thesis using k by (intro exI[of _ "Suc k"]) (auto simp: less_Suc_eq_0_disj)
  qed
qed

lemma longest_fit_fits: "fits m b (longest_fit m b ls)"
  by (induction ls) (auto simp: fits_def)

text \<open>
  C29: The buffer of an output stream is the longest end of the log that fits: whatever lines were appended to a new buffer, it
  holds the log without its first \<^verbatim>\<open>k\<close> lines for the least \<^verbatim>\<open>k\<close> that respects both limits (a single line may be longer
  than the character limit), and its running count is that of the lines it holds.
\<close>

theorem ring_keeps_longest_end:
  "\<exists>k. rb_lines (fold ring_append ls (new_ring m b)) = drop k ls
     \<and> fits m b (drop k ls) \<and> \<not> list_ex (\<lambda>j. fits m b (drop j ls)) [0..<k]
     \<and> rb_bytes (fold ring_append ls (new_ring m b)) = chars (drop k ls)"
proof -
  obtain k where "longest_fit m b ls = drop k ls" "\<forall>j < k. \<not> fits m b (drop j ls)" using longest_fit_drop by blast
  then show ?thesis using longest_fit_fits[of m b ls] unfolding ring_of_def[symmetric] ring_of_longest
    by (intro exI[of _ k]) (auto simp: list_ex_iff)
qed

section \<open>The readers\<close>

definition rstrip_newlines :: "string \<Rightarrow> string" where
  "rstrip_newlines s = rev (dropWhile (\<lambda>c. c = CHR 0x0D \<or> c = CHR 0x0A) (rev s))"

definition captured_line :: "string \<Rightarrow> string" where
  "captured_line raw = redact_secrets (rstrip_newlines (decode_replace raw))"

text \<open>The chunks the stream delivers, up to an empty one; the callback sees the lines in the order they are buffered.\<close>

fun pump :: "string list \<Rightarrow> ring_buffer \<Rightarrow> ring_buffer \<times> string list" where
  "pump [] r = (r, [])"
| "pump (raw # raws) r =
     (if raw = [] then (r, [])
      else (let line = captured_line raw; (r', seen) = pump raws (ring_append line r) in (r', line # seen)))"

definition output_of :: "string list \<Rightarrow> string" where
  "output_of raws = ring_text (fst (pump raws (new_ring PROCESS_LOG_TAIL_LINES PROCESS_LOG_TAIL_BYTES)))"

lemma pump_ring: "fst (pump raws r) = fold ring_append (snd (pump raws r)) r"
  by (induction raws r rule: pump.induct) (auto simp: Let_def split: prod.split)

lemma pump_seen: "snd (pump raws r) = map captured_line (takeWhile (\<lambda>raw. raw \<noteq> []) raws)"
  by (induction raws r rule: pump.induct) (auto simp: Let_def split: prod.splits)

lemma output_lines: "\<exists>k. output_of raws = str_join [CHR 0x0A] (drop k (map captured_line (takeWhile (\<lambda>raw. raw \<noteq> []) raws)))"
  using longest_fit_drop[of PROCESS_LOG_TAIL_LINES PROCESS_LOG_TAIL_BYTES "map captured_line (takeWhile (\<lambda>raw. raw \<noteq> []) raws)"]
  unfolding output_of_def ring_text_def pump_ring pump_seen ring_of_def[symmetric] ring_of_longest by auto

section \<open>No token reaches a failure report\<close>

lemma clean_search: "clean s \<longleftrightarrow> search HF_PATTERN s = None"
proof -
  have "(\<exists>u v. s = u @ v \<and> runs HF_PATTERN (rev u @ [], v) \<noteq> []) \<longleftrightarrow> \<not> clean s" by (auto simp: runs_hf clean_def)
  then show ?thesis using search_from_some[of HF_PATTERN "[]" s] unfolding search_def by auto
qed

definition factor :: "string \<Rightarrow> string \<Rightarrow> bool" where
  "factor x s \<longleftrightarrow> (\<exists>u v. s = u @ x @ v)"

lemma factor_refl [simp]: "factor x x" and factor_trans: "factor x y \<Longrightarrow> factor y z \<Longrightarrow> factor x z"
  unfolding factor_def by (metis append.left_neutral append.right_neutral) (metis append.assoc)

lemma factor_clean: "factor x s \<Longrightarrow> clean s \<Longrightarrow> clean x"
  unfolding factor_def using clean_factor clean_prefix by blast

lemma factor_append: "factor x s \<Longrightarrow> factor x (a @ s)" and factor_take: "factor (take n s) s" and factor_drop: "factor (drop n s) s"
  unfolding factor_def by (metis append.assoc) (metis append.left_neutral append_take_drop_id, metis append.right_neutral append_take_drop_id)

lemma factor_strip: "factor (py_strip s) s"
proof -
  have 1: "factor (dropWhile P x) x" for P and x :: string unfolding factor_def by (metis append.right_neutral takeWhile_dropWhile_id)
  have 2: "factor (rev (dropWhile P (rev x))) x" for P and x :: string
    unfolding factor_def by (metis append.left_neutral rev_append rev_rev_ident takeWhile_dropWhile_id)
  show ?thesis unfolding py_strip_def using 1 2 factor_trans by blast
qed

lemma find_all_factor: "m \<in> set (find_all r b s) \<Longrightarrow> factor m s"
proof (induction r b s rule: find_all.induct)
  case (1 r b s)
  show ?case
  proof (cases s)
    case Nil then show ?thesis using 1(4) by (subst (asm) find_all.simps) simp
  next
    case (Cons c cs)
    have skip: "m \<in> set (find_all r (c # b) cs) \<Longrightarrow> factor m cs \<Longrightarrow> factor m s" using factor_append[of m cs "[c]"] Cons by simp
    show ?thesis
    proof (cases "match_at r (b, s)")
      case None
      then have "m \<in> set (find_all r (c # b) cs)" using 1(4) Cons by (subst (asm) find_all.simps) simp
      then show ?thesis using 1(1)[OF Cons None] skip by simp
    next
      case (Some q)
      show ?thesis
      proof (cases "length (snd q) < length s")
        case True
        have q: "s = between (b, s) q @ snd q" using between_reaches[OF match_reaches[OF Some]] by simp
        have "m = between (b, s) q \<or> m \<in> set (find_all r (fst q) (snd q))" using 1(4) Cons Some True by (subst (asm) find_all.simps) simp
        then show ?thesis
        proof
          assume "m = between (b, s) q" then show ?thesis using q unfolding factor_def by (metis append.left_neutral)
        next
          assume "m \<in> set (find_all r (fst q) (snd q))"
          then have "factor m (snd q)" using 1(2)[OF Cons Some True] by simp
          then show ?thesis using factor_append[of m "snd q" "between (b, s) q"] q by simp
        qed
      next
        case False
        then have "m \<in> set (find_all r (c # b) cs)" using 1(4) Cons Some by (subst (asm) find_all.simps) simp
        then show ?thesis using 1(3)[OF Cons Some False] skip by simp
      qed
    qed
  qed
qed

lemma search_factor: "search_from r b s = Some m \<Longrightarrow> factor m s"
proof (induction s arbitrary: b)
  case Nil
  then show ?case by (auto simp: factor_def dest!: match_reaches between_reaches)
next
  case (Cons c s)
  show ?case
  proof (cases "match_at r (b, c # s)")
    case None then show ?thesis using Cons factor_append[of m s "[c]"] by simp
  next
    case (Some q)
    then have "c # s = m @ snd q" using Cons(2) between_reaches[OF match_reaches[OF Some]] by simp
    then show ?thesis unfolding factor_def by (metis append.left_neutral)
  qed
qed

lemma clean_Nil: "clean []"
  by (simp add: clean_def starts_token_def)

lemma clean_sep:
  assumes "clean a" "clean b" "\<not> is_alnum c" "c \<noteq> CHR ''_''"
  shows "clean (a @ c # b)"
  unfolding clean_def
proof (intro allI impI notI)
  fix u v assume uv: "a @ c # b = u @ v" and t: "starts_token v"
  obtain w r where w: "v = ''hf_'' @ w @ r" "length w = 8" "\<forall>x \<in> set w. is_alnum x" using t by (auto simp: starts_token_def)
  have no_c: "c \<notin> set (''hf_'' @ w)" using w(3) assms(3,4) by (auto simp: is_alnum_def is_lower_def)
  consider us where "a = u @ us" "us @ c # b = v" | us where "u = a @ us" "c # b = us @ v"
    using uv by (auto simp: append_eq_append_conv2)
  then show False
  proof cases
    case 1
    then have e: "us @ c # b = (''hf_'' @ w) @ r" using w(1) by simp
    show False
    proof (cases "length (''hf_'' @ w) \<le> length us")
      case True
      then have "us = (''hf_'' @ w) @ drop (length (''hf_'' @ w)) us"
        using e by (metis append_eq_append_conv_if append_take_drop_id)
      then have "starts_token us" using w unfolding starts_token_def by (metis append.assoc)
      then show False using assms(1) 1(1) by (auto simp: clean_def)
    next
      case False
      then have "c = (''hf_'' @ w) ! length us" using e by (metis not_le nth_append nth_append_length)
      then show False using no_c False by (metis not_le nth_mem)
    qed
  next
    case 2
    show False
    proof (cases us)
      case Nil
      then show False using 2(2) w(1) no_c by simp
    next
      case (Cons d ds)
      then show False using 2(2) t assms(2) by (auto simp: clean_def)
    qed
  qed
qed

lemma clean_join: "\<forall>l \<in> set ls. clean l \<Longrightarrow> clean (str_join [CHR 0x0A] ls)"
proof (induction "[CHR 0x0A]" ls rule: str_join.induct)
  case (3 x y ys)
  then show ?case using clean_sep[of x "str_join [CHR 0x0A] (y # ys)" "CHR 0x0A"]
    by (simp add: is_alnum_def is_lower_def is_upper_def is_numeral_def)
qed (simp_all add: clean_Nil)

lemma lines_factor: "l \<in> set (lines_from cur s) \<Longrightarrow> factor l (rev cur @ s)"
proof (induction cur s rule: lines_from.induct)
  case (1 cur) then show ?case by (auto split: if_splits)
next
  case (2 cur c s)
  let ?r = "if c = CHR 0x0D \<and> starts_with [CHR 0x0A] s then tl s else s"
  show ?case
  proof (cases "line_break c")
    case True
    have r: "\<exists>x. s = x @ ?r" by (cases s) (auto simp: starts_with_def)
    have "l = rev cur \<or> factor l ([] @ ?r)" using 2(1)[OF True] 2(3) True by auto
    then show ?thesis
    proof
      assume "l = rev cur" then show ?thesis unfolding factor_def by (metis append.left_neutral)
    next
      assume f: "factor l ([] @ ?r)"
      obtain x where "s = x @ ?r" using r by blast
      then have "rev cur @ c # s = (rev cur @ c # x) @ ?r" by (metis append.assoc append_Cons)
      then show ?thesis using f factor_append[of l ?r "rev cur @ c # x"] by simp
    qed
  next
    case False
    then show ?thesis using 2(2)[OF False] 2(3) by simp
  qed
qed

lemma clean_tail: "clean s \<Longrightarrow> clean (tail s n)"
  unfolding tail_def
proof (rule clean_join, rule ballI)
  fix l assume "clean s" "l \<in> set (last_items n (split_lines s))"
  then show "clean l" using last_items_subset[of n "split_lines s"] lines_factor[of l "[]" s] factor_clean
    by (auto simp: split_lines_def)
qed

lemma output_clean: "clean (output_of raws)"
proof -
  obtain k where k: "output_of raws = str_join [CHR 0x0A] (drop k (map captured_line (takeWhile (\<lambda>raw. raw \<noteq> []) raws)))"
    using output_lines by blast
  have "clean (captured_line raw)" for raw unfolding captured_line_def clean_search by (rule redacted_clean)
  then have "clean l" if "l \<in> set (drop k (map captured_line (takeWhile (\<lambda>raw. raw \<noteq> []) raws)))" for l
    using in_set_dropD[OF that] by auto
  then show ?thesis unfolding k by (intro clean_join) blast
qed

lemma plain_clean: "CHR ''_'' \<notin> set s \<Longrightarrow> clean s"
  by (auto simp: clean_def starts_token_def)

lemma str_pos_plain: "0 \<le> i \<Longrightarrow> CHR ''_'' \<notin> set (str_pos i)"
  using str_pos_digits[of i] by (auto simp: is_digit_def)

lemma headline_plain: "CHR ''_'' \<notin> set (failure_headline (engine_value e) code t)"
  by (cases e; cases t; cases code) (auto simp: str_int_def str_opt_def str_pos_plain)

lemma category_factor: "find_category cats s = Some (t, m) \<Longrightarrow> factor m s"
proof (induction cats)
  case (Cons c cats)
  have "first_found ps s = Some m \<Longrightarrow> factor m s" for ps m
    by (induction ps) (auto simp: search_def split: option.splits dest: search_factor)
  then show ?case using Cons by (cases c) (auto split: option.splits)
qed simp

lemma summary_factor: "summarize_error s = Some m \<Longrightarrow> factor m s"
proof -
  assume "summarize_error s = Some m"
  then obtain x where x: "x \<in> set (map py_strip (find_all EXCEPTION_LINE [] s))" "m = take 400 x"
    unfolding summarize_error_def Let_def
    by (auto split: if_splits) (metis (no_types, lifting) filter_is_subset image_set last_in_set list.set_map subsetD, metis last_in_set list.map_disc_iff list.set_map)
  then obtain y where "y \<in> set (find_all EXCEPTION_LINE [] s)" "m = take 400 (py_strip y)" by auto
  then show ?thesis using find_all_factor[of y] factor_strip[of y] factor_take[of 400 "py_strip y"] factor_trans by blast
qed

lemma sigkill_clean: "clean sigkill_note"
  by (rule plain_clean) (simp add: sigkill_note_def)

lemma report_clean:
  assumes "clean out" "clean err"
  shows "clean (cf_message (classify_failure code out err (engine_value e) timed))"
proof -
  let ?c = "combined_log out err"
  have c: "clean ?c" using clean_sep[OF assms, of "CHR 0x0A"]
    by (simp add: combined_log_def is_alnum_def is_lower_def is_upper_def is_numeral_def)
  have k: "snd (failure_kind code ?c timed) = Some m \<Longrightarrow> clean m" for m
    using category_factor[of FAILURE_PATTERNS ?c] factor_clean[OF _ c] sigkill_clean
    by (auto simp: failure_kind_def split: option.splits if_splits)
  then have s: "failure_summary ?c (snd (failure_kind code ?c timed)) = Some m \<Longrightarrow> clean m" for m
    using summary_factor[of ?c] factor_clean[OF _ c] by (auto simp: failure_summary_def split: option.splits if_splits)
  have h: "clean (failure_headline (engine_value e) code t)" for t by (rule plain_clean) (rule headline_plain)
  have "clean x \<Longrightarrow> clean y \<Longrightarrow> clean (x @ '': '' @ y)" for x y
    using clean_sep[of x "CHR '' '' # y" "CHR '':''"] clean_sep[of "[]" y "CHR '' ''"]
    by (simp add: is_alnum_def is_lower_def is_upper_def is_numeral_def clean_Nil)
  then show ?thesis using h s by (auto simp: classify_failure_def Let_def split: prod.split option.split)
qed


end
