(* ===== verification/Host.thy ===== *)
theory Host
  imports Capture Launch
begin

text \<open>
  The operating system as \<^verbatim>\<open>engines/process.py\<close> and \<^verbatim>\<open>runtime/state.py\<close> see it, and the supervision of engine
  processes on it. A host holds the process table, the monotonic clock, the signals that reached a process (a
  history) and what the module \<^verbatim>\<open>process.py\<close> keeps: its handles, the launcher's list of them and the process groups the exit hook
  knows. Before every system call, and during every sleep, the world may change the table in any way; what a proof needs of it is a
  hypothesis. A clock reading is exact.
\<close>

section \<open>The process table\<close>

record os_process =
  op_pid :: int
  op_pgid :: int
  op_created :: float64
  op_zombie :: bool
  op_foreign :: bool
  op_opaque :: bool

datatype os_signal = SIGTERM | SIGKILL

datatype os_error = ProcessLookupError | PermissionError

text \<open>A handle: no \<^verbatim>\<open>pid\<close> before the start; \<^verbatim>\<open>exited\<close> when a return code is known.\<close>

record managed =
  mp_spec :: launch_spec
  mp_pid :: "int option"
  mp_exited :: bool
  mp_pgid :: "int option"
  mp_create_time :: "float64 option"

record host =
  ht_table :: "os_process list"
  ht_steps :: nat
  ht_now :: rat
  ht_sent :: "(os_signal \<times> os_process) list"
  ht_handles :: "managed list"
  ht_launched :: "nat list"
  ht_live_pgids :: "int list"

text \<open>How the table changes before the \<open>n\<close>-th call and during the \<open>n\<close>-th call when it sleeps, and how long calls take.\<close>

record world =
  wd_call :: "nat \<Rightarrow> os_process list \<Rightarrow> os_process list"
  wd_sleep :: "nat \<Rightarrow> os_process list \<Rightarrow> os_process list"
  wd_lag :: "nat \<Rightarrow> rat"

definition elapse :: "world \<Rightarrow> host \<Rightarrow> host" where
  "elapse w h = h\<lparr>ht_table := wd_call w (ht_steps h) (ht_table h), ht_steps := Suc (ht_steps h),
     ht_now := ht_now h + max 0 (wd_lag w (ht_steps h))\<rparr>"

definition pause :: "world \<Rightarrow> rat \<Rightarrow> host \<Rightarrow> host" where
  "pause w seconds h = h\<lparr>ht_table := wd_sleep w (ht_steps h) (ht_table h), ht_steps := Suc (ht_steps h),
     ht_now := ht_now h + max 0 seconds + max 0 (wd_lag w (ht_steps h))\<rparr>"

definition find_process :: "int \<Rightarrow> os_process list \<Rightarrow> os_process option" where
  "find_process pid t = find (\<lambda>p. op_pid p = pid) t"

section \<open>System calls\<close>

definition os_getpgid :: "world \<Rightarrow> int \<Rightarrow> host \<Rightarrow> (os_error + int) \<times> host" where
  "os_getpgid w pid h =
     (let h1 = elapse w h
      in (case find_process pid (ht_table h1) of None \<Rightarrow> Inl ProcessLookupError | Some p \<Rightarrow> Inr (op_pgid p), h1))"

text \<open>A signal reaches the receivers the caller may signal. A killed process stays in the table until its parent collects it.\<close>

definition hit :: "os_signal \<Rightarrow> (os_process \<Rightarrow> bool) \<Rightarrow> host \<Rightarrow> host" where
  "hit sig P h = h\<lparr>ht_table := map (\<lambda>p. if sig = SIGKILL \<and> P p then p\<lparr>op_zombie := True\<rparr> else p) (ht_table h),
     ht_sent := ht_sent h @ map (Pair sig) (filter P (ht_table h))\<rparr>"

definition deliver :: "os_signal \<Rightarrow> (os_process \<Rightarrow> bool) \<Rightarrow> host \<Rightarrow> (os_error + unit) \<times> host" where
  "deliver sig P h =
     (if \<not> list_ex P (ht_table h) then (Inl ProcessLookupError, h)
      else if \<not> list_ex (\<lambda>p. P p \<and> \<not> op_foreign p) (ht_table h) then (Inl PermissionError, h)
      else (Inr (), hit sig (\<lambda>p. P p \<and> \<not> op_foreign p) h))"

definition os_kill :: "world \<Rightarrow> os_signal \<Rightarrow> int \<Rightarrow> host \<Rightarrow> (os_error + unit) \<times> host" where
  "os_kill w sig pid h = deliver sig (\<lambda>p. op_pid p = pid) (elapse w h)"

definition os_killpg :: "world \<Rightarrow> os_signal \<Rightarrow> int \<Rightarrow> host \<Rightarrow> (os_error + unit) \<times> host" where
  "os_killpg w sig pgid h = deliver sig (\<lambda>p. op_pgid p = pgid) (elapse w h)"

text \<open>The processes of a group: a list of all processes, then the group of each that still exists.\<close>

fun scan_group :: "world \<Rightarrow> int \<Rightarrow> int list \<Rightarrow> host \<Rightarrow> int list \<times> host" where
  "scan_group w pgid [] h = ([], h)"
| "scan_group w pgid (pid # pids) h =
     (case os_getpgid w pid h of
        (r, h1) \<Rightarrow> (case scan_group w pgid pids h1 of (members, h2) \<Rightarrow> (if r = Inr pgid then pid # members else members, h2)))"

definition descendant_pids :: "world \<Rightarrow> int \<Rightarrow> host \<Rightarrow> int list \<times> host" where
  "descendant_pids w pgid h = (let h1 = elapse w h in scan_group w pgid (map op_pid (ht_table h1)) h1)"

text \<open>The scan that stops at the first process of the group.\<close>

fun group_found :: "world \<Rightarrow> int \<Rightarrow> int list \<Rightarrow> host \<Rightarrow> bool \<times> host" where
  "group_found w pgid [] h = (False, h)"
| "group_found w pgid (pid # pids) h =
     (case os_getpgid w pid h of (r, h1) \<Rightarrow> if r = Inr pgid then (True, h1) else group_found w pgid pids h1)"

definition pgid_alive :: "world \<Rightarrow> int \<Rightarrow> host \<Rightarrow> bool \<times> host" where
  "pgid_alive w pgid h = (let h1 = elapse w h in group_found w pgid (map op_pid (ht_table h1)) h1)"

section \<open>A managed process\<close>

definition handle :: "host \<Rightarrow> nat \<Rightarrow> managed" where "handle h i = ht_handles h ! i"

definition set_handle :: "nat \<Rightarrow> (managed \<Rightarrow> managed) \<Rightarrow> host \<Rightarrow> host" where
  "set_handle i f h = h\<lparr>ht_handles := (ht_handles h)[i := f (ht_handles h ! i)]\<rparr>"

definition is_running :: "managed \<Rightarrow> bool" where
  "is_running m \<longleftrightarrow> mp_pid m \<noteq> None \<and> \<not> mp_exited m"

definition new_managed :: "launch_spec \<Rightarrow> managed" where
  "new_managed spec = \<lparr>mp_spec = spec, mp_pid = None, mp_exited = False, mp_pgid = None, mp_create_time = None\<rparr>"

datatype spawn_result = Missing | Not_spawned string | Spawned int float64

datatype process_error = Already_started | Executable_not_found string string | Could_not_start string string

text \<open>\<^verbatim>\<open>start\<close>: a new session, so the process leads its own group. What cannot be read of it any more stays empty.\<close>

definition start_process :: "world \<Rightarrow> nat \<Rightarrow> spawn_result \<Rightarrow> host \<Rightarrow> (process_error + unit) \<times> host" where
  "start_process w i result h =
     (let spec = mp_spec (handle h i)
      in if mp_pid (handle h i) \<noteq> None then (Inl Already_started, h)
         else (case result of
             Missing \<Rightarrow> (Inl (Executable_not_found (lp_executable spec) (lp_replica_id spec)), h)
           | Not_spawned text \<Rightarrow> (Inl (Could_not_start (lp_executable spec) text), h)
           | Spawned pid created \<Rightarrow>
               let p = \<lparr>op_pid = pid, op_pgid = pid, op_created = created, op_zombie = False, op_foreign = False, op_opaque = False\<rparr>;
                   h1 = set_handle i (\<lambda>m. m\<lparr>mp_pid := Some pid\<rparr>) (h\<lparr>ht_table := ht_table h @ [p]\<rparr>);
                   (g, h2) = os_getpgid w pid h1;
                   h3 = (case g of
                           Inl e \<Rightarrow> h2
                         | Inr pgid \<Rightarrow> set_handle i (\<lambda>m. m\<lparr>mp_pgid := Some pgid\<rparr>) (h2\<lparr>ht_live_pgids := List.insert pgid (ht_live_pgids h2)\<rparr>));
                   h4 = elapse w h3
               in (Inr (), case find_process pid (ht_table h4) of
                             None \<Rightarrow> h4 | Some q \<Rightarrow> set_handle i (\<lambda>m. m\<lparr>mp_create_time := Some (op_created q)\<rparr>) h4)))"

text \<open>
  While a coroutine waits, the event loop learns which of its processes have ended, sets their return codes and
  collects them from the table.
\<close>

definition ended :: "os_process list \<Rightarrow> int \<Rightarrow> bool" where
  "ended t pid \<longleftrightarrow> (case find_process pid t of None \<Rightarrow> True | Some p \<Rightarrow> op_zombie p)"

definition running_pids :: "host \<Rightarrow> int list" where
  "running_pids h = List.map_filter (\<lambda>m. if is_running m then mp_pid m else None) (ht_handles h)"

definition note_exit :: "os_process list \<Rightarrow> managed \<Rightarrow> managed" where
  "note_exit t m = (case mp_pid m of None \<Rightarrow> m | Some pid \<Rightarrow> if ended t pid then m\<lparr>mp_exited := True\<rparr> else m)"

definition collect :: "host \<Rightarrow> host" where
  "collect h = h\<lparr>ht_table := filter (\<lambda>p. \<not> (op_zombie p \<and> op_pid p \<in> set (running_pids h))) (ht_table h),
     ht_handles := map (\<lambda>m. if is_running m then note_exit (ht_table h) m else m) (ht_handles h)\<rparr>"

definition await_pause :: "world \<Rightarrow> rat \<Rightarrow> host \<Rightarrow> host" where
  "await_pause w seconds h = collect (pause w seconds h)"

definition wait_exit :: "world \<Rightarrow> rat \<Rightarrow> nat \<Rightarrow> host \<Rightarrow> host" where
  "wait_exit w timeout i h = (if is_running (handle h i) then await_pause w timeout h else h)"

definition signal_group :: "world \<Rightarrow> os_signal \<Rightarrow> nat \<Rightarrow> host \<Rightarrow> host" where
  "signal_group w sig i h =
     (let m = handle h i
      in case mp_pgid m of
           Some g \<Rightarrow> snd (os_killpg w sig g h)
         | None \<Rightarrow> (case mp_pid m of None \<Rightarrow> h | Some pid \<Rightarrow> if mp_exited m then h else snd (os_kill w sig pid h)))"

fun kill_pids :: "world \<Rightarrow> int list \<Rightarrow> host \<Rightarrow> host" where
  "kill_pids w [] h = h"
| "kill_pids w (pid # pids) h = kill_pids w pids (snd (os_kill w SIGKILL pid h))"

text \<open>
  \<^verbatim>\<open>terminate\<close> in the pieces between its waits: ask the group to end, after the grace time force it, then scan the group
  and kill what is left of it. Every piece runs undisturbed; others may run in between.
\<close>

datatype ending = To_ask | Asked | Forced | To_sweep | To_kill int "int list" | Ended

fun ending_step :: "world \<Rightarrow> rat \<Rightarrow> nat \<Rightarrow> ending \<times> host \<Rightarrow> ending \<times> host" where
  "ending_step w grace i (To_ask, h) =
     (if mp_pid (handle h i) = None then (Ended, h)
      else if mp_exited (handle h i) then (To_sweep, h)
      else (Asked, signal_group w SIGTERM i h))"
| "ending_step w grace i (Asked, h) =
     (let h1 = wait_exit w grace i h
      in if is_running (handle h1 i) then (Forced, signal_group w SIGKILL i h1) else (To_sweep, h1))"
| "ending_step w grace i (Forced, h) = (To_sweep, wait_exit w 10 i h)"
| "ending_step w grace i (To_sweep, h) =
     (case mp_pgid (handle h i) of
        None \<Rightarrow> (Ended, h)
      | Some g \<Rightarrow> (case descendant_pids w g h of (pids, h1) \<Rightarrow> (To_kill g pids, h1)))"
| "ending_step w grace i (To_kill g pids, h) =
     (Ended, (let h1 = kill_pids w pids h in h1\<lparr>ht_live_pgids := removeAll g (ht_live_pgids h1)\<rparr>))"
| "ending_step w grace i (Ended, h) = (Ended, h)"

definition terminate :: "world \<Rightarrow> rat \<Rightarrow> nat \<Rightarrow> host \<Rightarrow> host" where
  "terminate w grace i h = snd ((ending_step w grace i ^^ 5) (To_ask, h))"

definition group_alive :: "world \<Rightarrow> nat \<Rightarrow> host \<Rightarrow> bool \<times> host" where
  "group_alive w i h = (case mp_pgid (handle h i) of None \<Rightarrow> (False, h) | Some g \<Rightarrow> pgid_alive w g h)"

section \<open>The launcher\<close>

text \<open>\<^verbatim>\<open>LocalLauncher.launch\<close>: a process is tracked once it has started.\<close>

definition launch :: "world \<Rightarrow> launch_spec \<Rightarrow> spawn_result \<Rightarrow> host \<Rightarrow> (process_error + nat) \<times> host" where
  "launch w spec result h =
     (let i = length (ht_handles h)
      in case start_process w i result (h\<lparr>ht_handles := ht_handles h @ [new_managed spec]\<rparr>) of
           (Inl e, h1) \<Rightarrow> (Inl e, h1)
         | (Inr u, h1) \<Rightarrow> (Inr i, h1\<lparr>ht_launched := ht_launched h1 @ [i]\<rparr>))"

definition tracked :: "host \<Rightarrow> nat list" where
  "tracked h = filter (\<lambda>i. is_running (handle h i)) (ht_launched h)"

definition supports_node :: "string option \<Rightarrow> bool" where
  "supports_node node \<longleftrightarrow> node = None \<or> node = Some ''local''"

definition forget :: "nat \<Rightarrow> host \<Rightarrow> host" where
  "forget i h = h\<lparr>ht_launched := removeAll i (ht_launched h)\<rparr>"

text \<open>Several terminations at once: a schedule says whose next piece runs.\<close>

record endings =
  en_phase :: "nat \<Rightarrow> ending"
  en_host :: host

definition schedule_step :: "world \<Rightarrow> rat \<Rightarrow> nat \<Rightarrow> endings \<Rightarrow> endings" where
  "schedule_step w grace i s =
     (let (p, h) = ending_step w grace i (en_phase s i, en_host s) in s\<lparr>en_phase := (en_phase s)(i := p), en_host := h\<rparr>)"

definition gather_terminate :: "world \<Rightarrow> rat \<Rightarrow> nat list \<Rightarrow> nat list \<Rightarrow> host \<Rightarrow> endings" where
  "gather_terminate w grace handles schedule h =
     fold (schedule_step w grace) (filter (\<lambda>i. i \<in> set handles) schedule) \<lparr>en_phase = (\<lambda>i. To_ask), en_host = h\<rparr>"

definition shutdown_all :: "world \<Rightarrow> rat \<Rightarrow> nat list \<Rightarrow> host \<Rightarrow> endings" where
  "shutdown_all w grace schedule h = gather_terminate w grace (ht_launched h) schedule (h\<lparr>ht_launched := []\<rparr>)"

definition all_ended :: "nat list \<Rightarrow> endings \<Rightarrow> bool" where
  "all_ended handles s \<longleftrightarrow> list_all (\<lambda>i. en_phase s i = Ended) handles"

section \<open>Waiting for exits, and the exit hook\<close>

lemma elapse_now: "ht_now h \<le> ht_now (elapse w h)"
  by (simp add: elapse_def)

lemma pause_now: "0 \<le> d \<Longrightarrow> ht_now h + d \<le> ht_now (pause w d h)"
  by (simp add: pause_def)

lemma await_pause_now: "0 \<le> d \<Longrightarrow> ht_now h + d \<le> ht_now (await_pause w d h)"
  using pause_now[of d h w] by (simp add: await_pause_def collect_def)

lemma ticks_less: "now < deadline \<Longrightarrow> 0 < d \<Longrightarrow> now + d \<le> later_time \<Longrightarrow> nat \<lceil>(deadline - later_time) / d\<rceil> < nat \<lceil>(deadline - now) / (d :: rat)\<rceil>"
proof -
  assume a: "now < deadline" "0 < d" "now + d \<le> later_time"
  have "(deadline - later_time) / d \<le> (deadline - now) / d - 1" using divide_right_mono[of "deadline - later_time" "deadline - now - d" d] a
    by (simp add: diff_divide_distrib)
  then have "\<lceil>(deadline - later_time) / d\<rceil> \<le> \<lceil>(deadline - now) / d\<rceil> - 1" by (metis ceiling_diff_one ceiling_mono)
  moreover have "0 < \<lceil>(deadline - now) / d\<rceil>" using a by simp
  ultimately show ?thesis by linarith
qed

definition alive_handles :: "nat list \<Rightarrow> host \<Rightarrow> nat list" where
  "alive_handles is h = filter (\<lambda>i. is_running (handle h i)) is"

function await_exits :: "world \<Rightarrow> rat \<Rightarrow> nat list \<Rightarrow> host \<Rightarrow> nat list \<times> host" where
  "await_exits w deadline is h =
     (if alive_handles is h \<noteq> [] \<and> ht_now h < deadline then await_exits w deadline is (await_pause w (1 / 5) h)
      else (alive_handles is h, h))"
  by pat_completeness auto
termination
proof (relation "measure (\<lambda>(w, deadline, is, h). nat \<lceil>(deadline - ht_now h) / (1 / 5)\<rceil>)")
  fix w deadline "is" h
  assume "alive_handles is h \<noteq> [] \<and> ht_now h < deadline"
  then show "((w, deadline, is, await_pause w (1 / 5) h), w, deadline, is, h) \<in> measure (\<lambda>(w, deadline, is, h). nat \<lceil>(deadline - ht_now h) / (1 / 5)\<rceil>)"
    using ticks_less[of "ht_now h" deadline "1 / 5" "ht_now (await_pause w (1 / 5) h)"] await_pause_now[of "1 / 5" h w]
    by (simp del: divide_divide_eq_right)
qed simp

declare await_exits.simps [simp del]

definition verify_all_exited :: "world \<Rightarrow> rat \<Rightarrow> nat list \<Rightarrow> host \<Rightarrow> nat list \<times> host" where
  "verify_all_exited w timeout is h = await_exits w (ht_now h + timeout) is h"

text \<open>The exit hook runs without an event loop: nothing is collected while it sleeps.\<close>

fun signal_groups :: "world \<Rightarrow> os_signal \<Rightarrow> int list \<Rightarrow> host \<Rightarrow> host" where
  "signal_groups w sig [] h = h"
| "signal_groups w sig (g # gs) h = signal_groups w sig gs (snd (os_killpg w sig g h))"

fun drop_dead_groups :: "world \<Rightarrow> int list \<Rightarrow> host \<Rightarrow> host" where
  "drop_dead_groups w [] h = h"
| "drop_dead_groups w (g # gs) h =
     (case pgid_alive w g h of
        (alive, h1) \<Rightarrow> drop_dead_groups w gs (if alive then h1 else h1\<lparr>ht_live_pgids := removeAll g (ht_live_pgids h1)\<rparr>))"

lemma group_found_now: "ht_now h \<le> ht_now (snd (group_found w g pids h))"
proof (induction w g pids h rule: group_found.induct)
  case (2 w g pid pids h)
  have "ht_now h \<le> ht_now (snd (os_getpgid w pid h))" using elapse_now by (simp add: os_getpgid_def Let_def)
  then show ?case using 2 by (fastforce split: prod.split)
qed simp

lemma drop_dead_now: "ht_now h \<le> ht_now (drop_dead_groups w gs h)"
proof (induction w gs h rule: drop_dead_groups.induct)
  case (2 w g gs h)
  have "ht_now h \<le> ht_now (snd (pgid_alive w g h))"
    using elapse_now[of h w] group_found_now order_trans by (fastforce simp: pgid_alive_def Let_def)
  moreover have "ht_now h1 \<le> ht_now (drop_dead_groups w gs (if alive then h1 else h1\<lparr>ht_live_pgids := removeAll g (ht_live_pgids h1)\<rparr>))"
    if "pgid_alive w g h = (alive, h1)" for alive h1
    using 2[OF that[symmetric]] by (cases alive) auto
  ultimately show ?case by (fastforce split: prod.split)
qed simp

function drain_groups :: "world \<Rightarrow> rat \<Rightarrow> host \<Rightarrow> host" where
  "drain_groups w deadline h =
     (if ht_live_pgids h \<noteq> [] \<and> ht_now h < deadline
      then (let h1 = drop_dead_groups w (ht_live_pgids h) h
            in if ht_live_pgids h1 \<noteq> [] then drain_groups w deadline (pause w (1 / 10) h1) else h1)
      else h)"
  by pat_completeness auto
termination
proof (relation "measure (\<lambda>(w, deadline, h). nat \<lceil>(deadline - ht_now h) / (1 / 10)\<rceil>)")
  fix w deadline h h1
  assume "ht_live_pgids h \<noteq> [] \<and> ht_now h < deadline" "h1 = drop_dead_groups w (ht_live_pgids h) h"
  moreover have "ht_now h + 1 / 10 \<le> ht_now (pause w (1 / 10) (drop_dead_groups w (ht_live_pgids h) h))"
    using pause_now[of "1 / 10" "drop_dead_groups w (ht_live_pgids h) h" w] drop_dead_now[of h w "ht_live_pgids h"] by simp
  ultimately show "((w, deadline, pause w (1 / 10) h1), w, deadline, h) \<in> measure (\<lambda>(w, deadline, h). nat \<lceil>(deadline - ht_now h) / (1 / 10)\<rceil>)"
    using ticks_less[of "ht_now h" deadline "1 / 10"] by (simp del: divide_divide_eq_right)
qed simp

declare drain_groups.simps [simp del]

fun kill_groups :: "world \<Rightarrow> int list \<Rightarrow> host \<Rightarrow> host" where
  "kill_groups w [] h = h"
| "kill_groups w (g # gs) h =
     (let h1 = snd (os_killpg w SIGKILL g h) in kill_groups w gs (h1\<lparr>ht_live_pgids := removeAll g (ht_live_pgids h1)\<rparr>))"

definition emergency_cleanup :: "world \<Rightarrow> host \<Rightarrow> host" where
  "emergency_cleanup w h =
     (let h1 = signal_groups w SIGTERM (ht_live_pgids h) h;
          h2 = drain_groups w (ht_now h1 + 5) h1
      in kill_groups w (ht_live_pgids h2) h2)"

end
