(* ===== verification/Supervise.thy ===== *)
theory Supervise
  imports "Host"
begin

text \<open>
  What the supervision of \<^verbatim>\<open>engines/process.py\<close> achieves: the end of a process group under interleaved
  terminations, the exit hook, and the race that lets a worker escape.
\<close>

section \<open>A table that only ages\<close>

definition ages :: "os_process \<Rightarrow> os_process \<Rightarrow> bool" where
  "ages q p \<longleftrightarrow> p = q \<or> p = q\<lparr>op_zombie := True\<rparr>"

definition aged :: "int set \<Rightarrow> os_process list \<Rightarrow> os_process list \<Rightarrow> bool" where
  "aged G t t' \<longleftrightarrow> (\<forall>p \<in> set t'. op_pgid p \<in> G \<longrightarrow> (\<exists>q \<in> set t. ages q p))"

text \<open>Laws of the kernel: process ids are unique. And the assumption on engines: no process joins one of the groups \<open>G\<close>
  between two calls (or also during a sleep).\<close>

definition unique_pids :: "world \<Rightarrow> bool" where
  "unique_pids w \<longleftrightarrow> (\<forall>n t. distinct (map op_pid t) \<longrightarrow> distinct (map op_pid (wd_call w n t)) \<and> distinct (map op_pid (wd_sleep w n t)))"

definition calm_calls :: "int set \<Rightarrow> world \<Rightarrow> bool" where
  "calm_calls G w \<longleftrightarrow> (\<forall>n t. aged G t (wd_call w n t))"

definition calm :: "int set \<Rightarrow> world \<Rightarrow> bool" where
  "calm G w \<longleftrightarrow> calm_calls G w \<and> (\<forall>n t. aged G t (wd_sleep w n t))"

definition survivors :: "int \<Rightarrow> host \<Rightarrow> int set" where
  "survivors g h = {op_pid p | p. p \<in> set (ht_table h) \<and> op_pgid p = g \<and> \<not> op_zombie p \<and> \<not> op_foreign p}"

lemma ages_refl [simp]: "ages p p" and ages_trans: "ages p q \<Longrightarrow> ages q r \<Longrightarrow> ages p r"
  by (auto simp: ages_def)

lemma ages_fields: "ages q p \<Longrightarrow> op_pid p = op_pid q \<and> op_pgid p = op_pgid q \<and> op_created p = op_created q \<and> op_foreign p = op_foreign q \<and> (op_zombie q \<longrightarrow> op_zombie p)"
  by (auto simp: ages_def)

lemma aged_refl [simp]: "aged G t t"
  unfolding aged_def using ages_refl by blast

lemma aged_trans: "aged G t t' \<Longrightarrow> aged G t' t'' \<Longrightarrow> aged G t t''"
  unfolding aged_def by (metis ages_fields ages_trans)

lemma aged_filter [simp]: "aged G t (filter P t)"
  unfolding aged_def using ages_refl by fastforce

lemma aged_subset: "aged G t t' \<Longrightarrow> H \<subseteq> G \<Longrightarrow> aged H t t'"
  by (auto simp: aged_def)

lemma survivors_aged: "aged G (ht_table h) (ht_table h') \<Longrightarrow> g \<in> G \<Longrightarrow> survivors g h' \<subseteq> survivors g h"
  unfolding survivors_def aged_def by clarsimp (metis ages_fields)

lemma elapse_aged: "calm_calls G w \<Longrightarrow> aged G (ht_table h) (ht_table (elapse w h))"
  by (simp add: elapse_def calm_calls_def)

lemma hit_aged: "aged G (ht_table h) (ht_table (hit sig P h))"
  by (fastforce simp: hit_def aged_def ages_def)

lemma deliver_aged: "aged G (ht_table h) (ht_table (snd (deliver sig P h)))"
  by (simp add: deliver_def hit_aged)

lemma kill_aged: "calm_calls G w \<Longrightarrow> aged G (ht_table h) (ht_table (snd (os_kill w sig pid h)))"
  "calm_calls G w \<Longrightarrow> aged G (ht_table h) (ht_table (snd (os_killpg w sig g h)))"
  unfolding os_kill_def os_killpg_def by (rule aged_trans[OF elapse_aged deliver_aged], assumption)+

lemma getpgid_aged: "calm_calls G w \<Longrightarrow> aged G (ht_table h) (ht_table (snd (os_getpgid w pid h)))"
  by (simp add: os_getpgid_def Let_def elapse_aged)

lemma scan_Cons: "scan_group w g (pid # pids) h =
    (if fst (os_getpgid w pid h) = Inr g then pid # fst (scan_group w g pids (snd (os_getpgid w pid h)))
     else fst (scan_group w g pids (snd (os_getpgid w pid h))), snd (scan_group w g pids (snd (os_getpgid w pid h))))"
  by (simp split: prod.split)

lemma found_Cons: "group_found w g (pid # pids) h =
    (if fst (os_getpgid w pid h) = Inr g then (True, snd (os_getpgid w pid h)) else group_found w g pids (snd (os_getpgid w pid h)))"
  by (simp split: prod.split)

lemmas group_simps = scan_Cons found_Cons
declare scan_group.simps(2) [simp del] group_found.simps(2) [simp del]

lemma scan_aged: "calm_calls G w \<Longrightarrow> aged G (ht_table h) (ht_table (snd (scan_group w g pids h)))"
proof (induction pids arbitrary: h)
  case (Cons pid pids)
  then show ?case using aged_trans[OF getpgid_aged[OF Cons(2), of h pid] Cons(1)[OF Cons(2)]] by (simp add: group_simps)
qed simp

lemma found_aged: "calm_calls G w \<Longrightarrow> aged G (ht_table h) (ht_table (snd (group_found w g pids h)))"
proof (induction pids arbitrary: h)
  case (Cons pid pids)
  have "aged G (ht_table h) (ht_table (snd (os_getpgid w pid h)))" by (rule getpgid_aged[OF Cons(2)])
  then show ?case using aged_trans[OF _ Cons(1)[OF Cons(2)]] by (auto simp: group_simps)
qed simp

lemma descendant_aged: "calm_calls G w \<Longrightarrow> aged G (ht_table h) (ht_table (snd (descendant_pids w g h)))"
  unfolding descendant_pids_def Let_def by (rule aged_trans[OF elapse_aged scan_aged])

lemma alive_aged: "calm_calls G w \<Longrightarrow> aged G (ht_table h) (ht_table (snd (pgid_alive w g h)))"
  unfolding pgid_alive_def Let_def by (rule aged_trans[OF elapse_aged found_aged])

lemma kill_pids_aged: "calm_calls G w \<Longrightarrow> aged G (ht_table h) (ht_table (kill_pids w pids h))"
proof (induction pids arbitrary: h)
  case (Cons pid pids) then show ?case using aged_trans[OF kill_aged(1) Cons(1)] by simp
qed simp

section \<open>Unique process ids\<close>

definition pids_ok :: "host \<Rightarrow> bool" where "pids_ok h \<longleftrightarrow> distinct (map op_pid (ht_table h))"

lemma hit_pids [simp]: "map op_pid (ht_table (hit sig P h)) = map op_pid (ht_table h)"
  by (simp add: hit_def comp_def if_distrib cong: map_cong if_cong)

lemma elapse_pids: "unique_pids w \<Longrightarrow> pids_ok h \<Longrightarrow> pids_ok (elapse w h)"
  by (simp add: unique_pids_def pids_ok_def elapse_def)

lemma deliver_pids: "pids_ok h \<Longrightarrow> pids_ok (snd (deliver sig P h))"
  by (simp add: deliver_def pids_ok_def)

lemma kill_pids_ok: "unique_pids w \<Longrightarrow> pids_ok h \<Longrightarrow> pids_ok (snd (os_kill w sig pid h))"
  "unique_pids w \<Longrightarrow> pids_ok h \<Longrightarrow> pids_ok (snd (os_killpg w sig g h))"
  unfolding os_kill_def os_killpg_def by (intro deliver_pids elapse_pids; assumption)+

lemma getpgid_pids: "unique_pids w \<Longrightarrow> pids_ok h \<Longrightarrow> pids_ok (snd (os_getpgid w pid h))"
  by (simp add: os_getpgid_def Let_def elapse_pids)

lemma scan_pids: "unique_pids w \<Longrightarrow> pids_ok h \<Longrightarrow> pids_ok (snd (scan_group w g pids h))"
proof (induction pids arbitrary: h)
  case (Cons pid pids)
  then show ?case using Cons(1)[OF Cons(2) getpgid_pids[OF Cons(2,3), of pid]] by (simp add: group_simps)
qed simp

lemma found_pids: "unique_pids w \<Longrightarrow> pids_ok h \<Longrightarrow> pids_ok (snd (group_found w g pids h))"
proof (induction pids arbitrary: h)
  case (Cons pid pids)
  then show ?case using Cons(1)[OF Cons(2) getpgid_pids[OF Cons(2,3), of pid]] getpgid_pids[OF Cons(2,3), of pid]
    by (auto simp: group_simps)
qed simp

lemma kill_list_pids: "unique_pids w \<Longrightarrow> pids_ok h \<Longrightarrow> pids_ok (kill_pids w pids h)"
  by (induction pids arbitrary: h) (simp_all add: kill_pids_ok)

lemma find_unique: "pids_ok h \<Longrightarrow> p \<in> set (ht_table h) \<Longrightarrow> find_process (op_pid p) (ht_table h) = Some p"
proof -
  have "distinct (map op_pid t) \<Longrightarrow> p \<in> set t \<Longrightarrow> find (\<lambda>q. op_pid q = op_pid p) t = Some p" for t
    by (induction t) (auto simp: rev_image_eqI)
  then show "pids_ok h \<Longrightarrow> p \<in> set (ht_table h) \<Longrightarrow> find_process (op_pid p) (ht_table h) = Some p"
    by (simp add: pids_ok_def find_process_def)
qed

section \<open>The scan and the kill\<close>

lemma getpgid_member:
  assumes "pids_ok (elapse w h)" "p \<in> set (ht_table (elapse w h))"
  shows "fst (os_getpgid w (op_pid p) h) = Inr (op_pgid p)"
  using find_unique[OF assms] by (simp add: os_getpgid_def Let_def)

lemma scan_complete:
  assumes "calm_calls {g} w" "unique_pids w"
  shows "pids_ok h \<Longrightarrow> p \<in> set (ht_table (snd (scan_group w g pids h))) \<Longrightarrow> op_pgid p = g \<Longrightarrow> op_pid p \<in> set pids
    \<Longrightarrow> op_pid p \<in> set (fst (scan_group w g pids h))"
proof (induction pids arbitrary: h)
  case (Cons pid pids)
  let ?h = "snd (os_getpgid w pid h)"
  have h: "?h = elapse w h" by (simp add: os_getpgid_def Let_def)
  have s: "scan_group w g (pid # pids) h = (if fst (os_getpgid w pid h) = Inr g then pid # fst (scan_group w g pids ?h) else fst (scan_group w g pids ?h),
      snd (scan_group w g pids ?h))" by (rule scan_Cons)
  have p: "p \<in> set (ht_table (snd (scan_group w g pids ?h)))" using Cons(3) s by simp
  have ok: "pids_ok ?h" by (rule getpgid_pids[OF assms(2) Cons(2)])
  show ?case
  proof (cases "op_pid p = pid")
    case True
    obtain q where "q \<in> set (ht_table (elapse w h))" "ages q p"
      using p scan_aged[OF assms(1), of "elapse w h" g pids] Cons(4) unfolding h aged_def by auto
    then show ?thesis using getpgid_member[of w h q] ok ages_fields[of q p] True Cons(4) s h by simp
  next
    case False
    then show ?thesis using Cons(1)[OF ok p Cons(4)] Cons(5) s by simp
  qed
qed simp

lemma found_complete:
  assumes "calm_calls {g} w" "unique_pids w"
  shows "pids_ok h \<Longrightarrow> p \<in> set (ht_table (snd (group_found w g pids h))) \<Longrightarrow> op_pgid p = g \<Longrightarrow> op_pid p \<in> set pids
    \<Longrightarrow> fst (group_found w g pids h)"
proof (induction pids arbitrary: h)
  case (Cons pid pids)
  let ?h = "snd (os_getpgid w pid h)"
  have h: "?h = elapse w h" by (simp add: os_getpgid_def Let_def)
  have s: "group_found w g (pid # pids) h = (if fst (os_getpgid w pid h) = Inr g then (True, ?h) else group_found w g pids ?h)"
    by (rule found_Cons)
  have ok: "pids_ok ?h" by (rule getpgid_pids[OF assms(2) Cons(2)])
  show ?case
  proof (cases "fst (os_getpgid w pid h) = Inr g")
    case False
    then have p: "p \<in> set (ht_table (snd (group_found w g pids ?h)))" using Cons(3) s by simp
    obtain q where "q \<in> set (ht_table (elapse w h))" "ages q p"
      using p found_aged[OF assms(1), of "elapse w h" g pids] Cons(4) unfolding h aged_def by auto
    then have "op_pid p \<noteq> pid" using getpgid_member[of w h q] ok ages_fields[of q p] False Cons(4) h by auto
    then show ?thesis using Cons(1)[OF ok p Cons(4)] Cons(5) s by simp
  qed (simp add: s)
qed simp

lemma descendants_complete:
  assumes "calm_calls {g} w" "unique_pids w" "pids_ok h"
  shows "survivors g (snd (descendant_pids w g h)) \<subseteq> set (fst (descendant_pids w g h))"
proof
  fix x assume "x \<in> survivors g (snd (descendant_pids w g h))"
  then obtain p where p: "p \<in> set (ht_table (snd (descendant_pids w g h)))" "op_pgid p = g" "x = op_pid p" by (auto simp: survivors_def)
  let ?h = "elapse w h"
  obtain q where "q \<in> set (ht_table ?h)" "ages q p"
    using p scan_aged[OF assms(1), of ?h g "map op_pid (ht_table ?h)"] unfolding descendant_pids_def Let_def aged_def by auto
  then have "op_pid p \<in> set (map op_pid (ht_table ?h))" using ages_fields[of q p] by auto
  then show "x \<in> set (fst (descendant_pids w g h))"
    using scan_complete[OF assms(1,2) elapse_pids[OF assms(2,3)], of p "map op_pid (ht_table ?h)"] p
    unfolding descendant_pids_def Let_def by auto
qed

lemma not_alive_empty:
  assumes "calm_calls {g} w" "unique_pids w" "pids_ok h" "\<not> fst (pgid_alive w g h)"
  shows "survivors g (snd (pgid_alive w g h)) = {}"
proof -
  let ?h = "elapse w h"
  have False if p: "p \<in> set (ht_table (snd (group_found w g (map op_pid (ht_table ?h)) ?h)))" "op_pgid p = g" for p
  proof -
    obtain q where "q \<in> set (ht_table ?h)" "ages q p"
      using p found_aged[OF assms(1), of ?h g "map op_pid (ht_table ?h)"] unfolding aged_def by auto
    then have "op_pid p \<in> set (map op_pid (ht_table ?h))" using ages_fields[of q p] by auto
    then show False using found_complete[OF assms(1,2) elapse_pids[OF assms(2,3)] p] assms(4) by (simp add: pgid_alive_def Let_def)
  qed
  then show ?thesis unfolding survivors_def pgid_alive_def Let_def by blast
qed

lemma deliver_kill:
  "survivors g (snd (deliver SIGKILL P h)) \<subseteq> {op_pid p | p. p \<in> set (ht_table h) \<and> op_pgid p = g \<and> \<not> op_zombie p \<and> \<not> op_foreign p \<and> \<not> P p}"
  by (auto simp: deliver_def survivors_def hit_def list_ex_iff split: if_splits)

lemma kill_one:
  assumes "calm_calls {g} w"
  shows "survivors g (snd (os_kill w SIGKILL pid h)) \<subseteq> survivors g h - {pid}"
  using deliver_kill[of g "\<lambda>p. op_pid p = pid" "elapse w h"] survivors_aged[OF elapse_aged[OF assms, of h], of g]
  unfolding os_kill_def survivors_def by fastforce

lemma kill_group:
  assumes "calm_calls {g} w"
  shows "survivors g (snd (os_killpg w SIGKILL g h)) = {}"
  using deliver_kill[of g "\<lambda>p. op_pgid p = g" "elapse w h"] unfolding os_killpg_def by auto

lemma kill_list:
  assumes "calm_calls {g} w"
  shows "survivors g (kill_pids w pids h) \<subseteq> survivors g h - set pids"
proof (induction pids arbitrary: h)
  case (Cons pid pids)
  then show ?case using kill_one[OF assms, of pid h] by (auto dest: subsetD)
qed simp

section \<open>Handles and the event loop\<close>

lemma handles_calls [simp]:
  "ht_handles (elapse w h) = ht_handles h" "ht_handles (pause w d h) = ht_handles h" "ht_handles (hit sig P h) = ht_handles h"
  by (simp_all add: elapse_def pause_def hit_def)

lemma handles_deliver [simp]: "ht_handles (snd (deliver sig P h)) = ht_handles h"
  by (simp add: deliver_def)

lemma handles_kill [simp]:
  "ht_handles (snd (os_kill w sig pid h)) = ht_handles h" "ht_handles (snd (os_killpg w sig g h)) = ht_handles h"
  "ht_handles (snd (os_getpgid w pid h)) = ht_handles h"
  by (simp_all add: os_kill_def os_killpg_def os_getpgid_def Let_def)

lemma handles_lists [simp]:
  "ht_handles (kill_pids w pids h) = ht_handles h" "ht_handles (snd (scan_group w g pids h)) = ht_handles h"
proof -
  show "ht_handles (kill_pids w pids h) = ht_handles h" by (induction pids arbitrary: h) auto
  show "ht_handles (snd (scan_group w g pids h)) = ht_handles h" by (induction pids arbitrary: h) (auto simp: group_simps)
qed

lemma handles_descendants [simp]: "ht_handles (snd (descendant_pids w g h)) = ht_handles h"
  by (simp add: descendant_pids_def Let_def)

lemma handles_signal [simp]: "ht_handles (signal_group w sig i h) = ht_handles h"
  by (simp add: signal_group_def Let_def split: option.split)

definition same_group :: "managed \<Rightarrow> managed \<Rightarrow> bool" where
  "same_group m m' \<longleftrightarrow> mp_pid m' = mp_pid m \<and> mp_pgid m' = mp_pgid m"

lemma same_group_refl [simp]: "same_group m m"
  by (simp add: same_group_def)

lemma await_groups: "list_all2 same_group (ht_handles h) (ht_handles (await_pause w d h))"
  by (auto simp: await_pause_def collect_def list_all2_conv_all_nth same_group_def note_exit_def split: option.split)

lemma wait_groups: "list_all2 same_group (ht_handles h) (ht_handles (wait_exit w d i h))"
  using await_groups by (simp add: wait_exit_def list_all2_refl)

lemma sweep_snd: "snd (ending_step w grace i (To_sweep, h)) =
    (case mp_pgid (handle h i) of None \<Rightarrow> h | Some g \<Rightarrow> snd (descendant_pids w g h))"
  by (simp split: option.split prod.split)

declare ending_step.simps(4) [simp del]

lemma step_groups: "list_all2 same_group (ht_handles h) (ht_handles (snd (ending_step w grace i (ph, h))))"
  using wait_groups[of h w _ i] by (cases ph) (auto simp: sweep_snd Let_def list_all2_refl split: option.split)

lemma await_aged: "calm G w \<Longrightarrow> aged G (ht_table h) (ht_table (await_pause w d h))"
  unfolding calm_def await_pause_def collect_def pause_def by (auto intro!: aged_trans[OF _ aged_filter])

lemma signal_aged: "calm_calls G w \<Longrightarrow> aged G (ht_table h) (ht_table (signal_group w sig i h))"
  by (simp add: signal_group_def Let_def kill_aged split: option.split)

lemma wait_aged: "calm G w \<Longrightarrow> aged G (ht_table h) (ht_table (wait_exit w d i h))"
  by (simp add: wait_exit_def await_aged)

lemma calm_calls: "calm G w \<Longrightarrow> calm_calls G w"
  by (simp add: calm_def)

lemma step_aged: "calm G w \<Longrightarrow> aged G (ht_table h) (ht_table (snd (ending_step w grace i (ph, h))))"
proof (cases ph)
  case Asked
  assume c: "calm G w"
  then show ?thesis using Asked wait_aged[OF c, of h grace i] aged_trans[OF wait_aged[OF c] signal_aged[OF calm_calls[OF c]]]
    by (simp add: Let_def)
next
  case To_sweep
  assume c: "calm G w"
  then show ?thesis using To_sweep descendant_aged[OF calm_calls[OF c], of h] by (simp add: sweep_snd split: option.split)
qed (auto simp: Let_def signal_aged wait_aged kill_pids_aged calm_calls)

lemma await_pids: "unique_pids w \<Longrightarrow> pids_ok h \<Longrightarrow> pids_ok (await_pause w d h)"
  by (auto simp: await_pause_def collect_def pause_def pids_ok_def unique_pids_def distinct_map_filter)

lemma wait_pids: "unique_pids w \<Longrightarrow> pids_ok h \<Longrightarrow> pids_ok (wait_exit w d i h)"
  by (simp add: wait_exit_def await_pids)

lemma signal_pids: "unique_pids w \<Longrightarrow> pids_ok h \<Longrightarrow> pids_ok (signal_group w sig i h)"
  by (simp add: signal_group_def Let_def kill_pids_ok split: option.split)

lemma descendant_pids_ok: "unique_pids w \<Longrightarrow> pids_ok h \<Longrightarrow> pids_ok (snd (descendant_pids w g h))"
  by (simp add: descendant_pids_def Let_def scan_pids elapse_pids)

lemma pids_ok_live [simp]: "pids_ok (h\<lparr>ht_live_pgids := x\<rparr>) = pids_ok h"
  by (simp add: pids_ok_def)

lemma step_pids: "unique_pids w \<Longrightarrow> pids_ok h \<Longrightarrow> pids_ok (snd (ending_step w grace i (ph, h)))"
proof (cases ph)
  case To_sweep
  assume "unique_pids w" "pids_ok h"
  then show ?thesis using To_sweep descendant_pids_ok[of w h] by (simp add: sweep_snd split: option.split)
qed (auto simp: Let_def signal_pids wait_pids kill_list_pids)

section \<open>The end of one group\<close>

lemma survivors_live [simp]: "survivors g (h\<lparr>ht_live_pgids := x\<rparr>) = survivors g h"
  by (simp add: survivors_def)

lemma sweep_kills:
  assumes "calm_calls {g} w" "unique_pids w" "pids_ok h" "mp_pgid (handle h i) = Some g"
  shows "(ending_step w grace i ^^ (Suc (Suc n))) (To_sweep, h) = (Ended, snd ((ending_step w grace i ^^ 2) (To_sweep, h)))
    \<and> survivors g (snd ((ending_step w grace i ^^ 2) (To_sweep, h))) = {}
    \<and> g \<notin> set (ht_live_pgids (snd ((ending_step w grace i ^^ 2) (To_sweep, h))))"
proof -
  obtain pids h1 where d: "descendant_pids w g h = (pids, h1)" by (cases "descendant_pids w g h")
  have two: "(ending_step w grace i ^^ 2) (To_sweep, h) = ending_step w grace i (To_kill g pids, h1)"
    using assms(4) d by (simp add: numeral_2_eq_2 ending_step.simps(4))
  have ended: "(ending_step w grace i ^^ n) (Ended, x) = (Ended, x)" for n x by (induction n) auto
  have "(ending_step w grace i ^^ (Suc (Suc n))) (To_sweep, h) = (ending_step w grace i ^^ n) (ending_step w grace i (To_kill g pids, h1))"
    using assms(4) d by (simp add: funpow_Suc_right ending_step.simps(4) del: funpow.simps)
  moreover have "survivors g (kill_pids w pids h1) = {}"
    using descendants_complete[OF assms(1-3)] kill_list[OF assms(1), of pids h1] d by auto
  ultimately show ?thesis unfolding two using ended by (simp add: Let_def)
qed

lemma to_sweep:
  assumes "unique_pids w" "pids_ok h" "mp_pid (handle h i) \<noteq> None" "i < length (ht_handles h)"
  shows "\<exists>k h1. k \<le> 3 \<and> (ending_step w grace i ^^ k) (To_ask, h) = (To_sweep, h1) \<and> pids_ok h1 \<and> mp_pgid (handle h1 i) = mp_pgid (handle h i)"
proof -
  have keep: "pids_ok (snd (ending_step w grace i (ph, x))) \<and> mp_pgid (handle (snd (ending_step w grace i (ph, x))) i) = mp_pgid (handle x i)
      \<and> length (ht_handles (snd (ending_step w grace i (ph, x)))) = length (ht_handles x)"
    if "pids_ok x" "i < length (ht_handles x)" for ph x
    using step_groups[of x w grace i ph] step_pids[OF assms(1) that(1)] that(2)
    by (auto simp: list_all2_conv_all_nth same_group_def handle_def)
  obtain p1 h1 where 1: "ending_step w grace i (To_ask, h) = (p1, h1)" by (cases "ending_step w grace i (To_ask, h)")
  have p1: "p1 = To_sweep \<or> p1 = Asked" using 1 assms(3) by (auto split: if_splits)
  have k1: "pids_ok h1" "mp_pgid (handle h1 i) = mp_pgid (handle h i)" "i < length (ht_handles h1)"
    using keep[OF assms(2,4), of To_ask] 1 assms(4) by auto
  obtain p2 h2 where 2: "ending_step w grace i (Asked, h1) = (p2, h2)" by (cases "ending_step w grace i (Asked, h1)")
  have p2: "p2 = To_sweep \<or> p2 = Forced" using 2 by (auto simp: Let_def split: if_splits)
  have k2: "pids_ok h2" "mp_pgid (handle h2 i) = mp_pgid (handle h i)" "i < length (ht_handles h2)"
    using keep[OF k1(1,3), of Asked] 2 k1 by auto
  obtain h3 where 3: "ending_step w grace i (Forced, h2) = (To_sweep, h3)" by simp
  have k3: "pids_ok h3" "mp_pgid (handle h3 i) = mp_pgid (handle h i)" using keep[OF k2(1,3), of Forced] 3 k2 by auto
  show ?thesis
  proof (cases "p1 = To_sweep")
    case True then show ?thesis using 1 k1 by (intro exI[of _ 1] exI[of _ h1]) simp
  next
    case False
    then have 2: "(ending_step w grace i ^^ 2) (To_ask, h) = (p2, h2)" using 1 2 p1 by (simp add: numeral_2_eq_2)
    show ?thesis
    proof (cases "p2 = To_sweep")
      case True then show ?thesis using 2 k2 by (intro exI[of _ 2] exI[of _ h2]) simp
    next
      case False
      have "(ending_step w grace i ^^ Suc 2) (To_ask, h) = ending_step w grace i ((ending_step w grace i ^^ 2) (To_ask, h))"
        by (simp only: funpow.simps comp_def)
      then have "(ending_step w grace i ^^ Suc 2) (To_ask, h) = (To_sweep, h3)" using 2 3 p2 False by simp
      then show ?thesis using k3 by (intro exI[of _ "Suc 2"] exI[of _ h3]) (simp only: simp_thms order_refl numeral_3_eq_3 numeral_2_eq_2)
    qed
  qed
qed

lemma terminate_ends_group:
  assumes "calm_calls {g} w" "unique_pids w" "pids_ok h" "i < length (ht_handles h)"
    and "mp_pid (handle h i) \<noteq> None" "mp_pgid (handle h i) = Some g"
  shows "survivors g (terminate w grace i h) = {} \<and> g \<notin> set (ht_live_pgids (terminate w grace i h))"
proof -
  obtain k h1 where k: "k \<le> 3" "(ending_step w grace i ^^ k) (To_ask, h) = (To_sweep, h1)" "pids_ok h1" "mp_pgid (handle h1 i) = Some g"
    using to_sweep[OF assms(2,3,5,4), of grace] assms(6) by auto
  have "5 = Suc (Suc (3 - k)) + k" using k(1) by simp
  then have "(ending_step w grace i ^^ 5) (To_ask, h) = (ending_step w grace i ^^ (Suc (Suc (3 - k)))) ((ending_step w grace i ^^ k) (To_ask, h))"
    by (metis comp_apply funpow_add)
  then show ?thesis using sweep_kills[OF assms(1,2) k(3,4), where n = "3 - k" and grace = grace] unfolding terminate_def k(2) by simp
qed

section \<open>All groups, in any interleaving\<close>

definition live_members :: "int set \<Rightarrow> host \<Rightarrow> os_process list" where
  "live_members G h = filter (\<lambda>p. op_pgid p \<in> G \<and> \<not> op_zombie p \<and> \<not> op_foreign p) (ht_table h)"

lemma live_members_none: "\<forall>g \<in> G. survivors g h = {} \<Longrightarrow> live_members G h = []"
  by (auto simp: live_members_def survivors_def filter_empty_conv)

definition launched_groups :: "host \<Rightarrow> int set" where
  "launched_groups h = set (List.map_filter (\<lambda>i. mp_pgid (handle h i)) (ht_launched h))"

lemma launched_groups_iff: "g \<in> launched_groups h \<longleftrightarrow> (\<exists>i \<in> set (ht_launched h). mp_pgid (handle h i) = Some g)"
proof -
  have "set (List.map_filter f xs) = {y. \<exists>x \<in> set xs. f x = Some y}" for f :: "nat \<Rightarrow> int option" and xs
    by (induction xs) (auto simp: map_filter_simps split: option.splits)
  then show ?thesis by (simp add: launched_groups_def)
qed

text \<open>Handles as the launcher makes them: a group is known only of a started process.\<close>

definition host_ok :: "host \<Rightarrow> bool" where
  "host_ok h \<longleftrightarrow> pids_ok h \<and> list_all (\<lambda>i. i < length (ht_handles h)) (ht_launched h)
     \<and> list_all (\<lambda>m. mp_pid m = None \<longrightarrow> mp_pgid m = None) (ht_handles h)"

fun left :: "ending \<Rightarrow> nat" where
  "left To_ask = 5" | "left Asked = 4" | "left Forced = 3" | "left To_sweep = 2" | "left (To_kill g pids) = 1" | "left Ended = 0"

lemma left_step: "left (fst (ending_step w grace i (ph, h))) \<le> left ph - 1"
  by (cases ph) (auto simp: Let_def ending_step.simps(4) split: option.split prod.split)

lemma left_fold: "left (en_phase (fold (schedule_step w grace) sch s) i) \<le> left (en_phase s i) - count_list sch i"
proof (induction sch arbitrary: s)
  case (Cons j sch)
  have "left (en_phase (schedule_step w grace j s) i) \<le> left (en_phase s i) - (if j = i then 1 else 0)"
    using left_step[of w grace j "en_phase s j" "en_host s"] by (auto simp: schedule_step_def split: prod.split)
  then show ?case using Cons[of "schedule_step w grace j s"] by auto
qed simp

definition phase_kept :: "managed list \<Rightarrow> endings \<Rightarrow> nat \<Rightarrow> bool" where
  "phase_kept ms s i \<longleftrightarrow> (case mp_pgid (ms ! i) of None \<Rightarrow> True
     | Some g \<Rightarrow> (case en_phase s i of To_kill g' pids \<Rightarrow> g' = g \<and> survivors g (en_host s) \<subseteq> set pids
                  | Ended \<Rightarrow> survivors g (en_host s) = {} | _ \<Rightarrow> True))"

definition gathering :: "managed list \<Rightarrow> nat list \<Rightarrow> endings \<Rightarrow> bool" where
  "gathering ms is s \<longleftrightarrow> pids_ok (en_host s) \<and> list_all2 same_group ms (ht_handles (en_host s)) \<and> (\<forall>i \<in> set is. phase_kept ms s i)"

lemma gathering_step:
  assumes "gathering ms is s" "i \<in> set is" "\<forall>i \<in> set is. i < length ms" "list_all (\<lambda>m. mp_pid m = None \<longrightarrow> mp_pgid m = None) ms"
    and w: "unique_pids w" "calm G w" and G: "\<forall>i \<in> set is. \<forall>g. mp_pgid (ms ! i) = Some g \<longrightarrow> g \<in> G"
  shows "gathering ms is (schedule_step w grace i s)"
proof -
  obtain ph h where s: "en_phase s i = ph" "en_host s = h" by blast
  obtain p h1 where e: "ending_step w grace i (ph, h) = (p, h1)" by (cases "ending_step w grace i (ph, h)")
  have n: "en_host (schedule_step w grace i s) = h1" "\<And>j. en_phase (schedule_step w grace i s) j = (if j = i then p else en_phase s j)"
    using s e by (auto simp: schedule_step_def)
  have ok: "pids_ok h" "list_all2 same_group ms (ht_handles h)" "\<And>j. j \<in> set is \<Longrightarrow> phase_kept ms s j"
    using assms(1) s by (auto simp: gathering_def)
  have groups: "list_all2 same_group ms (ht_handles h1)"
    using list_all2_trans[OF _ ok(2), of same_group same_group "ht_handles h1"] step_groups[of h w grace i ph] e
    by (auto simp: same_group_def)
  have shrink: "survivors g h1 \<subseteq> survivors g h" if "g \<in> G" for g
    using survivors_aged[OF _ that, of h h1] step_aged[OF w(2), of h grace i ph] e by simp
  have "phase_kept ms (schedule_step w grace i s) j" if j: "j \<in> set is" for j
  proof (cases "mp_pgid (ms ! j)")
    case (Some g)
    have g: "g \<in> G" using G j Some by blast
    show ?thesis
    proof (cases "j = i")
      case False
      then show ?thesis using ok(3)[OF j] Some n s(2) shrink[OF g] by (fastforce simp: phase_kept_def split: ending.splits)
    next
      case True
      have i: "i < length ms" "same_group (ms ! i) (handle h i)"
        using assms(2,3) ok(2) by (auto simp: list_all2_conv_all_nth handle_def)
      then have m: "mp_pgid (handle h i) = Some g" "mp_pid (handle h i) \<noteq> None"
        using Some True assms(4) by (auto simp: same_group_def list_all_length)
      have c: "calm_calls {g} w" using w(2) g aged_subset[of G _ _ "{g}"] by (auto simp: calm_def calm_calls_def)
      have k: "case ph of To_kill g' pids \<Rightarrow> g' = g \<and> survivors g h \<subseteq> set pids | Ended \<Rightarrow> survivors g h = {} | _ \<Rightarrow> True"
        using ok(3)[OF assms(2)] Some True s by (cases ph) (simp_all add: phase_kept_def)
      have "case p of To_kill g' pids \<Rightarrow> g' = g \<and> survivors g h1 \<subseteq> set pids | Ended \<Rightarrow> survivors g h1 = {} | _ \<Rightarrow> True"
      proof (cases ph)
        case To_sweep
        then have "p = To_kill g (fst (descendant_pids w g h))" "h1 = snd (descendant_pids w g h)"
          using e m by (auto simp: ending_step.simps(4) split: prod.splits)
        then show ?thesis using descendants_complete[OF c w(1) ok(1)] by simp
      next
        case (To_kill g' pids)
        then show ?thesis using e k kill_list[OF c, of pids h] by (auto simp: Let_def)
      qed (use e m k in \<open>auto simp: Let_def split: if_splits\<close>)
      then show ?thesis using True Some n by (cases p) (simp_all add: phase_kept_def)
    qed
  qed (simp add: phase_kept_def)
  then show ?thesis using groups step_pids[OF w(1) ok(1), of grace i ph] e n by (simp add: gathering_def)
qed

lemma launched_calls [simp]:
  "ht_launched (elapse w h) = ht_launched h" "ht_launched (pause w d h) = ht_launched h" "ht_launched (collect h) = ht_launched h"
  "ht_launched (snd (deliver sig P h)) = ht_launched h"
  by (simp_all add: elapse_def pause_def collect_def deliver_def hit_def)

lemma launched_more [simp]:
  "ht_launched (kill_pids w pids h) = ht_launched h" "ht_launched (snd (scan_group w g pids h)) = ht_launched h"
  "ht_launched (wait_exit w d i h) = ht_launched h" "ht_launched (signal_group w sig i h) = ht_launched h"
proof -
  show "ht_launched (kill_pids w pids h) = ht_launched h" by (induction pids arbitrary: h) (auto simp: os_kill_def)
  show "ht_launched (snd (scan_group w g pids h)) = ht_launched h"
    by (induction pids arbitrary: h) (auto simp: group_simps os_getpgid_def Let_def)
qed (auto simp: wait_exit_def await_pause_def signal_group_def os_kill_def os_killpg_def Let_def split: option.split)

lemma step_launched: "ht_launched (snd (ending_step w grace i (ph, h))) = ht_launched h"
  by (cases ph) (auto simp: sweep_snd descendant_pids_def Let_def split: option.split)

lemma fold_launched: "ht_launched (en_host (fold (schedule_step w grace) sch s)) = ht_launched (en_host s)"
proof (induction sch arbitrary: s)
  case (Cons i sch)
  have "ht_launched (en_host (schedule_step w grace i s)) = ht_launched (en_host s)"
    using step_launched[of w grace i "en_phase s i" "en_host s"] by (auto simp: schedule_step_def split: prod.split)
  then show ?case using Cons by simp
qed simp

lemma gathering_fold:
  assumes "\<forall>i \<in> set is. i < length ms" "list_all (\<lambda>m. mp_pid m = None \<longrightarrow> mp_pgid m = None) ms" "unique_pids w" "calm G w"
    and "\<forall>i \<in> set is. \<forall>g. mp_pgid (ms ! i) = Some g \<longrightarrow> g \<in> G"
  shows "gathering ms is s \<Longrightarrow> gathering ms is (fold (schedule_step w grace) (filter (\<lambda>i. i \<in> set is) sch) s)"
proof (induction sch arbitrary: s)
  case (Cons i sch)
  then show ?case using gathering_step[OF Cons(2) _ assms] by simp
qed simp

lemma count_filter: "i \<in> set is \<Longrightarrow> count_list (filter (\<lambda>i. i \<in> set is) sch) i = count_list sch i"
  by (induction sch) auto


text \<open>The launcher keeps its handles in order when the system gives a new process a new id.\<close>

lemma launch_host_ok:
  assumes "host_ok h" "unique_pids w" and new: "\<And>pid t. result = Spawned pid t \<Longrightarrow> find_process pid (ht_table h) = None"
  shows "host_ok (snd (launch w spec result h))"
proof -
  let ?h = "h\<lparr>ht_handles := ht_handles h @ [new_managed spec]\<rparr>" and ?i = "length (ht_handles h)"
  have h: "host_ok ?h" using assms(1) by (auto simp: host_ok_def pids_ok_def new_managed_def list_all_iff less_Suc_eq)
  have fresh: "mp_pid (handle ?h ?i) = None" by (simp add: handle_def new_managed_def)
  show ?thesis
  proof (cases result)
    case (Spawned pid t)
    let ?p = "\<lparr>op_pid = pid, op_pgid = pid, op_created = t, op_zombie = False, op_foreign = False, op_opaque = False\<rparr>"
    let ?h1 = "set_handle ?i (\<lambda>m. m\<lparr>mp_pid := Some pid\<rparr>) (?h\<lparr>ht_table := ht_table ?h @ [?p]\<rparr>)"
    have "op_pid q \<noteq> pid" if "q \<in> set (ht_table h)" for q
      using new[OF Spawned] that by (auto simp: find_process_def find_None_iff)
    then have "pids_ok ?h1" using h by (auto simp: host_ok_def pids_ok_def set_handle_def)
    then have p: "pids_ok (elapse w ?h1)" "pids_ok (elapse w (elapse w ?h1))" using elapse_pids[OF assms(2)] by auto
    have "\<exists>h2. snd (start_process w ?i result ?h) = h2 \<and> pids_ok h2 \<and> ht_launched h2 = ht_launched h
        \<and> length (ht_handles h2) = Suc ?i \<and> (\<forall>j < ?i. ht_handles h2 ! j = ht_handles h ! j) \<and> mp_pid (ht_handles h2 ! ?i) = Some pid"
      using p fresh by (auto simp: Spawned start_process_def Let_def os_getpgid_def set_handle_def elapse_def pids_ok_def handle_def
          new_managed_def nth_append split: option.split)
    then obtain h2 where h2: "snd (start_process w ?i result ?h) = h2" "pids_ok h2" "ht_launched h2 = ht_launched h"
        "length (ht_handles h2) = Suc ?i" "\<forall>j < ?i. ht_handles h2 ! j = ht_handles h ! j" "mp_pid (ht_handles h2 ! ?i) = Some pid" by blast
    have "list_all (\<lambda>m. mp_pid m = None \<longrightarrow> mp_pgid m = None) (ht_handles h2)"
      using h2(4-6) assms(1) by (auto simp: list_all_length host_ok_def less_Suc_eq)
    then show ?thesis using h2(1-4) assms(1)
      by (auto simp: launch_def Let_def host_ok_def pids_ok_def list_all_iff less_Suc_eq split: prod.split sum.split)
  qed (use h fresh in \<open>simp_all add: launch_def start_process_def Let_def\<close>)
qed

text \<open>An engine and its worker, both ignoring the request to end.\<close>

definition sample_process :: "int \<Rightarrow> os_process" where
  "sample_process pid = \<lparr>op_pid = pid, op_pgid = 10, op_created = 5, op_zombie = False, op_foreign = False, op_opaque = False\<rparr>"

definition sample_host :: "launch_spec \<Rightarrow> host" where
  "sample_host spec = \<lparr>ht_table = [sample_process 10, sample_process 11], ht_steps = 0, ht_now = 0, ht_sent = [],
     ht_handles = [\<lparr>mp_spec = spec, mp_pid = Some 10, mp_exited = False, mp_pgid = Some 10, mp_create_time = Some 5\<rparr>],
     ht_launched = [0], ht_live_pgids = [10]\<rparr>"

definition still_world :: world where
  "still_world = \<lparr>wd_call = (\<lambda>n t. t), wd_sleep = (\<lambda>n t. t), wd_lag = (\<lambda>n. 0)\<rparr>"

lemma still_world_ok: "unique_pids still_world" "calm G still_world"
  by (simp_all add: still_world_def unique_pids_def calm_def calm_calls_def)

lemma sample_host_ok: "host_ok (sample_host spec)"
  by (simp add: host_ok_def pids_ok_def sample_host_def sample_process_def)


section \<open>The exit hook\<close>

definition covered :: "int set \<Rightarrow> host \<Rightarrow> bool" where
  "covered G h \<longleftrightarrow> (\<forall>g \<in> G. g \<in> set (ht_live_pgids h) \<or> survivors g h = {})"

lemma live_calls [simp]:
  "ht_live_pgids (elapse w h) = ht_live_pgids h" "ht_live_pgids (pause w d h) = ht_live_pgids h"
  "ht_live_pgids (snd (deliver sig P h)) = ht_live_pgids h"
  by (simp_all add: elapse_def pause_def deliver_def hit_def)

lemma live_kill [simp]: "ht_live_pgids (snd (os_killpg w sig g h)) = ht_live_pgids h"
  by (simp add: os_killpg_def)

lemma live_alive [simp]: "ht_live_pgids (snd (pgid_alive w g h)) = ht_live_pgids h"
proof -
  have "ht_live_pgids (snd (group_found w g pids h)) = ht_live_pgids h" for pids h
    by (induction pids arbitrary: h) (auto simp: group_simps os_getpgid_def Let_def)
  then show ?thesis by (simp add: pgid_alive_def Let_def)
qed

lemma covered_aged: "covered G h \<Longrightarrow> aged G (ht_table h) (ht_table h') \<Longrightarrow> ht_live_pgids h' = ht_live_pgids h \<Longrightarrow> covered G h'"
  using survivors_aged[of G h h'] unfolding covered_def by (metis subset_empty)

lemma pause_pids: "unique_pids w \<Longrightarrow> pids_ok h \<Longrightarrow> pids_ok (pause w d h)"
  by (simp add: pids_ok_def pause_def unique_pids_def)

lemma alive_pids: "unique_pids w \<Longrightarrow> pids_ok h \<Longrightarrow> pids_ok (snd (pgid_alive w g h))"
  by (simp add: pgid_alive_def Let_def found_pids elapse_pids)

lemma calm_one: "calm G w \<Longrightarrow> g \<in> G \<Longrightarrow> calm_calls {g} w"
  using aged_subset[of G _ _ "{g}"] by (auto simp: calm_def calm_calls_def)

lemma signal_groups_covered:
  assumes w: "unique_pids w" "calm G w"
  shows "covered G h \<Longrightarrow> pids_ok h \<Longrightarrow> covered G (signal_groups w sig gs h) \<and> pids_ok (signal_groups w sig gs h)"
proof (induction gs arbitrary: h)
  case (Cons g gs)
  then show ?case using covered_aged[OF Cons(2) kill_aged(2)[OF calm_calls[OF w(2)]]] kill_pids_ok(2)[OF w(1) Cons(3)] by simp
qed simp

lemma drop_dead_covered:
  assumes w: "unique_pids w" "calm G w"
  shows "covered G h \<Longrightarrow> pids_ok h \<Longrightarrow> covered G (drop_dead_groups w gs h) \<and> pids_ok (drop_dead_groups w gs h)"
proof (induction gs arbitrary: h)
  case (Cons g gs)
  obtain alive h1 where a: "pgid_alive w g h = (alive, h1)" by (cases "pgid_alive w g h")
  have 1: "covered G h1" "pids_ok h1"
    using covered_aged[OF Cons(2) alive_aged[OF calm_calls[OF w(2)], of h g]] alive_pids[OF w(1) Cons(3), of g] live_alive[of w g h] a by auto
  have "covered G (h1\<lparr>ht_live_pgids := removeAll g (ht_live_pgids h1)\<rparr>)" if "\<not> alive"
    using 1(1) not_alive_empty[OF calm_one[OF w(2)] w(1) Cons(3), of g] a that by (auto simp: covered_def)
  then show ?case using Cons(1) 1 a by (cases alive) auto
qed simp

lemma pause_aged: "calm G w \<Longrightarrow> aged G (ht_table h) (ht_table (pause w d h))"
  by (simp add: calm_def pause_def)

lemma drain_covered:
  "unique_pids w \<Longrightarrow> calm G w \<Longrightarrow> covered G h \<Longrightarrow> pids_ok h \<Longrightarrow> covered G (drain_groups w deadline h) \<and> pids_ok (drain_groups w deadline h)"
proof (induction w deadline h rule: drain_groups.induct)
  case (1 w deadline h)
  let ?h = "drop_dead_groups w (ht_live_pgids h) h"
  have d: "covered G ?h" "pids_ok ?h" using drop_dead_covered[OF 1(2-5)] by auto
  then have "covered G (pause w (1 / 10) ?h)" "pids_ok (pause w (1 / 10) ?h)"
    using covered_aged[OF _ pause_aged[OF 1(3)], of ?h "1 / 10"] pause_pids[OF 1(2)] by auto
  then show ?case using 1 d by (subst (1 2) drain_groups.simps) (auto simp: Let_def)
qed

lemma kill_groups_covered:
  assumes w: "unique_pids w" "calm G w"
  shows "covered G h \<Longrightarrow> pids_ok h \<Longrightarrow> covered G (kill_groups w gs h) \<and> set (ht_live_pgids (kill_groups w gs h)) = set (ht_live_pgids h) - set gs"
proof (induction gs arbitrary: h)
  case (Cons g gs)
  let ?h = "snd (os_killpg w SIGKILL g h)"
  have 1: "covered G ?h" using covered_aged[OF Cons(2) kill_aged(2)[OF calm_calls[OF w(2)]]] by simp
  have "covered G (?h\<lparr>ht_live_pgids := removeAll g (ht_live_pgids ?h)\<rparr>)"
    using 1 kill_group[OF calm_one[OF w(2)], of g h] by (auto simp: covered_def)
  then show ?case using Cons(1) kill_pids_ok(2)[OF w(1) Cons(3)] by (auto simp: Let_def)
qed simp

text \<open>
  No engine outlives the program: when the interpreter exits, whatever state the engines are in, the exit hook ends
  within its time limit, and afterwards no process of a group it knew is left that could be signalled, and no group is known any more.
\<close>

theorem emergency_cleanup_kills_all:
  assumes "pids_ok h" and "unique_pids w" and "calm (set (ht_live_pgids h)) w"
  shows "live_members (set (ht_live_pgids h)) (emergency_cleanup w h) = [] \<and> ht_live_pgids (emergency_cleanup w h) = []"
proof -
  let ?G = "set (ht_live_pgids h)"
  let ?h1 = "signal_groups w SIGTERM (ht_live_pgids h) h"
  let ?h2 = "drain_groups w (ht_now ?h1 + 5) ?h1"
  have "covered ?G ?h1" "pids_ok ?h1" using signal_groups_covered[OF assms(2,3) _ assms(1), of SIGTERM] by (auto simp: covered_def)
  then have "covered ?G ?h2" "pids_ok ?h2" using drain_covered[OF assms(2,3)] by auto
  then have "covered ?G (emergency_cleanup w h)" "set (ht_live_pgids (emergency_cleanup w h)) = {}"
    using kill_groups_covered[OF assms(2,3), of ?h2 "ht_live_pgids ?h2"] by (auto simp: emergency_cleanup_def Let_def)
  then show ?thesis using live_members_none unfolding covered_def by auto
qed

theorem emergency_cleanup_kills_all_witness:
  "\<forall>spec. live_members (set (ht_live_pgids (sample_host spec))) (sample_host spec) \<noteq> []
     \<and> live_members (set (ht_live_pgids (sample_host spec))) (emergency_cleanup still_world (sample_host spec)) = []"
proof
  fix spec
  have "pids_ok (sample_host spec)" using sample_host_ok by (simp add: host_ok_def)
  from emergency_cleanup_kills_all[OF this still_world_ok]
  show "live_members (set (ht_live_pgids (sample_host spec))) (sample_host spec) \<noteq> []
     \<and> live_members (set (ht_live_pgids (sample_host spec))) (emergency_cleanup still_world (sample_host spec)) = []"
    by simp (simp add: live_members_def sample_host_def sample_process_def)
qed

section \<open>A worker that escapes\<close>

text \<open>The engine exits when asked to; its worker forks between the scan of the group and the kill.\<close>

definition forking_world :: world where
  "forking_world = \<lparr>wd_call = (\<lambda>n t. if n = 4 \<and> 12 \<notin> set (map op_pid t) then t @ [sample_process 12] else t),
     wd_sleep = (\<lambda>n t. filter (\<lambda>p. op_pid p \<noteq> 10) t), wd_lag = (\<lambda>n. 0)\<rparr>"

lemma forking_run:
  "\<exists>h. terminate forking_world 20 0 (sample_host spec) = h \<and> live_members {10} h = [sample_process 12] \<and> ht_live_pgids h = []"
  by (simp add: terminate_def eval_nat_numeral ending_step.simps(4) signal_group_def handle_def sample_host_def sample_process_def
      forking_world_def os_killpg_def os_kill_def elapse_def pause_def deliver_def hit_def wait_exit_def is_running_def await_pause_def
      collect_def running_pids_def map_filter_simps note_exit_def ended_def find_process_def descendant_pids_def group_simps
      os_getpgid_def live_members_def Let_def)

lemma cleanup_nothing: "ht_live_pgids h = [] \<Longrightarrow> emergency_cleanup w h = h"
  by (simp add: emergency_cleanup_def drain_groups.simps)

text \<open>
  C38: A race in \<^verbatim>\<open>terminate\<close>: the group is scanned first and its members are killed one by one afterwards, so a
  process that a worker forks in between survives; and because the group is then taken off the list of the exit hook,
  the exit hook does not find it either.
\<close>

theorem forked_worker_escapes:
  "\<forall>spec. unique_pids forking_world \<and> live_members {10} (terminate forking_world 20 0 (sample_host spec)) = [sample_process 12]
     \<and> live_members {10} (emergency_cleanup forking_world (terminate forking_world 20 0 (sample_host spec))) = [sample_process 12]"
proof
  fix spec
  obtain h where h: "terminate forking_world 20 0 (sample_host spec) = h" "live_members {10} h = [sample_process 12]" "ht_live_pgids h = []"
    using forking_run by blast
  have "unique_pids forking_world"
    by (auto simp: unique_pids_def forking_world_def sample_process_def distinct_map_filter)
  then show "unique_pids forking_world \<and> live_members {10} (terminate forking_world 20 0 (sample_host spec)) = [sample_process 12]
     \<and> live_members {10} (emergency_cleanup forking_world (terminate forking_world 20 0 (sample_host spec))) = [sample_process 12]"
    using h(2) by (simp add: h(1) cleanup_nothing[OF h(3)])
qed

end
