(* ===== verification/Runtime_Stop.thy ===== *)
theory Runtime_Stop
  imports "Runtime_State"
begin

text \<open>
  What \<^verbatim>\<open>servepilot stop\<close> guarantees (\<^verbatim>\<open>RuntimeStateStore.stop\<close>): whom it signals, and what its answer means.
\<close>

section \<open>Between two calls no recorded id is handed out again\<close>

definition steady :: "int set \<Rightarrow> world \<Rightarrow> bool" where
  "steady R w \<longleftrightarrow> (\<forall>n t. \<forall>p \<in> set (wd_call w n t). op_pid p \<in> R \<longrightarrow> (\<exists>q \<in> set t. ages q p))"

definition recorded_pids :: "runtime_state \<Rightarrow> int set" where
  "recorded_pids st = insert (ru_servepilot_pid st) (set (map ch_pid (ru_children st)))"

definition pinned :: "int \<Rightarrow> os_process \<Rightarrow> host \<Rightarrow> bool" where
  "pinned pid q h \<longleftrightarrow> (\<forall>p \<in> set (ht_table h). op_pid p = pid \<longrightarrow> ages q p)"

definition pinned_child :: "stopping \<Rightarrow> child_record \<Rightarrow> bool" where
  "pinned_child s c \<longleftrightarrow> (\<exists>q \<in> set (sp_seen s). op_pid q = ch_pid c \<and> same_birth (ch_create_time c) q \<and> pinned (ch_pid c) q (sp_host s))"

text \<open>A signal that may be sent: to the recorded ServePilot process, or within the group of a process found to be a recorded engine.\<close>

definition allowed :: "runtime_state \<Rightarrow> os_process list \<Rightarrow> os_process \<Rightarrow> bool" where
  "allowed st seen p \<longleftrightarrow> (op_pid p = ru_servepilot_pid st \<and> same_birth (ru_servepilot_create_time st) p)
     \<or> list_ex (\<lambda>c. list_ex (\<lambda>q. op_pid q = ch_pid c \<and> same_birth (ch_create_time c) q \<and> op_pgid p = op_pgid q) seen) (ru_children st)"

definition justified :: "runtime_state \<Rightarrow> stopping \<Rightarrow> bool" where
  "justified st s \<longleftrightarrow> pids_ok (sp_host s) \<and> list_all (\<lambda>(sig, p). allowed st (sp_seen s) p) (ht_sent (sp_host s))"

lemma same_birth_ages: "ages q p \<Longrightarrow> same_birth t p = same_birth t q"
  using ages_fields[of q p] by (simp add: same_birth_def)

lemma allowed_mono: "allowed st seen p \<Longrightarrow> set seen \<subseteq> set seen' \<Longrightarrow> allowed st seen' p"
  unfolding allowed_def list_ex_iff by blast

lemma sent_calls [simp]: "ht_sent (elapse w h) = ht_sent h" "ht_sent (pause w d h) = ht_sent h"
  by (simp_all add: elapse_def pause_def)

lemma pinned_elapse: "pinned pid q h \<Longrightarrow> pid \<in> R \<Longrightarrow> steady R w \<Longrightarrow> pinned pid q (elapse w h)"
  unfolding pinned_def steady_def elapse_def by simp (metis ages_fields ages_trans)

lemma pinned_deliver: "pinned pid q h \<Longrightarrow> pinned pid q (snd (deliver sig P h))"
  by (auto simp: deliver_def hit_def pinned_def ages_def)

lemma sent_deliver: "(sig', p) \<in> set (ht_sent (snd (deliver sig P h))) \<Longrightarrow> (sig', p) \<in> set (ht_sent h) \<or> (p \<in> set (ht_table h) \<and> P p)"
  by (auto simp: deliver_def hit_def split: if_splits)

text \<open>A match pins the id: as long as nothing sleeps, whoever has it is the process that matched.\<close>

lemma matches_keeps:
  "sp_host (snd (process_matches w pid t s)) = elapse w (sp_host s)"
  "\<exists>qs. sp_seen (snd (process_matches w pid t s)) = sp_seen s @ qs"
  by (auto simp: process_matches_def Let_def split: option.split)

lemma matches_pins:
  assumes "unique_pids w" "pids_ok (sp_host s)" "fst (process_matches w pid t s)"
  shows "\<exists>q \<in> set (sp_seen (snd (process_matches w pid t s))). op_pid q = pid \<and> same_birth t q
    \<and> pinned pid q (sp_host (snd (process_matches w pid t s)))"
proof -
  let ?h = "elapse w (sp_host s)"
  obtain q where q: "find_process pid (ht_table ?h) = Some q" "same_birth t q" "sp_seen (snd (process_matches w pid t s)) = sp_seen s @ [q]"
    using assms(3) by (auto simp: process_matches_def Let_def split: option.splits if_splits)
  have "op_pid q = pid" using q(1) by (auto simp: find_process_def find_Some_iff)
  moreover have "pinned pid q ?h"
    using find_unique[OF elapse_pids[OF assms(1,2)]] q(1) by (fastforce simp: pinned_def)
  ultimately show ?thesis using q matches_keeps(1)[of w pid t s] by auto
qed

lemma matches_justified:
  assumes "unique_pids w" "justified st s"
  shows "justified st (snd (process_matches w pid t s))"
proof -
  obtain qs where "sp_seen (snd (process_matches w pid t s)) = sp_seen s @ qs" using matches_keeps(2) by blast
  then show ?thesis using assms matches_keeps(1)[of w pid t s] allowed_mono[of st "sp_seen s" _ "sp_seen s @ qs"]
    by (auto simp: justified_def elapse_pids list_all_iff)
qed

lemma matches_pinned_child:
  assumes "pinned_child s c" "steady R w" "ch_pid c \<in> R"
  shows "pinned_child (snd (process_matches w pid t s)) c"
proof -
  obtain qs where "sp_seen (snd (process_matches w pid t s)) = sp_seen s @ qs" using matches_keeps(2) by blast
  then show ?thesis using assms pinned_elapse[OF _ assms(3,2)] matches_keeps(1)[of w pid t s] by (auto simp: pinned_child_def)
qed

lemma live_among_keeps:
  assumes w: "unique_pids w" "steady R w"
  shows "justified st s \<Longrightarrow> set (map ch_pid cs) \<subseteq> R \<Longrightarrow>
      justified st (snd (live_among w cs s)) \<and> set (fst (live_among w cs s)) \<subseteq> set cs
      \<and> list_all (pinned_child (snd (live_among w cs s))) (fst (live_among w cs s))
      \<and> (\<forall>c. ch_pid c \<in> R \<longrightarrow> pinned_child s c \<longrightarrow> pinned_child (snd (live_among w cs s)) c)"
proof (induction cs arbitrary: s)
  case (Cons c cs)
  let ?s = "snd (process_matches w (ch_pid c) (ch_create_time c) s)"
  have j: "justified st ?s" by (rule matches_justified[OF w(1) Cons(2)])
  note ih = Cons(1)[OF j]
  have "pinned_child ?s c" if "fst (process_matches w (ch_pid c) (ch_create_time c) s)"
    using matches_pins[OF w(1) _ that] Cons(2) by (simp add: pinned_child_def justified_def)
  then show ?case using ih Cons(3) matches_pinned_child[OF _ w(2), of s] by (auto simp: live_among_Cons)
qed (simp)

lemma pause_justified: "unique_pids w \<Longrightarrow> justified st s \<Longrightarrow> justified st (on_host (pause w d) s)"
  by (simp add: justified_def on_host_def pause_pids)

lemma is_live_justified: "unique_pids w \<Longrightarrow> justified st s \<Longrightarrow> justified st (snd (is_live w st s))"
  unfolding is_live_def by (rule matches_justified)

lemma say_simps [simp]: "sp_host (say m s) = sp_host s" "sp_seen (say m s) = sp_seen s" "justified st (say m s) = justified st s"
  "pinned_child (say m s) c = pinned_child s c"
  by (simp_all add: say_def justified_def pinned_child_def)

lemma poll_live_justified: "unique_pids w \<Longrightarrow> justified st s \<Longrightarrow> justified st (poll_live w st deadline s)"
proof (induction w st deadline s rule: poll_live.induct)
  case (1 w st deadline s)
  have "justified st (snd (is_live w st s))" using is_live_justified 1(2,3) by blast
  then show ?case using 1 pause_justified[of w st "snd (is_live w st s)" "1 / 4"] by (subst poll_live.simps) (auto simp: Let_def)
qed

lemma live_children_keeps:
  assumes "unique_pids w" "steady (recorded_pids st) w" "justified st s"
  shows "justified st (snd (live_children w st s)) \<and> set (fst (live_children w st s)) \<subseteq> set (ru_children st)
    \<and> list_all (pinned_child (snd (live_children w st s))) (fst (live_children w st s))"
  using live_among_keeps[OF assms(1,2,3), of "ru_children st"] by (auto simp: live_children_def recorded_pids_def)

lemma poll_children_justified:
  "unique_pids w \<Longrightarrow> steady (recorded_pids st) w \<Longrightarrow> justified st s \<Longrightarrow> justified st (poll_children w st deadline s)"
proof (induction w st deadline s rule: poll_children.induct)
  case (1 w st deadline s)
  have "justified st (snd (live_children w st s))" using live_children_keeps 1(2-4) by blast
  then show ?case using 1 pause_justified[of w st "snd (live_children w st s)" "1 / 4"] by (subst poll_children.simps) (auto simp: Let_def)
qed

section \<open>Whom the command signals\<close>

lemma signal_engine_keeps:
  assumes w: "unique_pids w" "steady R w" and R: "ch_pid c \<in> R" and c: "c \<in> set (ru_children st)"
    and s: "justified st s" "pinned_child s c"
  shows "justified st (signal_engine w sig message c s) \<and> (\<forall>d. ch_pid d \<in> R \<longrightarrow> pinned_child s d \<longrightarrow> pinned_child (signal_engine w sig message c s) d)"
proof -
  let ?h = "elapse w (sp_host s)"
  obtain q where q: "q \<in> set (sp_seen s)" "op_pid q = ch_pid c" "same_birth (ch_create_time c) q" "pinned (ch_pid c) q (sp_host s)"
    using s(2) by (auto simp: pinned_child_def)
  have ok: "pids_ok ?h" using s(1) elapse_pids[OF w(1)] by (simp add: justified_def)
  have j1: "justified st (s\<lparr>sp_host := ?h\<rparr>)" using s(1) ok by (simp add: justified_def)
  have p1: "pinned_child (s\<lparr>sp_host := ?h\<rparr>) d" if "ch_pid d \<in> R" "pinned_child s d" for d
    using that pinned_elapse[OF _ that(1) w(2)] by (auto simp: pinned_child_def)
  show ?thesis
  proof (cases "find_process (ch_pid c) (ht_table ?h)")
    case None
    then have "signal_engine w sig message c s = s\<lparr>sp_host := ?h\<rparr>" by (simp add: signal_engine_def os_getpgid_def Let_def)
    then show ?thesis using j1 p1 by simp
  next
    case (Some p)
    have p: "p \<in> set (ht_table ?h)" "op_pid p = ch_pid c" using Some by (auto simp: find_process_def find_Some_iff)
    have "ages q p" using pinned_elapse[OF q(4) R w(2)] p by (simp add: pinned_def)
    then have g: "op_pgid p = op_pgid q" by (simp add: ages_fields)
    let ?r = "os_killpg w sig (op_pgid q) ?h"
    have e: "signal_engine w sig message c s = (case fst ?r of Inl e \<Rightarrow> s\<lparr>sp_host := snd ?r\<rparr> | Inr u \<Rightarrow> say (message c) (s\<lparr>sp_host := snd ?r\<rparr>))"
      using Some g by (simp add: signal_engine_def os_getpgid_def Let_def split: prod.split sum.split)
    have "allowed st (sp_seen s) x" if "(sig', x) \<in> set (ht_sent (snd ?r))" for sig' x
    proof -
      have "(sig', x) \<in> set (ht_sent (elapse w ?h)) \<or> op_pgid x = op_pgid q"
        using sent_deliver[OF that[unfolded os_killpg_def]] by blast
      then show ?thesis using s(1) c q by (auto simp: justified_def allowed_def list_all_iff list_ex_iff)
    qed
    then have "justified st (s\<lparr>sp_host := snd ?r\<rparr>)"
      using kill_pids_ok(2)[OF w(1) ok] by (auto simp: justified_def list_all_iff)
    moreover have "pinned_child (s\<lparr>sp_host := snd ?r\<rparr>) d" if "ch_pid d \<in> R" "pinned_child s d" for d
      using p1[OF that] pinned_deliver[OF pinned_elapse[OF _ that(1) w(2)]] unfolding os_killpg_def by (auto simp: pinned_child_def)
    ultimately show ?thesis unfolding e by (auto split: sum.split)
  qed
qed

lemma signal_all_justified:
  assumes w: "unique_pids w" "steady (recorded_pids st) w"
  shows "justified st s \<Longrightarrow> set cs \<subseteq> set (ru_children st) \<Longrightarrow> list_all (pinned_child s) cs \<Longrightarrow> justified st (fold (signal_engine w sig message) cs s)"
proof (induction cs arbitrary: s)
  case (Cons c cs)
  have R: "ch_pid d \<in> recorded_pids st" if "d \<in> set (c # cs)" for d using that Cons(3) by (auto simp: recorded_pids_def)
  have "justified st (signal_engine w sig message c s)" "list_all (pinned_child (signal_engine w sig message c s)) cs"
    using signal_engine_keeps[OF w R _ Cons(2), of c sig message] Cons(3,4) R by (auto simp: list_all_iff)
  then show ?case using Cons(1,3) by simp
qed simp

lemma kill_main_justified:
  assumes w: "unique_pids w" "steady (recorded_pids st) w" and s: "justified st s" "fst (is_live w st s)"
  shows "justified st ((snd (is_live w st s))\<lparr>sp_host := snd (os_kill w sig (ru_servepilot_pid st) (sp_host (snd (is_live w st s))))\<rparr>)"
proof -
  let ?s = "snd (is_live w st s)" and ?pid = "ru_servepilot_pid st"
  obtain q where q: "same_birth (ru_servepilot_create_time st) q" "pinned ?pid q (sp_host ?s)"
    using matches_pins[OF w(1) _ s(2)[unfolded is_live_def]] s(1) by (auto simp: is_live_def justified_def)
  have j: "justified st ?s" by (rule is_live_justified[OF w(1) s(1)])
  have pin: "pinned ?pid q (elapse w (sp_host ?s))" using pinned_elapse[OF q(2) _ w(2)] by (simp add: recorded_pids_def)
  have "allowed st (sp_seen ?s) x" if "(sig', x) \<in> set (ht_sent (snd (os_kill w sig ?pid (sp_host ?s))))" for sig' x
  proof -
    have "(sig', x) \<in> set (ht_sent (elapse w (sp_host ?s))) \<or> (x \<in> set (ht_table (elapse w (sp_host ?s))) \<and> op_pid x = ?pid)"
      using sent_deliver[OF that[unfolded os_kill_def]] by blast
    then show ?thesis
    proof
      assume "x \<in> set (ht_table (elapse w (sp_host ?s))) \<and> op_pid x = ?pid"
      then show ?thesis using pin q(1) same_birth_ages by (auto simp: pinned_def allowed_def)
    qed (use j in \<open>auto simp: justified_def list_all_iff\<close>)
  qed
  then show ?thesis using kill_pids_ok(1)[OF w(1)] j by (auto simp: justified_def list_all_iff)
qed

lemma host_update [simp]: "sp_seen (s\<lparr>sp_host := h\<rparr>) = sp_seen s" "sp_host (s\<lparr>sp_host := h\<rparr>) = h"
  by simp_all

lemma stop_main_justified:
  assumes w: "unique_pids w" "steady (recorded_pids st) w" and s: "justified st s"
  shows "justified st (snd (stop_main w st grace s))"
proof -
  obtain live s1 where l1: "is_live w st s = (live, s1)" by (cases "is_live w st s")
  have j1: "justified st s1" using is_live_justified[OF w(1) s] l1 by simp
  obtain r h where k1: "os_kill w SIGTERM (ru_servepilot_pid st) (sp_host s1) = (r, h)" by (cases "os_kill w SIGTERM (ru_servepilot_pid st) (sp_host s1)")
  have j2: "justified st (s1\<lparr>sp_host := h\<rparr>)" if live using kill_main_justified[OF w s, of SIGTERM] l1 k1 that by simp
  let ?s2 = "say (''sent SIGTERM to ServePilot pid '' @ str_int (ru_servepilot_pid st)) (s1\<lparr>sp_host := h\<rparr>)"
  let ?s3 = "poll_live w st (ht_now (sp_host ?s2) + grace) ?s2"
  have j3: "justified st ?s3" if live using poll_live_justified[OF w(1)] j2[OF that] by simp
  obtain live2 s4 where l2: "is_live w st ?s3 = (live2, s4)" by (cases "is_live w st ?s3")
  have j4: "justified st s4" if live using is_live_justified[OF w(1) j3[OF that]] l2 by simp
  obtain r2 h2 where k2: "os_kill w SIGKILL (ru_servepilot_pid st) (sp_host s4) = (r2, h2)" by (cases "os_kill w SIGKILL (ru_servepilot_pid st) (sp_host s4)")
  have j5: "justified st (s4\<lparr>sp_host := h2\<rparr>)" if live live2
    using kill_main_justified[OF w j3[OF that(1)], of SIGKILL] l2 k2 that by simp
  have j6: "justified st (on_host (pause w (1 / 2)) (say m (s4\<lparr>sp_host := h2\<rparr>)))" if live live2 for m
    using pause_justified[OF w(1)] j5[OF that] by simp
  show ?thesis
  proof (cases live)
    case True
    show ?thesis using True l1 k1 l2 k2 j2 j4 j5 j6 by (cases r; cases live2; cases r2) (simp_all add: stop_main_def Let_def)
  qed (simp add: stop_main_def l1 j1)
qed

lemma stop_leftovers_justified:
  assumes w: "unique_pids w" "steady (recorded_pids st) w" and s: "justified st s"
  shows "justified st (stop_leftovers w st grace s)"
proof -
  obtain ls s1 where l: "live_children w st s = (ls, s1)" by (cases "live_children w st s")
  let ?s2 = "fold (signal_engine w SIGTERM leftover_message) ls s1"
  have j2: "justified st ?s2" using signal_all_justified[OF w] live_children_keeps[OF w s] l by simp
  let ?s3 = "poll_children w st (ht_now (sp_host ?s2) + grace) ?s2"
  have j3: "justified st ?s3" by (rule poll_children_justified[OF w j2])
  show ?thesis using j2 signal_all_justified[OF w] live_children_keeps[OF w j3] l
    by (auto simp: stop_leftovers_def Let_def split: prod.split)
qed

lemma all_gone_justified:
  assumes w: "unique_pids w" "steady (recorded_pids st) w" and s: "justified st s"
  shows "justified st (snd (all_gone w st s))"
proof -
  obtain live s1 where l: "is_live w st s = (live, s1)" by (cases "is_live w st s")
  obtain rest s2 where r: "live_children w st s1 = (rest, s2)" by (cases "live_children w st s1")
  have "justified st s1" using is_live_justified[OF w(1) s] l by simp
  then show ?thesis using live_children_keeps[OF w, of s1] l r by (simp add: all_gone_def)
qed

lemma stop_justified:
  assumes w: "unique_pids w" "steady (recorded_pids st) w" and h: "pids_ok h" "ht_sent h = []"
  shows "justified st (fst (snd (stop_deployment w st grace h f)))"
proof -
  let ?s = "\<lparr>sp_host = h, sp_messages = [], sp_seen = []\<rparr>"
  have "justified st ?s" using h by (simp add: justified_def)
  obtain e s1 where m: "stop_main w st grace ?s = (e, s1)" by (cases "stop_main w st grace ?s")
  have j: "justified st s1" using stop_main_justified[OF w \<open>justified st ?s\<close>, of grace] m by simp
  obtain stopped s2 where a: "all_gone w st (stop_leftovers w st grace s1) = (stopped, s2)" by (cases "all_gone w st (stop_leftovers w st grace s1)")
  have "justified st s2" using all_gone_justified[OF w stop_leftovers_justified[OF w j, of grace]] a by simp
  then show ?thesis using j m a by (cases e) (simp_all add: stop_deployment_def)
qed

text \<open>
  C16: \<^verbatim>\<open>servepilot stop\<close> never signals a stranger. Whatever the process table does while the command sleeps, process ids
  of dead processes being given to new ones included, each signal it sends goes to the recorded ServePilot process or
  into the process group of a process that was recognised as a recorded engine by its id and birth time. What is
  assumed: process ids are unique, and a recorded id is not handed out anew in the instant between two adjacent calls.
\<close>

theorem stop_signals_only_recorded:
  assumes "unique_pids w" and "steady (recorded_pids st) w" and "pids_ok h" and "ht_sent h = []"
  shows "list_all (\<lambda>(sig, p). allowed st (sp_seen (fst (snd (stop_deployment w st grace h f)))) p)
    (ht_sent (sp_host (fst (snd (stop_deployment w st grace h f)))))"
  using stop_justified[OF assms, of grace f] by (simp add: justified_def)

section \<open>What the answer means\<close>

definition still_recorded :: "runtime_state \<Rightarrow> os_process \<Rightarrow> bool" where
  "still_recorded st p \<longleftrightarrow> \<not> op_zombie p \<and> \<not> op_opaque p
     \<and> ((op_pid p = ru_servepilot_pid st \<and> same_birth (ru_servepilot_create_time st) p)
        \<or> list_ex (\<lambda>c. op_pid p = ch_pid c \<and> same_birth (ch_create_time c) p) (ru_children st))"

definition absent :: "int \<Rightarrow> float64 \<Rightarrow> stopping \<Rightarrow> bool" where
  "absent pid t s \<longleftrightarrow> (\<forall>p \<in> set (ht_table (sp_host s)). op_pid p = pid \<longrightarrow> op_zombie p \<or> op_opaque p \<or> \<not> same_birth t p)"

lemma ages_opaque: "ages q p \<Longrightarrow> op_opaque p = op_opaque q"
  by (auto simp: ages_def)

lemma absent_match:
  assumes "unique_pids w" "pids_ok (sp_host s)" "\<not> fst (process_matches w pid t s)"
  shows "absent pid t (snd (process_matches w pid t s))"
proof -
  let ?h = "elapse w (sp_host s)"
  have "op_zombie p \<or> op_opaque p \<or> \<not> same_birth t p" if "p \<in> set (ht_table ?h)" "op_pid p = pid" for p
    using find_unique[OF elapse_pids[OF assms(1,2)] that(1)] that(2) assms(3) by (auto simp: process_matches_def Let_def split: if_splits)
  then show ?thesis unfolding absent_def matches_keeps(1) by blast
qed

lemma absent_kept:
  assumes "absent pid t s" "steady R w" "pid \<in> R"
  shows "absent pid t (snd (process_matches w pid' t' s))"
  unfolding absent_def matches_keeps(1)
proof (intro ballI impI)
  fix p assume p: "p \<in> set (ht_table (elapse w (sp_host s)))" "op_pid p = pid"
  then obtain q where q: "q \<in> set (ht_table (sp_host s))" "ages q p"
    using assms(2,3) unfolding steady_def elapse_def by simp blast
  then have "op_pid q = pid" using p(2) ages_fields by metis
  then show "op_zombie p \<or> op_opaque p \<or> \<not> same_birth t p"
    using assms(1) q ages_fields[OF q(2)] ages_opaque[OF q(2)] same_birth_ages[OF q(2)] by (auto simp: absent_def)
qed

lemma live_among_absent:
  assumes w: "unique_pids w" "steady R w"
  shows "pids_ok (sp_host s) \<Longrightarrow> set (map ch_pid cs) \<subseteq> R \<Longrightarrow> fst (live_among w cs s) = [] \<Longrightarrow>
      (\<forall>c \<in> set cs. absent (ch_pid c) (ch_create_time c) (snd (live_among w cs s)))
      \<and> (\<forall>pid t. pid \<in> R \<longrightarrow> absent pid t s \<longrightarrow> absent pid t (snd (live_among w cs s)))"
proof (induction cs arbitrary: s)
  case (Cons c cs)
  let ?m = "process_matches w (ch_pid c) (ch_create_time c) s"
  have n: "\<not> fst ?m" "fst (live_among w cs (snd ?m)) = []" using Cons(4) by (auto simp: live_among_Cons split: if_splits)
  have ok: "pids_ok (sp_host (snd ?m))" using Cons(2) elapse_pids[OF w(1)] by (simp add: matches_keeps)
  note ih = Cons(1)[OF ok _ n(2)]
  have "absent (ch_pid c) (ch_create_time c) (snd ?m)" by (rule absent_match[OF w(1) Cons(2) n(1)])
  then show ?case using ih Cons(3) absent_kept[OF _ w(2), of _ _ s] by (auto simp: live_among_Cons)
qed simp

lemma all_gone_absent:
  assumes w: "unique_pids w" "steady (recorded_pids st) w" and s: "pids_ok (sp_host s)" "fst (all_gone w st s)"
  shows "\<not> list_ex (still_recorded st) (ht_table (sp_host (snd (all_gone w st s))))"
proof -
  let ?l = "is_live w st s"
  have n: "\<not> fst ?l" "fst (live_children w st (snd ?l)) = []" "snd (all_gone w st s) = snd (live_children w st (snd ?l))"
    using s(2) by (auto simp: all_gone_def split: prod.splits if_splits)
  have 1: "absent (ru_servepilot_pid st) (ru_servepilot_create_time st) (snd ?l)"
    using absent_match[OF w(1) s(1)] n(1) by (simp add: is_live_def)
  have ok: "pids_ok (sp_host (snd ?l))" using s(1) elapse_pids[OF w(1)] by (simp add: is_live_def matches_keeps)
  have r: "ru_servepilot_pid st \<in> recorded_pids st" "set (map ch_pid (ru_children st)) \<subseteq> recorded_pids st"
    by (auto simp: recorded_pids_def)
  have "absent (ru_servepilot_pid st) (ru_servepilot_create_time st) (snd (all_gone w st s))"
    and "\<forall>c \<in> set (ru_children st). absent (ch_pid c) (ch_create_time c) (snd (all_gone w st s))"
    using live_among_absent[OF w ok r(2)] n(2) 1 r(1) unfolding n(3) live_children_def by auto
  then show ?thesis by (auto simp: still_recorded_def absent_def list_ex_iff)
qed

text \<open>
  C17: The answer of \<^verbatim>\<open>servepilot stop\<close> is true: when it reports the deployment stopped, no recorded process, ServePilot or
  engine, is left running that the command could inspect, and the state file is removed exactly then.
\<close>

theorem stop_report_true:
  assumes "unique_pids w" and "steady (recorded_pids st) w" and "pids_ok h" and "ht_sent h = []"
    and "stop_deployment w st grace h f = (Inr (stopped, messages), s, f')"
  shows "(stopped \<longrightarrow> \<not> list_ex (still_recorded st) (ht_table (sp_host s))) \<and> f' = (if stopped then Absent else f)"
proof -
  let ?s = "\<lparr>sp_host = h, sp_messages = [], sp_seen = []\<rparr>"
  note w = assms(1,2)
  have "justified st ?s" using assms(3,4) by (simp add: justified_def)
  obtain e s1 where m: "stop_main w st grace ?s = (e, s1)" by (cases "stop_main w st grace ?s")
  have j: "justified st s1" using stop_main_justified[OF w \<open>justified st ?s\<close>, of grace] m by simp
  have "e = None" and a: "all_gone w st (stop_leftovers w st grace s1) = (stopped, s)" and f: "f' = (if stopped then Absent else f)"
    using assms(5) m by (auto simp: stop_deployment_def split: option.splits prod.splits)
  have "pids_ok (sp_host (stop_leftovers w st grace s1))" using stop_leftovers_justified[OF w j, of grace] by (simp add: justified_def)
  from all_gone_absent[OF w this] show ?thesis using a f by simp
qed

section \<open>An engine that was recorded, a stranger with the id of ServePilot\<close>

text \<open>ServePilot died; its id now belongs to a stranger, and its engine, which leads a group with a worker, ignores the request to end.\<close>

definition sample_record :: runtime_state where
  "sample_record = \<lparr>ru_schema_version = 1, ru_servepilot_pid = 7, ru_servepilot_create_time = 100, ru_servepilot_version = ''1'',
     ru_model = ''m'', ru_served_model_name = ''m'', ru_public_host = ''h'', ru_public_port = 8000, ru_backend_ports = [30000],
     ru_children = [\<lparr>ch_pid = 10, ch_create_time = 5, ch_replica_id = ''r'', ch_port = 30000, ch_gpu_ids = [0]\<rparr>],
     ru_started_at = ''t'', ru_plan_id = ''p'', ru_engine = ''vllm'', ru_tensor_parallel_size = 1, ru_replica_count = 1, ru_gpu_groups = [[0]]\<rparr>"

definition stranger :: os_process where
  "stranger = \<lparr>op_pid = 7, op_pgid = 7, op_created = 500, op_zombie = False, op_foreign = False, op_opaque = False\<rparr>"

definition crashed_host :: host where
  "crashed_host = \<lparr>ht_table = [stranger, sample_process 10, sample_process 11], ht_steps = 0, ht_now = 0, ht_sent = [],
     ht_handles = [], ht_launched = [], ht_live_pgids = []\<rparr>"

lemma steady_subset: "(\<And>n t. set (wd_call w n t) \<subseteq> set t) \<Longrightarrow> steady R w"
  unfolding steady_def using ages_refl by blast

lemma still_world_steady: "steady R still_world"
  by (rule steady_subset) (simp add: still_world_def)

lemma crashed_host_ok: "pids_ok crashed_host" "ht_sent crashed_host = []"
  by (simp_all add: crashed_host_def pids_ok_def stranger_def sample_process_def)

lemma crashed_run:
  "\<exists>s ms. stop_deployment still_world sample_record 0 crashed_host (Unreadable []) = (Inr (True, ms), s, Absent)
     \<and> ht_sent (sp_host s) = [(SIGTERM, sample_process 10), (SIGTERM, sample_process 11), (SIGKILL, sample_process 10), (SIGKILL, sample_process 11)]"
proof -
  have b: "same_birth 5 (sample_process 10)" "\<not> same_birth 100 stranger" by code_simp+
  show ?thesis using b
    by (simp add: stop_deployment_def stop_main_def stop_leftovers_def all_gone_def is_live_def live_children_def live_among_Cons
        process_matches_def signal_engine_def os_getpgid_def os_killpg_def deliver_def hit_def elapse_def still_world_def
        crashed_host_def sample_record_def find_process_def poll_children.simps on_host_def say_def Let_def sample_process_def stranger_def)
qed

theorem stop_signals_only_recorded_witness:
  "list_all (\<lambda>(sig, p). allowed sample_record (sp_seen (fst (snd (stop_deployment still_world sample_record 0 crashed_host (Unreadable []))))) p)
     (ht_sent (sp_host (fst (snd (stop_deployment still_world sample_record 0 crashed_host (Unreadable []))))))
   \<and> stranger \<notin> snd ` set (ht_sent (sp_host (fst (snd (stop_deployment still_world sample_record 0 crashed_host (Unreadable []))))))"
proof -
  obtain s ms where r: "stop_deployment still_world sample_record 0 crashed_host (Unreadable []) = (Inr (True, ms), s, Absent)"
      "ht_sent (sp_host s) = [(SIGTERM, sample_process 10), (SIGTERM, sample_process 11), (SIGKILL, sample_process 10), (SIGKILL, sample_process 11)]"
    using crashed_run by blast
  have "stranger \<noteq> sample_process 10" "stranger \<noteq> sample_process 11" by (simp_all add: stranger_def sample_process_def)
  then show ?thesis
    using stop_signals_only_recorded[OF still_world_ok(1) still_world_steady crashed_host_ok, of sample_record 0 "Unreadable []"] r by simp
qed

theorem stop_report_true_witness:
  "\<exists>s ms. stop_deployment still_world sample_record 0 crashed_host (Unreadable []) = (Inr (True, ms), s, Absent)
     \<and> \<not> list_ex (still_recorded sample_record) (ht_table (sp_host s))"
proof -
  obtain s ms where r: "stop_deployment still_world sample_record 0 crashed_host (Unreadable []) = (Inr (True, ms), s, Absent)"
    using crashed_run by blast
  from stop_report_true[OF still_world_ok(1) still_world_steady crashed_host_ok r] r show ?thesis by blast
qed

section \<open>ServePilot exits at the wrong moment\<close>

text \<open>ServePilot is running and exits right after the command has recognised it, leaving its engine behind.\<close>

definition exiting_world :: world where
  "exiting_world = \<lparr>wd_call = (\<lambda>n t. if n = 1 then filter (\<lambda>p. op_pid p \<noteq> 7) t else t), wd_sleep = (\<lambda>n t. t), wd_lag = (\<lambda>n. 0)\<rparr>"

definition serving_host :: host where
  "serving_host = crashed_host\<lparr>ht_table := [stranger\<lparr>op_created := 100\<rparr>, sample_process 10, sample_process 11]\<rparr>"

text \<open>
  C39: A process that ends between the check and the signal makes the command fail: \<^verbatim>\<open>os.kill\<close> raises, nothing catches it,
  and the engines left behind are not signalled at all, although the code for leftovers would have ended them. (The
  calls for engines do catch this error.)
\<close>

theorem stop_fails_when_main_exits:
  "unique_pids exiting_world \<and> steady (recorded_pids sample_record) exiting_world
   \<and> fst (stop_deployment exiting_world sample_record 30 serving_host f) = Inl ProcessLookupError
   \<and> ht_sent (sp_host (fst (snd (stop_deployment exiting_world sample_record 30 serving_host f)))) = []
   \<and> list_ex (still_recorded sample_record) (ht_table (sp_host (fst (snd (stop_deployment exiting_world sample_record 30 serving_host f)))))"
proof -
  have "unique_pids exiting_world" by (simp add: unique_pids_def exiting_world_def distinct_map_filter)
  moreover have "steady (recorded_pids sample_record) exiting_world"
    by (rule steady_subset) (simp add: exiting_world_def)
  moreover have b: "same_birth 5 (sample_process 10)" "same_birth 100 (stranger\<lparr>op_created := 100\<rparr>)" by code_simp+
  have "\<exists>s. stop_deployment exiting_world sample_record 30 serving_host f = (Inl ProcessLookupError, s, f)
      \<and> ht_sent (sp_host s) = [] \<and> ht_table (sp_host s) = [sample_process 10, sample_process 11]"
    using b(2) by (simp add: stop_deployment_def stop_main_def is_live_def process_matches_def os_kill_def deliver_def elapse_def exiting_world_def
        serving_host_def crashed_host_def sample_record_def find_process_def Let_def sample_process_def stranger_def)
  moreover have "still_recorded sample_record (sample_process 10)"
    using b(1) by (simp add: still_recorded_def sample_record_def sample_process_def)
  ultimately show ?thesis by auto
qed

end
