(* ===== verification/Deployment.thy ===== *)
theory Deployment
  imports Health Runtime_Stop
begin

text \<open>
  A production deployment, \<^verbatim>\<open>runtime/supervisor.py\<close> and \<^verbatim>\<open>runtime/server.py\<close>: starting the replica set, the HTTP
  server and the health checker, writing the runtime state, and the shutdown that always follows. The parts are those of the
  theories on replicas, health and runtime state; a process of the set has an id and a birth time given by a parameter.
\<close>

section \<open>The HTTP server\<close>

text \<open>What a poll of the starting server sees: it serves, its task has ended with an error, or the time since the start.\<close>

datatype server_view = Serving | Server_failed string | Not_yet rat

definition server_failure :: "string \<Rightarrow> int \<Rightarrow> string \<Rightarrow> string" where
  "server_failure host port exc = ''could not start the ServePilot HTTP server on '' @ host @ '':'' @ str_int port @ '': '' @ exc"

definition server_timeout :: "rat \<Rightarrow> string" where
  "server_timeout timeout = ''ServePilot HTTP server did not start within '' @ fmt_f 0 timeout @ ''s''"

fun server_start :: "string \<Rightarrow> int \<Rightarrow> rat \<Rightarrow> server_view list \<Rightarrow> (string + unit) option" where
  "server_start host port timeout [] = None"
| "server_start host port timeout (v # vs) =
     (case v of
        Serving \<Rightarrow> Some (Inr ())
      | Server_failed exc \<Rightarrow> Some (Inl (server_failure host port exc))
      | Not_yet t \<Rightarrow> if timeout < t then Some (Inl (server_timeout timeout)) else server_start host port timeout vs)"

definition server_base_url :: "string \<Rightarrow> int \<Rightarrow> string" where
  "server_base_url host port =
     ''http://'' @ (if host \<in> {''0.0.0.0'', ''::''} then ''127.0.0.1'' else host) @ '':'' @ str_int port"

section \<open>The deployment\<close>

record deployment_env =
  de_build :: "nat \<Rightarrow> int \<Rightarrow> replica_error + launch_spec"
  de_plan :: candidate_plan
  de_model_id :: string
  de_served_model_name :: string
  de_host :: string
  de_port :: int
  de_pid :: int
  de_create_time :: float64
  de_version :: string
  de_started_at :: string
  de_health :: health_config
  de_identity :: "nat \<Rightarrow> int option \<times> float64 option"

record deployment =
  dp_health :: health
  dp_probing :: bool
  dp_serving :: bool
  dp_file :: "runtime_state option"
  dp_events :: "string list"
  dp_stop_requested :: bool
  dp_ready :: bool

datatype deployment_error = Launch_failed string | Other_error replica_error | Server_error string

definition new_deployment :: "port_allocator \<Rightarrow> router \<Rightarrow> float64 \<Rightarrow> runtime_state option \<Rightarrow> deployment" where
  "new_deployment a rt now f = \<lparr>dp_health = new_health (new_fleet a (Some rt)) now, dp_probing = False, dp_serving = False, dp_file = f,
     dp_events = [], dp_stop_requested = False, dp_ready = False\<rparr>"

definition announce :: "string \<Rightarrow> deployment \<Rightarrow> deployment" where
  "announce m d = d\<lparr>dp_events := dp_events d @ [m]\<rparr>"

definition with_fleet :: "fleet \<Rightarrow> deployment \<Rightarrow> deployment" where
  "with_fleet s d = d\<lparr>dp_health := (dp_health d)\<lparr>he_fleet := s\<rparr>\<rparr>"

definition request_shutdown :: "string \<Rightarrow> deployment \<Rightarrow> deployment" where
  "request_shutdown reason d =
     (if dp_stop_requested d then d else (announce (''shutdown requested ('' @ reason @ '')'') d)\<lparr>dp_stop_requested := True\<rparr>)"

text \<open>The state file lists the replicas as they are when the start is over.\<close>

definition child_of :: "deployment_env \<Rightarrow> replica \<Rightarrow> child_record option" where
  "child_of de r =
     (case rl_process r of
        None \<Rightarrow> None
      | Some k \<Rightarrow>
          (case fst (de_identity de k) of
             None \<Rightarrow> None
           | Some pid \<Rightarrow>
               if pid = 0 then None
               else Some \<lparr>ch_pid = pid, ch_create_time = the_or (snd (de_identity de k)) 0, ch_replica_id = replica_id r,
                          ch_port = lp_port (rl_spec r), ch_gpu_ids = lp_gpu_ids (rl_spec r)\<rparr>))"

definition ports_in_use :: "fleet \<Rightarrow> int list" where
  "ports_in_use s = map (\<lambda>r. lp_port (rl_spec r)) (fl_replicas s)"

definition runtime_record :: "deployment_env \<Rightarrow> fleet \<Rightarrow> runtime_state" where
  "runtime_record de s =
     \<lparr>ru_schema_version = RUNTIME_STATE_SCHEMA_VERSION, ru_servepilot_pid = de_pid de, ru_servepilot_create_time = de_create_time de,
      ru_servepilot_version = de_version de, ru_model = de_model_id de, ru_served_model_name = de_served_model_name de,
      ru_public_host = de_host de, ru_public_port = de_port de, ru_backend_ports = ports_in_use s,
      ru_children = List.map_filter (child_of de) (fl_replicas s), ru_started_at = de_started_at de, ru_plan_id = cp_id (de_plan de),
      ru_engine = engine_value (cp_engine (de_plan de)), ru_tensor_parallel_size = cp_tensor_parallel_size (de_plan de),
      ru_replica_count = cp_replica_count (de_plan de), ru_gpu_groups = cp_gpu_groups (de_plan de)\<rparr>"

text \<open>The error of a failed replica carries the last lines of its log.\<close>

definition launch_message :: "candidate_failure \<Rightarrow> string \<Rightarrow> string" where
  "launch_message f rid =
     (let tail_lines = last_items 12 (filter (\<lambda>l. py_strip l \<noteq> []) (split_lines (cf_stderr_tail f)));
          detail = (if tail_lines = [] then []
                    else [CHR 0x0A, CHR 0x0A] @ ''Last engine log lines:'' @ [CHR 0x0A] @ ''  '' @ str_join (CHR 0x0A # ''  '') tail_lines)
      in ''replica '' @ rid @ '' failed to start: '' @ cf_message f @ detail)"

definition start_error :: "replica_error \<Rightarrow> deployment_error" where
  "start_error e = (case e of Not_ready f rid \<Rightarrow> Launch_failed (launch_message f rid) | _ \<Rightarrow> Other_error e)"

text \<open>\<^verbatim>\<open>start\<close>, given the events of the replica set's start and the polls of the server; \<open>None\<close>: these are not a complete start.\<close>

definition start_deployment ::
    "deployment_env \<Rightarrow> fleet_event list \<Rightarrow> server_view list \<Rightarrow> deployment \<Rightarrow> ((deployment_error + unit) \<times> deployment) option" where
  "start_deployment de evs views d =
     (let d1 = announce (''starting '' @ str_nat (cp_replica_count (de_plan de)) @ '' replica(s) of '' @ label (de_plan de)) d
      in case fleet_run (cp_replica_count (de_plan de)) (de_build de) evs (he_fleet (dp_health d1)) of
           None \<Rightarrow> None
         | Some s \<Rightarrow>
             (let d2 = with_fleet s d1
              in case fl_phase s of
                   Start_failed e ok \<Rightarrow> Some (Inl (start_error e), d2)
                 | Started \<Rightarrow>
                     (case server_start (de_host de) (de_port de) 30 views of
                        None \<Rightarrow> None
                      | Some (Inl message) \<Rightarrow> Some (Inl (Server_error message), d2\<lparr>dp_serving := True\<rparr>)
                      | Some (Inr u) \<Rightarrow>
                          Some (Inr (), announce (''serving '' @ de_served_model_name de @ '' at '' @ server_base_url (de_host de) (de_port de) @ ''/v1'')
                            (d2\<lparr>dp_serving := True, dp_probing := True, dp_file := Some (runtime_record de s), dp_ready := True\<rparr>)))
                 | _ \<Rightarrow> None))"

text \<open>Serving: the checker's steps until a shutdown is requested.\<close>

fun serve :: "deployment_env \<Rightarrow> health_event list \<Rightarrow> deployment \<Rightarrow> deployment option" where
  "serve de [] d = Some d"
| "serve de (ev # evs) d =
     (case health_step (de_health de) (de_build de) ev (dp_health d) of
        None \<Rightarrow> None | Some h \<Rightarrow> serve de evs (d\<lparr>dp_health := h\<rparr>))"

text \<open>
  \<^verbatim>\<open>shutdown\<close>: the checker first, so that no restart launches an engine any more; then the server, the replicas and whatever else the
  launcher tracks. \<open>dead\<close> and \<open>dead'\<close> are the processes that end when the set and when the launcher tell them to.
\<close>

definition shutdown :: "nat list \<Rightarrow> nat list \<Rightarrow> deployment \<Rightarrow> deployment" where
  "shutdown dead dead' d =
     (let d1 = (announce ''stopping HTTP server'' d)\<lparr>dp_health := stop_health (dp_health d), dp_probing := False\<rparr>;
          d2 = announce ''terminating engine replicas'' (d1\<lparr>dp_serving := False\<rparr>);
          s = snd (stop_set dead (he_fleet (dp_health d2)))
      in announce ''shutdown complete'' ((with_fleet (kill dead' s) d2)\<lparr>dp_file := None\<rparr>))"

definition run_deployment ::
    "deployment_env \<Rightarrow> fleet_event list \<Rightarrow> server_view list \<Rightarrow> health_event list \<Rightarrow> string \<Rightarrow> nat list \<Rightarrow> nat list \<Rightarrow> deployment
      \<Rightarrow> ((deployment_error + unit) \<times> deployment) option" where
  "run_deployment de evs views steps reason dead dead' d =
     (case start_deployment de evs views d of
        None \<Rightarrow> None
      | Some (Inl e, d1) \<Rightarrow> Some (Inl e, shutdown dead dead' d1)
      | Some (Inr u, d1) \<Rightarrow> map_option (\<lambda>d2. (Inr (), shutdown dead dead' (request_shutdown reason d2))) (serve de steps d1))"

section \<open>Nothing is left\<close>

lemma step_ports_always:
  assumes "fleet_step n build ev s = Some s'" "ports_ok a0 s"
  shows "ports_ok a0 s'"
proof (cases "clean_event ev")
  case True
  then show ?thesis using step_ports assms by blast
next
  case False
  then have "fl_alloc s' = fl_alloc s \<and> fl_ports s' = fl_ports s"
    using assms(1) by (cases ev) (auto simp: clean_event_def fleet_step_def Let_def replica_gone_def split: option.splits launch_task.splits if_splits start_phase.splits)
  then show ?thesis using assms(2) by (simp add: ports_ok_def)
qed

lemma run_ports: "fleet_run n build evs s = Some s' \<Longrightarrow> ports_ok a0 s \<Longrightarrow> ports_ok a0 s'"
proof (induction evs arbitrary: s)
  case (Cons ev evs)
  then obtain s1 where "fleet_step n build ev s = Some s1" "fleet_run n build evs s1 = Some s'" by (auto simp: bind_eq_Some_conv)
  then show ?case using Cons step_ports_always by blast
qed simp

text \<open>The checker neither takes nor returns ports: a restarted replica keeps its own.\<close>

definition same_ports :: "fleet \<Rightarrow> health \<Rightarrow> bool" where
  "same_ports s h \<longleftrightarrow> fl_alloc (he_fleet h) = fl_alloc s \<and> fl_ports (he_fleet h) = fl_ports s"

lemma same_ports_simps [simp]:
  "same_ports s (record_event e h) = same_ports s h" "same_ports s (mark x st err h) = same_ports s h"
  "same_ports s (on_fleet (with_router f) h) = same_ports s h" "same_ports s (on_fleet (kill ks) h) = same_ports s h"
  "same_ports s (h\<lparr>he_clock := c\<rparr>) = same_ports s h" "same_ports s (h\<lparr>he_live := l\<rparr>) = same_ports s h"
  "same_ports s (h\<lparr>he_restart_times := ts\<rparr>) = same_ports s h" "same_ports s (h\<lparr>he_restarting := R\<rparr>) = same_ports s h"
  "same_ports s (h\<lparr>he_tasks := ts1\<rparr>) = same_ports s h" "same_ports s (h\<lparr>he_scheduled := ss\<rparr>) = same_ports s h"
  "same_ports s (set_restart j p h) = same_ports s h" "same_ports s (end_restart j m h) = same_ports s h"
  "same_ports s (on_fleet (came_up r spec k sec meta) h) = same_ports s h"
  by (simp_all add: same_ports_def on_fleet_def record_event_def mark_def set_restart_def end_restart_def Let_def came_up_def)

lemma handle_dead_ports: "same_ports s (handle_dead cfg r reason now h) = same_ports s h"
  by (simp add: handle_dead_def Let_def)

lemma settle_ports: "same_ports s (settle cfg bs h) = same_ports s h"
proof -
  have one: "same_ports s (settle_probe cfg rp h) = same_ports s h" for rp h
    by (simp add: settle_probe_def Let_def split: option.split)
  have "same_ports s (foldl (\<lambda>h rp. settle_probe cfg rp h) h rps) = same_ports s h" for rps
    by (induction rps arbitrary: h) (simp_all add: one)
  then show ?thesis by (simp add: settle_def)
qed

lemma restart_ports:
  assumes "restart_step cfg build j inp h = Some h'"
  shows "same_ports s h' = same_ports s h"
proof -
  have j: "j < length (he_tasks h)" using assms by (simp add: restart_step_def split: if_splits)
  have b: "fl_alloc (snd (begin_restart build r killed f)) = fl_alloc f" "fl_ports (snd (begin_restart build r killed f)) = fl_ports f" for r killed f
    by (simp_all add: begin_restart_def Let_def)
  have l: "fl_alloc (snd (relaunched spec n res f)) = fl_alloc f" "fl_ports (snd (relaunched spec n res f)) = fl_ports f" for spec n res f
    by (simp_all add: relaunched_def restart_failed_def split: sum.split)
  have d: "fl_alloc (snd (stayed_down spec k x killed f)) = fl_alloc f" "fl_ports (snd (stayed_down spec k x killed f)) = fl_ports f" for spec k x killed f
    by (simp_all add: stayed_down_def restart_failed_def Let_def)
  have f: "same_ports s (h\<lparr>he_fleet := f\<rparr>) \<longleftrightarrow> fl_alloc f = fl_alloc s \<and> fl_ports f = fl_ports s" for f by (simp add: same_ports_def)
  show ?thesis
  proof (cases "rk_phase (he_tasks h ! j)")
    case Queued then show ?thesis using assms j by (cases inp) (auto simp: restart_step_def Let_def)
  next
    case Asleep
    then obtain killed where inp: "inp = Wake killed" using assms j by (cases inp) (auto simp: restart_step_def Let_def)
    let ?r = "begin_restart build (rk_replica (he_tasks h ! j)) killed (he_fleet h)"
    have "\<exists>p m. h' = (case fst ?r of Inl e \<Rightarrow> end_restart j (m e) (h\<lparr>he_fleet := snd ?r\<rparr>) | Inr q \<Rightarrow> set_restart j (p q) (h\<lparr>he_fleet := snd ?r\<rparr>))"
      using assms j Asleep inp by (cases ?r; cases "fst ?r") (auto simp: restart_step_def Let_def)
    then obtain p m where e: "h' = (case fst ?r of Inl e \<Rightarrow> end_restart j (m e) (h\<lparr>he_fleet := snd ?r\<rparr>) | Inr q \<Rightarrow> set_restart j (p q) (h\<lparr>he_fleet := snd ?r\<rparr>))" by blast
    show ?thesis unfolding e using b[of "rk_replica (he_tasks h ! j)" killed "he_fleet h"] by (cases "fst ?r") (simp_all add: f same_ports_def[of s h])
  next
    case (Relaunching spec n)
    then obtain res where inp: "inp = Relaunch_result res" using assms j by (cases inp) (auto simp: restart_step_def Let_def)
    let ?r = "relaunched spec n res (he_fleet h)"
    have "\<exists>p m. h' = (case fst ?r of Inl e \<Rightarrow> end_restart j (m e) (h\<lparr>he_fleet := snd ?r\<rparr>) | Inr q \<Rightarrow> set_restart j (p q) (h\<lparr>he_fleet := snd ?r\<rparr>))"
      using assms j Relaunching inp by (cases ?r; cases "fst ?r") (auto simp: restart_step_def Let_def)
    then obtain p m where e: "h' = (case fst ?r of Inl e \<Rightarrow> end_restart j (m e) (h\<lparr>he_fleet := snd ?r\<rparr>) | Inr q \<Rightarrow> set_restart j (p q) (h\<lparr>he_fleet := snd ?r\<rparr>))" by blast
    show ?thesis unfolding e using l[of spec n res "he_fleet h"] by (cases "fst ?r") (simp_all add: f same_ports_def[of s h])
  next
    case (Reprobing spec k)
    show ?thesis
    proof (cases inp)
      case (Probe_failed x killed)
      let ?r = "stayed_down spec k x killed (he_fleet h)"
      have "\<exists>m. h' = end_restart j m (h\<lparr>he_fleet := snd ?r\<rparr>)"
        using assms j Reprobing Probe_failed by (cases ?r) (auto simp: restart_step_def Let_def)
      then show ?thesis using d[of spec k x killed "he_fleet h"] by (auto simp: f same_ports_def[of s h])
    qed (use assms j Reprobing in \<open>auto simp: restart_step_def Let_def\<close>)
  qed
qed

lemma health_ports:
  assumes "health_step cfg build ev h = Some h'" "same_ports s h"
  shows "same_ports s h'"
proof (cases ev)
  case (Scan readings)
  then have "scan cfg (fl_replicas (he_fleet h)) readings h = Some h'" using assms(1) by (simp add: health_step_def split: if_splits)
  from scan_invariant[where P = "\<lambda>cfg h. same_ports s h", OF this assms(2)] show ?thesis by (simp add: handle_dead_ports)
qed (use assms restart_ports in \<open>auto simp: health_step_def settle_ports split: if_splits\<close>)

lemma serve_keeps:
  "serve de evs d = Some d' \<Longrightarrow> same_ports s (dp_health d) \<Longrightarrow> same_ports s (dp_health d') \<and> dp_file d' = dp_file d"
proof (induction evs arbitrary: d)
  case (Cons ev evs)
  then obtain h where h: "health_step (de_health de) (de_build de) ev (dp_health d) = Some h" "serve de evs (d\<lparr>dp_health := h\<rparr>) = Some d'"
    by (auto split: option.splits)
  then show ?case using Cons(1)[OF h(2)] health_ports[OF h(1) Cons(3)] by simp
qed simp

text \<open>What a shutdown leaves, whatever came before it.\<close>

lemma shutdown_leaves:
  fixes d dead dead'
  defines "d' \<equiv> shutdown dead dead' d"
  shows "dp_file d' = None" "\<not> dp_serving d'" "\<not> dp_probing d'" "he_tasks (dp_health d') = []" "fl_ports (he_fleet (dp_health d')) = []"
    "k < length (fl_procs (he_fleet (dp_health d'))) \<Longrightarrow> k \<in> set dead' \<Longrightarrow> \<not> fl_procs (he_fleet (dp_health d')) ! k"
    "ports_ok a0 (he_fleet (dp_health d)) \<Longrightarrow> pa_reserved (fl_alloc (he_fleet (dp_health d'))) = pa_reserved a0"
proof -
  show "ports_ok a0 (he_fleet (dp_health d)) \<Longrightarrow> pa_reserved (fl_alloc (he_fleet (dp_health d'))) = pa_reserved a0"
    using stop_ports[of a0 "he_fleet (dp_health d)" dead]
    by (simp add: d'_def shutdown_def Let_def announce_def with_fleet_def stop_health_def ports_ok_def)
qed (simp_all add: d'_def shutdown_def Let_def announce_def with_fleet_def stop_health_def kill_def)

lemma start_ports:
  assumes "start_deployment de evs views d = Some (r, d')" "ports_ok a0 (he_fleet (dp_health d))"
  shows "ports_ok a0 (he_fleet (dp_health d'))"
proof -
  obtain s where s: "fleet_run (cp_replica_count (de_plan de)) (de_build de) evs (he_fleet (dp_health d)) = Some s"
    using assms(1) by (auto simp: start_deployment_def Let_def announce_def split: option.splits)
  have "he_fleet (dp_health d') = s"
    using assms(1) s by (auto simp: start_deployment_def Let_def announce_def with_fleet_def split: start_phase.splits option.splits sum.splits)
  then show ?thesis using run_ports[OF s assms(2)] by simp
qed


section \<open>A sample deployment, and an engine that was restarted\<close>

definition sample_deployment_env :: deployment_env where
  "sample_deployment_env = \<lparr>de_build = (\<lambda>i p. Inr (sample_spec p)), de_plan = base_plan ''p'' VLLM [[0]] 1 1 8192, de_model_id = ''m'',
     de_served_model_name = ''m'', de_host = ''0.0.0.0'', de_port = 8000, de_pid = 7, de_create_time = 100, de_version = ''1'', de_started_at = ''t'',
     de_health = default_health_config, de_identity = (\<lambda>k. if k = 0 then (Some 10, Some 5) else (Some 22, Some 50))\<rparr>"

definition fresh_deployment :: deployment where
  "fresh_deployment = new_deployment sample_pool sample_router 0 None"

text \<open>The engine dies, the checker notices, waits and starts it again.\<close>

definition sample_restart :: "health_event list" where
  "sample_restart = [Process_exit 0, Scan [(1, Some 1)], Restart 0 Run, Restart 0 (Wake True), Restart 0 (Relaunch_result (Inr 22)),
     Restart 0 (Probe_ready 1 [])]"

definition processes_after :: "((deployment_error + unit) \<times> deployment) option \<Rightarrow> (bool \<times> bool list) option" where
  "processes_after = map_option (\<lambda>(r, d). (r = Inr (), fl_procs (he_fleet (dp_health d))))"

lemma sample_deployment_run:
  "processes_after (run_deployment sample_deployment_env sample_start_run [Not_yet 1, Serving] sample_restart ''SIGTERM'' [1] [0, 1] fresh_deployment)
     = Some (True, [False, False])"
  by code_simp


text \<open>\<^verbatim>\<open>stop\<close> on a machine where no recorded id is in use.\<close>

lemma live_among_nothing:
  "\<forall>c \<in> set cs. find_process (ch_pid c) (ht_table (sp_host s)) = None \<Longrightarrow>
   fst (live_among still_world cs s) = [] \<and> ht_table (sp_host (snd (live_among still_world cs s))) = ht_table (sp_host s)
   \<and> ht_sent (sp_host (snd (live_among still_world cs s))) = ht_sent (sp_host s)"
proof (induction cs arbitrary: s)
  case (Cons c cs)
  then show ?case by (simp add: live_among_Cons process_matches_def elapse_def still_world_def Let_def)
qed simp

lemma stop_nothing:
  assumes "find_process (ru_servepilot_pid st) (ht_table h) = None" "\<forall>c \<in> set (ru_children st). find_process (ch_pid c) (ht_table h) = None"
  shows "\<exists>s ms. stop_deployment still_world st grace h f = (Inr (True, ms), s, Absent) \<and> ht_table (sp_host s) = ht_table h \<and> ht_sent (sp_host s) = ht_sent h"
proof -
  let ?e = "elapse still_world h"
  have e: "ht_table (elapse still_world x) = ht_table x" for x by (simp add: elapse_def still_world_def)
  let ?m = "''ServePilot pid '' @ str_int (ru_servepilot_pid st) @ '' is not running (stale state file)''"
  let ?s1 = "\<lparr>sp_host = ?e, sp_messages = [?m], sp_seen = []\<rparr>"
  have m: "stop_main still_world st grace \<lparr>sp_host = h, sp_messages = [], sp_seen = []\<rparr> = (None, ?s1)"
    using assms(1) by (simp add: stop_main_def is_live_def process_matches_def e say_def Let_def)
  obtain ls s2 where l: "live_among still_world (ru_children st) ?s1 = (ls, s2)" by force
  have s2: "ls = []" "ht_table (sp_host s2) = ht_table h" "ht_sent (sp_host s2) = ht_sent h"
    using live_among_nothing[of "ru_children st" ?s1] assms(2) l by (simp_all add: e)
  let ?s3 = "s2\<lparr>sp_host := elapse still_world (sp_host s2)\<rparr>"
  obtain ls2 s4 where l2: "live_among still_world (ru_children st) ?s3 = (ls2, s4)" by force
  have s4: "ls2 = []" "ht_table (sp_host s4) = ht_table h" "ht_sent (sp_host s4) = ht_sent h"
    using live_among_nothing[of "ru_children st" ?s3] assms(2) l2 s2 by (simp_all add: e)
  have "stop_leftovers still_world st grace ?s1 = s2" using l s2(1) by (simp add: stop_leftovers_def live_children_def)
  moreover have "all_gone still_world st s2 = (True, s4)"
    using assms(1) s2 l2 s4(1) by (simp add: all_gone_def is_live_def process_matches_def e live_children_def)
  ultimately show ?thesis using m s4 by (simp add: stop_deployment_def)
qed

definition orphan :: os_process where
  "orphan = \<lparr>op_pid = 22, op_pgid = 22, op_created = 50, op_zombie = False, op_foreign = False, op_opaque = False\<rparr>"

text \<open>ServePilot has been killed; its restarted engine runs on.\<close>

definition orphaned_host :: host where
  "orphaned_host = crashed_host\<lparr>ht_table := [orphan]\<rparr>"

definition serving_sample :: "((int \<times> int list) option \<times> bool list \<times> nat option list) option" where
  "serving_sample =
     (case start_deployment sample_deployment_env sample_start_run [Serving] fresh_deployment of
        Some (Inr u, d) \<Rightarrow>
          map_option (\<lambda>d2. (map_option (\<lambda>st. (ru_servepilot_pid st, map ch_pid (ru_children st))) (dp_file d2),
              fl_procs (he_fleet (dp_health d2)), map rl_process (fl_replicas (he_fleet (dp_health d2)))))
            (serve sample_deployment_env sample_restart d)
      | _ \<Rightarrow> None)"

lemma serving_sample_run: "serving_sample = Some (Some (7, [10]), [False, True], [Some 1])"
  by code_simp


end
