(* ===== verification/Float_Text.thy ===== *)
theory Float_Text
  imports PyText
begin

text \<open>
  Python documents that \<^verbatim>\<open>float(repr(x))\<close> is \<open>x\<close>; state files, tuning records and fingerprints rely on it.
  The theory proves it of the model's binary64: seventeen digits are enough to find a float again.
\<close>

section \<open>Reading a float\<close>

definition up_to :: "char \<Rightarrow> string \<Rightarrow> string" where "up_to c s = takeWhile (\<lambda>x. x \<noteq> c) s"
definition past :: "char \<Rightarrow> string \<Rightarrow> string" where "past c s = drop 1 (dropWhile (\<lambda>x. x \<noteq> c) s)"

definition val_signed :: "string \<Rightarrow> int" where
  "val_signed s = (case s of [] \<Rightarrow> 0 | c # t \<Rightarrow> if c = CHR ''-'' then - val_int t else if c = CHR ''+'' then val_int t else val_int s)"

definition read_unsigned :: "string \<Rightarrow> rat" where
  "read_unsigned s =
     (let m = up_to (CHR ''e'') s; whole = up_to (CHR ''.'') m; frac = past (CHR ''.'') m
      in of_int (val_int (whole @ frac)) * 10 powi (val_signed (past (CHR ''e'') s) - int (length frac)))"

definition read_float :: "string \<Rightarrow> float64" where
  "read_float s = fl (case s of c # t \<Rightarrow> if c = CHR ''-'' then - read_unsigned t else read_unsigned s | [] \<Rightarrow> 0)"

section \<open>A number close to a float rounds to it\<close>

lemma on_grid: "fl x = x \<Longrightarrow> \<exists>m. x = of_int m * 2 powi fl_exp x"
proof (cases "x = 0")
  case False
  assume "fl x = x"
  then show ?thesis using False unfolding fl_def by (metis (no_types))
qed simp

lemma rhe_near: "\<bar>y - of_int n\<bar> < 1 / 2 \<Longrightarrow> rhe y = n"
proof -
  assume n: "\<bar>y - of_int n\<bar> < 1 / 2"
  have "\<bar>of_int (rhe y) - y\<bar> \<le> 1/2" by (rule rhe_error)
  then have "\<bar>of_int (rhe y) - (of_int n :: rat)\<bar> < 1" using n by linarith
  then have "\<bar>of_int (rhe y - n) :: rat\<bar> < 1" by simp
  then show ?thesis by linarith
qed

lemma powi_2_step: "(2::rat) powi (e - 1) = 2 powi e / 2" "(2::rat) powi (e + 1) = 2 powi e * 2"
  by (simp_all add: power_int_diff power_int_add)

lemma rounds_back:
  assumes x: "0 < x" "fl x = x" and e: "fl_exp y \<le> fl_exp x" and d: "\<bar>y - x\<bar> < 2 powi fl_exp y / 2" and y: "y \<noteq> 0"
  shows "fl y = x"
proof -
  obtain m where "x = of_int m * 2 powi fl_exp x" using on_grid x by blast
  then obtain n where n: "x = of_int n * 2 powi fl_exp y" using fl_exp_scale[OF e, of m] by metis
  let ?u = "2 powi fl_exp y :: rat"
  have "x / ?u = of_int n" using n powi_2_pos[of "fl_exp y"] by (metis less_numeral_extra(3) nonzero_mult_div_cancel_right)
  then have "y / ?u - of_int n = (y - x) / ?u" by (simp only: diff_divide_distrib)
  then have "\<bar>y / ?u - of_int n\<bar> = \<bar>y - x\<bar> / ?u" by (simp only: abs_div_pos[OF powi_2_pos])
  then have "\<bar>y / ?u - of_int n\<bar> < 1 / 2" using d by (simp add: divide_less_eq)
  then have "rhe (y / ?u) = n" by (rule rhe_near)
  then show ?thesis unfolding fl_def[of y] using y n by argo
qed

lemma flog2_ge: "0 < y \<Longrightarrow> 2 powi k \<le> y \<Longrightarrow> k \<le> flog2 y"
  using flog2_bounds(2)[of y] powi_2_less_iff[of k "flog2 y + 1"] by linarith

lemma near_float:
  assumes x: "0 < x" "fl x = x" and d: "\<bar>y - x\<bar> < x / 2 ^ 54"
  shows "fl y = x"
proof -
  let ?k = "flog2 x"
  have b: "2 powi ?k \<le> x" "x < 2 powi ?k * 2" using flog2_bounds[OF x(1)] powi_2_step(2)[of ?k] by simp_all
  have near: "y < x + x / 2 ^ 54" "x - x / 2 ^ 54 < y" using d by linarith+
  have p54: "(2::rat) powi (?k - 54) = 2 powi ?k / 2 ^ 54" "(2::rat) powi (?k - 53) = 2 powi ?k / 2 ^ 53" "(2::rat) powi (?k - 52) = 2 powi ?k / 2 ^ 52"
    by (simp_all add: power_int_diff)
  have "x / 2 ^ 54 < x / 2" using x by (simp add: field_simps)
  then have y: "0 < y" "2 powi (?k - 1) \<le> y" using d b powi_2_step(1)[of ?k] x by linarith+
  then have ylow: "?k - 1 \<le> flog2 y" by (intro flog2_ge)
  obtain m where m: "x = of_int m * 2 powi fl_exp x" using on_grid x by blast
  have ax: "fl_exp x = max (?k - 52) e_sub" and ay: "fl_exp y = max (flog2 y - 52) e_sub" using x y by (simp_all add: fl_exp_def)
  show ?thesis
  proof (rule rounds_back[OF x])
    show "fl_exp y \<le> fl_exp x"
    proof (cases "?k - 52 < e_sub")
      case True
      have "y < 2 powi (?k + 2)" using near b x powi_2_step(2)[of "?k + 1"] powi_2_step(2)[of ?k] by (simp add: algebra_simps)
      then have "flog2 y < ?k + 2" using y by (intro flog2_le)
      then show ?thesis using True by (simp add: ax ay)
    next
      case False
      then have e: "fl_exp x = ?k - 52" by (simp add: ax)
      have xm: "x = of_int m * (2 powi ?k / 2 ^ 52)" using m unfolding e p54(3) .
      have "of_int m * (2 powi ?k / 2 ^ 52) < 2 ^ 53 * (2 powi ?k / 2 ^ 52 :: rat)" using b(2) unfolding xm[symmetric] by simp
      then have "of_int m < (2 ^ 53 :: rat)" by (rule mult_right_less_imp_less) simp
      then have "m < 2 ^ 53" by (metis of_int_less_iff of_int_numeral of_int_power)
      then have "m \<le> 2 ^ 53 - 1" by simp
      then have "(of_int m :: rat) \<le> of_int (2 ^ 53 - 1)" by (simp only: of_int_le_iff)
      then have "x \<le> of_int (2 ^ 53 - 1) * (2 powi ?k / 2 ^ 52)" by (subst xm, intro mult_right_mono) auto
      then have "y < 2 powi (?k + 1)" using near b powi_2_step(2)[of ?k] by simp
      then have "flog2 y < ?k + 1" using y by (intro flog2_le)
      then show ?thesis by (simp add: ax ay)
    qed
    show "\<bar>y - x\<bar> < 2 powi fl_exp y / 2"
    proof (cases "?k \<le> flog2 y \<or> ?k - 52 \<le> e_sub")
      case True
      then have "?k - 52 \<le> fl_exp y" by (auto simp: ay)
      then have "2 powi (?k - 52) \<le> (2 powi fl_exp y :: rat)" by (rule powi_2_le)
      then show ?thesis using near b p54 unfolding abs_less_iff by (simp add: algebra_simps)
    next
      case False
      then have l: "flog2 y = ?k - 1" "fl_exp y = ?k - 53" "fl_exp x = ?k - 52" using ylow by (simp_all add: ax ay)
      have yk: "y < 2 powi ?k" using flog2_bounds(2)[OF y(1)] l by simp
      have "x = 2 powi ?k"
      proof (rule ccontr)
        assume "x \<noteq> 2 powi ?k"
        have xm: "x = of_int m * (2 powi ?k / 2 ^ 52)" using m unfolding l p54(3) .
        have "2 ^ 52 * (2 powi ?k / 2 ^ 52) < (of_int m * (2 powi ?k / 2 ^ 52) :: rat)" using b(1) \<open>x \<noteq> 2 powi ?k\<close> unfolding xm[symmetric] by simp
        then have "2 ^ 52 < (of_int m :: rat)" by (rule mult_right_less_imp_less) simp
        then have "2 ^ 52 < m" by (metis of_int_less_iff of_int_numeral of_int_power)
        then have "2 ^ 52 + 1 \<le> m" by simp
        then have "of_int (2 ^ 52 + 1) \<le> (of_int m :: rat)" by (simp only: of_int_le_iff)
        then have "of_int (2 ^ 52 + 1) * (2 powi ?k / 2 ^ 52) \<le> x" by (subst xm, intro mult_right_mono) auto
        then show False using near b yk by (simp add: algebra_simps)
      qed
      then show ?thesis using near p54 yk unfolding l abs_less_iff by (simp add: algebra_simps)
    qed
  qed (use y in simp)
qed

section \<open>Seventeen digits are enough\<close>

lemma powi_10_step: "(10::rat) powi (e - 1) = 10 powi e / 10" "(10::rat) powi (e + 1) = 10 powi e * 10"
  by (simp_all add: power_int_diff power_int_add)

lemma str_pos_length: "1 \<le> i \<Longrightarrow> 10 ^ (length (str_pos i) - 1) \<le> i \<and> i < 10 ^ length (str_pos i)"
proof (induction i rule: str_pos.induct)
  case (1 i)
  show ?case
  proof (cases "i < 10")
    case True
    then show ?thesis using 1 by (subst (1 2) str_pos.simps) simp
  next
    case False
    let ?n = "length (str_pos (i div 10))"
    have "0 < ?n" by simp
    then have p: "(10::int) ^ ?n = 10 * 10 ^ (?n - 1)" by (metis Suc_diff_1 power_Suc)
    have "10 ^ (?n - 1) \<le> i div 10 \<and> i div 10 < 10 ^ ?n" using 1 False by simp
    then have "10 ^ ?n \<le> i \<and> i < 10 * 10 ^ ?n" unfolding p by linarith
    then show ?thesis using False by (subst (1 2) str_pos.simps) simp
  qed
qed

lemma small_e10_bounds: "10 powi (- int n) \<le> x \<Longrightarrow> x < 10 \<Longrightarrow> 10 powi small_e10 n x \<le> x \<and> x < 10 * 10 powi small_e10 n x"
proof (induction n x rule: small_e10.induct)
  case (2 n x)
  show ?case
  proof (cases "1 \<le> x")
    case False
    have "- int (Suc n) = - int n - 1" by simp
    then have "(10::rat) powi (- int (Suc n)) = 10 powi (- int n) / 10" using powi_10_step(1)[of "- int n"] by (simp only:)
    then have "10 powi (- int n) \<le> x * 10" using 2(2) by linarith
    then have "10 powi small_e10 n (x * 10) \<le> x * 10 \<and> x * 10 < 10 * 10 powi small_e10 n (x * 10)" using 2(1) False by simp
    then show ?thesis using False powi_10_step(1)[of "small_e10 n (x * 10)"] by simp
  qed (use 2 in simp)
qed simp

lemma floor_log10_bounds:
  assumes "10 powi (- 400) \<le> x"
  shows "10 powi floor_log10 x \<le> x \<and> x < 10 * 10 powi floor_log10 x"
proof (cases "1 \<le> x")
  case True
  let ?n = "length (str_pos \<lfloor>x\<rfloor>)"
  have n: "0 < ?n" by simp
  then have p: "(10::rat) ^ ?n = 10 * 10 ^ (?n - 1)" by (metis Suc_diff_1 power_Suc)
  have "10 ^ (?n - 1) \<le> \<lfloor>x\<rfloor> \<and> \<lfloor>x\<rfloor> < 10 ^ ?n" using True str_pos_length[of "\<lfloor>x\<rfloor>"] by simp
  then have "of_int (10 ^ (?n - 1)) \<le> x \<and> x < of_int (10 ^ ?n)" by (simp only: le_floor_iff floor_less_iff)
  then have b: "10 ^ (?n - 1) \<le> x \<and> x < 10 ^ ?n" by (simp only: of_int_power of_int_numeral)
  have "int ?n - 1 = int (?n - 1)" using n by linarith
  then have "floor_log10 x = int (?n - 1)" using True by (simp only: floor_log10_def if_True)
  then have "(10::rat) powi floor_log10 x = 10 ^ (?n - 1)" by (simp only: power_int_of_nat)
  then show ?thesis using b unfolding p by simp
next
  case False
  then show ?thesis using assms small_e10_bounds[of 400 x] by (simp add: floor_log10_def)
qed

lemma digits_close:
  assumes x: "10 powi (- 400) \<le> x" "fl x = x" and e: "e = floor_log10 x - 16"
  shows "fl (of_int (rhe (x / 10 powi e)) * 10 powi e) = x"
proof (rule near_float)
  have "0 < (10::rat) powi (- 400)" by simp
  then show "0 < x" using x(1) by linarith
  let ?u = "10 powi e :: rat"
  have u: "0 < ?u" by simp
  have "x / ?u * ?u = x" using u by (metis less_numeral_extra(3) nonzero_eq_divide_eq)
  then have "of_int (rhe (x / ?u)) * ?u - x = (of_int (rhe (x / ?u)) - x / ?u) * ?u" by (simp only: left_diff_distrib)
  then have "\<bar>of_int (rhe (x / ?u)) * ?u - x\<bar> = \<bar>of_int (rhe (x / ?u)) - x / ?u\<bar> * ?u" by (simp only: abs_mult abs_of_pos[OF u])
  also have "\<dots> \<le> 1 / 2 * ?u" by (intro mult_right_mono rhe_error) auto
  also have "1 / 2 * ?u = 1 / 2 * (10 powi floor_log10 x / 10 ^ 16)" unfolding e by (simp add: power_int_diff)
  also have "1 / 2 * (10 powi floor_log10 x / 10 ^ 16) \<le> 1 / 2 * (x / 10 ^ 16)" using floor_log10_bounds[OF x(1)] by simp
  also have "\<dots> < x / 2 ^ 54" using \<open>0 < x\<close> by simp
  finally show "\<bar>of_int (rhe (x / ?u)) * ?u - x\<bar> < x / 2 ^ 54" .
qed (use x in simp)

lemma shortest_reads_back:
  "10 powi (- 400) \<le> x \<Longrightarrow> fl x = x \<Longrightarrow> k + n = 17 \<Longrightarrow> shortest k n x = (m, e) \<Longrightarrow> fl (of_int m * 10 powi e) = x"
proof (induction k n x rule: shortest.induct)
  case (1 n x)
  then show ?case using digits_close[of x e] by (auto simp: Let_def)
next
  case (2 k n x)
  then show ?case by (auto simp: Let_def split: if_splits)
qed

lemma strip_keeps: "strip_zeros m e = (m', e') \<Longrightarrow> (of_int m' * 10 powi e' :: rat) = of_int m * 10 powi e"
proof (induction m e rule: strip_zeros.induct)
  case (1 m e)
  show ?case
  proof (cases "10 \<le> m \<and> m mod 10 = 0")
    case True
    then have "(of_int m' * 10 powi e' :: rat) = of_int (m div 10) * 10 powi (e + 1)" using 1 by (subst (asm) (2) strip_zeros.simps) simp
    also have "\<dots> = of_int (10 * (m div 10)) * 10 powi e" using powi_10_step(2)[of e] by simp
    also have "10 * (m div 10) = m" using True by presburger
    finally show ?thesis .
  next
    case False
    then show ?thesis using 1(2) by (subst (asm) strip_zeros.simps) auto
  qed
qed

lemma float_least: "0 < x \<Longrightarrow> fl x = x \<Longrightarrow> 10 powi (- 400) \<le> x"
proof -
  assume x: "0 < x" "fl x = x"
  obtain m where m: "x = of_int m * 2 powi fl_exp x" using on_grid x by blast
  have "0 < m" using x m by (metis of_int_0_less_iff powi_2_pos zero_less_mult_pos2)
  then have "1 * 2 powi fl_exp x \<le> (of_int m * 2 powi fl_exp x :: rat)" by (intro mult_right_mono) auto
  moreover have "2 powi (- 1074) \<le> (2 powi fl_exp x :: rat)" by (rule powi_2_le) (simp add: fl_exp_def e_sub_def)
  moreover have "10 powi (- 400) \<le> (2 powi (- 1074) :: rat)" by (simp add: power_int_minus)
  ultimately show ?thesis using m by linarith
qed

section \<open>The digits are read off the text\<close>

lemma val_zero: "val_int ''0'' = 0"
  using val_int_zeros[of 1] by simp

lemma cut_found: "c \<notin> set a \<Longrightarrow> up_to c (a @ c # b) = a \<and> past c (a @ c # b) = b"
  by (induction a) (auto simp: up_to_def past_def)

lemma cut_missing: "c \<notin> set a \<Longrightarrow> up_to c a = a \<and> past c a = []"
  by (induction a) (auto simp: up_to_def past_def)

definition mantissa :: "string \<Rightarrow> bool" where
  "mantissa s \<longleftrightarrow> CHR ''e'' \<notin> set s \<and> CHR ''.'' \<notin> set s"

lemma mantissa_simps [simp]: "mantissa (s @ t) \<longleftrightarrow> mantissa s \<and> mantissa t" "mantissa (replicate n (CHR ''0''))" "mantissa ''0''" "mantissa []"
  by (auto simp: mantissa_def)

lemma mantissa_part: "mantissa s \<Longrightarrow> mantissa (take n s) \<and> mantissa (drop n s)"
  by (auto simp: mantissa_def dest: in_set_takeD in_set_dropD)

lemma mantissa_digits: "0 \<le> i \<Longrightarrow> mantissa (str_pos i)"
  using str_pos_digits[of i] by (auto simp: mantissa_def is_digit_def)

lemma read_point: "mantissa w \<Longrightarrow> mantissa f \<Longrightarrow> read_unsigned (w @ CHR ''.'' # f) = of_int (val_int (w @ f)) * 10 powi (- int (length f))"
  using cut_missing[of "CHR ''e''" "w @ CHR ''.'' # f"] cut_found[of "CHR ''.''" w f]
  by (simp add: mantissa_def read_unsigned_def val_signed_def)

lemma read_point_exp:
  "mantissa w \<Longrightarrow> mantissa f \<Longrightarrow> read_unsigned (w @ CHR ''.'' # f @ CHR ''e'' # s) = of_int (val_int (w @ f)) * 10 powi (val_signed s - int (length f))"
  using cut_found[of "CHR ''e''" "w @ CHR ''.'' # f" s] cut_found[of "CHR ''.''" w f]
  by (simp add: mantissa_def read_unsigned_def)

lemma read_exp: "mantissa w \<Longrightarrow> read_unsigned (w @ CHR ''e'' # s) = of_int (val_int w) * 10 powi val_signed s"
  using cut_found[of "CHR ''e''" w s] cut_missing[of "CHR ''.''" w]
  by (simp add: mantissa_def read_unsigned_def)

lemma val_pad: "0 \<le> i \<Longrightarrow> val_int (pad0 n (str_pos i)) = i"
  by (simp add: pad0_def val_int_append val_int_zeros val_str_pos)

lemma val_exponent: "val_signed ((if e < 0 then ''-'' else ''+'') @ pad0 2 (str_pos \<bar>e\<bar>)) = e"
  by (simp add: val_signed_def val_pad)

lemma digits_text:
  assumes m: "0 \<le> m" and p: "p = int (length (str_pos m)) + e"
  shows "read_unsigned
     (if - 4 < p \<and> p \<le> 16 then
        (if p \<le> 0 then ''0.'' @ replicate (nat (- p)) (CHR ''0'') @ str_pos m
         else if int (length (str_pos m)) \<le> p then str_pos m @ replicate (nat (p - int (length (str_pos m)))) (CHR ''0'') @ ''.0''
         else take (nat p) (str_pos m) @ ''.'' @ drop (nat p) (str_pos m))
      else take 1 (str_pos m) @ (if int (length (str_pos m)) = 1 then [] else ''.'' @ drop 1 (str_pos m)) @ ''e''
           @ (if p - 1 < 0 then ''-'' else ''+'') @ pad0 2 (str_pos \<bar>p - 1\<bar>)) = of_int m * 10 powi e"
proof -
  let ?d = "str_pos m"
  have d: "mantissa ?d" "val_int ?d = m" using mantissa_digits[OF m] val_str_pos[OF m] by simp_all
  have parts: "mantissa (take n ?d)" "mantissa (drop n ?d)" for n using d mantissa_part by blast+
  have pos: "0 < length ?d" by simp
  consider (low) "- 4 < p" "p \<le> 0" | (whole) "0 < p" "p \<le> 16" "int (length ?d) \<le> p" | (cut) "0 < p" "p \<le> 16" "p < int (length ?d)"
    | (one) "\<not> (- 4 < p \<and> p \<le> 16)" "length ?d = 1" | (sci) "\<not> (- 4 < p \<and> p \<le> 16)" "length ?d \<noteq> 1" by linarith
  then show ?thesis
  proof cases
    case low
    have "read_unsigned (''0'' @ CHR ''.'' # (replicate (nat (- p)) (CHR ''0'') @ ?d))
      = of_int (val_int (''0'' @ replicate (nat (- p)) (CHR ''0'') @ ?d)) * 10 powi (- int (length (replicate (nat (- p)) (CHR ''0'') @ ?d)))"
      by (rule read_point) (use d in simp_all)
    moreover have "val_int (''0'' @ replicate (nat (- p)) (CHR ''0'') @ ?d) = m"
      using d val_int_zeros[of 1] by (simp add: val_int_append val_int_zeros del: append_Cons)
    moreover have "- int (length (replicate (nat (- p)) (CHR ''0'') @ ?d)) = e" using low p by simp
    ultimately show ?thesis using low by simp
  next
    case whole
    let ?z = "replicate (nat (p - int (length ?d))) (CHR ''0'')"
    have "read_unsigned ((?d @ ?z) @ CHR ''.'' # ''0'') = of_int (val_int ((?d @ ?z) @ ''0'')) * 10 powi (- int (length ''0''))"
      by (rule read_point) (use d in simp_all)
    moreover have "val_int ((?d @ ?z) @ ''0'') = m * 10 ^ nat e * 10"
      using d p whole by (simp only: val_int_append val_int_zeros val_zero) simp
    moreover have "(10::rat) powi e = 10 ^ nat e" using p whole by (simp add: power_int_def)
    ultimately show ?thesis using whole by (simp add: power_int_minus)
  next
    case cut
    have "read_unsigned (take (nat p) ?d @ CHR ''.'' # drop (nat p) ?d)
      = of_int (val_int (take (nat p) ?d @ drop (nat p) ?d)) * 10 powi (- int (length (drop (nat p) ?d)))"
      by (rule read_point) (use parts in simp_all)
    moreover have "- int (length (drop (nat p) ?d)) = e" using p cut by simp
    ultimately show ?thesis using cut d by simp
  next
    case one
    have "read_unsigned (?d @ CHR ''e'' # ((if p - 1 < 0 then ''-'' else ''+'') @ pad0 2 (str_pos \<bar>p - 1\<bar>))) = of_int m * 10 powi (p - 1)"
      unfolding read_exp[OF d(1)] val_exponent d(2) ..
    moreover have "take 1 ?d = ?d" "p - 1 = e" using one p by simp_all
    ultimately show ?thesis using one(2) unfolding if_not_P[OF one(1)] by simp
  next
    case sci
    have "read_unsigned (take 1 ?d @ CHR ''.'' # drop 1 ?d @ CHR ''e'' # ((if p - 1 < 0 then ''-'' else ''+'') @ pad0 2 (str_pos \<bar>p - 1\<bar>)))
      = of_int m * 10 powi (p - 1 - int (length (drop 1 ?d)))"
      unfolding read_point_exp[OF parts] val_exponent append_take_drop_id d(2) ..
    moreover have "p - 1 - int (length (drop 1 ?d)) = e" using p pos by (cases "str_pos m") auto
    ultimately show ?thesis using sci(2) unfolding if_not_P[OF sci(1)] by simp
  qed
qed

lemma read_repr_pos: "0 < x \<Longrightarrow> fl x = x \<Longrightarrow> fl (read_unsigned (repr_pos x)) = x"
proof -
  assume x: "0 < x" "fl x = x"
  obtain m e where s: "shortest 16 1 x = (m, e)" by force
  obtain m' e' where z: "strip_zeros m e = (m', e')" by force
  have f: "fl (of_int m * 10 powi e) = x" using shortest_reads_back[OF float_least[OF x] x(2) _ s] by simp
  have v: "fl (of_int m' * 10 powi e') = x" using strip_keeps[OF z] f by simp
  have "0 \<le> m'"
  proof (rule ccontr)
    assume "\<not> 0 \<le> m'"
    then have "of_int m' * 10 powi e' \<le> (0::rat)" by (intro mult_nonpos_nonneg) auto
    then show False using fl_nonpos v x(1) by fastforce
  qed
  then have "read_unsigned (repr_pos x) = of_int m' * 10 powi e'"
    unfolding repr_pos_def s prod.case z Let_def by (rule digits_text) simp
  then show ?thesis using v by simp
qed

lemma str_pos_start: "\<exists>c s. str_pos i = c # s \<and> c \<noteq> CHR ''-''"
proof (cases "0 \<le> i")
  case True
  then show ?thesis using str_pos_no_sign[of i] str_pos_nonempty[of i] by (cases "str_pos i") auto
next
  case False
  moreover have "digit_char 0 \<noteq> CHR ''-''" using of_char_digit[of 0] by auto
  ultimately show ?thesis by (subst str_pos.simps) simp
qed

lemma repr_pos_start: "\<exists>c s. repr_pos x = c # s \<and> c \<noteq> CHR ''-''"
proof -
  obtain m e where s: "(case shortest 16 1 x of (m, e) \<Rightarrow> strip_zeros m e) = (m, e)" by force
  obtain c t where d: "str_pos m = c # t" "c \<noteq> CHR ''-''" using str_pos_start by blast
  show ?thesis unfolding repr_pos_def s Let_def prod.case d(1) using d(2) by (auto simp: take_Cons' split: if_splits)
qed

text \<open>Reading back what \<^verbatim>\<open>repr\<close> wrote.\<close>

lemma read_float_repr: "fl x = x \<Longrightarrow> read_float (repr_float x) = x"
proof -
  assume x: "fl x = x"
  consider "x = 0" | "0 < x" | "x < 0" by linarith
  then show ?thesis
  proof cases
    case 1
    have "read_unsigned (''0'' @ CHR ''.'' # ''0'') = of_int (val_int (''0'' @ ''0'')) * 10 powi (- int (length ''0''))" by (rule read_point) simp_all
    then have "read_unsigned ''0.0'' = 0" using val_int_zeros[of 2] by (simp add: numeral_2_eq_2)
    then show ?thesis using 1 by (simp add: repr_float_def read_float_def)
  next
    case 2
    from repr_pos_start[of x] read_repr_pos[OF 2 x] show ?thesis using 2 by (auto simp: repr_float_def read_float_def)
  next
    case 3
    then have "fl (- read_unsigned (repr_pos (- x))) = x" using read_repr_pos[of "- x"] x by (simp add: fl_minus)
    then show ?thesis using 3 by (simp add: repr_float_def read_float_def)
  qed
qed

end
