(* ===== verification/Json_Text.thy ===== *)
theory Json_Text
  imports Model Float_Text
begin

text \<open>
  JSON as the program writes it: \<^verbatim>\<open>json.dumps\<close> with sorted keys and compact separators, as the fingerprints of
  \<^verbatim>\<open>hardware/fingerprint.py\<close>, \<^verbatim>\<open>models/fingerprint.py\<close> and \<^verbatim>\<open>cache/fingerprints.py\<close> use it. Texts are ASCII.
  The lemmas show that different values are written differently, so a fingerprint identifies its payload.
\<close>

section \<open>Writing\<close>

definition hex_digit :: "nat \<Rightarrow> char" where
  "hex_digit d = (if d < 10 then char_of (48 + d) else char_of (87 + d))"

definition short_escape :: "char \<Rightarrow> char option" where
  "short_escape c =
     (if c = CHR 0x22 then Some (CHR 0x22) else if c = CHR 0x5C then Some (CHR 0x5C) else if c = CHR 0x0A then Some (CHR ''n'')
      else if c = CHR 0x0D then Some (CHR ''r'') else if c = CHR 0x09 then Some (CHR ''t'') else if c = CHR 0x0C then Some (CHR ''f'')
      else if c = CHR 0x08 then Some (CHR ''b'') else None)"

definition escape_char :: "char \<Rightarrow> string" where
  "escape_char c =
     (case short_escape c of
        Some d \<Rightarrow> [CHR 0x5C, d]
      | None \<Rightarrow> let n = of_char c :: nat
                in if 32 \<le> n \<and> n \<le> 126 then [c] else [CHR 0x5C, CHR ''u'', CHR ''0'', CHR ''0'', hex_digit (n div 16), hex_digit (n mod 16)])"

definition quote :: "string \<Rightarrow> string" where
  "quote s = CHR 0x22 # concat (map escape_char s) @ [CHR 0x22]"

fun json_dumps :: "json \<Rightarrow> string" where
  "json_dumps JNull = ''null''"
| "json_dumps (JBool b) = (if b then ''true'' else ''false'')"
| "json_dumps (JInt i) = str_int i"
| "json_dumps (JFloat x) = repr_float x"
| "json_dumps (JStr s) = quote s"
| "json_dumps (JArr xs) = ''['' @ str_join '','' (map json_dumps xs) @ '']''"
| "json_dumps (JObj kvs) = ''{'' @ str_join '','' (map (\<lambda>(k, v). quote k @ '':'' @ json_dumps v) kvs) @ ''}''"

fun sort_keys :: "json \<Rightarrow> json" where
  "sort_keys (JArr xs) = JArr (map sort_keys xs)"
| "sort_keys (JObj kvs) = JObj (sort_key fst (map (\<lambda>(k, v). (k, sort_keys v)) kvs))"
| "sort_keys v = v"

definition canonical_text :: "json \<Rightarrow> string" where
  "canonical_text v = json_dumps (sort_keys v)"

text \<open>Every float of a value is a binary64.\<close>

fun binary64 :: "json \<Rightarrow> bool" where
  "binary64 (JFloat x) = (fl x = x)"
| "binary64 (JArr xs) = list_all binary64 xs"
| "binary64 (JObj kvs) = list_all (\<lambda>(k, v). binary64 v) kvs"
| "binary64 v = True"

section \<open>Texts are read off unambiguously\<close>

lemma short_escape_inject: "short_escape c = Some d \<Longrightarrow> short_escape c' = Some d \<Longrightarrow> c = c'"
  by (auto simp: short_escape_def split: if_splits)

lemma short_escape_not_u: "short_escape c \<noteq> Some (CHR ''u'')"
  by (auto simp: short_escape_def)

lemma short_escape_None: "short_escape c = None \<Longrightarrow> c \<noteq> CHR 0x22 \<and> c \<noteq> CHR 0x5C"
  by (auto simp: short_escape_def split: if_splits)

lemma hex_digit_inject: "d < 16 \<Longrightarrow> e < 16 \<Longrightarrow> hex_digit d = hex_digit e \<longleftrightarrow> d = e"
  by (auto simp: hex_digit_def split: if_splits dest!: arg_cong[where f = "of_char :: char \<Rightarrow> nat"])

lemma escape_prefix: "escape_char c @ x = escape_char c' @ x' \<Longrightarrow> c = c' \<and> x = x'"
proof -
  assume e: "escape_char c @ x = escape_char c' @ x'"
  have n: "(of_char a :: nat) div 16 < 16" "(of_char a :: nat) mod 16 < 16" for a :: char by (simp_all add: less_mult_imp_div_less)
  have hex: "c = c'" if "hex_digit (of_char c div 16) = hex_digit (of_char c' div 16)" "hex_digit (of_char c mod 16) = hex_digit (of_char c' mod 16)"
  proof -
    have "(of_char c :: nat) div 16 = of_char c' div 16" "(of_char c :: nat) mod 16 = of_char c' mod 16"
      using that n hex_digit_inject by blast+
    then have "(of_char c :: nat) = of_char c'" by (metis div_mult_mod_eq)
    then show "c = c'" by simp
  qed
  show ?thesis
    using e short_escape_inject[of c _ c'] short_escape_not_u[of c] short_escape_not_u[of c'] short_escape_None[of c] short_escape_None[of c'] hex
    by (cases "short_escape c"; cases "short_escape c'") (auto simp: escape_char_def Let_def split: if_splits)
qed

lemma escape_start: "\<exists>d ds. escape_char c = d # ds \<and> d \<noteq> CHR 0x22"
  using short_escape_None[of c] by (auto simp: escape_char_def Let_def split: option.split)

lemma escapes_prefix: "concat (map escape_char s) @ CHR 0x22 # x = concat (map escape_char s') @ CHR 0x22 # x' \<Longrightarrow> s = s' \<and> x = x'"
proof (induction s arbitrary: s')
    case Nil
    then show ?case using escape_start[of "hd s'"] by (cases s') (auto dest: sym)
  next
    case (Cons c s)
    show ?case
    proof (cases s')
      case Nil
      then show ?thesis using Cons(2) escape_start[of c] by auto
    next
      case (Cons c' t)
      then have "escape_char c @ concat (map escape_char s) @ CHR 0x22 # x = escape_char c' @ concat (map escape_char t) @ CHR 0x22 # x'"
        using Cons.prems by simp
      from escape_prefix[OF this] have "c = c'" "concat (map escape_char s) @ CHR 0x22 # x = concat (map escape_char t) @ CHR 0x22 # x'"
        by simp_all
      then show ?thesis using Cons.IH[of t] Cons by blast
    qed
qed

lemma quote_prefix: "quote s @ x = quote s' @ x' \<Longrightarrow> s = s' \<and> x = x'"
  using escapes_prefix[of s x s' x'] by (simp add: quote_def)

section \<open>Numbers\<close>

definition num_char :: "char \<Rightarrow> bool" where
  "num_char c \<longleftrightarrow> is_digit c \<or> c \<in> {CHR ''-'', CHR ''+'', CHR ''.'', CHR ''e''}"

definition float_mark :: "string \<Rightarrow> bool" where
  "float_mark s \<longleftrightarrow> CHR ''.'' \<in> set s \<or> CHR ''e'' \<in> set s"

lemma digit_num: "is_digit c \<Longrightarrow> num_char c" by (simp add: num_char_def)

lemma zeros_num: "c \<in> set (replicate n (CHR ''0'')) \<Longrightarrow> num_char c"
  by (auto simp: num_char_def is_digit_def)

lemma str_pos_num: "c \<in> set (str_pos i) \<Longrightarrow> num_char c"
proof (cases "0 \<le> i")
  case True
  then show "c \<in> set (str_pos i) \<Longrightarrow> num_char c" using str_pos_digits[of i] digit_num by blast
next
  case False
  then show "c \<in> set (str_pos i) \<Longrightarrow> num_char c" using digit_num[of c] by (subst (asm) str_pos.simps) auto
qed

lemma pad_num: "c \<in> set (pad0 n (str_pos i)) \<Longrightarrow> num_char c"
  using str_pos_num[of c i] zeros_num[of c] by (auto simp: pad0_def)

lemma repr_pos_text: "(\<forall>c \<in> set (repr_pos x). num_char c) \<and> float_mark (repr_pos x)"
proof -
  obtain m e where s: "(case shortest 16 1 x of (m, e) \<Rightarrow> strip_zeros m e) = (m, e)" by force
  let ?ds = "str_pos m"
  have d: "\<forall>c \<in> set ?ds. num_char c" using str_pos_num by blast
  have marks: "num_char (CHR ''.'')" "num_char (CHR ''e'')" "num_char (CHR ''-'')" "num_char (CHR ''+'')" "num_char (CHR ''0'')"
    by (simp_all add: num_char_def is_digit_def)
  show ?thesis unfolding repr_pos_def s Let_def prod.case
    using d marks by (auto simp: float_mark_def dest: in_set_takeD in_set_dropD intro: pad_num zeros_num)
qed

lemma repr_float_text: "(\<forall>c \<in> set (repr_float x). num_char c) \<and> float_mark (repr_float x)"
  using repr_pos_text[of x] repr_pos_text[of "- x"] by (auto simp: repr_float_def num_char_def is_digit_def float_mark_def)

lemma str_int_text: "(\<forall>c \<in> set (str_int i). num_char c) \<and> \<not> float_mark (str_int i)"
  using str_int_chars[of _ i] str_int_chars[of "CHR ''.''" i] str_int_chars[of "CHR ''e''" i]
  by (auto simp: int_char_def num_char_def float_mark_def is_digit_def)

section \<open>Values are read off unambiguously\<close>

definition closes :: "string \<Rightarrow> bool" where
  "closes r \<longleftrightarrow> r = [] \<or> hd r \<in> {CHR '','', CHR '']'', CHR ''}''}"

lemma closes_num: "closes r \<Longrightarrow> takeWhile num_char r = []"
  by (cases r) (auto simp: closes_def num_char_def is_digit_def)

lemma number_prefix:
  assumes "\<forall>c \<in> set a. num_char c" "\<forall>c \<in> set b. num_char c" "closes r" "closes r'" "a @ r = b @ r'"
  shows "a = b \<and> r = r'"
proof -
  have "takeWhile num_char (a @ r) = a" "takeWhile num_char (b @ r') = b" using assms(1-4) closes_num by (simp_all add: takeWhile_append)
  then show ?thesis using assms(5) by simp
qed

definition value_start :: "json \<Rightarrow> char \<Rightarrow> bool" where
  "value_start v c = (case v of JNull \<Rightarrow> c = CHR ''n'' | JBool b \<Rightarrow> c \<in> {CHR ''t'', CHR ''f''} | JInt i \<Rightarrow> num_char c \<and> c \<noteq> CHR ''e''
     | JFloat x \<Rightarrow> num_char c | JStr s \<Rightarrow> c = CHR 0x22 | JArr xs \<Rightarrow> c = CHR ''['' | JObj kvs \<Rightarrow> c = CHR ''{'')"

lemma dumps_start: "\<exists>c s. json_dumps v = c # s \<and> value_start v c"
proof (cases v)
  case (JInt i)
  then show ?thesis using str_int_text[of i] by (cases "str_int i") (auto simp: value_start_def float_mark_def)
next
  case (JFloat x)
  then show ?thesis using repr_float_text[of x] by (cases "repr_float x") (auto simp: value_start_def float_mark_def)
qed (auto simp: value_start_def quote_def)

lemma start_not_closing: "value_start v c \<Longrightarrow> c \<notin> {CHR '','', CHR '']'', CHR ''}''}"
  by (cases v) (auto simp: value_start_def num_char_def is_digit_def)

text \<open>Separated items are read off one by one.\<close>

lemma join_Cons: "str_join '','' (map f (x # xs)) @ c # r = f x @ (if xs = [] then c # r else CHR '','' # str_join '','' (map f xs) @ c # r)"
  by (cases xs) simp_all

lemma join_prefix:
  assumes item: "\<And>x x' r r'. x \<in> set xs \<Longrightarrow> P x' \<Longrightarrow> closes r \<Longrightarrow> closes r' \<Longrightarrow> f x @ r = f x' @ r' \<Longrightarrow> x = x' \<and> r = r'"
    and starts: "\<And>x. f x \<noteq> [] \<and> hd (f x) \<notin> {CHR '','', CHR '']'', CHR ''}''}" and c: "c \<in> {CHR '']'', CHR ''}''}"
  shows "list_all P xs' \<Longrightarrow> str_join '','' (map f xs) @ c # r = str_join '','' (map f xs') @ c # r' \<Longrightarrow> xs = xs' \<and> r = r'"
  using item
proof (induction xs arbitrary: xs')
  case Nil
  then show ?case using starts[of "hd xs'"] c join_Cons[of f "hd xs'" "tl xs'" c r'] by (cases xs'; cases "f (hd xs')") auto
next
  case (Cons x xs)
  show ?case
  proof (cases xs')
    case Nil
    then show ?thesis using Cons(3) starts[of x] c by (subst (asm) join_Cons) (cases "f x"; auto)
  next
    case (Cons y ys)
    let ?t = "if xs = [] then c # r else CHR '','' # str_join '','' (map f xs) @ c # r"
    let ?u = "if ys = [] then c # r' else CHR '','' # str_join '','' (map f ys) @ c # r'"
    have "f x @ ?t = f y @ ?u" using Cons.prems(2) unfolding Cons join_Cons .
    moreover have "closes ?t" "closes ?u" using c by (auto simp: closes_def)
    ultimately have 1: "x = y" "?t = ?u" using Cons.prems(3)[of x y] Cons.prems(1) Cons by auto
    show ?thesis
    proof (cases "xs = [] \<or> ys = []")
      case True
      then show ?thesis using 1 c Cons by (auto split: if_splits)
    next
      case False
      then have "str_join '','' (map f xs) @ c # r = str_join '','' (map f ys) @ c # r'" using 1(2) by simp
      then have "xs = ys \<and> r = r'" using Cons.IH[of ys] Cons.prems(1,3) Cons by auto
      then show ?thesis using 1 Cons by simp
    qed
  qed
qed

lemma same_start: "json_dumps v @ r = json_dumps v' @ r' \<Longrightarrow> \<exists>c. value_start v c \<and> value_start v' c"
  using dumps_start[of v] dumps_start[of v'] by (metis Cons_eq_appendI list.inject)

lemma start_kinds:
  assumes "value_start v c" "value_start v' c"
  shows "v = JNull \<Longrightarrow> v' = JNull" "v = JBool b \<Longrightarrow> \<exists>b'. v' = JBool b'"
    "v = JInt i \<Longrightarrow> (\<exists>j. v' = JInt j) \<or> (\<exists>y. v' = JFloat y)" "v = JFloat x \<Longrightarrow> (\<exists>j. v' = JInt j) \<or> (\<exists>y. v' = JFloat y)"
    "v = JStr s \<Longrightarrow> \<exists>t. v' = JStr t" "v = JArr xs \<Longrightarrow> \<exists>ys. v' = JArr ys" "v = JObj kvs \<Longrightarrow> \<exists>kvs'. v' = JObj kvs'"
  using assms by (cases v'; auto simp: value_start_def num_char_def is_digit_def)+

lemma repr_inject: "fl x = x \<Longrightarrow> fl y = y \<Longrightarrow> repr_float x = repr_float y \<Longrightarrow> x = y"
  by (metis read_float_repr)

lemma dumps_prefix:
  "binary64 v \<Longrightarrow> binary64 v' \<Longrightarrow> closes r \<Longrightarrow> closes r' \<Longrightarrow> json_dumps v @ r = json_dumps v' @ r' \<Longrightarrow> v = v' \<and> r = r'"
proof (induction v arbitrary: v' r r' rule: json_dumps.induct)
  case 1
  obtain c where c: "value_start JNull c" "value_start v' c" using same_start 1 by blast
  show ?case using start_kinds(1)[OF c] 1 by simp
next
  case (2 b)
  obtain c where c: "value_start (JBool b) c" "value_start v' c" using same_start 2 by blast
  show ?case using start_kinds(2)[OF c] 2 by (auto split: if_splits)
next
  case (3 i)
  obtain c where c: "value_start (JInt i) c" "value_start v' c" using same_start 3 by blast
  from start_kinds(3)[OF c refl] show ?case
  proof (elim disjE exE)
    fix j assume v: "v' = JInt j"
    have "str_int i = str_int j \<and> r = r'" by (rule number_prefix) (use 3 v str_int_text in auto)
    then show ?thesis using v by simp
  next
    fix y assume v: "v' = JFloat y"
    have t: "str_int i @ r = repr_float y @ r'" using 3(5) unfolding v json_dumps.simps .
    have "str_int i = repr_float y \<and> r = r'" by (rule number_prefix[OF _ _ 3(3,4) t]) (use str_int_text repr_float_text in blast)+
    then show ?thesis using str_int_text[of i] repr_float_text[of y] by simp
  qed
next
  case (4 x)
  obtain c where c: "value_start (JFloat x) c" "value_start v' c" using same_start 4 by blast
  from start_kinds(4)[OF c refl] show ?case
  proof (elim disjE exE)
    fix j assume v: "v' = JInt j"
    have t: "repr_float x @ r = str_int j @ r'" using 4(5) unfolding v json_dumps.simps .
    have "repr_float x = str_int j \<and> r = r'" by (rule number_prefix[OF _ _ 4(3,4) t]) (use str_int_text repr_float_text in blast)+
    then show ?thesis using str_int_text[of j] repr_float_text[of x] by simp
  next
    fix y assume v: "v' = JFloat y"
    have t: "repr_float x @ r = repr_float y @ r'" using 4(5) unfolding v json_dumps.simps .
    have "repr_float x = repr_float y \<and> r = r'" by (rule number_prefix[OF _ _ 4(3,4) t]) (use repr_float_text in blast)+
    moreover have "fl x = x" "fl y = y" using 4(1,2) unfolding v binary64.simps .
    ultimately show ?thesis using v repr_inject by blast
  qed
next
  case (5 s)
  obtain c where c: "value_start (JStr s) c" "value_start v' c" using same_start 5 by blast
  from start_kinds(5)[OF c refl] obtain t where v: "v' = JStr t" by blast
  then show ?case using 5 quote_prefix[of s r t r'] by simp
next
  case (6 xs)
  obtain c where c: "value_start (JArr xs) c" "value_start v' c" using same_start 6(6) by blast
  from start_kinds(6)[OF c refl] obtain ys where v: "v' = JArr ys" by blast
  have "xs = ys \<and> r = r'"
  proof (rule join_prefix[where P = binary64 and f = json_dumps and c = "CHR '']''"])
    show "x = x' \<and> q = q'" if "x \<in> set xs" "binary64 x'" "closes q" "closes q'" "json_dumps x @ q = json_dumps x' @ q'" for x x' q q'
      using 6(1)[of x x' q q'] that 6(2) by (simp add: list_all_iff)
    show "json_dumps x \<noteq> [] \<and> hd (json_dumps x) \<notin> {CHR '','', CHR '']'', CHR ''}''}" for x
      using dumps_start[of x] start_not_closing by fastforce
  qed (use 6(3,6) v in simp_all)
  then show ?case using v by simp
next
  case (7 kvs)
  obtain c where c: "value_start (JObj kvs) c" "value_start v' c" using same_start 7(6) by blast
  from start_kinds(7)[OF c refl] obtain kvs' where v: "v' = JObj kvs'" by blast
  let ?f = "\<lambda>(k, v). quote k @ '':'' @ json_dumps v"
  have "kvs = kvs' \<and> r = r'"
  proof (rule join_prefix[where P = "\<lambda>(k, v). binary64 v" and f = ?f and c = "CHR ''}''"])
    show "x = x' \<and> q = q'" if x: "x \<in> set kvs" "(\<lambda>(k, v). binary64 v) x'" "closes q" "closes q'" "?f x @ q = ?f x' @ q'" for x x' q q'
    proof -
      obtain k a k' a' where p: "x = (k, a)" "x' = (k', a')" by (cases x, cases x')
      have e: "quote k @ CHR '':'' # json_dumps a @ q = quote k' @ CHR '':'' # json_dumps a' @ q'" using x(5) p by simp
      from quote_prefix[OF e] have "k = k'" "json_dumps a @ q = json_dumps a' @ q'" by auto
      then show ?thesis using 7(1)[of x k a a' q q'] x p 7(2) by (auto simp: list_all_iff)
    qed
    show "?f x \<noteq> [] \<and> hd (?f x) \<notin> {CHR '','', CHR '']'', CHR ''}''}" for x
      by (cases x) (simp add: quote_def)
  qed (use 7(3,6) v in simp_all)
  then show ?case using v by simp
qed

lemma dumps_inject: "binary64 v \<Longrightarrow> binary64 v' \<Longrightarrow> json_dumps v = json_dumps v' \<longleftrightarrow> v = v'"
  using dumps_prefix[of v v' "[]" "[]"] by (auto simp: closes_def)

end
