(* ===== verification/Fingerprints.thy ===== *)
theory Fingerprints
  imports Json_Text Workload Hardware
begin

text \<open>
  The fingerprints a tuning record is filed under: \<^verbatim>\<open>cache/fingerprints.py\<close> (workload), \<^verbatim>\<open>models/fingerprint.py\<close> and
  \<^verbatim>\<open>hardware/fingerprint.py\<close>. The hash function is a parameter of every definition. The lemmas show that, up to a
  collision of the hash, equal fingerprints mean equal identities, field by field.
\<close>

section \<open>Fingerprints\<close>

definition json_opt :: "('a \<Rightarrow> json) \<Rightarrow> 'a option \<Rightarrow> json" where
  "json_opt f x = (case x of None \<Rightarrow> JNull | Some y \<Rightarrow> f y)"

definition fingerprint :: "(string \<Rightarrow> string) \<Rightarrow> json \<Rightarrow> string" where
  "fingerprint sha identity = sha (canonical_text identity)"

subsection \<open>The workload\<close>

definition slo_dump :: "latency_constraints \<Rightarrow> json" where
  "slo_dump c = JObj
     [(''max_p95_ttft_ms'', json_opt JFloat (lc_max_p95_ttft_ms c)),
      (''max_p95_latency_ms'', json_opt JFloat (lc_max_p95_latency_ms c)),
      (''max_p95_tpot_ms'', json_opt JFloat (lc_max_p95_tpot_ms c))]"

definition workload_identity :: "workload_profile \<Rightarrow> json" where
  "workload_identity w = JObj
     [(''objective'', JStr (objective_value (wl_objective w))),
      (''input_tokens_p50'', JInt (wl_input_tokens_p50 w)),
      (''input_tokens_p95'', JInt (wl_input_tokens_p95 w)),
      (''output_tokens_p50'', JInt (wl_output_tokens_p50 w)),
      (''output_tokens_p95'', JInt (wl_output_tokens_p95 w)),
      (''max_context_tokens'', JInt (wl_max_context_tokens w)),
      (''expected_concurrency'', json_opt JInt (wl_expected_concurrency w)),
      (''target_request_rate'', json_opt JFloat (wl_target_request_rate w)),
      (''shared_prefix_fraction'', JFloat (wl_shared_prefix_fraction w)),
      (''streaming'', JBool (wl_streaming w)),
      (''slo'', json_opt slo_dump (wl_latency_constraints w))]"

definition workload_fingerprint :: "(string \<Rightarrow> string) \<Rightarrow> workload_profile \<Rightarrow> string" where
  "workload_fingerprint sha w = fingerprint sha (workload_identity w)"

subsection \<open>The model\<close>

definition VOLATILE_CONFIG_KEYS :: "string list" where
  "VOLATILE_CONFIG_KEYS = [''transformers_version'', ''_name_or_path'', ''_commit_hash'', ''use_cache'']"

definition stable_config :: "(string \<times> json) list \<Rightarrow> json" where
  "stable_config raw = JObj (filter (\<lambda>(k, v). k \<notin> set VOLATILE_CONFIG_KEYS) raw)"

definition config_hash :: "(string \<Rightarrow> string) \<Rightarrow> (string \<times> json) list \<Rightarrow> string" where
  "config_hash sha raw = fingerprint sha (stable_config raw)"

definition model_identity :: "(string \<Rightarrow> string) \<Rightarrow> model_profile \<Rightarrow> json" where
  "model_identity sha p = JObj
     [(''model_id'', JStr (mp_model_id p)),
      (''revision'', json_opt JStr (mp_revision p)),
      (''config_hash'', JStr (config_hash sha (mp_raw_config p))),
      (''weight_bytes'', json_opt JInt (mp_weight_bytes p)),
      (''weight_size_source'', JStr (source_value (mp_weight_size_source p))),
      (''quantization'', json_opt JObj (mp_quantization_config p)),
      (''dtype'', json_opt JStr (mp_configured_dtype p))]"

definition model_fingerprint :: "(string \<Rightarrow> string) \<Rightarrow> model_profile \<Rightarrow> string" where
  "model_fingerprint sha p = fingerprint sha (model_identity sha p)"

subsection \<open>The hardware\<close>

definition edge_identity :: "topology_edge \<Rightarrow> json" where
  "edge_identity e = JObj
     [(''a'', JInt (te_gpu_a e)), (''b'', JInt (te_gpu_b e)), (''rel'', JStr (te_relationship e)),
      (''nvlink'', JBool (te_nvlink_detected e)), (''links'', json_opt JInt (te_nvlink_link_count e))]"

definition gpu_identity :: "gpu_device \<Rightarrow> json" where
  "gpu_identity g = JObj
     [(''index'', JInt (gd_index g)), (''name'', JStr (gd_name g)), (''total_memory_bytes'', JInt (gd_total_memory_bytes g)),
      (''compute_capability'', json_opt JStr (compute_capability g)), (''mig_mode'', json_opt JStr (gd_mig_mode g))]"

text \<open>Both sorts are stable; the edges are sorted by the pair of their ends.\<close>

definition identity_gpus :: "hardware_snapshot \<Rightarrow> gpu_device list" where
  "identity_gpus s = sort_key gd_index (hs_gpus s)"

definition identity_edges :: "hardware_snapshot \<Rightarrow> topology_edge list" where
  "identity_edges s = sort_key te_gpu_a (sort_key te_gpu_b (gt_edges (hs_topology s)))"

definition chosen_snapshot :: "hardware_snapshot \<Rightarrow> int list option \<Rightarrow> hardware_snapshot" where
  "chosen_snapshot s ids = (case ids of Some chosen \<Rightarrow> snap_select s chosen | None \<Rightarrow> s)"

definition hardware_identity :: "hardware_snapshot \<Rightarrow> int list option \<Rightarrow> json" where
  "hardware_identity s ids =
     (let selected = chosen_snapshot s ids
      in JObj
        [(''platform'', JStr (hs_platform s)),
         (''driver_version'', json_opt JStr (hs_driver_version s)),
         (''cuda_version'', json_opt JStr (hs_cuda_version s)),
         (''gpus'', JArr (map gpu_identity (identity_gpus selected))),
         (''topology_available'', JBool (gt_available (hs_topology selected))),
         (''topology'', JArr (map edge_identity (identity_edges selected)))])"

definition hardware_fingerprint :: "(string \<Rightarrow> string) \<Rightarrow> hardware_snapshot \<Rightarrow> int list option \<Rightarrow> string" where
  "hardware_fingerprint sha s ids = fingerprint sha (hardware_identity s ids)"

section \<open>Equal texts, equal identities\<close>

lemma list_all_sort: "list_all P (sort_key f xs) \<longleftrightarrow> list_all P xs"
  by (simp add: list_all_iff)

lemma binary64_sorted: "binary64 v \<Longrightarrow> binary64 (sort_keys v)"
proof (induction v rule: sort_keys.induct)
  case (1 xs)
  then show ?case by (simp add: list_all_iff)
next
  case (2 kvs)
  then show ?case by (fastforce simp: list_all_sort list_all_iff)
qed simp_all

lemma canonical_inject: "binary64 v \<Longrightarrow> binary64 v' \<Longrightarrow> canonical_text v = canonical_text v' \<longleftrightarrow> sort_keys v = sort_keys v'"
  unfolding canonical_text_def by (intro dumps_inject binary64_sorted)

text \<open>The hash does not map two texts to one value: only asked of the two texts at hand.\<close>

definition apart :: "(string \<Rightarrow> string) \<Rightarrow> json \<Rightarrow> json \<Rightarrow> bool" where
  "apart sha v v' \<longleftrightarrow> (sha (canonical_text v) = sha (canonical_text v') \<longrightarrow> canonical_text v = canonical_text v')"

lemma fingerprint_iff:
  "binary64 v \<Longrightarrow> binary64 v' \<Longrightarrow> apart sha v v' \<Longrightarrow> fingerprint sha v = fingerprint sha v' \<longleftrightarrow> sort_keys v = sort_keys v'"
  using canonical_inject[of v v'] by (auto simp: fingerprint_def apart_def canonical_text_def)

lemma map_of_sorted: "distinct (map fst xs) \<Longrightarrow> map_of (sort_key fst xs) = map_of xs"
  by (subst map_of_inject_set) (simp_all add: distinct_map inj_on_def)

lemma sorted_field:
  assumes "sort_keys (JObj a) = sort_keys (JObj b)" "distinct (map fst a)" "distinct (map fst b)"
  shows "map_option sort_keys (map_of a k) = map_option sort_keys (map_of b k)"
proof -
  let ?f = "\<lambda>(k :: string, v). (k, sort_keys v)"
  have keys: "map fst (map ?f xs) = map fst xs" for xs by (induction xs) auto
  have "map_of (map ?f a) = map_of (map ?f b)"
    using assms map_of_sorted[of "map ?f a"] map_of_sorted[of "map ?f b"] unfolding keys by simp
  then show ?thesis by (metis map_of_map comp_apply)
qed

lemma json_opts [simp]:
  "json_opt JInt a = json_opt JInt a' \<longleftrightarrow> a = a'" "json_opt JStr b = json_opt JStr b' \<longleftrightarrow> b = b'" "json_opt JFloat c = json_opt JFloat c' \<longleftrightarrow> c = c'"
  by (auto simp: json_opt_def split: option.splits)

lemma sort_scalar [simp]: "sort_keys (json_opt JInt a) = json_opt JInt a" "sort_keys (json_opt JStr b) = json_opt JStr b" "sort_keys (json_opt JFloat c) = json_opt JFloat c"
  by (simp_all add: json_opt_def split: option.splits)

lemma binary64_opt [simp]: "binary64 (json_opt f x) \<longleftrightarrow> opt_all (\<lambda>y. binary64 (f y)) x"
  by (simp add: json_opt_def split: option.split)

lemma sort_opt: "sort_keys (json_opt f x) = sort_keys (json_opt f y) \<Longrightarrow> (\<And>a b. sort_keys (f a) = sort_keys (f b) \<Longrightarrow> a = b) \<Longrightarrow> (\<And>a. sort_keys (f a) \<noteq> JNull) \<Longrightarrow> x = y"
  by (cases x; cases y; simp add: json_opt_def; metis)

subsection \<open>The workload\<close>

definition workload_floats :: "workload_profile \<Rightarrow> bool" where
  "workload_floats w \<longleftrightarrow> binary64 (workload_identity w)"

lemma slo_dump_inject: "sort_keys (slo_dump c) = sort_keys (slo_dump c') \<Longrightarrow> c = c'"
  unfolding slo_dump_def by (frule sorted_field[where k = "''max_p95_ttft_ms''"], simp, simp, frule sorted_field[where k = "''max_p95_latency_ms''"], simp, simp,
    frule sorted_field[where k = "''max_p95_tpot_ms''"], simp, simp) simp

lemma workload_identity_iff:
  "sort_keys (workload_identity w) = sort_keys (workload_identity w') \<longleftrightarrow> w\<lparr>wl_name := wl_name w'\<rparr> = w'"
proof
  assume e: "sort_keys (workload_identity w) = sort_keys (workload_identity w')"
  note field = sorted_field[OF e[unfolded workload_identity_def], simplified]
  have "objective_value (wl_objective w) = objective_value (wl_objective w')" using field[of "''objective''"] by simp
  then have o: "wl_objective w = wl_objective w'" by (cases "wl_objective w"; cases "wl_objective w'") simp_all
  have "sort_keys (json_opt slo_dump (wl_latency_constraints w)) = sort_keys (json_opt slo_dump (wl_latency_constraints w'))"
    using field[of "''slo''"] by simp
  then have "wl_latency_constraints w = wl_latency_constraints w'"
    by (rule sort_opt) (simp_all add: slo_dump_inject, simp add: slo_dump_def)
  then show "w\<lparr>wl_name := wl_name w'\<rparr> = w'"
    using o field[of "''input_tokens_p50''"] field[of "''input_tokens_p95''"] field[of "''output_tokens_p50''"] field[of "''output_tokens_p95''"]
      field[of "''max_context_tokens''"] field[of "''expected_concurrency''"] field[of "''target_request_rate''"] field[of "''shared_prefix_fraction''"] field[of "''streaming''"]
    by (intro workload_profile.equality) simp_all
next
  assume "w\<lparr>wl_name := wl_name w'\<rparr> = w'"
  then have "workload_identity w' = workload_identity (w\<lparr>wl_name := wl_name w'\<rparr>)" by simp
  then show "sort_keys (workload_identity w) = sort_keys (workload_identity w')" by (simp add: workload_identity_def)
qed

lemma workload_fingerprint_same:
  assumes "workload_floats w" "workload_floats w'" "apart sha (workload_identity w) (workload_identity w')"
  shows "workload_fingerprint sha w = workload_fingerprint sha w' \<longleftrightarrow> w\<lparr>wl_name := wl_name w'\<rparr> = w'"
  unfolding workload_fingerprint_def workload_identity_iff[symmetric]
  by (rule fingerprint_iff) (use assms workload_floats_def in auto)

subsection \<open>The model\<close>

text \<open>Two profiles of the same model: the configurations agree up to the order of keys and the volatile ones.\<close>

definition same_model :: "model_profile \<Rightarrow> model_profile \<Rightarrow> bool" where
  "same_model p q \<longleftrightarrow>
     mp_model_id p = mp_model_id q \<and> mp_revision p = mp_revision q \<and> mp_weight_bytes p = mp_weight_bytes q
     \<and> mp_weight_size_source p = mp_weight_size_source q \<and> mp_configured_dtype p = mp_configured_dtype q
     \<and> sort_keys (stable_config (mp_raw_config p)) = sort_keys (stable_config (mp_raw_config q))
     \<and> sort_keys (json_opt JObj (mp_quantization_config p)) = sort_keys (json_opt JObj (mp_quantization_config q))"

definition model_floats :: "model_profile \<Rightarrow> bool" where
  "model_floats p \<longleftrightarrow> binary64 (JObj (mp_raw_config p)) \<and> opt_all (\<lambda>q. binary64 (JObj q)) (mp_quantization_config p)"

lemma stable_binary64: "binary64 (JObj raw) \<Longrightarrow> binary64 (stable_config raw)"
  by (auto simp: stable_config_def list_all_iff)

lemma model_identity_binary64: "model_floats p \<Longrightarrow> binary64 (model_identity sha p)"
  by (simp add: model_floats_def model_identity_def opt_all_def split: option.splits)

lemma source_value_inject: "source_value a = source_value b \<longleftrightarrow> a = b"
  by (cases a; cases b) simp_all

lemma model_identity_iff:
  "sort_keys (model_identity sha p) = sort_keys (model_identity sha q) \<longleftrightarrow>
     mp_model_id p = mp_model_id q \<and> mp_revision p = mp_revision q \<and> mp_weight_bytes p = mp_weight_bytes q
     \<and> mp_weight_size_source p = mp_weight_size_source q \<and> mp_configured_dtype p = mp_configured_dtype q
     \<and> config_hash sha (mp_raw_config p) = config_hash sha (mp_raw_config q)
     \<and> sort_keys (json_opt JObj (mp_quantization_config p)) = sort_keys (json_opt JObj (mp_quantization_config q))"
    (is "_ \<longleftrightarrow> ?fields")
proof
  assume e: "sort_keys (model_identity sha p) = sort_keys (model_identity sha q)"
  note field = sorted_field[OF e[unfolded model_identity_def], simplified]
  show ?fields
    using field[of "''model_id''"] field[of "''revision''"] field[of "''config_hash''"] field[of "''weight_bytes''"]
      field[of "''weight_size_source''"] field[of "''quantization''"] field[of "''dtype''"] by (simp add: source_value_inject)
next
  assume ?fields
  then show "sort_keys (model_identity sha p) = sort_keys (model_identity sha q)" unfolding model_identity_def sort_keys.simps by simp
qed

lemma model_fingerprint_same:
  assumes p: "model_floats p" and q: "model_floats q" and identities: "apart sha (model_identity sha p) (model_identity sha q)"
    and configs: "apart sha (stable_config (mp_raw_config p)) (stable_config (mp_raw_config q))"
  shows "model_fingerprint sha p = model_fingerprint sha q \<longleftrightarrow> same_model p q"
proof -
  have "config_hash sha (mp_raw_config p) = config_hash sha (mp_raw_config q)
    \<longleftrightarrow> sort_keys (stable_config (mp_raw_config p)) = sort_keys (stable_config (mp_raw_config q))"
    unfolding config_hash_def by (rule fingerprint_iff[OF _ _ configs]) (use p q stable_binary64 in \<open>auto simp: model_floats_def\<close>)
  moreover have "model_fingerprint sha p = model_fingerprint sha q \<longleftrightarrow> sort_keys (model_identity sha p) = sort_keys (model_identity sha q)"
    unfolding model_fingerprint_def by (rule fingerprint_iff[OF _ _ identities]) (use p q model_identity_binary64 in auto)
  ultimately show ?thesis unfolding model_identity_iff same_model_def by blast
qed

subsection \<open>The hardware\<close>

definition gpu_facts :: "gpu_device \<Rightarrow> int \<times> string \<times> int \<times> string option \<times> string option" where
  "gpu_facts g = (gd_index g, gd_name g, gd_total_memory_bytes g, compute_capability g, gd_mig_mode g)"

definition same_hardware :: "hardware_snapshot \<Rightarrow> int list option \<Rightarrow> hardware_snapshot \<Rightarrow> int list option \<Rightarrow> bool" where
  "same_hardware s ids s' ids' \<longleftrightarrow>
     hs_platform s = hs_platform s' \<and> hs_driver_version s = hs_driver_version s' \<and> hs_cuda_version s = hs_cuda_version s'
     \<and> gt_available (hs_topology (chosen_snapshot s ids)) = gt_available (hs_topology (chosen_snapshot s' ids'))
     \<and> map gpu_facts (identity_gpus (chosen_snapshot s ids)) = map gpu_facts (identity_gpus (chosen_snapshot s' ids'))
     \<and> identity_edges (chosen_snapshot s ids) = identity_edges (chosen_snapshot s' ids')"

lemma gpu_identity_iff: "sort_keys (gpu_identity g) = sort_keys (gpu_identity h) \<longleftrightarrow> gpu_facts g = gpu_facts h"
proof
  assume e: "sort_keys (gpu_identity g) = sort_keys (gpu_identity h)"
  note field = sorted_field[OF e[unfolded gpu_identity_def], simplified]
  show "gpu_facts g = gpu_facts h"
    using field[of "''index''"] field[of "''name''"] field[of "''total_memory_bytes''"] field[of "''compute_capability''"] field[of "''mig_mode''"]
    by (simp add: gpu_facts_def)
qed (simp add: gpu_facts_def gpu_identity_def)

lemma edge_identity_iff: "sort_keys (edge_identity e) = sort_keys (edge_identity f) \<longleftrightarrow> e = f"
proof
  assume e: "sort_keys (edge_identity e) = sort_keys (edge_identity f)"
  note field = sorted_field[OF e[unfolded edge_identity_def], simplified]
  show "e = f"
    using field[of "''a''"] field[of "''b''"] field[of "''rel''"] field[of "''nvlink''"] field[of "''links''"]
    by (intro topology_edge.equality) simp_all
qed simp

lemma map_iff: "(\<And>x y. f x = f y \<longleftrightarrow> g x = g y) \<Longrightarrow> map f xs = map f ys \<longleftrightarrow> map g xs = map g ys"
proof (induction xs arbitrary: ys)
  case (Cons x xs)
  then show ?case by (cases ys) auto
qed auto

lemma hardware_identity_iff: "sort_keys (hardware_identity s ids) = sort_keys (hardware_identity s' ids') \<longleftrightarrow> same_hardware s ids s' ids'"
proof -
  let ?g = "\<lambda>s ids. map (sort_keys \<circ> gpu_identity) (identity_gpus (chosen_snapshot s ids))"
  let ?t = "\<lambda>s ids. map (sort_keys \<circ> edge_identity) (identity_edges (chosen_snapshot s ids))"
  have lists: "?g s ids = ?g s' ids' \<longleftrightarrow> map gpu_facts (identity_gpus (chosen_snapshot s ids)) = map gpu_facts (identity_gpus (chosen_snapshot s' ids'))"
    "?t s ids = ?t s' ids' \<longleftrightarrow> map (\<lambda>e. e) (identity_edges (chosen_snapshot s ids)) = map (\<lambda>e. e) (identity_edges (chosen_snapshot s' ids'))"
    by (rule map_iff, simp add: gpu_identity_iff edge_identity_iff)+
  have "sort_keys (hardware_identity s ids) = sort_keys (hardware_identity s' ids') \<longleftrightarrow>
    hs_platform s = hs_platform s' \<and> hs_driver_version s = hs_driver_version s' \<and> hs_cuda_version s = hs_cuda_version s'
     \<and> gt_available (hs_topology (chosen_snapshot s ids)) = gt_available (hs_topology (chosen_snapshot s' ids'))
     \<and> ?g s ids = ?g s' ids' \<and> ?t s ids = ?t s' ids'" (is "_ \<longleftrightarrow> ?fields")
  proof
    assume e: "sort_keys (hardware_identity s ids) = sort_keys (hardware_identity s' ids')"
    note field = sorted_field[OF e[unfolded hardware_identity_def Let_def], simplified]
    show ?fields
      using field[of "''platform''"] field[of "''driver_version''"] field[of "''cuda_version''"] field[of "''gpus''"]
        field[of "''topology_available''"] field[of "''topology''"] by simp
  next
    assume ?fields
    then show "sort_keys (hardware_identity s ids) = sort_keys (hardware_identity s' ids')"
      unfolding hardware_identity_def Let_def sort_keys.simps by simp
  qed
  then show ?thesis unfolding same_hardware_def lists by simp
qed

lemma hardware_identity_binary64: "binary64 (hardware_identity s ids)"
  by (simp add: hardware_identity_def Let_def list_all_iff gpu_identity_def edge_identity_def opt_all_def split: option.split)

lemma hardware_fingerprint_same:
  assumes "apart sha (hardware_identity s ids) (hardware_identity s' ids')"
  shows "hardware_fingerprint sha s ids = hardware_fingerprint sha s' ids' \<longleftrightarrow> same_hardware s ids s' ids'"
  unfolding hardware_fingerprint_def hardware_identity_iff[symmetric]
  by (rule fingerprint_iff[OF hardware_identity_binary64 hardware_identity_binary64 assms])

section \<open>The workload's fingerprint\<close>

text \<open>C22: Two workloads have the same fingerprint exactly when they agree in everything but their name, unless the hash maps the two texts
  at hand to one value: the canonical JSON text loses nothing, floats included.\<close>

theorem workload_fingerprint_iff:
  assumes "workload_floats w" and "workload_floats w'" and "apart sha (workload_identity w) (workload_identity w')"
  shows "workload_fingerprint sha w = workload_fingerprint sha w' \<longleftrightarrow> w\<lparr>wl_name := wl_name w'\<rparr> = w'"
  using assms by (rule workload_fingerprint_same)

definition third_workload :: "float64 \<Rightarrow> workload_profile" where
  "third_workload x = \<lparr>wl_name = ''chat'', wl_input_tokens_p50 = 512, wl_input_tokens_p95 = 2048, wl_output_tokens_p50 = 256,
     wl_output_tokens_p95 = 768, wl_max_context_tokens = 8192, wl_expected_concurrency = None, wl_target_request_rate = None,
     wl_shared_prefix_fraction = x, wl_streaming = True, wl_objective = Throughput, wl_latency_constraints = None\<rparr>"

theorem workload_fingerprint_iff_witness:
  "workload_fingerprint (\<lambda>t. t) (third_workload (fl (1 / 3))) \<noteq> workload_fingerprint (\<lambda>t. t) (third_workload (1 / 2))"
proof -
  have floats: "workload_floats (third_workload (fl (1 / 3)))" "workload_floats (third_workload (1 / 2))"
    using fl_half[of 1] by (simp_all add: workload_floats_def workload_identity_def third_workload_def opt_all_def)
  have "fl (1 / 3) \<noteq> 1 / 2" by code_simp
  then show ?thesis by (subst workload_fingerprint_iff[OF floats]) (simp_all add: apart_def third_workload_def)
qed

end
