(* ===== verification/Winner_Plan.thy ===== *)
theory Winner_Plan
  imports Tuner
begin

text \<open>
  Where the tuner's winner comes from: its plan is a viable candidate of the planning in everything a launch depends on, except the
  memory fraction when memory tuning is on.
\<close>

section \<open>Offshoots of candidates\<close>

definition offshoot :: "bool \<Rightarrow> candidate_plan list \<Rightarrow> candidate_plan \<Rightarrow> bool" where
  "offshoot tuning cs p \<longleftrightarrow>
     (\<exists>c \<in> set cs. structural_key p = structural_key c \<and> cp_engine p = cp_engine c \<and> cp_gpu_groups p = cp_gpu_groups c
        \<and> cp_kv_cache_dtype p = cp_kv_cache_dtype c \<and> cp_engine_args p = cp_engine_args c
        \<and> cp_max_num_seqs p = cp_max_num_seqs c \<and> cp_max_running_requests p = cp_max_running_requests c
        \<and> (\<not> tuning \<longrightarrow> cp_memory_fraction p = cp_memory_fraction c))"

lemma offshoot_self: "p \<in> set cs \<Longrightarrow> offshoot tuning cs p"
  by (auto simp: offshoot_def)

lemma key_updates [simp]:
  "structural_key (p\<lparr>cp_viability := v\<rparr>) = structural_key p" "structural_key (p\<lparr>cp_max_concurrency := c\<rparr>) = structural_key p"
  "structural_key (p\<lparr>cp_id := i, cp_memory_fraction := f\<rparr>) = structural_key p"
  by (simp_all add: structural_key_def expert_key_def)

lemma offshoot_updates [simp]:
  "offshoot tuning cs (p\<lparr>cp_viability := v\<rparr>) = offshoot tuning cs p" "offshoot tuning cs (p\<lparr>cp_max_concurrency := c\<rparr>) = offshoot tuning cs p"
  by (simp_all add: offshoot_def)

lemma offshoot_tuned: "offshoot True cs p \<Longrightarrow> offshoot True cs (tuned_memory_plan p f)"
  by (simp add: offshoot_def tuned_memory_plan_def)

lemma offshoot_config: "launch_config q = launch_config p \<Longrightarrow> offshoot tuning cs p \<Longrightarrow> offshoot tuning cs q"
proof -
  assume e: "launch_config q = launch_config p" and p: "offshoot tuning cs p"
  have "structural_key x = structural_key (launch_config x)" for x by (simp add: launch_config_def structural_key_def expert_key_def)
  then have k: "structural_key q = structural_key p" using e by metis
  have "cp_engine q = cp_engine p" "cp_gpu_groups q = cp_gpu_groups p" "cp_kv_cache_dtype q = cp_kv_cache_dtype p" "cp_engine_args q = cp_engine_args p"
    "cp_max_num_seqs q = cp_max_num_seqs p" "cp_max_running_requests q = cp_max_running_requests p" "cp_memory_fraction q = cp_memory_fraction p"
    using e by (auto simp: launch_config_def dest: arg_cong[where f = cp_engine] arg_cong[where f = cp_gpu_groups] arg_cong[where f = cp_kv_cache_dtype]
      arg_cong[where f = cp_engine_args] arg_cong[where f = cp_max_num_seqs] arg_cong[where f = cp_max_running_requests] arg_cong[where f = cp_memory_fraction])
  then show ?thesis using p k by (simp add: offshoot_def)
qed

section \<open>What an operation returns\<close>

definition gives :: "('w, 'a) tm \<Rightarrow> ('a \<Rightarrow> bool) \<Rightarrow> bool" where
  "gives m P \<longleftrightarrow> (\<forall>s x. fst (m s) = Inr x \<longrightarrow> P x)"

lemma gives_bind: "gives m P \<Longrightarrow> (\<And>x. P x \<Longrightarrow> gives (f x) Q) \<Longrightarrow> gives (bind m f) Q"
proof -
  assume m: "gives m P" and f: "\<And>x. P x \<Longrightarrow> gives (f x) Q"
  show "gives (bind m f) Q" unfolding gives_def
  proof (intro allI impI)
    fix s y assume y: "fst (bind m f s) = Inr y"
    then obtain x where x: "fst (m s) = Inr x" "fst (f x (snd (m s))) = Inr y" by (auto simp: bind_cases split: sum.splits)
    then have "P x" using m by (simp add: gives_def)
    then show "Q y" using f x(2) by (simp add: gives_def)
  qed
qed

lemma gives_any: "gives m (\<lambda>_. True)" by (simp add: gives_def)

lemma gives_then: "(\<And>x. gives (f x) Q) \<Longrightarrow> gives (bind m f) Q"
  by (rule gives_bind[OF gives_any])

lemma gives_andthen: "gives n Q \<Longrightarrow> gives (andthen m n) Q"
  unfolding andthen_def by (rule gives_then)

lemma gives_ret: "P x \<Longrightarrow> gives (ret x) P" by (simp add: gives_def ret_def)
lemma gives_throw: "gives (throw e) P" by (simp add: gives_def throw_def)
lemma gives_asks: "(\<And>s. P (f s)) \<Longrightarrow> gives (asks f) P" by (simp add: gives_def asks_def)
lemma gives_weaken: "gives m P \<Longrightarrow> (\<And>x. P x \<Longrightarrow> Q x) \<Longrightarrow> gives m Q" by (auto simp: gives_def)

lemma gives_cases:
  "(b \<Longrightarrow> gives m P) \<Longrightarrow> (\<not> b \<Longrightarrow> gives n P) \<Longrightarrow> gives (if b then m else n) P"
  "(\<And>x. v = Some x \<Longrightarrow> gives (f x) P) \<Longrightarrow> (v = None \<Longrightarrow> gives m P) \<Longrightarrow> gives (case v of None \<Rightarrow> m | Some x \<Rightarrow> f x) P"
  "(\<And>x. r = Inl x \<Longrightarrow> gives (g x) P) \<Longrightarrow> (\<And>y. r = Inr y \<Longrightarrow> gives (h y) P) \<Longrightarrow> gives (case r of Inl x \<Rightarrow> g x | Inr y \<Rightarrow> h y) P"
  by (auto split: option.split sum.split)

lemma gives_collect:
  "(\<And>x. x \<in> set xs \<Longrightarrow> gives (f x) (\<lambda>r. \<forall>y. r = Some y \<longrightarrow> Q y)) \<Longrightarrow> gives (collect f xs) (\<lambda>ys. \<forall>y \<in> set ys. Q y)"
proof (induction xs)
  case (Cons x xs)
  show ?case unfolding collect.simps
  proof (rule gives_bind, rule Cons.prems, simp, rule gives_bind, rule Cons.IH, rule Cons.prems, simp, rule gives_ret)
    fix r ys assume "\<forall>y. r = Some y \<longrightarrow> Q y" "\<forall>y \<in> set ys. Q y"
    then show "\<forall>y \<in> set (case r of None \<Rightarrow> ys | Some z \<Rightarrow> z # ys). Q y" by (cases r) auto
  qed
qed (simp add: gives_ret)

lemma gives_loop: "I a \<Longrightarrow> (\<And>x a. I a \<Longrightarrow> gives (f x a) (\<lambda>r. I (fst r))) \<Longrightarrow> gives (loop f xs a) I"
proof (induction xs arbitrary: a)
  case (Cons x xs)
  show ?case unfolding loop.simps
    by (rule gives_bind, rule Cons.prems(2), rule Cons.prems(1), rule gives_cases(1), rule Cons.IH, assumption, rule Cons.prems(2), assumption, rule gives_ret)
qed (simp add: gives_ret)

section \<open>The stages\<close>

definition kept :: "tuned \<Rightarrow> sweep \<Rightarrow> bool" where
  "kept e w \<longleftrightarrow> td_plan (sw_evaluation w) = td_plan e"

lemma kept_updates [simp]: "kept e (add_note m w) = kept e w" "kept e (add_point i w) = kept e w"
  by (simp_all add: kept_def add_note_def add_point_def)

lemma gives_run_point: "kept e w \<Longrightarrow> gives (run_point env se c w lbl) (\<lambda>r. kept e (fst r))"
  unfolding run_point_def by (intro gives_then gives_cases gives_ret) simp_all

lemma gives_sweep_step: "kept e (fst a) \<Longrightarrow> gives (sweep_step env se c a) (\<lambda>r. kept e (fst (fst r)))"
  unfolding sweep_step_def Let_def
  by (rule gives_bind, rule gives_run_point, assumption, intro gives_cases gives_then gives_ret) simp_all

lemma gives_latency_loop: "kept e (fst st) \<Longrightarrow> gives (latency_loop env se upper fuel c st) (kept e)"
proof (induction fuel arbitrary: c st)
  case (Suc fuel)
  show ?case unfolding latency_loop.simps Let_def
    by (intro gives_cases gives_ret, rule Suc.prems, rule gives_bind, rule gives_run_point, rule Suc.prems,
      intro gives_cases gives_then gives_ret Suc.IH) simp_all
qed (simp add: gives_throw)

lemma gives_sweeps: "kept e w \<Longrightarrow> gives (sweep_throughput env se p w) (kept e)" "kept e w \<Longrightarrow> gives (sweep_latency env se p w) (kept e)"
proof -
  assume w: "kept e w"
  have refine: "gives (loop (\<lambda>c v. bind (run_point env se c v ''refine'') (\<lambda>r. ret (fst r, True))) cs v) (kept e)" if "kept e v" for cs v
    by (rule gives_loop, rule that, rule gives_bind, rule gives_run_point, assumption, rule gives_ret, simp)
  have walk: "gives (loop (sweep_step env se) points (w, [])) (\<lambda>st. kept e (fst st))" for points
    by (rule gives_loop, simp add: w, rule gives_sweep_step)
  show "gives (sweep_throughput env se p w) (kept e)" unfolding sweep_throughput_def
    by (intro gives_cases gives_throw, rule gives_bind, rule walk, rule gives_then, rule refine)
  show "gives (sweep_latency env se p w) (kept e)" unfolding sweep_latency_def Let_def
    by (rule gives_bind, rule gives_run_point, rule w, intro gives_cases gives_ret gives_then gives_latency_loop) simp_all
qed

lemma gives_stage_a:
  assumes "\<And>p prior. p \<in> set cs \<Longrightarrow> reusable env p = Some prior \<Longrightarrow> launch_config (td_plan prior) = launch_config p"
  shows "gives (stage_a env cs) (\<lambda>es. \<forall>e \<in> set es. offshoot tuning cs (td_plan e))"
proof -
  have launched: "gives (stage_a_launched env p c is_last se) (\<lambda>r. \<forall>y. r = Some y \<longrightarrow> offshoot tuning cs (td_plan y))" if "p \<in> set cs" for p c is_last se
    unfolding stage_a_launched_def Let_def
    by (intro gives_then gives_cases gives_andthen gives_ret) (simp_all add: launched_tuned_def new_tuned_def offshoot_self that)
  have one: "gives (stage_a_one env is_last p) (\<lambda>r. \<forall>y. r = Some y \<longrightarrow> offshoot tuning cs (td_plan y))" if p: "p \<in> set cs" for p is_last
    unfolding stage_a_one_def
  proof (intro gives_cases gives_then gives_andthen gives_ret launched p)
    fix prior assume "reusable env p = Some prior"
    then show "\<forall>y. Some prior = Some y \<longrightarrow> offshoot tuning cs (td_plan y)" using offshoot_config offshoot_self[OF p] assms[OF p] by blast
  qed simp
  show ?thesis unfolding stage_a_def
  proof (rule gives_bind, rule gives_collect)
    fix x assume "x \<in> set (enumerate 0 cs)"
    then have "snd x \<in> set cs" by (auto simp: in_set_enumerate_eq) (metis nth_mem)
    then show "gives (case x of (i, p) \<Rightarrow> stage_a_one env (Suc i = length cs) p) (\<lambda>r. \<forall>y. r = Some y \<longrightarrow> offshoot tuning cs (td_plan y))"
      using one by (cases x) simp
  qed (intro gives_cases gives_throw gives_andthen gives_ret)
qed

lemma gives_stage_b:
  assumes "\<forall>e \<in> set es. offshoot tuning cs (td_plan e)"
  shows "gives (stage_b env es) (\<lambda>es. \<forall>e \<in> set es. offshoot tuning cs (td_plan e))"
proof -
  have one: "gives (stage_b_one env e0) (\<lambda>r. \<forall>y. r = Some y \<longrightarrow> offshoot tuning cs (td_plan y))" if "offshoot tuning cs (td_plan e0)" for e0
  proof -
    let ?e = "new_tuned (td_plan e0) ''concurrency'' (td_engine_version e0)"
    have sweep: "gives ((if tv_objective env = Latency then sweep_latency else sweep_throughput) env se (td_plan e0)
        \<lparr>sw_history = td_results e0, sw_evaluation = ?e\<rparr>) (kept ?e)" for se
      by (cases "tv_objective env = Latency") (simp_all add: gives_sweeps kept_def)
    show ?thesis unfolding stage_b_one_def Let_def
      by (rule gives_then, rule gives_cases(3), intro gives_andthen gives_ret, simp, rule gives_bind, rule sweep, intro gives_andthen gives_ret)
        (use that in \<open>simp add: kept_def new_tuned_def\<close>)
  qed
  have ranked: "set (open_first cur (take k (rank_structural env store es))) \<subseteq> set es" for cur k store
  proof -
    have "set (open_first cur xs) = set xs" for xs by (simp add: open_first_def split: option.split)
    then show ?thesis using subset_trans[OF set_take_subset rank_structural_subset] by (simp only:)
  qed
  show ?thesis unfolding stage_b_def
    by (rule gives_bind, rule gives_asks[where P = "\<lambda>r. \<forall>e \<in> set r. offshoot tuning cs (td_plan e)"], use assms ranked in blast,
      rule gives_bind, rule gives_collect, rule one, blast, intro gives_cases gives_andthen gives_ret, assumption, assumption)
qed

lemma gives_pick:
  assumes "\<forall>e \<in> set es. offshoot tuning cs (td_plan e)"
  shows "gives (pick_winner env es) (\<lambda>w. offshoot tuning cs (td_plan (fst w)))"
proof -
  let ?good = "\<lambda>t :: tuned \<times> nat \<times> string. offshoot tuning cs (td_plan (fst t))"
  have ops: "gives (asks (\<lambda>s. List.map_filter (operating_point env s) es)) (\<lambda>ops. \<forall>t \<in> set ops. ?good t)"
    by (rule gives_asks) (use assms in \<open>auto simp: map_filter_def operating_point_def Let_def\<close>)
  have scores: "gives (asks (\<lambda>s. scored_refs env (tn_store s) (map (\<lambda>t. fst (snd t)) ops))) (\<lambda>scored. length scored = length ops)"
    for ops :: "(tuned \<times> nat \<times> string) list"
    by (rule gives_asks) (simp add: scored_refs_def score_results_def deref_def Let_def)
  show ?thesis unfolding pick_winner_def
  proof (rule gives_bind, rule ops, rule gives_cases(1), rule gives_throw, rule gives_bind, rule scores, rule gives_cases(2))
    fix os :: "(tuned \<times> nat \<times> string) list" and scored sel
    assume os: "\<forall>t \<in> set os. ?good t" and len: "length scored = length os" and sel: "select_best scored = Some sel"
    have "length (takeWhile (\<lambda>sc. sc \<noteq> sl_winner sel) scored) < length os"
      unfolding len[symmetric] by (rule takeWhile_short[OF select_best_in[OF sel]]) simp
    then have "?good (os ! length (takeWhile (\<lambda>sc. sc \<noteq> sl_winner sel) scored))" using os by simp
    then show "gives (let k = length (takeWhile (\<lambda>sc. sc \<noteq> sl_winner sel) scored) in
            andthen (loop (\<lambda>m u. andthen (note_once m) (ret (u, True))) (sl_notes sel) ())
            (andthen (change (\<lambda>s. s\<lparr>tn_store := write_scores
                 (take (Suc k) (zip (map (\<lambda>t. fst (snd t)) os) (map sr_score scored))) (tn_store s)\<rparr>))
              (ret (os ! k)))) ?good"
      unfolding Let_def by (intro gives_andthen gives_ret)
  qed (rule gives_throw)
qed

lemma gives_stage_c:
  assumes "offshoot (ts_memory_tuning (tv_settings env)) cs (td_plan best)"
  shows "gives (stage_c env best i) (\<lambda>c. offshoot (ts_memory_tuning (tv_settings env)) cs (td_plan (fst c)))"
proof (cases "ts_memory_tuning (tv_settings env)")
  case False
  then show ?thesis using assms unfolding stage_c_def by (simp add: gives_ret)
next
  case True
  have best: "offshoot True cs (td_plan best)" using assms True by simp
  have verdict: "gives (memory_verdict env best i e j new_f old_f) (\<lambda>c. offshoot True cs (td_plan (fst c)))" if "offshoot True cs (td_plan e)" for e j new_f old_f
    unfolding memory_verdict_def Let_def
    by (rule gives_then, rule gives_cases(1), intro gives_andthen gives_ret, simp add: that, intro gives_andthen gives_ret, simp add: best)
  have attempt: "gives (try_memory env best i f new) (\<lambda>c. offshoot True cs (td_plan (fst c)))" for f new
  proof -
    let ?e = "new_tuned (tuned_memory_plan (td_plan best) new) ''memory'' (td_engine_version best)"
    have w: "gives (loop (\<lambda>c w. bind (run_point env se c w ''memory'') (\<lambda>r. ret (fst r, True))) cl \<lparr>sw_history = [], sw_evaluation = ?e\<rparr>) (kept ?e)" for se cl
      by (rule gives_loop, simp add: kept_def, rule gives_bind, rule gives_run_point, assumption, rule gives_ret, simp)
    show ?thesis unfolding try_memory_def Let_def
      by (intro gives_andthen, rule gives_then, rule gives_cases(3), intro gives_andthen gives_ret, simp add: best,
        rule gives_then, rule gives_bind, rule w, intro gives_andthen, rule gives_then, rule gives_cases(2), unfold case_prod_unfold, rule verdict)
        (simp add: kept_def new_tuned_def offshoot_tuned[OF best], simp add: gives_ret best)
  qed
  show ?thesis unfolding stage_c_def True
    by (intro gives_cases gives_ret) (simp_all add: assms best True gives_ret gives_throw Let_def attempt split: option.split)
qed

lemma gives_stage_d:
  assumes "offshoot tuning cs (td_plan best)"
  shows "gives (stage_d env best i) (\<lambda>d. offshoot tuning cs (td_plan (fst d)))"
  unfolding stage_d_def Let_def
  by (intro gives_then gives_cases gives_andthen gives_ret) (simp_all add: assms launched_tuned_def new_tuned_def)

text \<open>The whole run.\<close>

lemma gives_search:
  assumes "\<And>p prior. p \<in> set cs \<Longrightarrow> reusable env p = Some prior \<Longrightarrow> launch_config (td_plan prior) = launch_config p"
  shows "gives (search env cs) (\<lambda>r. offshoot (ts_memory_tuning (tv_settings env)) cs (td_plan (fst r)))"
  unfolding search_def
  by (rule gives_bind, rule gives_stage_a, rule assms, assumption, assumption, rule gives_cases(1), rule gives_then, rule gives_throw,
    rule gives_bind, rule gives_stage_b, assumption, rule gives_bind, rule gives_pick, assumption, rule gives_bind, rule gives_stage_c, assumption,
    rule gives_bind, rule gives_stage_d, assumption, rule gives_ret, simp)

lemma reusable_config: "reusable env p = Some prior \<Longrightarrow> launch_config (td_plan prior) = launch_config p"
  by (auto simp: reusable_def split: option.splits if_splits)

lemma gives_finally: "gives m P \<Longrightarrow> gives (finally_close env m) P"
  by (auto simp: gives_def finally_close_def Let_def split: sum.splits)

lemma tune_origin:
  assumes "fst (tune env planning s) = Inr out"
  shows "offshoot (ts_memory_tuning (tv_settings env)) (viable planning) (sp_plan (to_winner out))"
proof -
  let ?cs = "take (ts_max_structural_candidates (tv_settings env)) (viable planning)" and ?b = "ts_memory_tuning (tv_settings env)"
  have found: "gives (finally_close env (search env ?cs)) (\<lambda>r. offshoot ?b ?cs (td_plan (fst r)))"
    by (intro gives_finally gives_search reusable_config)
  have out: "gives (outcome_of env planning e i why mem) (\<lambda>o1. sp_plan (to_winner o1) = sp_plan (to_winner o1) \<and> offshoot ?b ?cs (sp_plan (to_winner o1)))"
    if "offshoot ?b ?cs (td_plan e)" for e i why mem
    using that by (auto simp: gives_def outcome_of_def Let_def tuned_winner_plan_def split: option.splits)
  have "gives (tune env planning) (\<lambda>o1. offshoot ?b ?cs (sp_plan (to_winner o1)))"
    unfolding tune_def Let_def
    by (rule gives_cases(1), rule gives_throw, rule gives_bind, rule found, rule gives_weaken[OF out]) simp_all
  then have "offshoot ?b ?cs (sp_plan (to_winner out))" using assms by (simp add: gives_def)
  then show ?thesis unfolding offshoot_def by (meson in_set_takeD)
qed

end
