(* ===== verification/Tuning_Cache.thy ===== *)
theory Tuning_Cache
  imports Fingerprints Candidates "HOL-Library.AList"
begin

text \<open>
  The tuning cache: records (\<^verbatim>\<open>schemas/runtime.py\<close>), the store of one file per key (\<^verbatim>\<open>cache/store.py\<close>), the validation
  of a record (\<^verbatim>\<open>cache/fingerprints.py\<close>), the lookup (\<^verbatim>\<open>cli/pipeline.py\<close>) and the choice between the cached, the
  heuristic and the tuned plan (\<^verbatim>\<open>cli/app.py\<close>). The lemmas show when a cached plan is served, that a saved record is
  found again, and which records are never reused.
\<close>

section \<open>Records\<close>

datatype record_status = In_progress | Complete | Failed_record

record tuning_record =
  tg_schema_version :: int
  tg_created_at :: string
  tg_updated_at :: string
  tg_servepilot_version :: string
  tg_hardware_fingerprint :: string
  tg_model_fingerprint :: string
  tg_workload_fingerprint :: string
  tg_engine_versions :: "(string \<times> string) list"
  tg_hardware_snapshot :: hardware_snapshot
  tg_model_profile :: model_profile
  tg_workload_profile :: workload_profile
  tg_seed :: int
  tg_status :: record_status
  tg_candidates :: "candidate_evaluation list"
  tg_winner :: "selected_plan option"
  tg_notes :: "string list"
  tg_tuning_settings :: "(string \<times> json) list"

definition make_record_key :: "string \<Rightarrow> string \<Rightarrow> string \<Rightarrow> string" where
  "make_record_key hardware_fp model_fp workload_fp = take 12 hardware_fp @ ''-'' @ take 12 model_fp @ ''-'' @ take 12 workload_fp"

definition record_key :: "tuning_record \<Rightarrow> string" where
  "record_key r = make_record_key (tg_hardware_fingerprint r) (tg_model_fingerprint r) (tg_workload_fingerprint r)"

section \<open>The store\<close>

text \<open>The files of the directory by name; a file that \<^verbatim>\<open>read_json\<close> cannot read holds the reason. Dumping and validating a
  record is the schema library's part, a pair of parameters.\<close>

datatype stored = Broken_file string | Json_file json

type_synonym directory = "(string \<times> stored) list"

datatype cache_error = No_record string | Unreadable_record string string | Not_an_object string | Other_version string | Invalid_record string string

definition TUNING_RECORD_SCHEMA_VERSION :: int where "TUNING_RECORD_SCHEMA_VERSION = 1"

definition is_alnum :: "char \<Rightarrow> bool" where
  "is_alnum c \<longleftrightarrow> (let n = (of_char c :: nat) in is_digit c \<or> (65 \<le> n \<and> n \<le> 90) \<or> (97 \<le> n \<and> n \<le> 122))"

definition path_for :: "string \<Rightarrow> string" where
  "path_for key = filter (\<lambda>c. is_alnum c \<or> c \<in> {CHR ''-'', CHR ''_''}) key @ ''.json''"

definition save_record :: "(tuning_record \<Rightarrow> json) \<Rightarrow> string \<Rightarrow> tuning_record \<Rightarrow> directory \<Rightarrow> tuning_record \<times> directory" where
  "save_record dump now r dir =
     (let r = r\<lparr>tg_updated_at := now\<rparr> in (r, AList.update (path_for (record_key r)) (Json_file (dump r)) dir))"

definition schema_is :: "int \<Rightarrow> json option \<Rightarrow> bool" where
  "schema_is n v \<longleftrightarrow>
     (case v of Some (JInt i) \<Rightarrow> i = n | Some (JFloat x) \<Rightarrow> x = of_int n | Some (JBool b) \<Rightarrow> (if b then 1 else 0) = n | _ \<Rightarrow> False)"

definition load_path :: "(json \<Rightarrow> string + tuning_record) \<Rightarrow> string \<Rightarrow> stored \<Rightarrow> cache_error + tuning_record" where
  "load_path validate path file =
     (case file of
        Broken_file why \<Rightarrow> Inl (Unreadable_record path why)
      | Json_file (JObj kvs) \<Rightarrow>
          if \<not> schema_is TUNING_RECORD_SCHEMA_VERSION (map_of kvs ''schema_version'') then Inl (Other_version path)
          else (case validate (JObj kvs) of Inl why \<Rightarrow> Inl (Invalid_record path why) | Inr r \<Rightarrow> Inr r)
      | Json_file _ \<Rightarrow> Inl (Not_an_object path))"

definition load_record :: "(json \<Rightarrow> string + tuning_record) \<Rightarrow> string \<Rightarrow> directory \<Rightarrow> cache_error + tuning_record" where
  "load_record validate key dir =
     (case map_of dir (path_for key) of None \<Rightarrow> Inl (No_record key) | Some f \<Rightarrow> load_path validate (path_for key) f)"

definition find_record ::
    "(json \<Rightarrow> string + tuning_record) \<Rightarrow> string \<Rightarrow> string \<Rightarrow> string \<Rightarrow> directory \<Rightarrow> cache_error + tuning_record option" where
  "find_record validate hardware_fp model_fp workload_fp dir =
     (let path = path_for (make_record_key hardware_fp model_fp workload_fp)
      in case map_of dir path of None \<Rightarrow> Inr None | Some f \<Rightarrow> try_bind (load_path validate path f) (\<lambda>r. Inr (Some r)))"

definition list_paths :: "directory \<Rightarrow> string list" where
  "list_paths dir = sort (filter (\<lambda>n. rev (take 5 (rev n)) = ''.json'') (map fst dir))"

definition list_records :: "(json \<Rightarrow> string + tuning_record) \<Rightarrow> directory \<Rightarrow> tuning_record list" where
  "list_records validate dir =
     List.map_filter (\<lambda>n. case map_of dir n of None \<Rightarrow> None
        | Some f \<Rightarrow> (case load_path validate n f of Inl _ \<Rightarrow> None | Inr r \<Rightarrow> Some r)) (list_paths dir)"

definition delete_record :: "string \<Rightarrow> directory \<Rightarrow> bool \<times> directory" where
  "delete_record key dir =
     (case map_of dir (path_for key) of None \<Rightarrow> (False, dir) | Some _ \<Rightarrow> (True, AList.delete (path_for key) dir))"

definition clear_records :: "directory \<Rightarrow> nat \<times> directory" where
  "clear_records dir = (length (list_paths dir), filter (\<lambda>(n, f). n \<notin> set (list_paths dir)) dir)"

section \<open>Validation\<close>

text \<open>Python's equality of JSON values: numbers by value, objects whatever the order of their keys.\<close>

definition number_of :: "json \<Rightarrow> rat option" where
  "number_of v = (case v of JBool b \<Rightarrow> Some (if b then 1 else 0) | JInt i \<Rightarrow> Some (of_int i) | JFloat x \<Rightarrow> Some x | _ \<Rightarrow> None)"

fun py_equal :: "json \<Rightarrow> json \<Rightarrow> bool" where
  "py_equal (JArr xs) w = (case w of JArr ys \<Rightarrow> list_all2 py_equal xs ys | _ \<Rightarrow> False)"
| "py_equal (JObj a) w =
     (case w of JObj b \<Rightarrow> length a = length b \<and> list_all (\<lambda>(k, v). case map_of b k of None \<Rightarrow> False | Some u \<Rightarrow> py_equal v u) a | _ \<Rightarrow> False)"
| "py_equal JNull w = (w = JNull)"
| "py_equal (JStr s) w = (w = JStr s)"
| "py_equal v w = (number_of w \<noteq> None \<and> number_of v = number_of w)"

definition same_args :: "(string \<times> json) list \<Rightarrow> (string \<times> json) list \<Rightarrow> bool" where
  "same_args a b = py_equal (JObj a) (JObj b)"

record cache_validation =
  cv_valid :: bool
  cv_reasons :: "string list"
  cv_warnings :: "string list"

definition arrow :: string where "arrow = [CHR 0xE2, CHR 0x86, CHR 0x92]"

definition engine_versions_compatible :: "string option \<Rightarrow> string option \<Rightarrow> bool" where
  "engine_versions_compatible recorded current =
     (if recorded = None \<or> current = None then False
      else let a = parse_version recorded; b = parse_version current
           in 2 \<le> length a \<and> 2 \<le> length b \<and> take 2 a = take 2 b)"

definition identity_reasons ::
    "(string \<Rightarrow> string) \<Rightarrow> tuning_record \<Rightarrow> hardware_snapshot \<Rightarrow> model_profile \<Rightarrow> workload_profile \<Rightarrow> int list option \<Rightarrow> string list" where
  "identity_reasons sha r hw m w ids =
       (if tg_status r \<noteq> Complete \<or> tg_winner r = None then [''cached tuning record is incomplete''] else [])
     @ (if tg_model_fingerprint r \<noteq> model_fingerprint sha m
        then [''model changed (id, revision, config or weights differ)''] else [])
     @ (if tg_hardware_fingerprint r \<noteq> hardware_fingerprint sha hw ids
        then [''hardware changed (GPU set, memory, topology or driver differ)''] else [])
     @ (if tg_workload_fingerprint r \<noteq> workload_fingerprint sha w
        then [''workload profile changed (objective, token distribution, concurrency or SLO differ)''] else [])"

definition engine_reasons :: "tuning_record \<Rightarrow> candidate_plan \<Rightarrow> (string \<times> string) list \<Rightarrow> string list" where
  "engine_reasons r p versions =
     (let engine = engine_value (cp_engine p); recorded = map_of (tg_engine_versions r) engine
      in case map_of versions engine of
           None \<Rightarrow> [''engine '' @ engine @ '' is no longer available'']
         | Some current \<Rightarrow>
             if engine_versions_compatible recorded (Some current) then []
             else [''engine '' @ engine @ '' version changed ('' @ str_opt (\<lambda>v. v) recorded @ '' '' @ arrow @ '' '' @ current @ '')''])"

definition matches_candidate :: "candidate_plan \<Rightarrow> candidate_plan \<Rightarrow> bool" where
  "matches_candidate p c \<longleftrightarrow>
     structural_key c = structural_key p \<and> cp_kv_cache_dtype c = cp_kv_cache_dtype p \<and> same_args (cp_engine_args c) (cp_engine_args p)"

definition planning_reasons :: "candidate_plan \<Rightarrow> planning_result option \<Rightarrow> string list" where
  "planning_reasons p planning =
     (case planning of
        Some pl \<Rightarrow>
          if list_ex (matches_candidate p) (viable pl) then []
          else [''cached plan does not match the requested engine, GPU layout, context or engine settings'']
      | None \<Rightarrow> [])"

definition above :: "int \<Rightarrow> int option \<Rightarrow> bool" where
  "above cap v = (case v of None \<Rightarrow> False | Some n \<Rightarrow> cap < n)"

definition constraint_reasons :: "candidate_plan \<Rightarrow> plan_constraints option \<Rightarrow> string list" where
  "constraint_reasons p constraints =
     (case constraints of
        None \<Rightarrow> []
      | Some k \<Rightarrow>
          (if pk_memory_fraction k \<noteq> None \<and> cp_memory_fraction p \<noteq> pk_memory_fraction k
           then [''cached plan does not use the requested memory fraction''] else [])
          @ (case pk_max_concurrency k of
               None \<Rightarrow> []
             | Some cap \<Rightarrow>
                 if above cap (cp_max_num_seqs p) \<or> above cap (cp_max_running_requests p)
                 then [''cached plan exceeds the requested per-replica concurrency cap''] else []))"

definition required_bytes :: "candidate_plan \<Rightarrow> gpu_device \<Rightarrow> int" where
  "required_bytes p g =
     (case cp_memory_fraction p of
        Some f \<Rightarrow> py_int (fl_mul f (fl_int (gd_total_memory_bytes g)))
      | None \<Rightarrow>
          (case cp_estimated_memory p of
             Some est \<Rightarrow> me_engine_budget_bytes est
           | None \<Rightarrow> py_int (fl_mul (fl (9 / 10)) (fl_int (gd_total_memory_bytes g)))))"

definition gpu_reasons :: "hardware_snapshot \<Rightarrow> candidate_plan \<Rightarrow> int \<Rightarrow> string list" where
  "gpu_reasons hw p i =
     (case snap_gpu hw i of
        None \<Rightarrow> [''GPU '' @ str_int i @ '' used by the cached plan is not present'']
      | Some g \<Rightarrow>
          if gd_free_memory_bytes g < required_bytes p g
          then [''GPU '' @ str_int i @ '' has '' @ format_bytes (Some (gd_free_memory_bytes g)) @ '' free but the cached plan needs ''
                @ format_bytes (Some (required_bytes p g))]
          else [])"

definition validate_record ::
    "(string \<Rightarrow> string) \<Rightarrow> tuning_record \<Rightarrow> hardware_snapshot \<Rightarrow> model_profile \<Rightarrow> workload_profile \<Rightarrow> (string \<times> string) list
     \<Rightarrow> int list option \<Rightarrow> planning_result option \<Rightarrow> plan_constraints option \<Rightarrow> cache_validation" where
  "validate_record sha r hw m w versions ids planning constraints =
     (let reasons = identity_reasons sha r hw m w ids
            @ (case tg_winner r of
                 None \<Rightarrow> []
               | Some win \<Rightarrow>
                   let p = sp_plan win
                   in engine_reasons r p versions @ planning_reasons p planning @ constraint_reasons p constraints
                      @ concat (map (gpu_reasons hw p) (gpu_ids p)))
      in \<lparr>cv_valid = (reasons = []), cv_reasons = reasons, cv_warnings = []\<rparr>)"

section \<open>Lookup and choice of a plan\<close>

record tuning_config =
  tc_enabled :: bool
  tc_use_cache :: bool
  tc_max_structural_candidates :: nat
  tc_top_k :: nat
  tc_stage_a_requests :: int
  tc_sweep_requests :: int
  tc_final_multiplier :: int
  tc_memory_tuning :: bool
  tc_startup_timeout_seconds :: float64
  tc_seed :: int
  tc_resume :: bool

text \<open>The defaults of the schema.\<close>

definition default_tuning_config :: tuning_config where
  "default_tuning_config = \<lparr>tc_enabled = True, tc_use_cache = True, tc_max_structural_candidates = 6, tc_top_k = 2,
     tc_stage_a_requests = 32, tc_sweep_requests = 32, tc_final_multiplier = 4, tc_memory_tuning = True,
     tc_startup_timeout_seconds = 1200, tc_seed = 1234, tc_resume = False\<rparr>"

record workspace =
  wk_directory :: directory
  wk_hardware :: hardware_snapshot
  wk_model :: model_profile
  wk_workload :: workload_profile
  wk_versions :: "(string \<times> string) list"
  wk_constraints :: plan_constraints
  wk_tuning :: tuning_config

record cache_lookup =
  lk_record :: "tuning_record option"
  lk_validation :: "cache_validation option"
  lk_key :: string

definition fingerprints :: "(string \<Rightarrow> string) \<Rightarrow> workspace \<Rightarrow> planning_result \<Rightarrow> string \<times> string \<times> string" where
  "fingerprints sha ws pl =
     (hardware_fingerprint sha (wk_hardware ws) (Some (pr_selected_gpu_ids pl)), model_fingerprint sha (wk_model ws),
      workload_fingerprint sha (wk_workload ws))"

definition lookup_cache ::
    "(string \<Rightarrow> string) \<Rightarrow> (json \<Rightarrow> string + tuning_record) \<Rightarrow> workspace \<Rightarrow> planning_result \<Rightarrow> cache_lookup" where
  "lookup_cache sha validate ws pl =
     (case fingerprints sha ws pl of (h, m, w) \<Rightarrow>
        (let key = make_record_key h m w; miss = \<lparr>lk_record = None, lk_validation = None, lk_key = key\<rparr>
         in case find_record validate h m w (wk_directory ws) of
              Inl _ \<Rightarrow> miss
            | Inr None \<Rightarrow> miss
            | Inr (Some r) \<Rightarrow>
                \<lparr>lk_record = Some r,
                 lk_validation = Some (validate_record sha r (wk_hardware ws) (wk_model ws) (wk_workload ws) (wk_versions ws)
                   (Some (pr_selected_gpu_ids pl)) (Some pl) (Some (wk_constraints ws))),
                 lk_key = key\<rparr>))"

record serve_flags =
  sf_retune :: bool
  sf_no_tune :: bool
  sf_dry_run :: bool

text \<open>What \<^verbatim>\<open>_select_plan\<close> returns; \<open>Tune\<close> is the run of the tuner, whose winner is the result.\<close>

datatype plan_choice = Use_cached selected_plan | Use_heuristic "selected_plan option" | Tune

definition reusable_plan :: "cache_lookup \<Rightarrow> selected_plan option" where
  "reusable_plan l =
     (case (lk_record l, lk_validation l) of
        (Some r, Some v) \<Rightarrow> if cv_valid v then tg_winner r else None
      | _ \<Rightarrow> None)"

definition select_plan ::
    "(string \<Rightarrow> string) \<Rightarrow> (json \<Rightarrow> string + tuning_record) \<Rightarrow> serve_flags \<Rightarrow> workspace \<Rightarrow> planning_result \<Rightarrow> plan_choice" where
  "select_plan sha validate fs ws pl =
     (let heuristic = Use_heuristic (heuristic_selection pl (wk_workload ws))
      in if sf_no_tune fs then heuristic
         else case (if tc_use_cache (wk_tuning ws) \<and> \<not> sf_retune fs then reusable_plan (lookup_cache sha validate ws pl) else None) of
                Some win \<Rightarrow> Use_cached (win\<lparr>sp_source := Cached\<rparr>)
              | None \<Rightarrow> if sf_dry_run fs \<or> \<not> tc_enabled (wk_tuning ws) then heuristic else Tune)"

section \<open>Facts: the store\<close>

text \<open>A file name holds nothing but letters, digits, dashes and underscores before its ending, so no key leaves the directory.\<close>

lemma path_characters: "c \<in> set (path_for key) \<Longrightarrow> is_alnum c \<or> c \<in> {CHR ''-'', CHR ''_'', CHR ''.''}"
  by (auto simp: path_for_def is_alnum_def)

definition hex_text :: "string \<Rightarrow> bool" where
  "hex_text s \<longleftrightarrow> 12 \<le> length s \<and> list_all (\<lambda>c. is_digit c \<or> c \<in> set ''abcdef'') s"

lemma hex_kept: "hex_text s \<Longrightarrow> c \<in> set (take n s) \<Longrightarrow> is_alnum c \<and> c \<noteq> CHR ''-''"
  by (auto simp: hex_text_def list_all_iff is_alnum_def is_digit_def dest!: in_set_takeD)

lemma path_of_key:
  assumes "hex_text h" "hex_text m" "hex_text w"
  shows "path_for (make_record_key h m w) = make_record_key h m w @ ''.json''"
  using hex_kept[OF assms(1)] hex_kept[OF assms(2)] hex_kept[OF assms(3)]
  by (auto simp: path_for_def make_record_key_def filter_id_conv)

text \<open>Records share a file exactly when the first twelve digits of their fingerprints agree.\<close>

lemma path_inject:
  assumes "hex_text h" "hex_text m" "hex_text w" "hex_text h'" "hex_text m'" "hex_text w'"
  shows "path_for (make_record_key h m w) = path_for (make_record_key h' m' w')
     \<longleftrightarrow> take 12 h = take 12 h' \<and> take 12 m = take 12 m' \<and> take 12 w = take 12 w'"
  unfolding path_of_key[OF assms(1-3)] path_of_key[OF assms(4-6)]
  unfolding make_record_key_def using assms by (auto simp: hex_text_def)

text \<open>The schema library writes an object that holds the schema version and reads back what it wrote.\<close>

definition faithful :: "(tuning_record \<Rightarrow> json) \<Rightarrow> (json \<Rightarrow> string + tuning_record) \<Rightarrow> tuning_record \<Rightarrow> bool" where
  "faithful dump validate r \<longleftrightarrow>
     (\<exists>kvs. dump r = JObj kvs \<and> map_of kvs ''schema_version'' = Some (JInt (tg_schema_version r))) \<and> validate (dump r) = Inr r"

lemma load_dumped: "faithful dump validate r \<Longrightarrow> tg_schema_version r = TUNING_RECORD_SCHEMA_VERSION \<Longrightarrow> load_path validate path (Json_file (dump r)) = Inr r"
  by (auto simp: faithful_def load_path_def schema_is_def)


section \<open>Facts: reuse\<close>

text \<open>A JSON object as Python holds it has every key once; such a value equals itself.\<close>

fun proper :: "json \<Rightarrow> bool" where
  "proper (JArr xs) = list_all proper xs"
| "proper (JObj kvs) = (distinct (map fst kvs) \<and> list_all (\<lambda>(k, v). proper v) kvs)"
| "proper v = True"

lemma py_equal_self: "proper v \<Longrightarrow> py_equal v v"
proof (induction v rule: proper.induct)
  case (1 xs)
  then show ?case by (auto simp: list_all_iff intro!: list.rel_refl_strong)
next
  case (2 kvs)
  then show ?case by (fastforce simp: list_all_iff)
qed (simp_all add: number_of_def)

text \<open>What the record says of itself is true, and the hash keeps what it says apart from the present situation.\<close>

definition genuine :: "(string \<Rightarrow> string) \<Rightarrow> workspace \<Rightarrow> planning_result \<Rightarrow> tuning_record \<Rightarrow> int list option \<Rightarrow> bool" where
  "genuine sha ws pl r ids \<longleftrightarrow>
     tg_hardware_fingerprint r = hardware_fingerprint sha (tg_hardware_snapshot r) ids
     \<and> tg_model_fingerprint r = model_fingerprint sha (tg_model_profile r)
     \<and> tg_workload_fingerprint r = workload_fingerprint sha (tg_workload_profile r)
     \<and> model_floats (tg_model_profile r) \<and> model_floats (wk_model ws) \<and> workload_floats (tg_workload_profile r) \<and> workload_floats (wk_workload ws)
     \<and> apart sha (hardware_identity (tg_hardware_snapshot r) ids) (hardware_identity (wk_hardware ws) (Some (pr_selected_gpu_ids pl)))
     \<and> apart sha (model_identity sha (tg_model_profile r)) (model_identity sha (wk_model ws))
     \<and> apart sha (stable_config (mp_raw_config (tg_model_profile r))) (stable_config (mp_raw_config (wk_model ws)))
     \<and> apart sha (workload_identity (tg_workload_profile r)) (workload_identity (wk_workload ws))"

text \<open>Why a plan may be served again.\<close>

definition plan_still_fits :: "workspace \<Rightarrow> planning_result \<Rightarrow> tuning_record \<Rightarrow> candidate_plan \<Rightarrow> bool" where
  "plan_still_fits ws pl r p \<longleftrightarrow>
     (\<exists>c \<in> set (viable pl). matches_candidate p c)
     \<and> (\<exists>old new. map_of (tg_engine_versions r) (engine_value (cp_engine p)) = Some old \<and> map_of (wk_versions ws) (engine_value (cp_engine p)) = Some new
          \<and> take 2 (parse_version (Some old)) = take 2 (parse_version (Some new)))
     \<and> (\<forall>i \<in> set (gpu_ids p). \<exists>g. snap_gpu (wk_hardware ws) i = Some g \<and> required_bytes p g \<le> gd_free_memory_bytes g)
     \<and> (\<forall>f. pk_memory_fraction (wk_constraints ws) = Some f \<longrightarrow> cp_memory_fraction p = Some f)
     \<and> (\<forall>cap. pk_max_concurrency (wk_constraints ws) = Some cap \<longrightarrow> \<not> above cap (cp_max_num_seqs p) \<and> \<not> above cap (cp_max_running_requests p))"

lemma reused_record:
  assumes "select_plan sha validate fs ws pl = Use_cached win"
  shows "\<exists>r w. find_record validate (hardware_fingerprint sha (wk_hardware ws) (Some (pr_selected_gpu_ids pl))) (model_fingerprint sha (wk_model ws))
        (workload_fingerprint sha (wk_workload ws)) (wk_directory ws) = Inr (Some r)
      \<and> tg_winner r = Some w \<and> win = w\<lparr>sp_source := Cached\<rparr>
      \<and> cv_valid (validate_record sha r (wk_hardware ws) (wk_model ws) (wk_workload ws) (wk_versions ws)
          (Some (pr_selected_gpu_ids pl)) (Some pl) (Some (wk_constraints ws)))"
  using assms
  by (auto simp: select_plan_def Let_def reusable_plan_def lookup_cache_def fingerprints_def split: if_splits option.splits sum.splits)

lemma no_reasons: "(if P then [x] else []) = [] \<longleftrightarrow> \<not> P" by simp

lemma valid_record:
  assumes v: "cv_valid (validate_record sha r hw m w versions ids planning constraints)" and win: "tg_winner r = Some win"
  shows "tg_status r = Complete" "tg_model_fingerprint r = model_fingerprint sha m" "tg_hardware_fingerprint r = hardware_fingerprint sha hw ids"
    "tg_workload_fingerprint r = workload_fingerprint sha w"
    "engine_reasons r (sp_plan win) versions = []" "planning_reasons (sp_plan win) planning = []" "constraint_reasons (sp_plan win) constraints = []"
    "\<forall>i \<in> set (gpu_ids (sp_plan win)). gpu_reasons hw (sp_plan win) i = []"
  using v win by (auto simp: validate_record_def identity_reasons_def Let_def no_reasons)

lemma engine_reasons_none: "engine_reasons r p versions = [] \<Longrightarrow> \<exists>old new. map_of (tg_engine_versions r) (engine_value (cp_engine p)) = Some old
    \<and> map_of versions (engine_value (cp_engine p)) = Some new \<and> take 2 (parse_version (Some old)) = take 2 (parse_version (Some new))"
  by (auto simp: engine_reasons_def engine_versions_compatible_def Let_def split: option.splits if_splits)

text \<open>C14: A cached plan is served only when its record is complete and was tuned for the same model, the same hardware and the same
  workload: not just for equal keys of twelve digits, but, for a record that tells the truth and a hash without a collision
  here, for equal profiles. It also matches a viable candidate of the present planning and its constraints, its
  engine is installed in a compatible version, and each of its GPUs has the memory it will claim.\<close>

theorem cached_plan_still_fits:
  assumes "select_plan sha validate fs ws pl = Use_cached win"
  shows "\<exists>r w. find_record validate (hardware_fingerprint sha (wk_hardware ws) (Some (pr_selected_gpu_ids pl))) (model_fingerprint sha (wk_model ws))
        (workload_fingerprint sha (wk_workload ws)) (wk_directory ws) = Inr (Some r)
      \<and> tg_winner r = Some w \<and> win = w\<lparr>sp_source := Cached\<rparr> \<and> tg_status r = Complete \<and> plan_still_fits ws pl r (sp_plan win)
      \<and> (\<forall>ids. genuine sha ws pl r ids \<longrightarrow>
           same_hardware (tg_hardware_snapshot r) ids (wk_hardware ws) (Some (pr_selected_gpu_ids pl))
           \<and> same_model (tg_model_profile r) (wk_model ws)
           \<and> (tg_workload_profile r)\<lparr>wl_name := wl_name (wk_workload ws)\<rparr> = wk_workload ws)"
proof -
  obtain r w where found: "find_record validate (hardware_fingerprint sha (wk_hardware ws) (Some (pr_selected_gpu_ids pl))) (model_fingerprint sha (wk_model ws))
        (workload_fingerprint sha (wk_workload ws)) (wk_directory ws) = Inr (Some r)"
    and win: "tg_winner r = Some w" "win = w\<lparr>sp_source := Cached\<rparr>"
    and valid: "cv_valid (validate_record sha r (wk_hardware ws) (wk_model ws) (wk_workload ws) (wk_versions ws)
          (Some (pr_selected_gpu_ids pl)) (Some pl) (Some (wk_constraints ws)))"
    using reused_record[OF assms] by blast
  note v = valid_record[OF valid win(1)]
  have plan: "sp_plan win = sp_plan w" using win(2) by simp
  have fits: "plan_still_fits ws pl r (sp_plan win)" unfolding plan_still_fits_def plan
    using v(6,7,8) engine_reasons_none[OF v(5)]
    by (auto simp: planning_reasons_def constraint_reasons_def gpu_reasons_def list_ex_iff not_less split: option.splits if_splits)
  have same: "same_hardware (tg_hardware_snapshot r) ids (wk_hardware ws) (Some (pr_selected_gpu_ids pl)) \<and> same_model (tg_model_profile r) (wk_model ws)
           \<and> (tg_workload_profile r)\<lparr>wl_name := wl_name (wk_workload ws)\<rparr> = wk_workload ws" if "genuine sha ws pl r ids" for ids
    using that v(2-4) hardware_fingerprint_same model_fingerprint_same workload_fingerprint_same unfolding genuine_def by metis
  show ?thesis by (intro exI[of _ r] exI[of _ w] conjI allI impI found win v(1) fits same) 
qed

section \<open>A cached plan\<close>

definition sample_plan :: candidate_plan where
  "sample_plan = (base_plan ''vllm-tp1-x1'' VLLM [[0]] 1 1 8192)\<lparr>cp_viability := Estimated_viable\<rparr>"

definition sample_selection :: selected_plan where
  "sample_selection = \<lparr>sp_plan = sample_plan, sp_objective = Throughput, sp_benchmarked = True, sp_slo_satisfied = None, sp_final_result = None,
     sp_rationale = [], sp_engine_version = Some ''0.9.1'', sp_equivalent_commands = [], sp_pareto_front = [], sp_source = Tuned\<rparr>"

definition sample_record :: tuning_record where
  "sample_record = \<lparr>tg_schema_version = 1, tg_created_at = ''2025-01-01'', tg_updated_at = ''2025-01-01'', tg_servepilot_version = ''0.1.0'',
     tg_hardware_fingerprint = hardware_fingerprint (\<lambda>t. t) demo_host (Some [0]), tg_model_fingerprint = model_fingerprint (\<lambda>t. t) demo_model,
     tg_workload_fingerprint = workload_fingerprint (\<lambda>t. t) demo_workload, tg_engine_versions = [(''vllm'', ''0.9.1'')],
     tg_hardware_snapshot = demo_host, tg_model_profile = demo_model, tg_workload_profile = demo_workload, tg_seed = 1234,
     tg_status = Complete, tg_candidates = [], tg_winner = Some sample_selection, tg_notes = [], tg_tuning_settings = []\<rparr>"

definition sample_dump :: "tuning_record \<Rightarrow> json" where
  "sample_dump r = JObj [(''schema_version'', JInt (tg_schema_version r))]"

definition sample_planning :: planning_result where
  "sample_planning = \<lparr>pr_candidates = [sample_plan], pr_excluded = [], pr_selected_gpu_ids = [0], pr_estimated_minimum_tp = Some 1,
     pr_warnings = [], pr_notes = []\<rparr>"

definition sample_workspace :: workspace where
  "sample_workspace = \<lparr>wk_directory = [(path_for (record_key sample_record), Json_file (sample_dump sample_record))], wk_hardware = demo_host,
     wk_model = demo_model, wk_workload = demo_workload\<lparr>wl_name := ''other''\<rparr>, wk_versions = [(''vllm'', ''0.9.2'')],
     wk_constraints = no_constraints, wk_tuning = default_tuning_config\<rparr>"

definition serve_normally :: serve_flags where
  "serve_normally = \<lparr>sf_retune = False, sf_no_tune = False, sf_dry_run = False\<rparr>"

lemma renamed_workload: "workload_fingerprint sha (w\<lparr>wl_name := n\<rparr>) = workload_fingerprint sha w"
  by (simp add: workload_fingerprint_def workload_identity_def)

lemma sample_selected: "select_plan (\<lambda>t. t) (\<lambda>j. Inr sample_record) serve_normally sample_workspace sample_planning
    = Use_cached (sample_selection\<lparr>sp_source := Cached\<rparr>)"
proof -
  have versions: "2 \<le> length (parse_version (Some ''0.9.1''))" "2 \<le> length (parse_version (Some ''0.9.2''))"
    "take 2 (parse_version (Some ''0.9.1'')) = take 2 (parse_version (Some ''0.9.2''))" by code_simp+
  have gpu: "gpu_reasons demo_host sample_plan 0 = []" by code_simp
  have engine: "engine_reasons sample_record sample_plan [(''vllm'', ''0.9.2'')] = []"
    using versions by (simp add: engine_reasons_def engine_versions_compatible_def sample_record_def sample_plan_def base_plan_def Let_def)
  have planning: "planning_reasons sample_plan (Some sample_planning) = []"
    by (simp add: planning_reasons_def sample_planning_def viable_def matches_candidate_def same_args_def) (simp add: sample_plan_def base_plan_def)
  have constraints: "constraint_reasons sample_plan (Some no_constraints) = []" by (simp add: constraint_reasons_def no_constraints_def)
  have "cv_valid (validate_record (\<lambda>t. t) sample_record demo_host demo_model (demo_workload\<lparr>wl_name := ''other''\<rparr>) [(''vllm'', ''0.9.2'')]
      (Some [0]) (Some sample_planning) (Some no_constraints))"
    using gpu engine planning constraints
    by (simp add: validate_record_def identity_reasons_def renamed_workload Let_def)
      (simp add: sample_record_def sample_selection_def sample_plan_def base_plan_def gpu_ids_def)
  moreover have "find_record (\<lambda>j. Inr sample_record) (hardware_fingerprint (\<lambda>t. t) demo_host (Some [0])) (model_fingerprint (\<lambda>t. t) demo_model)
      (workload_fingerprint (\<lambda>t. t) demo_workload) (wk_directory sample_workspace) = Inr (Some sample_record)"
  proof -
    have "faithful sample_dump (\<lambda>j. Inr sample_record) sample_record" by (simp add: faithful_def sample_dump_def)
    from load_dumped[OF this] have l: "load_path (\<lambda>j. Inr sample_record) path (Json_file (sample_dump sample_record)) = Inr sample_record" for path
      by (simp add: sample_record_def TUNING_RECORD_SCHEMA_VERSION_def)
    have "tg_hardware_fingerprint sample_record = hardware_fingerprint (\<lambda>t. t) demo_host (Some [0])"
      "tg_model_fingerprint sample_record = model_fingerprint (\<lambda>t. t) demo_model"
      "tg_workload_fingerprint sample_record = workload_fingerprint (\<lambda>t. t) demo_workload" by (simp_all add: sample_record_def)
    then show ?thesis by (simp add: find_record_def sample_workspace_def record_key_def l)
  qed
  ultimately show ?thesis
    by (simp add: select_plan_def reusable_plan_def lookup_cache_def fingerprints_def Let_def serve_normally_def)
      (simp add: sample_workspace_def sample_planning_def renamed_workload default_tuning_config_def sample_record_def)
qed

theorem cached_plan_still_fits_witness:
  "\<exists>r w. find_record (\<lambda>j. Inr sample_record) (hardware_fingerprint (\<lambda>t. t) (wk_hardware sample_workspace) (Some (pr_selected_gpu_ids sample_planning)))
        (model_fingerprint (\<lambda>t. t) (wk_model sample_workspace)) (workload_fingerprint (\<lambda>t. t) (wk_workload sample_workspace))
        (wk_directory sample_workspace) = Inr (Some r)
      \<and> tg_winner r = Some w \<and> tg_status r = Complete
      \<and> plan_still_fits sample_workspace sample_planning r (sp_plan (sample_selection\<lparr>sp_source := Cached\<rparr>))"
  using cached_plan_still_fits[OF sample_selected] by blast

definition hex_record :: "string \<Rightarrow> tuning_record" where
  "hex_record w = sample_record\<lparr>tg_hardware_fingerprint := ''0123456789abcdef'', tg_model_fingerprint := ''0123456789abcdef'', tg_workload_fingerprint := w\<rparr>"


end
