(* ===== verification/Pipeline.thy ===== *)
theory Pipeline
  imports Winner_Plan Tuning_Cache Replicas
begin

text \<open>
  \<^verbatim>\<open>cli/pipeline.py\<close>: a tuning run that keeps its record in the cache, on top of the tuner (\<^verbatim>\<open>Tuner\<close>), the cache
  (\<^verbatim>\<open>Tuning_Cache\<close>) and the launch specifications (\<^verbatim>\<open>Replicas\<close>). The theorems close the circle: what a run stores is
  what the next \<^verbatim>\<open>serve\<close> finds, and when it never is.
\<close>

section \<open>The run\<close>

definition session_settings :: "workspace \<Rightarrow> tuning_settings" where
  "session_settings ws =
     (let t = wk_tuning ws
      in default_tuning\<lparr>ts_max_structural_candidates := tc_max_structural_candidates t, ts_top_k := tc_top_k t,
           ts_stage_a_requests := tc_stage_a_requests t, ts_sweep_requests := tc_sweep_requests t,
           ts_final_multiplier := tc_final_multiplier t,
           ts_memory_tuning := (tc_memory_tuning t \<and> pk_memory_fraction (wk_constraints ws) = None), ts_seed := tc_seed t\<rparr>)"

definition settings_dump :: "tuning_settings \<Rightarrow> (string \<times> json) list" where
  "settings_dump s =
     [(''max_structural_candidates'', JInt (int (ts_max_structural_candidates s))), (''top_k'', JInt (int (ts_top_k s))),
      (''stage_a_requests'', JInt (ts_stage_a_requests s)), (''sweep_requests'', JInt (ts_sweep_requests s)),
      (''final_multiplier'', JInt (ts_final_multiplier s)), (''memory_tuning'', JBool (ts_memory_tuning s)),
      (''plateau_min_gain'', JFloat (sc_plateau_min_gain (ts_scoring s))),
      (''plateau_latency_rise'', JFloat (sc_plateau_latency_rise (ts_scoring s))),
      (''max_error_rate'', JFloat (sc_max_error_rate (ts_scoring s)))]"

definition new_record :: "(string \<Rightarrow> string) \<Rightarrow> string \<Rightarrow> string \<Rightarrow> workspace \<Rightarrow> planning_result \<Rightarrow> tuning_record" where
  "new_record sha version now ws pl =
     (case fingerprints sha ws pl of (h, m, w) \<Rightarrow>
        \<lparr>tg_schema_version = TUNING_RECORD_SCHEMA_VERSION, tg_created_at = now, tg_updated_at = now, tg_servepilot_version = version,
         tg_hardware_fingerprint = h, tg_model_fingerprint = m, tg_workload_fingerprint = w, tg_engine_versions = wk_versions ws,
         tg_hardware_snapshot = wk_hardware ws, tg_model_profile = wk_model ws, tg_workload_profile = wk_workload ws,
         tg_seed = ts_seed (session_settings ws), tg_status = In_progress, tg_candidates = [], tg_winner = None, tg_notes = [],
         tg_tuning_settings = settings_dump (session_settings ws)\<rparr>)"

text \<open>The record of an interrupted run with the same seed is continued; its measured candidates are kept when their engine
  still has the version they were measured with.\<close>

definition resumable :: "workspace \<Rightarrow> tuning_record \<Rightarrow> bool" where
  "resumable ws r \<longleftrightarrow> tg_status r = In_progress \<and> tg_seed r = ts_seed (session_settings ws)"

definition finished_candidates :: "workspace \<Rightarrow> tuning_record \<Rightarrow> candidate_evaluation list" where
  "finished_candidates ws r =
     filter (\<lambda>e. ce_stage e = ''structural'' \<and> ce_status e = Benchmarked \<and> ce_engine_version e \<noteq> None
       \<and> ce_engine_version e = map_of (wk_versions ws) (engine_value (cp_engine (ce_plan e)))) (tg_candidates r)"

definition begin_record ::
    "(string \<Rightarrow> string) \<Rightarrow> (json \<Rightarrow> string + tuning_record) \<Rightarrow> string \<Rightarrow> string \<Rightarrow> bool \<Rightarrow> workspace \<Rightarrow> planning_result
     \<Rightarrow> tuning_record \<times> candidate_evaluation list" where
  "begin_record sha validate version now resume ws pl =
     (case fingerprints sha ws pl of (h, m, w) \<Rightarrow>
        (let existing = (if resume then case find_record validate h m w (wk_directory ws) of Inl _ \<Rightarrow> None | Inr r \<Rightarrow> r else None)
         in case existing of
              Some r \<Rightarrow>
                if resumable ws r then (r\<lparr>tg_engine_versions := wk_versions ws\<rparr>, finished_candidates ws r)
                else (new_record sha version now ws pl, [])
            | None \<Rightarrow> (new_record sha version now ws pl, [])))"

definition tokenizer_note :: string where
  "tokenizer_note = ''token counts are approximate: no tokenizer could be loaded''"

text \<open>The evaluations of the resumed candidates as objects of the tuner's store: their results are shared, so a new score of one
  is written to the record too.\<close>

fun shared_candidates :: "nat \<Rightarrow> candidate_evaluation list \<Rightarrow> tuned list" where
  "shared_candidates n [] = []"
| "shared_candidates n (e # es) =
     \<lparr>td_plan = ce_plan e, td_stage = ce_stage e, td_status = ce_status e, td_results = [n..<n + length (ce_results e)],
      td_failure = ce_failure e, td_launch_seconds = ce_launch_seconds e, td_engine_version = ce_engine_version e,
      td_runtime_metadata = ce_runtime_metadata e, td_notes = ce_notes e\<rparr> # shared_candidates (n + length (ce_results e)) es"

text \<open>The hook \<^verbatim>\<open>persist\<close> appends every evaluation the tuner reports (all but the resumed ones) that is not in the list yet.\<close>

definition persist_candidate :: "benchmark_result list \<Rightarrow> tuned \<Rightarrow> tuned list \<Rightarrow> tuned list" where
  "persist_candidate store e cs = (if read_tuned store e \<in> set (map (read_tuned store) cs) then cs else cs @ [e])"

definition record_candidates :: "'w tuner_env \<Rightarrow> candidate_evaluation list \<Rightarrow> 'w tuner \<Rightarrow> candidate_evaluation list" where
  "record_candidates env completed s =
     map (read_tuned (tn_store s))
       (fold (persist_candidate (tn_store s)) (filter (\<lambda>e. e \<notin> snd ` set (tv_completed env)) (tn_evaluations s)) (shared_candidates 0 completed))"

text \<open>The world the evaluator works on, and what the run uses of its surroundings.\<close>

record 'w tuning_site =
  tw_open :: "candidate_plan \<Rightarrow> 'w \<Rightarrow> (candidate_failure + session) \<times> 'w"
  tw_benchmark :: "session \<Rightarrow> benchmark_spec \<Rightarrow> 'w \<Rightarrow> (bench_exception + benchmark_result) \<times> 'w"
  tw_close :: "session \<Rightarrow> 'w \<Rightarrow> candidate_failure option \<times> 'w"
  tw_shutdown_all :: "'w \<Rightarrow> 'w"
  tw_exact_tokenizer :: bool
  tw_replicas :: "engine_name \<Rightarrow> replica_env option"
  tw_bindable :: "string \<Rightarrow> int \<Rightarrow> bool"
  tw_ports :: port_allocator

text \<open>The launch commands shown with a plan; an engine that is not available has none.\<close>

definition equivalent_commands :: "'w tuning_site \<Rightarrow> selected_plan \<Rightarrow> replica_error + string list" where
  "equivalent_commands site sel =
     (case tw_replicas site (cp_engine (sp_plan sel)) of
        None \<Rightarrow> Inr []
      | Some rn \<Rightarrow>
          (case fst (dry_run_specs (rn\<lparr>rn_plan := sp_plan sel\<rparr>) (tw_bindable site) (tw_ports site)) of
             Inl e \<Rightarrow> Inl e
           | Inr specs \<Rightarrow> Inr (map lp_redacted_display_command specs)))"

definition session_env :: "'w tuning_site \<Rightarrow> workspace \<Rightarrow> candidate_evaluation list \<Rightarrow> 'w tuner_env" where
  "session_env site ws completed =
     \<lparr>tv_open = tw_open site, tv_benchmark = tw_benchmark site, tv_close = tw_close site, tv_workload = wk_workload ws,
      tv_settings = session_settings ws, tv_completed = fst (load_completed completed [] [])\<rparr>"

text \<open>How a run ends: an exception of the tuner or of the rendering of the commands, or an outcome. A run that fails with no viable
  plan is marked failed, any other interrupted run stays resumable once something was evaluated. (\<open>Never_returns\<close> does not
  occur: the settings of a workspace let the sweeps grow.) The exception of the commands comes after the last evaluation was
  persisted and before the winner is recorded.\<close>

datatype tuning_exception = Tuning_raised tune_error | Commands_raised replica_error

record clock_times =
  ck_started :: string
  ck_persisted :: string
  ck_ended :: string

definition failed_status :: "tune_error \<Rightarrow> 'w tuner \<Rightarrow> record_status" where
  "failed_status e s =
     (case e of No_viable_candidates _ _ \<Rightarrow> Failed_record | _ \<Rightarrow> if tn_evaluations s \<noteq> [] then In_progress else Failed_record)"

definition finished_record :: "tuning_record \<Rightarrow> tuning_outcome \<Rightarrow> selected_plan \<Rightarrow> tuning_record" where
  "finished_record r out win =
     r\<lparr>tg_winner := Some win, tg_candidates := to_evaluations out, tg_notes := tg_notes r @ to_notes out, tg_status := Complete\<rparr>"

definition run_tune ::
    "(string \<Rightarrow> string) \<Rightarrow> (tuning_record \<Rightarrow> json) \<Rightarrow> (json \<Rightarrow> string + tuning_record) \<Rightarrow> string \<Rightarrow> clock_times \<Rightarrow> bool
     \<Rightarrow> 'w tuning_site \<Rightarrow> workspace \<Rightarrow> planning_result \<Rightarrow> 'w
     \<Rightarrow> (tuning_exception + tuning_outcome \<times> tuning_record) \<times> 'w \<times> directory" where
  "run_tune sha dump validate version ck resume site ws pl w0 =
     (case begin_record sha validate version (ck_started ck) resume ws pl of (r0, completed) \<Rightarrow>
        (let r1 = r0\<lparr>tg_candidates := completed, tg_notes := tg_notes r0 @ (if tw_exact_tokenizer site then [] else [tokenizer_note])\<rparr>;
             env = session_env site ws completed;
             run = tune env pl (tuner_start w0 (snd (load_completed completed [] [])));
             s = snd run;
             r2 = r1\<lparr>tg_candidates := record_candidates env completed s\<rparr>;
             w1 = tw_shutdown_all site (tn_world s);
             dir = wk_directory ws
         in case fst run of
              Inl e \<Rightarrow> (Inl (Tuning_raised e), w1, snd (save_record dump (ck_ended ck) (r2\<lparr>tg_status := failed_status e s\<rparr>) dir))
            | Inr out \<Rightarrow>
                (case equivalent_commands site (to_winner out) of
                   Inl e \<Rightarrow> (Inl (Commands_raised e), w1, snd (save_record dump (ck_persisted ck) r2 dir))
                 | Inr commands \<Rightarrow>
                     (let win = (to_winner out)\<lparr>sp_equivalent_commands := commands\<rparr>;
                          saved = save_record dump (ck_ended ck) (finished_record r2 out win) dir
                      in (Inr (out\<lparr>to_winner := win\<rparr>, fst saved), w1, snd saved)))))"

section \<open>Facts\<close>

lemma settings_fraction: "pk_memory_fraction (wk_constraints ws) \<noteq> None \<Longrightarrow> \<not> ts_memory_tuning (session_settings ws)"
  by (auto simp: session_settings_def Let_def)

text \<open>A record already in the cache is the one its place says: its full fingerprints are those of the key it is looked up with.\<close>

definition cache_ok :: "(string \<Rightarrow> string) \<Rightarrow> (json \<Rightarrow> string + tuning_record) \<Rightarrow> workspace \<Rightarrow> planning_result \<Rightarrow> bool" where
  "cache_ok sha validate ws pl \<longleftrightarrow>
     (case fingerprints sha ws pl of (h, m, w) \<Rightarrow>
        case find_record validate h m w (wk_directory ws) of
          Inr (Some r) \<Rightarrow> tg_hardware_fingerprint r = h \<and> tg_model_fingerprint r = m \<and> tg_workload_fingerprint r = w
            \<and> tg_schema_version r = TUNING_RECORD_SCHEMA_VERSION
        | _ \<Rightarrow> True)"

definition filed :: "(string \<Rightarrow> string) \<Rightarrow> workspace \<Rightarrow> planning_result \<Rightarrow> tuning_record \<Rightarrow> bool" where
  "filed sha ws pl r \<longleftrightarrow> (tg_hardware_fingerprint r, tg_model_fingerprint r, tg_workload_fingerprint r) = fingerprints sha ws pl
     \<and> tg_schema_version r = TUNING_RECORD_SCHEMA_VERSION \<and> tg_engine_versions r = wk_versions ws"

lemma begin_filed:
  assumes "cache_ok sha validate ws pl" "begin_record sha validate version now resume ws pl = (r, completed)"
  shows "filed sha ws pl r"
  using assms by (auto simp: begin_record_def new_record_def filed_def cache_ok_def fingerprints_def Let_def split: if_splits option.splits sum.splits)

lemma run_tune_done:
  assumes "fst (run_tune sha dump validate version ck resume site ws pl w0) = Inr (out, r)" and "cache_ok sha validate ws pl"
  shows "filed sha ws pl r" "tg_status r = Complete" "tg_winner r = Some (to_winner out)"
    "snd (snd (run_tune sha dump validate version ck resume site ws pl w0)) = AList.update (path_for (record_key r)) (Json_file (dump r)) (wk_directory ws)"
    "offshoot (ts_memory_tuning (session_settings ws)) (viable pl) (sp_plan (to_winner out))"
proof -
  obtain r0 completed where b: "begin_record sha validate version (ck_started ck) resume ws pl = (r0, completed)" by force
  let ?env = "session_env site ws completed"
  let ?run = "tune ?env pl (tuner_start w0 (snd (load_completed completed [] [])))"
  obtain o1 commands where run: "fst ?run = Inr o1" "equivalent_commands site (to_winner o1) = Inr commands"
    using assms(1) by (auto simp: run_tune_def b Let_def split: sum.splits)
  have origin: "offshoot (ts_memory_tuning (session_settings ws)) (viable pl) (sp_plan (to_winner o1))"
    using tune_origin[OF run(1)] by (simp add: session_env_def)
  have e: "out = o1\<lparr>to_winner := (to_winner o1)\<lparr>sp_equivalent_commands := commands\<rparr>\<rparr>"
    using assms(1) by (simp add: run_tune_def b Let_def run)
  show "offshoot (ts_memory_tuning (session_settings ws)) (viable pl) (sp_plan (to_winner out))" using origin by (simp add: e)
  show "filed sha ws pl r" using assms(1) begin_filed[OF assms(2) b]
    by (auto simp: run_tune_def b Let_def run save_record_def finished_record_def filed_def)
  show "tg_status r = Complete" "tg_winner r = Some (to_winner out)" using assms(1)
    by (auto simp: run_tune_def b Let_def run save_record_def finished_record_def)
  show "snd (snd (run_tune sha dump validate version ck resume site ws pl w0)) = AList.update (path_for (record_key r)) (Json_file (dump r)) (wk_directory ws)"
    using assms(1) by (auto simp: run_tune_def b Let_def run save_record_def finished_record_def record_key_def)
qed

text \<open>The workspace of a later \<^verbatim>\<open>serve\<close>: the cache as the run left it, and hardware of the same identity.\<close>

definition later_workspace :: "workspace \<Rightarrow> directory \<Rightarrow> hardware_snapshot \<Rightarrow> workspace" where
  "later_workspace ws dir hw = ws\<lparr>wk_directory := dir, wk_hardware := hw\<rparr>"

lemma found_later:
  assumes run: "fst (run_tune sha dump validate version ck resume site ws pl w0) = Inr (out, r)" and ok: "cache_ok sha validate ws pl"
    and lib: "faithful dump validate r"
    and hw: "hardware_fingerprint sha hw (Some (pr_selected_gpu_ids pl)) = hardware_fingerprint sha (wk_hardware ws) (Some (pr_selected_gpu_ids pl))"
  defines "ws' \<equiv> later_workspace ws (snd (snd (run_tune sha dump validate version ck resume site ws pl w0))) hw"
  shows "lk_record (lookup_cache sha validate ws' pl) = Some r"
    "lk_validation (lookup_cache sha validate ws' pl) = Some (validate_record sha r hw (wk_model ws) (wk_workload ws) (wk_versions ws)
        (Some (pr_selected_gpu_ids pl)) (Some pl) (Some (wk_constraints ws)))"
proof -
  note d = run_tune_done[OF run ok]
  have fps: "tg_hardware_fingerprint r = hardware_fingerprint sha hw (Some (pr_selected_gpu_ids pl))"
    "tg_model_fingerprint r = model_fingerprint sha (wk_model ws)" "tg_workload_fingerprint r = workload_fingerprint sha (wk_workload ws)"
    "tg_schema_version r = TUNING_RECORD_SCHEMA_VERSION" using d(1) hw by (simp_all add: filed_def fingerprints_def)
  have "wk_directory ws' = AList.update (path_for (record_key r)) (Json_file (dump r)) (wk_directory ws)"
    unfolding ws'_def later_workspace_def d(4) by simp
  then have "find_record validate (tg_hardware_fingerprint r) (tg_model_fingerprint r) (tg_workload_fingerprint r) (wk_directory ws') = Inr (Some r)"
    using load_dumped[OF lib fps(4)] by (simp add: find_record_def record_key_def update_conv')
  then show "lk_record (lookup_cache sha validate ws' pl) = Some r"
    "lk_validation (lookup_cache sha validate ws' pl) = Some (validate_record sha r hw (wk_model ws) (wk_workload ws) (wk_versions ws)
        (Some (pr_selected_gpu_ids pl)) (Some pl) (Some (wk_constraints ws)))"
    by (simp_all add: lookup_cache_def fingerprints_def Let_def ws'_def later_workspace_def flip: fps)
qed

lemma winner_limits:
  assumes pl: "generate_candidates hw m w engines k cfg = Inr pl" and p: "offshoot tuning (viable pl) p"
  shows "pk_max_concurrency k = Some cap \<Longrightarrow> cp_max_num_seqs p = Some cap \<and> cp_max_running_requests p = Some cap"
    "pk_memory_fraction k = Some f \<Longrightarrow> \<not> tuning \<Longrightarrow> cp_memory_fraction p = Some (py_round2 f)"
proof -
  obtain env where k: "pe_constraints env = k" and sound: "\<forall>c \<in> set (pr_candidates pl). sound_candidate env c"
    using planned_candidates[OF pl] by blast
  obtain c where c: "c \<in> set (viable pl)" "cp_max_num_seqs p = cp_max_num_seqs c" "cp_max_running_requests p = cp_max_running_requests c"
    "\<not> tuning \<longrightarrow> cp_memory_fraction p = cp_memory_fraction c" using p by (auto simp: offshoot_def)
  then have "sound_candidate env c" using sound by (simp add: viable_def)
  then show "pk_max_concurrency k = Some cap \<Longrightarrow> cp_max_num_seqs p = Some cap \<and> cp_max_running_requests p = Some cap"
    "pk_memory_fraction k = Some f \<Longrightarrow> \<not> tuning \<Longrightarrow> cp_memory_fraction p = Some (py_round2 f)"
    using c by (auto simp: sound_candidate_def honours_fraction_def k)
qed

lemma winner_matches: "offshoot tuning (viable pl) p \<Longrightarrow> proper (JObj (cp_engine_args p)) \<Longrightarrow> planning_reasons p (Some pl) = []"
proof -
  assume p: "offshoot tuning (viable pl) p" and args: "proper (JObj (cp_engine_args p))"
  obtain c where c: "c \<in> set (viable pl)" "structural_key p = structural_key c" "cp_kv_cache_dtype p = cp_kv_cache_dtype c"
    "cp_engine_args p = cp_engine_args c" using p by (auto simp: offshoot_def)
  have "same_args (cp_engine_args c) (cp_engine_args p)" unfolding same_args_def c(4)[symmetric] by (rule py_equal_self[OF args])
  then have "matches_candidate p c" by (simp only: matches_candidate_def c)
  then show ?thesis using c(1) by (auto simp: planning_reasons_def list_ex_iff)
qed


text \<open>C40: A memory fraction forced with more than two decimals defeats the cache: the plans carry the rounded fraction, the
  validation compares it with the fraction asked for, so the record of a run is refused ever after and every serve tunes anew.\<close>

theorem odd_fraction_never_reused:
  assumes run: "fst (run_tune sha dump validate version ck resume site ws pl w0) = Inr (out, r)" and ok: "cache_ok sha validate ws pl"
    and planned: "generate_candidates (wk_hardware ws) (wk_model ws) (wk_workload ws) engines (wk_constraints ws) cfg = Inr pl"
    and lib: "faithful dump validate r"
    and hw: "hardware_fingerprint sha hw (Some (pr_selected_gpu_ids pl)) = hardware_fingerprint sha (wk_hardware ws) (Some (pr_selected_gpu_ids pl))"
    and fraction: "pk_memory_fraction (wk_constraints ws) = Some f" "py_round2 f \<noteq> f"
  shows "select_plan sha validate fs (later_workspace ws (snd (snd (run_tune sha dump validate version ck resume site ws pl w0))) hw) pl \<noteq> Use_cached win"
proof -
  note d = run_tune_done[OF run ok] and found = found_later[OF run ok lib hw]
  have "\<not> ts_memory_tuning (session_settings ws)" by (rule settings_fraction) (simp add: fraction)
  then have "cp_memory_fraction (sp_plan (to_winner out)) = Some (py_round2 f)" by (rule winner_limits(2)[OF planned d(5) fraction(1)])
  then have "constraint_reasons (sp_plan (to_winner out)) (Some (wk_constraints ws)) \<noteq> []"
    using fraction by (simp add: constraint_reasons_def)
  then have "\<not> cv_valid (validate_record sha r hw (wk_model ws) (wk_workload ws) (wk_versions ws)
        (Some (pr_selected_gpu_ids pl)) (Some pl) (Some (wk_constraints ws)))" using valid_record(7)[OF _ d(3)] by blast
  then have "reusable_plan (lookup_cache sha validate (later_workspace ws (snd (snd (run_tune sha dump validate version ck resume site ws pl w0))) hw) pl) = None"
    using found by (simp add: reusable_plan_def)
  then show ?thesis by (simp add: select_plan_def Let_def)
qed

section \<open>A resumed run whose engine no longer launches\<close>

text \<open>An interrupted run had measured the only candidate; the workspace, before its record is in the cache, and with it.\<close>

definition fresh_workspace :: "float64 \<Rightarrow> workspace" where
  "fresh_workspace f =
     \<lparr>wk_directory = [], wk_hardware = demo_host, wk_model = demo_model\<lparr>mp_attention_kind := GQA\<rparr>,
      wk_workload = demo_workload\<lparr>wl_objective := Latency\<rparr>, wk_versions = [(''vllm'', ''0.9.1'')],
      wk_constraints = no_constraints\<lparr>pk_memory_fraction := Some f\<rparr>, wk_tuning = default_tuning_config\<rparr>"

definition planned_result :: "float64 \<Rightarrow> planner_error + planning_result" where
  "planned_result f = generate_candidates (wk_hardware (fresh_workspace f)) (wk_model (fresh_workspace f)) (wk_workload (fresh_workspace f))
     [vllm_engine (Some ''0.9.1'')] (wk_constraints (fresh_workspace f)) default_memory_config"

definition started_record :: "float64 \<Rightarrow> planning_result \<Rightarrow> tuning_record" where
  "started_record f pl = (new_record (\<lambda>t. t) ''0.1.0'' ''monday'' (fresh_workspace f) pl)
     \<lparr>tg_candidates := [resumed_evaluation (hd (viable pl)) (Some ''0.9.1'')]\<rparr>"

definition status_dump :: "tuning_record \<Rightarrow> json" where
  "status_dump r = JObj [(''schema_version'', JInt (tg_schema_version r)), (''complete'', JBool (tg_status r = Complete))]"

definition status_validate :: "float64 \<Rightarrow> planning_result \<Rightarrow> tuning_record \<Rightarrow> json \<Rightarrow> string + tuning_record" where
  "status_validate f pl r j = (if j = status_dump (started_record f pl) then Inr (started_record f pl) else Inr r)"

definition resumed_workspace :: "float64 \<Rightarrow> planning_result \<Rightarrow> workspace" where
  "resumed_workspace f pl = (fresh_workspace f)\<lparr>wk_directory :=
     [(path_for (record_key (started_record f pl)), Json_file (status_dump (started_record f pl)))]\<rparr>"

definition refusing_site :: "nat tuning_site" where
  "refusing_site =
     \<lparr>tw_open = (\<lambda>p w. (Inl refusal, Suc w)), tw_benchmark = (\<lambda>se spec w. (Inl (Bench_error ''unreachable''), w)), tw_close = (\<lambda>se w. (None, w)),
      tw_shutdown_all = (\<lambda>w. w), tw_exact_tokenizer = True, tw_replicas = (\<lambda>e. None), tw_bindable = (\<lambda>h p. True),
      tw_ports = \<lparr>pa_start = 20000, pa_end = 21000, pa_host = ''127.0.0.1'', pa_reserved = {}, pa_cursor = 20000\<rparr>\<rparr>"

definition clock :: clock_times where
  "clock = \<lparr>ck_started = ''tuesday'', ck_persisted = ''tuesday'', ck_ended = ''wednesday''\<rparr>"

definition one_candidate :: "planning_result \<Rightarrow> bool" where
  "one_candidate pl \<longleftrightarrow>
     (case viable pl of [p] \<Rightarrow> cp_gpu_groups p = [[0]] \<and> cp_engine p = VLLM \<and> cp_engine_args p = [] | _ \<Rightarrow> False) \<and> pr_selected_gpu_ids pl = [0]"

lemma planned_samples:
  "case planned_result (fl (88 / 100)) of Inr pl \<Rightarrow> one_candidate pl | Inl _ \<Rightarrow> False"
  "case planned_result (fl (876 / 1000)) of Inr pl \<Rightarrow> one_candidate pl | Inl _ \<Rightarrow> False"
  by code_simp+

lemma resumed_same [simp]:
  "fingerprints sha (resumed_workspace f pl) pl = fingerprints sha (fresh_workspace f) pl" "wk_tuning (resumed_workspace f pl) = default_tuning_config"
  "wk_constraints (resumed_workspace f pl) = wk_constraints (fresh_workspace f)" "wk_versions (resumed_workspace f pl) = [(''vllm'', ''0.9.1'')]"
  "wk_hardware (resumed_workspace f pl) = demo_host" "wk_model (resumed_workspace f pl) = wk_model (fresh_workspace f)"
  "wk_workload (resumed_workspace f pl) = wk_workload (fresh_workspace f)" "session_settings (resumed_workspace f pl) = session_settings (fresh_workspace f)"
  by (simp_all add: resumed_workspace_def fresh_workspace_def fingerprints_def session_settings_def)

lemma started_found:
  "fingerprints (\<lambda>t. t) (fresh_workspace f) pl = (h, m, w) \<Longrightarrow>
     find_record (status_validate f pl r) h m w (wk_directory (resumed_workspace f pl)) = Inr (Some (started_record f pl))
     \<and> tg_hardware_fingerprint (started_record f pl) = h \<and> tg_model_fingerprint (started_record f pl) = m
     \<and> tg_workload_fingerprint (started_record f pl) = w \<and> tg_schema_version (started_record f pl) = TUNING_RECORD_SCHEMA_VERSION
     \<and> tg_status (started_record f pl) = In_progress \<and> tg_seed (started_record f pl) = ts_seed (session_settings (fresh_workspace f))
     \<and> tg_candidates (started_record f pl) = [resumed_evaluation (hd (viable pl)) (Some ''0.9.1'')]"
  by (simp add: find_record_def resumed_workspace_def record_key_def started_record_def new_record_def load_path_def status_validate_def
      status_dump_def schema_is_def)

lemma resumed_run:
  assumes "one_candidate pl"
  shows "\<exists>out r. \<forall>q. fst (run_tune (\<lambda>t. t) status_dump (status_validate f pl q) ''0.1.0'' clock True refusing_site (resumed_workspace f pl) pl 0) = Inr (out, r)"
proof -
  obtain p where p: "viable pl = [p]" "cp_engine p = VLLM" using assms by (auto simp: one_candidate_def split: list.splits)
  obtain h m w where fps: "fingerprints (\<lambda>t. t) (fresh_workspace f) pl = (h, m, w)" by (cases "fingerprints (\<lambda>t. t) (fresh_workspace f) pl")
  let ?ws = "resumed_workspace f pl" and ?e = "resumed_evaluation p (Some ''0.9.1'')"
  let ?r = "(started_record f pl)\<lparr>tg_engine_versions := [(''vllm'', ''0.9.1'')]\<rparr>"
  have b: "begin_record (\<lambda>t. t) (status_validate f pl q) ''0.1.0'' ''tuesday'' True ?ws pl = (?r, [?e])" for q
    using started_found[OF fps, of q]
    by (simp add: begin_record_def fps resumable_def finished_candidates_def p)
      (simp add: resumed_evaluation_def new_evaluation_def p)
  let ?env = "session_env refusing_site ?ws [?e]"
  have "refusing p (Some ''0.9.1'') ?env"
    by (simp add: refusing_def session_env_def refusing_site_def tv_objective_def tv_slo_def tv_scoring_def session_settings_def Let_def
        del: load_completed.simps) (simp add: fresh_workspace_def demo_workload_def default_tuning_config_def default_tuning_def)
  from refused_run[OF this p(1)] obtain out where out: "fst (tune ?env pl refusing_start) = Inr out" by blast
  have "equivalent_commands refusing_site sel = Inr []" for sel by (simp add: equivalent_commands_def refusing_site_def)
  then have "fst (run_tune (\<lambda>t. t) status_dump (status_validate f pl q) ''0.1.0'' clock True refusing_site ?ws pl 0)
    = Inr (out\<lparr>to_winner := (to_winner out)\<lparr>sp_equivalent_commands := []\<rparr>\<rparr>,
        fst (save_record status_dump ''wednesday'' (finished_record (?r\<lparr>tg_candidates := record_candidates ?env [?e] (snd (tune ?env pl refusing_start)),
          tg_notes := tg_notes (started_record f pl)\<rparr>) out ((to_winner out)\<lparr>sp_equivalent_commands := []\<rparr>)) (wk_directory ?ws)))" for q
    unfolding run_tune_def clock_def using out
    by (simp add: b resumed_loaded Let_def del: load_completed.simps) (simp add: refusing_site_def)
  then show ?thesis by blast
qed

lemma resumed_cache_ok: "cache_ok (\<lambda>t. t) (status_validate f pl r) (resumed_workspace f pl) pl"
proof -
  obtain h m w where fps: "fingerprints (\<lambda>t. t) (fresh_workspace f) pl = (h, m, w)" by (cases "fingerprints (\<lambda>t. t) (fresh_workspace f) pl")
  show ?thesis using started_found[OF fps, of r] by (simp add: cache_ok_def fps)
qed

lemma resumed_planned: "planned_result f = Inr pl \<Longrightarrow> generate_candidates (wk_hardware (resumed_workspace f pl)) (wk_model (resumed_workspace f pl))
    (wk_workload (resumed_workspace f pl)) [vllm_engine (Some ''0.9.1'')] (wk_constraints (resumed_workspace f pl)) default_memory_config = Inr pl"
  by (simp add: planned_result_def) (simp add: fresh_workspace_def)

lemma resumed_faithful: "tg_status r = Complete \<Longrightarrow> faithful status_dump (status_validate f pl r) r"
  using started_found[of f pl] by (cases "fingerprints (\<lambda>t. t) (fresh_workspace f) pl") (auto simp: faithful_def status_validate_def status_dump_def)

abbreviation sample_tuning :: "float64 \<Rightarrow> planning_result \<Rightarrow> tuning_record \<Rightarrow> (tuning_exception + tuning_outcome \<times> tuning_record) \<times> nat \<times> directory" where
  "sample_tuning f pl r \<equiv> run_tune (\<lambda>t. t) status_dump (status_validate f pl r) ''0.1.0'' clock True refusing_site (resumed_workspace f pl) pl 0"


theorem odd_fraction_never_reused_witness:
  "\<exists>pl out r. fst (sample_tuning (fl (876 / 1000)) pl r) = Inr (out, r)
     \<and> select_plan (\<lambda>t. t) (status_validate (fl (876 / 1000)) pl r) serve_normally
         (later_workspace (resumed_workspace (fl (876 / 1000)) pl) (snd (snd (sample_tuning (fl (876 / 1000)) pl r))) demo_host) pl
       \<noteq> Use_cached ((to_winner out)\<lparr>sp_source := Cached\<rparr>)"
proof -
  let ?f = "fl (876 / 1000)"
  obtain pl where pl: "planned_result ?f = Inr pl" "one_candidate pl" using planned_samples(2) by (auto split: sum.splits)
  obtain out r where run: "fst (sample_tuning ?f pl q) = Inr (out, r)" for q using resumed_run[OF pl(2)] by blast
  have "py_round2 ?f \<noteq> ?f" by code_simp
  then have "select_plan (\<lambda>t. t) (status_validate ?f pl r) serve_normally
         (later_workspace (resumed_workspace ?f pl) (snd (snd (sample_tuning ?f pl r))) demo_host) pl \<noteq> Use_cached ((to_winner out)\<lparr>sp_source := Cached\<rparr>)"
    by (intro odd_fraction_never_reused[OF run resumed_cache_ok resumed_planned[OF pl(1)] resumed_faithful[OF run_tune_done(2)[OF run resumed_cache_ok]]])
      (simp_all add: fresh_workspace_def)
  then show ?thesis using run by blast
qed

end
